(* ===== verification/Prelude.thy ===== *)
theory Prelude
  imports Main "HOL-Library.Word" "HOL-Library.AList"
begin

text \<open>
  Shared vocabulary of the development. Java's \<open>byte\<close>, \<open>int\<close> and \<open>long\<close> are words of 8, 32
  and 64 bits read with \<open>sint\<close>; a \<open>byte[]\<close> is a list of bytes; an expression that may throw
  returns a value of \<open>jerror + 'a\<close>. The theory also holds the loops over fallible bodies, the
  word lemmas used by the codecs, and the locale by which invariants of a step relation are
  lifted to its reachable states.
\<close>

unbundle bit_operations_syntax

type_synonym jbyte = "8 word"
type_synonym jshort = "16 word"
type_synonym jint = "32 word"
type_synonym jlong = "64 word"
type_synonym bytes = "jbyte list"

text \<open>The exceptions the modelled code can raise.\<close>

datatype jerror =
    IndexOutOfBounds
  | NegativeArraySize
  | IllegalArgument
  | ArithmeticOverflow
  | NullPointer
  | Unreachable
  | CryptoFailure
  | UnsupportedOperation
  | NoSuchElement
  | BftFailure
  | BlockchainFailure

type_synonym 'a res = "jerror + 'a"

named_theorems res_simps \<open>unfolding of fallible computations\<close>

definition rbind :: "'a res \<Rightarrow> ('a \<Rightarrow> 'b res) \<Rightarrow> 'b res" where
  "rbind m f = (case m of Inl e \<Rightarrow> Inl e | Inr x \<Rightarrow> f x)"

definition rmap :: "('a \<Rightarrow> 'b) \<Rightarrow> 'a res \<Rightarrow> 'b res" where
  "rmap f m = (case m of Inl e \<Rightarrow> Inl e | Inr x \<Rightarrow> Inr (f x))"

definition rguard :: "bool \<Rightarrow> jerror \<Rightarrow> unit res" where
  "rguard b e = (if b then Inr () else Inl e)"

definition non_null :: "'a option \<Rightarrow> 'a res" where
  "non_null v = (case v of None \<Rightarrow> Inl NullPointer | Some x \<Rightarrow> Inr x)"

definition is_ok :: "'a res \<Rightarrow> bool" where
  "is_ok m = (case m of Inl _ \<Rightarrow> False | Inr _ \<Rightarrow> True)"

lemma rbind_simps [simp]:
  "rbind (Inl e) f = Inl e"
  "rbind (Inr x) f = f x"
  by (simp_all add: rbind_def)

lemma rmap_simps [simp]:
  "rmap f (Inl e) = Inl e"
  "rmap f (Inr x) = Inr (f x)"
  by (simp_all add: rmap_def)

lemma is_ok_simps [simp]:
  "\<not> is_ok (Inl e)"
  "is_ok (Inr x)"
  by (simp_all add: is_ok_def)

lemma is_ok_iff: "is_ok m \<longleftrightarrow> (\<exists>x. m = Inr x)"
  by (cases m) simp_all

lemma non_null_simps [simp]:
  "non_null None = Inl NullPointer"
  "non_null (Some x) = Inr x"
  by (simp_all add: non_null_def)

lemma non_null_eq_Inr [simp]: "non_null v = Inr x \<longleftrightarrow> v = Some x"
  by (cases v) simp_all

lemma rguard_simps [simp]:
  "rguard True e = Inr ()"
  "rguard False e = Inl e"
  by (simp_all add: rguard_def)

lemma rguard_eq_Inr [simp]: "rguard b e = Inr u \<longleftrightarrow> b"
  by (cases b) simp_all

lemma rbind_eq_Inr: "rbind m f = Inr y \<longleftrightarrow> (\<exists>x. m = Inr x \<and> f x = Inr y)"
  by (cases m) simp_all

lemma rbindE: "rbind m f = Inr y \<Longrightarrow> (\<And>x. m = Inr x \<Longrightarrow> f x = Inr y \<Longrightarrow> P) \<Longrightarrow> P"
  by (cases m) simp_all

lemma rmap_eq_Inr: "rmap f m = Inr y \<longleftrightarrow> (\<exists>x. m = Inr x \<and> y = f x)"
  by (cases m) auto

lemma rbind_assoc: "rbind (rbind m f) g = rbind m (\<lambda>x. rbind (f x) g)"
  by (cases m) simp_all

lemma rbind_cong [fundef_cong]:
  "m = m' \<Longrightarrow> (\<And>x. m' = Inr x \<Longrightarrow> f x = f' x) \<Longrightarrow> rbind m f = rbind m' f'"
  by (cases m') simp_all

text \<open>A loop over the elements of a list whose body may throw.\<close>

fun rfold :: "('a \<Rightarrow> 's \<Rightarrow> 's res) \<Rightarrow> 'a list \<Rightarrow> 's \<Rightarrow> 's res" where
  "rfold f [] s = Inr s"
| "rfold f (x # xs) s = rbind (f x s) (rfold f xs)"

lemma rfold_append: "rfold f (xs @ ys) s = rbind (rfold f xs s) (rfold f ys)"
proof (induction xs arbitrary: s)
  case (Cons x xs)
  then show ?case by (cases "f x s") simp_all
qed simp

lemma rfold_invariant:
  assumes "rfold f xs s = Inr s'" and "P s"
    and "\<And>x t t'. x \<in> set xs \<Longrightarrow> P t \<Longrightarrow> f x t = Inr t' \<Longrightarrow> P t'"
  shows "P s'"
  using assms
proof (induction xs arbitrary: s)
  case Nil
  then show ?case by simp
next
  case (Cons x xs)
  from Cons.prems(1) obtain t where t: "f x s = Inr t" and r: "rfold f xs t = Inr s'"
    by (auto simp: rbind_eq_Inr)
  from Cons.prems(2,3) t have "P t" by auto
  with r show ?case using Cons.prems(3) by (intro Cons.IH) auto
qed

text \<open>The elements of a list mapped by a fallible function, in order.\<close>

fun rmapM :: "('a \<Rightarrow> 'b res) \<Rightarrow> 'a list \<Rightarrow> 'b list res" where
  "rmapM f [] = Inr []"
| "rmapM f (x # xs) = rbind (f x) (\<lambda>y. rbind (rmapM f xs) (\<lambda>ys. Inr (y # ys)))"

lemma rmapM_length: "rmapM f xs = Inr ys \<Longrightarrow> length ys = length xs"
  by (induction xs arbitrary: ys) (auto simp: rbind_eq_Inr)

section \<open>Words and bytes\<close>

lemma ff_mask: "(0xFF :: jshort) = mask 8" "(0xFF :: jint) = mask 8" "(0xFF :: jlong) = mask 8"
  by (simp_all add: mask_eq_exp_minus_1)

lemma bit_byteD: "bit (b :: jbyte) n \<Longrightarrow> n < 8"
  by (drule bit_imp_le_length) simp

lemma scast_and_mask: "(scast (b :: jbyte) AND (mask 8 :: 'a::len word)) = ucast b"
proof (rule bit_word_eqI)
  fix n :: nat
  consider "n < 7" | "n = 7" | "7 < n" by linarith
  then show "bit (scast b AND (mask 8 :: 'a word)) n = bit (ucast b :: 'a word) n"
    by cases (auto simp: bit_simps dest: bit_byteD)
qed

lemmas scast_and_ff =
  scast_and_mask [where 'a = 16, folded ff_mask]
  scast_and_mask [where 'a = 32, folded ff_mask]
  scast_and_mask [where 'a = 64, folded ff_mask]

lemma ucast_mask_and: "(ucast (mask 8 AND (x :: 'a::len word)) :: jbyte) = ucast x"
  by (rule bit_word_eqI) (auto simp: bit_simps dest: bit_imp_le_length)

lemmas and_ff_ucast =
  ucast_mask_and [where 'a = 16, folded ff_mask]
  ucast_mask_and [where 'a = 32, folded ff_mask]
  ucast_mask_and [where 'a = 64, folded ff_mask]

lemma sint_range_jint: "- (2 ^ 31) \<le> sint (i :: jint)" "sint i < 2 ^ 31"
  using sint_range_size [of i] by (simp_all add: word_size)

lemma sint_range_jlong: "- (2 ^ 63) \<le> sint (i :: jlong)" "sint i < 2 ^ 63"
  using sint_range_size [of i] by (simp_all add: word_size)

lemma sint_of_int_jlong:
  "- (2 ^ 63) \<le> x \<Longrightarrow> x < 2 ^ 63 \<Longrightarrow> sint (word_of_int x :: jlong) = x"
  by (simp only: sint_sbintrunc') (simp add: signed_take_bit_int_eq_self)

lemma sint_of_int_jint:
  "- (2 ^ 31) \<le> x \<Longrightarrow> x < 2 ^ 31 \<Longrightarrow> sint (word_of_int x :: jint) = x"
  by (simp only: sint_sbintrunc') (simp add: signed_take_bit_int_eq_self)

lemma sint_of_nat_jint: "n < 2 ^ 31 \<Longrightarrow> sint (of_nat n :: jint) = int n"
  using sint_of_int_jint [of "int n"] by simp

section \<open>Association lists as maps\<close>

text \<open>
  Hash maps and databases are association lists; \<open>map_of\<close> is the map they stand for and
  \<open>AList.update\<close> the insertion, which keeps keys distinct.
\<close>

lemmas alist_simps = update_conv' delete_conv' map_of_eq_None_iff

lemma map_of_update [simp]: "map_of (AList.update k v xs) = (map_of xs)(k \<mapsto> v)"
  by (simp add: update_conv')

lemma map_of_delete [simp]: "map_of (AList.delete k xs) = (map_of xs)(k := None)"
  by (simp add: delete_conv')

lemma distinct_keys_update [intro]:
  "distinct (map fst xs) \<Longrightarrow> distinct (map fst (AList.update k v xs))"
  by (rule distinct_update)

lemma keys_update: "fst ` set (AList.update k v xs) = insert k (fst ` set xs)"
  by (induction xs) auto

lemma length_alist_dom:
  "distinct (map fst xs) \<Longrightarrow> length xs = card (dom (map_of xs))"
  by (metis card_length dom_map_of_conv_image_fst distinct_card length_map list.set_map)

section \<open>Reachable states and invariants\<close>

inductive reach :: "('s \<Rightarrow> bool) \<Rightarrow> ('s \<Rightarrow> 's \<Rightarrow> bool) \<Rightarrow> 's \<Rightarrow> bool"
  for ini :: "'s \<Rightarrow> bool" and stp :: "'s \<Rightarrow> 's \<Rightarrow> bool" where
  reach_init: "ini s \<Longrightarrow> reach ini stp s"
| reach_step: "reach ini stp s \<Longrightarrow> stp s t \<Longrightarrow> reach ini stp t"

text \<open>The contract of an inductive invariant, and what it gives of every reachable state.\<close>

locale inductive_invariant =
  fixes ini :: "'s \<Rightarrow> bool"
    and stp :: "'s \<Rightarrow> 's \<Rightarrow> bool"
    and inv :: "'s \<Rightarrow> bool"
  assumes inv_init: "ini s \<Longrightarrow> inv s"
    and inv_step: "inv s \<Longrightarrow> stp s t \<Longrightarrow> inv t"
begin

lemma inv_reach: "reach ini stp s \<Longrightarrow> inv s"
  by (induction rule: reach.induct) (auto intro: inv_init inv_step)

end

end
