(* ===== verification/Store.thy ===== *)
theory Store
  imports Prelude "HOL-Library.List_Lexorder" "HOL-Library.Product_Lexorder"
begin

text \<open>
  The key-value layer: \<open>Database\<close> as implemented by \<open>LeveldbDatabase\<close> (\<open>org.semux.db\<close>), and
  the stack of in-memory update maps that \<open>AccountStateImpl\<close> and \<open>DelegateStateImpl\<close> keep over
  it. A state object is a \<open>store\<close>: its own update map first, then those of its \<open>prev\<close> chain,
  then the database at the bottom. The locale \<open>layered_store\<close> is the contract of
  \<open>track\<close>, \<open>commit\<close> and \<open>rollback\<close>.
\<close>

section \<open>Database\<close>

text \<open>
  LevelDB itself is a library; the operations are modelled by their documented meaning: a map
  from keys to values whose iterator runs in the order of unsigned bytes.
\<close>

type_synonym database = "(bytes \<times> bytes) list"

definition db_get :: "database \<Rightarrow> bytes \<Rightarrow> bytes option" where
  "db_get db key = map_of db key"

definition db_put :: "database \<Rightarrow> bytes \<Rightarrow> bytes \<Rightarrow> database" where
  "db_put db key value = AList.update key value db"

definition db_delete :: "database \<Rightarrow> bytes \<Rightarrow> database" where
  "db_delete db key = AList.delete key db"

text \<open>One entry of a batch, or of an update map: a value is put, null deletes.\<close>

definition db_apply :: "bytes \<times> bytes option \<Rightarrow> database \<Rightarrow> database" where
  "db_apply e db = (case snd e of None \<Rightarrow> db_delete db (fst e) | Some v \<Rightarrow> db_put db (fst e) v)"

definition db_updateBatch :: "database \<Rightarrow> (bytes \<times> bytes option) list \<Rightarrow> database" where
  "db_updateBatch db pairs = fold db_apply pairs db"

definition db_iterator :: "database \<Rightarrow> bytes option \<Rightarrow> (bytes \<times> bytes) list" where
  "db_iterator db prefix =
     (case prefix of
        None \<Rightarrow> sort_key fst db
      | Some p \<Rightarrow> filter (\<lambda>e. p \<le> fst e) (sort_key fst db))"

lemma db_get_put [simp]: "db_get (db_put db k v) = (db_get db)(k \<mapsto> v)"
  by (simp add: fun_eq_iff db_get_def db_put_def)

lemma db_get_delete [simp]: "db_get (db_delete db k) = (db_get db)(k := None)"
  by (simp add: fun_eq_iff db_get_def db_delete_def)

lemma db_get_apply: "db_get (db_apply e db) = (db_get db)(fst e := snd e)"
  by (simp add: db_apply_def split: option.splits)

lemma db_apply_distinct:
  "distinct (map fst db) \<Longrightarrow> distinct (map fst (db_apply e db))"
  by (simp add: db_apply_def db_delete_def db_put_def distinct_delete distinct_update split: option.splits)

lemma db_updateBatch_distinct:
  "distinct (map fst db) \<Longrightarrow> distinct (map fst (db_updateBatch db es))"
  unfolding db_updateBatch_def by (induction es arbitrary: db) (auto simp: db_apply_distinct)

text \<open>A batch acts on the map as its entries do one after the other.\<close>

lemma db_get_updateBatch:
  "distinct (map fst es) \<Longrightarrow>
   db_get (db_updateBatch db es) k = (case map_of es k of Some v \<Rightarrow> v | None \<Rightarrow> db_get db k)"
  unfolding db_updateBatch_def
proof (induction es arbitrary: db)
  case (Cons e es)
  have "map_of es (fst e) = None" using Cons.prems by (simp add: map_of_eq_None_iff)
  with Cons show ?case by (cases e) (auto simp: db_get_apply split: option.splits)
qed simp

lemma set_db_iterator:
  "set (db_iterator db prefix) = {e \<in> set db. \<forall>p. prefix = Some p \<longrightarrow> p \<le> fst e}"
  by (auto simp: db_iterator_def split: option.splits)

lemma sorted_db_iterator: "sorted (map fst (db_iterator db prefix))"
  by (simp add: db_iterator_def sorted_filter split: option.splits)

section \<open>Update maps over a database\<close>

text \<open>
  \<open>updates\<close> of a state object: a value that was put, or null for a deletion. The first map of
  \<open>st_layers\<close> is the object's own, the others belong to the objects of its \<open>prev\<close> chain.
\<close>

type_synonym updates = "(bytes \<times> bytes option) list"

record store =
  st_layers :: "updates list"
  st_db :: database

definition store_new :: "database \<Rightarrow> store" where
  "store_new db = \<lparr>st_layers = [[]], st_db = db\<rparr>"

fun lookup_layers :: "updates list \<Rightarrow> database \<Rightarrow> bytes \<Rightarrow> bytes option" where
  "lookup_layers [] db k = db_get db k"
| "lookup_layers (u # us) db k = (case map_of u k of Some v \<Rightarrow> v | None \<Rightarrow> lookup_layers us db k)"

definition store_get :: "store \<Rightarrow> bytes \<Rightarrow> bytes option" where
  "store_get s k = lookup_layers (st_layers s) (st_db s) k"

definition store_put :: "bytes \<Rightarrow> bytes \<Rightarrow> store \<Rightarrow> store" where
  "store_put k v s =
     (case st_layers s of
        [] \<Rightarrow> s\<lparr>st_layers := [[(k, Some v)]]\<rparr>
      | u # us \<Rightarrow> s\<lparr>st_layers := AList.update k (Some v) u # us\<rparr>)"

definition store_track :: "store \<Rightarrow> store" where
  "store_track s = s\<lparr>st_layers := [] # st_layers s\<rparr>"

text \<open>The object below: what \<open>prev\<close> points to.\<close>

definition store_prev :: "store \<Rightarrow> store" where
  "store_prev s = s\<lparr>st_layers := tl (st_layers s)\<rparr>"

definition store_commit :: "store \<Rightarrow> store" where
  "store_commit s =
     (case st_layers s of
        [] \<Rightarrow> s
      | [u] \<Rightarrow> s\<lparr>st_layers := [[]], st_db := fold db_apply u (st_db s)\<rparr>
      | u # p # ps \<Rightarrow> s\<lparr>st_layers := [] # fold (\<lambda>e. AList.update (fst e) (snd e)) u p # ps\<rparr>)"

definition store_rollback :: "store \<Rightarrow> store" where
  "store_rollback s = s\<lparr>st_layers := [] # tl (st_layers s)\<rparr>"

text \<open>
  The states the operations produce: at least one update map, distinct keys everywhere, and no
  null in an update map (the maps are \<open>ConcurrentHashMap\<close>s, which refuse null).
\<close>

definition layer_ok :: "updates \<Rightarrow> bool" where
  "layer_ok u \<longleftrightarrow> distinct (map fst u) \<and> (\<forall>e \<in> set u. snd e \<noteq> None)"

definition store_ok :: "store \<Rightarrow> bool" where
  "store_ok s \<longleftrightarrow> st_layers s \<noteq> [] \<and> list_all layer_ok (st_layers s) \<and> distinct (map fst (st_db s))"

definition store_overlay :: "store \<Rightarrow> bool" where
  "store_overlay s \<longleftrightarrow> store_ok s \<and> length (st_layers s) \<ge> 2"

subsection \<open>The contract of layered states\<close>

locale layered_store =
  fixes wf :: "'s \<Rightarrow> bool"
    and overlay :: "'s \<Rightarrow> bool"
    and view :: "'s \<Rightarrow> 'k \<Rightarrow> 'v"
    and prev :: "'s \<Rightarrow> 's"
    and track :: "'s \<Rightarrow> 's"
    and commit :: "'s \<Rightarrow> 's"
    and rollback :: "'s \<Rightarrow> 's"
  assumes wf_overlay: "overlay s \<Longrightarrow> wf s"
    and wf_prev: "overlay s \<Longrightarrow> wf (prev s)"
    and track_overlay: "wf s \<Longrightarrow> overlay (track s)"
    and track_view: "wf s \<Longrightarrow> view (track s) = view s"
    and track_prev: "wf s \<Longrightarrow> prev (track s) = s"
    and commit_wf: "wf s \<Longrightarrow> wf (commit s)"
    and commit_overlay: "overlay s \<Longrightarrow> overlay (commit s)"
    and commit_view: "wf s \<Longrightarrow> view (commit s) = view s"
    and commit_prev: "overlay s \<Longrightarrow> view (prev (commit s)) = view s"
    and rollback_overlay: "overlay s \<Longrightarrow> overlay (rollback s)"
    and rollback_view: "overlay s \<Longrightarrow> view (rollback s) = view (prev s)"
    and rollback_prev: "overlay s \<Longrightarrow> prev (rollback s) = prev s"
begin

text \<open>A tracked copy that is only written through its own map: commit publishes, rollback forgets.\<close>

lemma committed: "overlay t \<Longrightarrow> wf (prev (commit t)) \<and> view (prev (commit t)) = view t"
  by (simp add: commit_overlay wf_prev commit_prev)

lemma discarded: "wf s \<Longrightarrow> overlay t \<Longrightarrow> prev t = s \<Longrightarrow> view (rollback t) = view s \<and> prev (rollback t) = s"
  by (simp add: rollback_view rollback_prev)

lemma commit_twice: "wf s \<Longrightarrow> view (commit (commit s)) = view s"
  by (simp add: commit_wf commit_view)

lemma rollback_after_commit: "overlay s \<Longrightarrow> view (rollback (commit s)) = view s"
  by (simp add: commit_overlay rollback_view commit_prev)

lemma nested_commit:
  "overlay t \<Longrightarrow> overlay (prev (commit t)) \<Longrightarrow> view (prev (commit (prev (commit t)))) = view t"
  by (simp add: commit_prev)

end

subsection \<open>The update maps satisfy it\<close>

lemma map_of_fold_update:
  "distinct (map fst u) \<Longrightarrow>
   map_of (fold (\<lambda>e. AList.update (fst e) (snd e)) u p) k =
     (case map_of u k of Some v \<Rightarrow> Some v | None \<Rightarrow> map_of p k)"
proof (induction u arbitrary: p)
  case (Cons e u)
  have "map_of u (fst e) = None" using Cons.prems by (simp add: map_of_eq_None_iff)
  with Cons show ?case by (cases e) (auto split: option.splits)
qed simp

lemma set_update_subset: "set (AList.update k v p) \<subseteq> insert (k, v) (set p)"
  by (induction p) auto

lemma layer_ok_update: "layer_ok p \<Longrightarrow> v \<noteq> None \<Longrightarrow> layer_ok (AList.update k v p)"
  using set_update_subset [of k v p] by (force simp: layer_ok_def distinct_update)

lemma layer_ok_fold: "list_all (\<lambda>e. snd e \<noteq> None) u \<Longrightarrow> layer_ok p \<Longrightarrow>
    layer_ok (fold (\<lambda>e. AList.update (fst e) (snd e)) u p)"
  by (induction u arbitrary: p) (auto simp: layer_ok_update)

lemma layer_ok_Nil [simp]: "layer_ok []"
  by (simp add: layer_ok_def)

lemma store_cases:
  assumes "store_ok s"
  obtains (base) u where "st_layers s = [u]" "layer_ok u"
    | (over) u p ps where "st_layers s = u # p # ps" "layer_ok u" "layer_ok p" "list_all layer_ok ps"
proof (cases "st_layers s" rule: remdups_adj.cases)
  case 1
  then show ?thesis using assms by (simp add: store_ok_def)
next
  case (2 u)
  then show ?thesis using assms base by (simp add: store_ok_def)
next
  case (3 u p ps)
  then show ?thesis using assms over by (simp add: store_ok_def)
qed

lemma overlay_cases:
  assumes "store_overlay s"
  obtains u p ps where "store_ok s" "st_layers s = u # p # ps" "layer_ok u" "layer_ok p" "list_all layer_ok ps"
proof -
  have ok: "store_ok s" and len: "length (st_layers s) \<ge> 2" using assms by (simp_all add: store_overlay_def)
  from ok show thesis
  proof (cases rule: store_cases)
    case (base u)
    with len show thesis by simp
  next
    case (over u p ps)
    with ok show thesis by (intro that)
  qed
qed

lemma store_get_commit_prev:
  assumes "store_overlay s" shows "store_get (store_prev (store_commit s)) = store_get s"
  using assms
  by (elim overlay_cases) (auto simp: fun_eq_iff store_get_def store_prev_def store_commit_def
      map_of_fold_update layer_ok_def split: option.splits)

lemma store_get_commit:
  assumes "store_ok s" shows "store_get (store_commit s) = store_get s"
  using assms
proof (cases rule: store_cases)
  case (base u)
  then have "distinct (map fst u)" by (simp add: layer_ok_def)
  then show ?thesis
    using base db_get_updateBatch [of u "st_db s"]
    by (auto simp: fun_eq_iff store_get_def store_commit_def db_updateBatch_def split: option.split)
next
  case over
  then show ?thesis by (auto simp: fun_eq_iff store_get_def store_commit_def map_of_fold_update layer_ok_def
        split: option.splits)
qed

lemma store_ok_commit: "store_ok s \<Longrightarrow> store_ok (store_commit s)"
  and store_overlay_commit: "store_overlay s \<Longrightarrow> store_overlay (store_commit s)"
proof -
  show ok: "store_ok (store_commit s)" if "store_ok s" for s
    using that
  proof (cases rule: store_cases)
    case (base u)
    with that db_updateBatch_distinct [of "st_db s" u] show ?thesis
      by (simp add: store_ok_def store_commit_def db_updateBatch_def)
  next
    case (over u p ps)
    with that show ?thesis
      using layer_ok_fold [of u p]
      by (auto simp: store_ok_def store_commit_def layer_ok_def list_all_iff)
  qed
  show "store_overlay (store_commit s)" if "store_overlay s"
    using that ok [of s]
    by (elim overlay_cases) (auto simp: store_overlay_def store_commit_def)
qed

interpretation layers: layered_store store_ok store_overlay store_get store_prev store_track
  store_commit store_rollback
proof
  fix s
  show "store_overlay s \<Longrightarrow> store_ok s" by (simp add: store_overlay_def)
  show "store_overlay s \<Longrightarrow> store_ok (store_prev s)"
    by (erule overlay_cases) (simp add: store_overlay_def store_ok_def store_prev_def)
  show "store_ok s \<Longrightarrow> store_overlay (store_track s)"
    by (cases "st_layers s") (simp_all add: store_overlay_def store_ok_def store_track_def)
  show "store_ok s \<Longrightarrow> store_get (store_track s) = store_get s"
    by (simp add: fun_eq_iff store_get_def store_track_def)
  show "store_ok s \<Longrightarrow> store_prev (store_track s) = s"
    by (simp add: store_prev_def store_track_def)
  show "store_overlay s \<Longrightarrow> store_overlay (store_rollback s)"
    by (erule overlay_cases) (simp add: store_overlay_def store_ok_def store_rollback_def)
  show "store_overlay s \<Longrightarrow> store_get (store_rollback s) = store_get (store_prev s)"
    by (simp add: fun_eq_iff store_get_def store_rollback_def store_prev_def)
  show "store_overlay s \<Longrightarrow> store_prev (store_rollback s) = store_prev s"
    by (simp add: store_prev_def store_rollback_def)
qed (simp_all add: store_ok_commit store_overlay_commit store_get_commit store_get_commit_prev)

lemma store_get_put [simp]: "store_get (store_put k v s) = (store_get s)(k \<mapsto> v)"
  by (cases "st_layers s") (auto simp: fun_eq_iff store_get_def store_put_def)

lemma store_put_ok: "store_ok s \<Longrightarrow> store_ok (store_put k v s)"
  and store_put_overlay: "store_overlay s \<Longrightarrow> store_overlay (store_put k v s)"
  by (cases "st_layers s"; simp add: store_ok_def store_overlay_def store_put_def layer_ok_update)+

lemma store_put_prev [simp]: "store_prev (store_put k v s) = store_prev s"
  by (simp add: store_prev_def store_put_def split: list.split)

lemma store_new_ok: "distinct (map fst db) \<Longrightarrow> store_ok (store_new db)"
  by (simp add: store_ok_def store_new_def)

lemma store_get_new [simp]: "store_get (store_new db) = db_get db"
  by (simp add: fun_eq_iff store_get_def store_new_def)

section \<open>Properties of every level\<close>

text \<open>A property of the map seen from a state and from every state below it.\<close>

definition store_all :: "((bytes \<Rightarrow> bytes option) \<Rightarrow> bool) \<Rightarrow> store \<Rightarrow> bool" where
  "store_all P s \<longleftrightarrow> (\<forall>i < length (st_layers s). P (lookup_layers (drop i (st_layers s)) (st_db s)))"

lemma all_less_Suc: "(\<forall>i < Suc n. Q i) \<longleftrightarrow> Q 0 \<and> (\<forall>i < n. Q (Suc i))"
  by (auto simp: less_Suc_eq_0_disj)

lemma store_all_iff:
  "st_layers s \<noteq> [] \<Longrightarrow> store_all P s \<longleftrightarrow> P (store_get s) \<and> store_all P (store_prev s)"
  by (cases "st_layers s") (simp_all add: store_all_def store_prev_def store_get_def [abs_def] all_less_Suc)

lemma store_all_get: "store_ok s \<Longrightarrow> store_all P s \<Longrightarrow> P (store_get s)"
  by (simp add: store_all_iff store_ok_def)

lemma store_all_prev: "store_all P s \<Longrightarrow> store_all P (store_prev s)"
  by (cases "st_layers s = []") (simp_all add: store_all_iff, simp add: store_all_def store_prev_def)

lemma store_all_put [simp]:
  "store_all P (store_put k v s) \<longleftrightarrow> P ((store_get s)(k \<mapsto> v)) \<and> store_all P (store_prev s)"
proof -
  have "st_layers (store_put k v s) \<noteq> []" by (simp add: store_put_def split: list.split)
  then show ?thesis by (simp add: store_all_iff)
qed

lemma store_all_track: "store_ok s \<Longrightarrow> store_all P s \<Longrightarrow> store_all P (store_track s)"
  by (simp add: store_all_iff [of "store_track s"] layers.track_view layers.track_prev store_all_get
      store_track_def [of s, THEN arg_cong, of st_layers])

lemma store_all_rollback: "store_overlay s \<Longrightarrow> store_all P s \<Longrightarrow> store_all P (store_rollback s)"
  using layers.wf_prev [of s] store_all_prev [of P s]
  by (simp add: store_all_iff [of "store_rollback s"] layers.rollback_view layers.rollback_prev store_all_get
      store_rollback_def [of s, THEN arg_cong, of st_layers])

lemma store_all_commit:
  assumes ok: "store_ok s" and all: "store_all P s"
  shows "store_all P (store_commit s)"
  using ok
proof (cases rule: store_cases)
  case (base u)
  have "st_layers (store_commit s) \<noteq> []" "store_all P (store_prev (store_commit s))"
    using base by (simp_all add: store_commit_def store_prev_def store_all_def)
  then show ?thesis using ok all by (simp add: store_all_iff layers.commit_view store_all_get)
next
  case (over u p ps)
  then have ov: "store_overlay s" using ok by (simp add: store_overlay_def)
  let ?c = "store_commit s"
  have lays: "st_layers ?c \<noteq> []" "st_layers (store_prev ?c) \<noteq> []"
    and below: "store_prev (store_prev ?c) = store_prev (store_prev s)"
    using over by (simp_all add: store_commit_def store_prev_def)
  have "store_all P (store_prev (store_prev ?c))"
    unfolding below using all by (intro store_all_prev)
  then show ?thesis
    using ok all ov
    by (simp add: store_all_iff [OF lays(1)] store_all_iff [OF lays(2)] layers.commit_view
        layers.commit_prev store_all_get)
qed

end
