(* ===== verification/Codec.thy ===== *)
theory Codec
  imports Prelude
begin

text \<open>
  The binary codec: \<open>org.semux.util.Bytes\<close>, \<open>SimpleEncoder\<close> and \<open>SimpleDecoder\<close>. An encoder is
  the bytes written so far (its \<open>ByteArrayOutputStream\<close>); a decoder is the input array with
  its bounds and the read index. Every read goes through \<open>require\<close>, so running past the end
  is the value \<open>Inl IndexOutOfBounds\<close>. The locale \<open>field_codec\<close> states what a writer and a
  reader of one field promise to each other; the round trips of all records rest on it.
\<close>

section \<open>Bytes\<close>

definition EMPTY_BYTES :: bytes where "EMPTY_BYTES = []"
definition EMPTY_ADDRESS :: bytes where "EMPTY_ADDRESS = replicate 20 0"
definition EMPTY_HASH :: bytes where "EMPTY_HASH = replicate 32 0"

definition merge2 :: "bytes \<Rightarrow> bytes \<Rightarrow> bytes" where
  "merge2 b1 b2 = b1 @ b2"

definition merge_byte_left :: "jbyte \<Rightarrow> bytes \<Rightarrow> bytes" where
  "merge_byte_left b1 b2 = [b1] @ b2"

definition merge_byte_right :: "bytes \<Rightarrow> jbyte \<Rightarrow> bytes" where
  "merge_byte_right b1 b2 = b1 @ [b2]"

definition merge_all :: "bytes list \<Rightarrow> bytes" where
  "merge_all bs = concat bs"

definition bytes_of_byte :: "jbyte \<Rightarrow> bytes" where
  "bytes_of_byte b = [b]"

definition bytes_of_short :: "jshort \<Rightarrow> bytes" where
  "bytes_of_short s =
     [ucast (signed_drop_bit 8 s AND 0xFF), ucast (s AND 0xFF)]"

definition bytes_of_int :: "jint \<Rightarrow> bytes" where
  "bytes_of_int i =
     [ucast (signed_drop_bit 24 i AND 0xFF), ucast (signed_drop_bit 16 i AND 0xFF),
      ucast (signed_drop_bit 8 i AND 0xFF), ucast (i AND 0xFF)]"

definition bytes_of_long :: "jlong \<Rightarrow> bytes" where
  "bytes_of_long i =
     [ucast (signed_drop_bit 56 i AND 0xFF), ucast (signed_drop_bit 48 i AND 0xFF),
      ucast (signed_drop_bit 40 i AND 0xFF), ucast (signed_drop_bit 32 i AND 0xFF),
      ucast (signed_drop_bit 24 i AND 0xFF), ucast (signed_drop_bit 16 i AND 0xFF),
      ucast (signed_drop_bit 8 i AND 0xFF), ucast (i AND 0xFF)]"

text \<open>An array read; Java raises outside the bounds.\<close>

definition aget :: "'a list \<Rightarrow> nat \<Rightarrow> 'a res" where
  "aget xs i = (if i < length xs then Inr (xs ! i) else Inl IndexOutOfBounds)"

definition bytes_toByte :: "bytes \<Rightarrow> jbyte res" where
  "bytes_toByte bs = aget bs 0"

definition bytes_toShort :: "bytes \<Rightarrow> jshort res" where
  "bytes_toShort bs =
     rbind (aget bs 0) (\<lambda>b0. rbind (aget bs 1) (\<lambda>b1.
       Inr (push_bit 8 (scast b0 AND 0xFF) OR (scast b1 AND 0xFF))))"

definition bytes_toInt :: "bytes \<Rightarrow> jint res" where
  "bytes_toInt bs =
     rbind (aget bs 0) (\<lambda>b0. rbind (aget bs 1) (\<lambda>b1.
     rbind (aget bs 2) (\<lambda>b2. rbind (aget bs 3) (\<lambda>b3.
       Inr (push_bit 24 (scast b0 AND 0xFF) OR push_bit 16 (scast b1 AND 0xFF) OR
            push_bit 8 (scast b2 AND 0xFF) OR (scast b3 AND 0xFF))))))"

definition bytes_toLong :: "bytes \<Rightarrow> jlong res" where
  "bytes_toLong bs =
     rbind (aget bs 0) (\<lambda>b0. rbind (aget bs 1) (\<lambda>b1.
     rbind (aget bs 2) (\<lambda>b2. rbind (aget bs 3) (\<lambda>b3.
     rbind (aget bs 4) (\<lambda>b4. rbind (aget bs 5) (\<lambda>b5.
     rbind (aget bs 6) (\<lambda>b6. rbind (aget bs 7) (\<lambda>b7.
       Inr (push_bit 56 (scast b0 AND 0xFF) OR push_bit 48 (scast b1 AND 0xFF) OR
            push_bit 40 (scast b2 AND 0xFF) OR push_bit 32 (scast b3 AND 0xFF) OR
            push_bit 24 (scast b4 AND 0xFF) OR push_bit 16 (scast b5 AND 0xFF) OR
            push_bit 8 (scast b6 AND 0xFF) OR (scast b7 AND 0xFF))))))))))"

lemma length_bytes_of [simp]:
  "length (bytes_of_byte b) = 1"
  "length (bytes_of_short s) = 2"
  "length (bytes_of_int i) = 4"
  "length (bytes_of_long l) = 8"
  by (simp_all add: bytes_of_byte_def bytes_of_short_def bytes_of_int_def bytes_of_long_def)

text \<open>
  One byte cut out of a word and shifted back is the word masked at that byte; the masks of
  all bytes together are the whole word.
\<close>

lemma shift_back:
  fixes w :: "'a::len word"
  shows "push_bit k (signed_drop_bit k w) AND push_bit k m = w AND push_bit k m"
    and "push_bit k (drop_bit k w) AND push_bit k m = w AND push_bit k m"
  by (rule bit_word_eqI, auto simp: bit_simps)+

lemma byte_of_word:
  fixes w :: "'a::len word"
  shows "ucast (ucast w :: jbyte) = w AND mask 8"
  by (rule bit_word_eqI) (auto simp: bit_simps dest: bit_imp_le_length)

lemma full_masks:
  "push_bit 8 (mask 8) OR mask 8 = (- 1 :: jshort)"
  "push_bit 24 (mask 8) OR push_bit 16 (mask 8) OR push_bit 8 (mask 8) OR mask 8 = (- 1 :: jint)"
  "push_bit 56 (mask 8) OR push_bit 48 (mask 8) OR push_bit 40 (mask 8) OR push_bit 32 (mask 8) OR
   push_bit 24 (mask 8) OR push_bit 16 (mask 8) OR push_bit 8 (mask 8) OR mask 8 = (- 1 :: jlong)"
  by (simp_all add: mask_eq_exp_minus_1)

lemma bytes_toShort_of_short: "bytes_toShort (bytes_of_short s) = Inr s"
  unfolding bytes_toShort_def bytes_of_short_def aget_def ff_mask scast_and_mask
  by (simp add: shift_back byte_of_word
      flip: bit.conj_disj_distrib add: full_masks)

lemma bytes_toInt_of_int: "bytes_toInt (bytes_of_int i) = Inr i"
  unfolding bytes_toInt_def bytes_of_int_def aget_def ff_mask scast_and_mask
  by (simp add: shift_back byte_of_word
      flip: bit.conj_disj_distrib add: full_masks)

lemma bytes_toLong_of_long: "bytes_toLong (bytes_of_long l) = Inr l"
  unfolding bytes_toLong_def bytes_of_long_def aget_def ff_mask scast_and_mask
  by (simp add: shift_back byte_of_word
      flip: bit.conj_disj_distrib add: full_masks)

section \<open>SimpleEncoder\<close>

text \<open>
  A writer appends to the bytes written so far; \<open>encode\<close> runs a sequence of writers on a new
  encoder, stopping at the first exception.
\<close>

type_synonym 'a writer = "'a \<Rightarrow> bytes \<Rightarrow> bytes res"

definition encode :: "(bytes \<Rightarrow> bytes res) list \<Rightarrow> bytes res" where
  "encode ws = rfold (\<lambda>w out. w out) ws EMPTY_BYTES"

definition writeBoolean :: "bool writer" where
  "writeBoolean b out = Inr (out @ [if b then 1 else 0])"

definition writeByte :: "jbyte writer" where
  "writeByte b out = Inr (out @ [b])"

definition writeShort :: "jshort writer" where
  "writeShort s out =
     Inr (out @ [ucast (0xFF AND drop_bit 8 s), ucast (0xFF AND s)])"

definition int_image :: "jint \<Rightarrow> bytes" where
  "int_image i =
     [ucast (0xFF AND drop_bit 24 i), ucast (0xFF AND drop_bit 16 i),
      ucast (0xFF AND drop_bit 8 i), ucast (0xFF AND i)]"

definition writeInt :: "jint writer" where
  "writeInt i out = Inr (out @ int_image i)"

definition writeLong :: "jlong writer" where
  "writeLong l out =
     (let i1 = ucast (drop_bit 32 l); i2 = ucast l
      in rbind (writeInt i1 out) (writeInt i2))"

text \<open>
  \<open>writeSize\<close>: seven bits per byte, most significant group first, filled from the end of a
  four-cell buffer by a do-while loop; every byte but the last carries the high bit.
\<close>

function size_groups :: "jint \<Rightarrow> jint list \<Rightarrow> jint list res" where
  "size_groups sz buf =
     (if 4 \<le> length buf then Inl IndexOutOfBounds
      else let buf' = (sz AND 0x7F) # buf; sz' = drop_bit 7 sz
           in if 0 < sint sz' then size_groups sz' buf' else Inr buf')"
  by pat_completeness auto
termination
  by (relation "measure (\<lambda>(sz, buf). 4 - length buf)") auto

fun size_flush :: "jint list \<Rightarrow> bytes" where
  "size_flush [] = []"
| "size_flush [x] = [ucast x]"
| "size_flush (x # y # xs) = ucast (x OR 0x80) # size_flush (y # xs)"

definition writeSize :: "int writer" where
  "writeSize sz out =
     (if sz < 0 then Inl IllegalArgument
      else if sz > 0x0FFFFFFF then Inl IllegalArgument
      else rbind (size_groups (word_of_int sz) []) (\<lambda>buf. Inr (out @ size_flush buf)))"

definition writeBytes_vlq :: "bool \<Rightarrow> bytes writer" where
  "writeBytes_vlq vlq bs out =
     rbind (if vlq then writeSize (int (length bs)) out
            else writeInt (of_nat (length bs)) out)
       (\<lambda>out'. Inr (out' @ bs))"

definition writeBytes :: "bytes writer" where
  "writeBytes bs out = writeBytes_vlq True bs out"

definition getWriteIndex :: "bytes \<Rightarrow> nat" where
  "getWriteIndex out = length out"

section \<open>SimpleDecoder\<close>

record SimpleDecoder =
  dec_in :: bytes
  dec_from :: nat
  dec_to :: nat
  dec_index :: nat

type_synonym 'a reader = "SimpleDecoder \<Rightarrow> ('a \<times> SimpleDecoder) res"

definition SimpleDecoder_range :: "bytes \<Rightarrow> nat \<Rightarrow> nat \<Rightarrow> SimpleDecoder" where
  "SimpleDecoder_range inp frm to =
     \<lparr>dec_in = inp, dec_from = frm, dec_to = to, dec_index = frm\<rparr>"

definition SimpleDecoder_from :: "bytes \<Rightarrow> nat \<Rightarrow> SimpleDecoder" where
  "SimpleDecoder_from inp frm = SimpleDecoder_range inp frm (length inp)"

definition SimpleDecoder_new :: "bytes \<Rightarrow> SimpleDecoder" where
  "SimpleDecoder_new inp = SimpleDecoder_range inp 0 (length inp)"

definition require :: "int \<Rightarrow> SimpleDecoder \<Rightarrow> unit res" where
  "require n d = rguard (\<not> int (dec_to d) - int (dec_index d) < n) IndexOutOfBounds"

text \<open>\<open>in[index++]\<close>\<close>

definition next_byte :: "jbyte reader" where
  "next_byte d =
     rbind (aget (dec_in d) (dec_index d)) (\<lambda>b. Inr (b, d\<lparr>dec_index := Suc (dec_index d)\<rparr>))"

definition readBoolean :: "bool reader" where
  "readBoolean d =
     rbind (require 1 d) (\<lambda>_. rbind (next_byte d) (\<lambda>(b, d). Inr (b \<noteq> 0, d)))"

definition readByte :: "jbyte reader" where
  "readByte d = rbind (require 1 d) (\<lambda>_. next_byte d)"

definition short_of_bytes :: "jbyte \<Rightarrow> jbyte \<Rightarrow> jshort" where
  "short_of_bytes b0 b1 = push_bit 8 (scast b0 AND 0xFF) OR (scast b1 AND 0xFF)"

definition int_of_bytes :: "jbyte \<Rightarrow> jbyte \<Rightarrow> jbyte \<Rightarrow> jbyte \<Rightarrow> jint" where
  "int_of_bytes b0 b1 b2 b3 =
     push_bit 24 (scast b0) OR push_bit 16 (scast b1 AND 0xFF) OR
     push_bit 8 (scast b2 AND 0xFF) OR (scast b3 AND 0xFF)"

definition readShort :: "jshort reader" where
  "readShort d =
     rbind (require 2 d) (\<lambda>_.
     rbind (next_byte d) (\<lambda>(b0, d). rbind (next_byte d) (\<lambda>(b1, d).
       Inr (short_of_bytes b0 b1, d))))"

definition readInt :: "jint reader" where
  "readInt d =
     rbind (require 4 d) (\<lambda>_.
     rbind (next_byte d) (\<lambda>(b0, d). rbind (next_byte d) (\<lambda>(b1, d).
     rbind (next_byte d) (\<lambda>(b2, d). rbind (next_byte d) (\<lambda>(b3, d).
       Inr (int_of_bytes b0 b1 b2 b3, d))))))"

definition unsignedInt :: "jint \<Rightarrow> jlong" where
  "unsignedInt i = scast i AND 0x00000000FFFFFFFF"

definition readLong :: "jlong reader" where
  "readLong d =
     rbind (readInt d) (\<lambda>(i1, d). rbind (readInt d) (\<lambda>(i2, d).
       Inr (push_bit 32 (unsignedInt i1) OR unsignedInt i2, d)))"

fun readSize_loop :: "nat \<Rightarrow> jint \<Rightarrow> jint reader" where
  "readSize_loop 0 sz d = Inr (sz, d)"
| "readSize_loop (Suc k) sz d =
     rbind (require 1 d) (\<lambda>_.
     rbind (next_byte d) (\<lambda>(b, d).
       let sz' = push_bit 7 sz OR (scast b AND 0x7F)
       in if scast b AND (0x80 :: jint) = 0 then Inr (sz', d)
          else readSize_loop k sz' d))"

definition readSize :: "jint reader" where
  "readSize d = readSize_loop 4 0 d"

definition readBytes_vlq :: "bool \<Rightarrow> bytes reader" where
  "readBytes_vlq vlq d =
     rbind (if vlq then readSize d else readInt d) (\<lambda>(len, d).
     rbind (require (sint len) d) (\<lambda>_.
       if sint len < 0 then Inl NegativeArraySize
       else let n = nat (sint len)
            in if dec_index d + n > length (dec_in d) then Inl IndexOutOfBounds
               else Inr (take n (drop (dec_index d) (dec_in d)),
                         d\<lparr>dec_index := dec_index d + n\<rparr>)))"

definition readBytes :: "bytes reader" where
  "readBytes d = readBytes_vlq True d"

definition getReadIndex :: "SimpleDecoder \<Rightarrow> nat" where
  "getReadIndex d = dec_index d"

text \<open>\<open>for (int i = 0; i < n; i++) list.add(...)\<close>\<close>

fun read_times :: "nat \<Rightarrow> 'a reader \<Rightarrow> 'a list reader" where
  "read_times 0 r d = Inr ([], d)"
| "read_times (Suc n) r d =
     rbind (r d) (\<lambda>(x, d). rbind (read_times n r d) (\<lambda>(xs, d). Inr (x # xs, d)))"

section \<open>The contract of a field codec\<close>

text \<open>
  \<open>dec_at f pre rest\<close> is a decoder over the whole array \<open>pre @ rest\<close> that has read \<open>pre\<close>. A
  codec writes the image of every value it accepts and reads it back from any position.
\<close>

definition dec_at :: "nat \<Rightarrow> bytes \<Rightarrow> bytes \<Rightarrow> SimpleDecoder" where
  "dec_at f pre rest =
     \<lparr>dec_in = pre @ rest, dec_from = f, dec_to = length pre + length rest, dec_index = length pre\<rparr>"

lemma SimpleDecoder_new_at: "SimpleDecoder_new bs = dec_at 0 [] bs"
  by (simp add: SimpleDecoder_new_def SimpleDecoder_range_def dec_at_def)

lemma SimpleDecoder_from_at:
  "SimpleDecoder_from (pre @ bs) (length pre) = dec_at (length pre) pre bs"
  by (simp add: SimpleDecoder_from_def SimpleDecoder_range_def dec_at_def)

lemma require_at [simp]: "require n (dec_at f pre rest) = rguard (n \<le> int (length rest)) IndexOutOfBounds"
  by (simp add: require_def dec_at_def not_less)

lemma next_byte_at [simp]:
  "next_byte (dec_at f pre (b # rest)) = Inr (b, dec_at f (pre @ [b]) rest)"
  by (simp add: next_byte_def dec_at_def aget_def)

lemma dec_index_at [simp]: "dec_index (dec_at f pre rest) = length pre"
  by (simp add: dec_at_def)

locale field_codec =
  fixes wr :: "'a writer"
    and rd :: "'a reader"
    and ok :: "'a \<Rightarrow> bool"
    and image :: "'a \<Rightarrow> bytes"
  assumes write_spec: "wr a out = (if ok a then Inr (out @ image a) else Inl IllegalArgument)"
    and read_at: "ok a \<Longrightarrow> rd (dec_at f pre (image a @ rest)) = Inr (a, dec_at f (pre @ image a) rest)"
begin

lemma write_ok: "ok a \<Longrightarrow> wr a out = Inr (out @ image a)"
  by (simp add: write_spec)

lemma write_Inr: "wr a out = Inr out' \<longleftrightarrow> ok a \<and> out' = out @ image a"
  by (auto simp: write_spec)

lemma read_at_end: "ok a \<Longrightarrow> rd (dec_at f pre (image a)) = Inr (a, dec_at f (pre @ image a) [])"
  using read_at [of a f pre "[]"] by simp

lemma write_read: "wr a out = Inr out' \<Longrightarrow>
    rd (dec_at f out (drop (length out) out' @ rest)) = Inr (a, dec_at f out' rest)"
  by (auto simp: write_Inr read_at)

lemma write_list:
  "list_all ok xs \<Longrightarrow> rfold wr xs out = Inr (out @ concat (map image xs))"
  by (induction xs arbitrary: out) (simp_all add: write_ok)

lemma write_list_Inr:
  "rfold wr xs out = Inr out' \<longleftrightarrow> list_all ok xs \<and> out' = out @ concat (map image xs)"
  by (induction xs arbitrary: out) (auto simp: rbind_eq_Inr write_Inr)

lemma read_list_at:
  "list_all ok xs \<Longrightarrow>
     read_times (length xs) rd (dec_at f pre (concat (map image xs) @ rest)) =
     Inr (xs, dec_at f (pre @ concat (map image xs)) rest)"
  by (induction xs arbitrary: pre) (simp_all add: read_at)

lemma read_list_at_end:
  "list_all ok xs \<Longrightarrow>
     read_times (length xs) rd (dec_at f pre (concat (map image xs))) =
     Inr (xs, dec_at f (pre @ concat (map image xs)) [])"
  using read_list_at [of xs f pre "[]"] by simp

lemma image_inj: "ok a \<Longrightarrow> ok b \<Longrightarrow> image a @ r = image b @ s \<Longrightarrow> a = b \<and> r = s"
  using read_at [of a 0 "[]" r] read_at [of b 0 "[]" s] by (auto simp: dec_at_def)

end

section \<open>The codecs of the primitive fields\<close>

definition boolean_image :: "bool \<Rightarrow> bytes" where "boolean_image b = [if b then 1 else 0]"
definition byte_image :: "jbyte \<Rightarrow> bytes" where "byte_image b = [b]"
definition short_image :: "jshort \<Rightarrow> bytes" where
  "short_image s = [ucast (0xFF AND drop_bit 8 s), ucast (0xFF AND s)]"
definition long_image :: "jlong \<Rightarrow> bytes" where
  "long_image l = int_image (ucast (drop_bit 32 l)) @ int_image (ucast l)"

lemma length_images [simp]:
  "length (boolean_image b) = 1" "length (byte_image c) = 1" "length (short_image s) = 2"
  "length (int_image i) = 4" "length (long_image l) = 8"
  by (simp_all add: boolean_image_def byte_image_def short_image_def int_image_def long_image_def)

interpretation boolean_codec: field_codec writeBoolean readBoolean "\<lambda>_. True" boolean_image
  by unfold_locales (simp_all add: writeBoolean_def readBoolean_def boolean_image_def)

interpretation byte_codec: field_codec writeByte readByte "\<lambda>_. True" byte_image
  by unfold_locales (simp_all add: writeByte_def readByte_def byte_image_def)

lemma short_word: "short_of_bytes (ucast (0xFF AND drop_bit 8 s)) (ucast (0xFF AND s)) = s"
  unfolding short_of_bytes_def ff_mask scast_and_mask ucast_mask_and
  by (simp add: shift_back byte_of_word flip: bit.conj_disj_distrib add: full_masks)

interpretation short_codec: field_codec writeShort readShort "\<lambda>_. True" short_image
  by unfold_locales (simp_all add: writeShort_def readShort_def short_image_def short_word)

lemma top_byte: "push_bit 24 (scast (b :: jbyte)) = push_bit 24 (scast b AND (0xFF :: jint))"
  unfolding ff_mask by (rule bit_word_eqI) (auto simp: bit_simps)

lemma int_word: "int_of_bytes (ucast (0xFF AND drop_bit 24 i)) (ucast (0xFF AND drop_bit 16 i))
    (ucast (0xFF AND drop_bit 8 i)) (ucast (0xFF AND i)) = i"
  unfolding int_of_bytes_def top_byte ff_mask scast_and_mask ucast_mask_and
  by (simp add: shift_back byte_of_word flip: bit.conj_disj_distrib add: full_masks)

interpretation int_codec: field_codec writeInt readInt "\<lambda>_. True" int_image
  by unfold_locales (simp_all add: writeInt_def readInt_def int_image_def int_word)

lemma unsignedInt_ucast: "unsignedInt i = ucast i"
proof -
  have m: "(0xFFFFFFFF :: jlong) = mask 32" by (simp add: mask_eq_exp_minus_1)
  show ?thesis
    unfolding unsignedInt_def m
  proof (rule bit_word_eqI)
    fix n :: nat
    consider "n < 31" | "n = 31" | "31 < n" by linarith
    then show "bit (scast i AND (mask 32 :: jlong)) n = bit (ucast i :: jlong) n"
      by cases (auto simp: bit_simps dest: bit_imp_le_length)
  qed
qed

lemma long_word: "push_bit 32 (unsignedInt (ucast (drop_bit 32 l))) OR unsignedInt (ucast l) = l"
  unfolding unsignedInt_ucast
proof (rule bit_word_eqI)
  fix n :: nat
  assume "n < LENGTH(64)"
  then show "bit (push_bit 32 (ucast (ucast (drop_bit 32 l) :: jint)) OR ucast (ucast l :: jint) :: jlong) n = bit l n"
    by (cases "n < 32") (auto simp: bit_simps)
qed

interpretation long_codec: field_codec writeLong readLong "\<lambda>_. True" long_image
  by unfold_locales
    (simp_all add: writeLong_def readLong_def long_image_def int_codec.read_at int_codec.write_ok long_word)

section \<open>Variable-length sizes and byte arrays\<close>

definition size_join :: "jint \<Rightarrow> jint \<Rightarrow> jint" where
  "size_join s g = push_bit 7 s OR g"

lemma mask7: "(0x7F :: jint) = mask 7"
  by (simp add: mask_eq_exp_minus_1)

lemma bit_80_int: "bit (0x80 :: int) n \<longleftrightarrow> n = 7"
proof -
  have "(0x80 :: int) = push_bit 7 1" by simp
  then have "bit (0x80 :: int) n \<longleftrightarrow> bit (push_bit 7 (1 :: int)) n" by metis
  also have "\<dots> \<longleftrightarrow> n = 7" by (simp only: bit_push_bit_iff) (auto simp: bit_1_iff)
  finally show ?thesis .
qed

lemma bit_80: "bit (0x80 :: jint) n \<longleftrightarrow> n = 7"
  by (auto simp: bit_80_int)

lemma unat_drop7: "unat (drop_bit 7 (w :: jint)) = unat w div 128"
  by (simp add: unat_drop_bit_eq flip: drop_bit_eq_div [of 7, simplified])

lemma size_join_drop: "size_join (drop_bit 7 w) (w AND 0x7F) = w"
  unfolding size_join_def mask7 by (rule bit_word_eqI) (auto simp: bit_simps)

lemma sint_drop7: "sint (drop_bit 7 (w :: jint)) = int (unat w div 128)"
proof -
  have "unat w < 2 ^ 32" using unsigned_less [of w, where ?'a = nat] by simp
  then have "uint (drop_bit 7 w) < 2 ^ 31"
    unfolding uint_nat unat_drop7 by simp
  then have "sint (drop_bit 7 w) = uint (drop_bit 7 w)"
    by (simp add: sint_uint signed_take_bit_int_eq_self_iff order_trans [of _ 0])
  then show ?thesis by (simp add: uint_nat unat_drop7)
qed

lemma drop7_pos: "0 < sint (drop_bit 7 (w :: jint)) \<longleftrightarrow> drop_bit 7 w \<noteq> 0"
  using unat_drop7 [of w] by (simp add: sint_drop7 unat_eq_0 flip: unat_eq_0)

declare size_groups.simps [simp del]

lemma size_groups_spec:
  assumes "length buf < 4" "unat w < 2 ^ (7 * (4 - length buf))"
  shows "\<exists>gs. size_groups w buf = Inr (gs @ buf) \<and> gs \<noteq> [] \<and> length gs + length buf \<le> 4 \<and>
    (\<forall>g \<in> set gs. g AND 0x7F = g) \<and> foldl size_join 0 gs = w"
  using assms
proof (induction w buf rule: size_groups.induct)
  case (1 w buf)
  let ?g = "w AND 0x7F" and ?w = "drop_bit 7 w"
  have g: "?g AND 0x7F = ?g" by (simp add: and.assoc)
  show ?case
  proof (cases "?w = 0")
    case True
    have "size_join 0 ?g = w" using size_join_drop [of w] True by simp
    then show ?thesis
      using "1.prems"(1) True g
      by (intro exI [of _ "[?g]"]) (simp add: size_groups.simps [of w buf])
  next
    case False
    then have pos: "unat ?w \<noteq> 0" by (simp add: unat_eq_0)
    have q: "unat ?w = unat w div 128" by (rule unat_drop7)
    have len: "length buf < 3"
    proof (rule ccontr)
      assume "\<not> length buf < 3"
      with "1.prems" have "length buf = 3" by simp
      with "1.prems"(2) pos q show False by simp
    qed
    then have "4 - length buf = Suc (4 - Suc (length buf))" by simp
    then have "2 ^ (7 * (4 - length buf)) = 128 * (2 ^ (7 * (4 - Suc (length buf))) :: nat)"
      by (simp add: power_add)
    with "1.prems"(2) q have "unat ?w < 2 ^ (7 * (4 - length (?g # buf)))"
      by (simp add: less_mult_imp_div_less mult.commute)
    with len False obtain gs where gs: "size_groups ?w (?g # buf) = Inr (gs @ ?g # buf)"
      "gs \<noteq> []" "length gs + length (?g # buf) \<le> 4" "\<forall>g \<in> set gs. g AND 0x7F = g"
      "foldl size_join 0 gs = ?w"
      using "1.IH" [OF _ refl refl] by (auto simp: drop7_pos)
    show ?thesis
      using len False gs g
      by (intro exI [of _ "gs @ [?g]"])
        (auto simp: size_groups.simps [of w buf] drop7_pos size_join_drop)
  qed
qed

lemma low_bits: "g AND 0x7F = (g :: jint) \<Longrightarrow> bit g n \<Longrightarrow> n < 7"
  by (metis bit_and_iff bit_mask_iff mask7)

lemma last_group_byte:
  assumes g: "g AND 0x7F = (g :: jint)"
  shows "scast (ucast g :: jbyte) AND 0x7F = g"
    and "scast (ucast g :: jbyte) AND (0x80 :: jint) = 0"
  by (rule bit_word_eqI, auto simp: bit_simps bit_80_int mask7 min_def dest: low_bits [OF g])+

lemma cont_group_byte:
  assumes g: "g AND 0x7F = (g :: jint)"
  shows "scast (ucast (g OR 0x80) :: jbyte) AND 0x7F = g"
    and "scast (ucast (g OR 0x80) :: jbyte) AND (0x80 :: jint) \<noteq> 0"
proof -
  show "scast (ucast (g OR 0x80) :: jbyte) AND 0x7F = g"
    by (rule bit_word_eqI) (auto simp: bit_simps bit_80_int mask7 min_def dest: low_bits [OF g])
  have "bit (scast (ucast (g OR 0x80) :: jbyte) AND (0x80 :: jint)) 7"
    by (simp add: bit_simps bit_80)
  then show "scast (ucast (g OR 0x80) :: jbyte) AND (0x80 :: jint) \<noteq> 0"
    by (metis bit_0_eq bot_apply bot_bool_def)
qed

lemma readSize_loop_groups:
  "gs \<noteq> [] \<Longrightarrow> length gs \<le> k \<Longrightarrow> \<forall>g \<in> set gs. g AND 0x7F = g \<Longrightarrow>
   readSize_loop k s (dec_at f pre (size_flush gs @ rest)) =
   Inr (foldl size_join s gs, dec_at f (pre @ size_flush gs) rest)"
proof (induction gs arbitrary: k s pre rule: size_flush.induct)
  case (2 g)
  then obtain k' where "k = Suc k'" by (cases k) auto
  then show ?case using "2.prems" by (simp add: last_group_byte size_join_def)
next
  case (3 g h gs)
  then obtain k' where k: "k = Suc k'" by (cases k) auto
  show ?case
    using "3.prems" "3.IH" [of k' "size_join s g" "pre @ [ucast (g OR 0x80)]"] k cont_group_byte [of g]
    by (simp add: size_join_def)
qed simp

definition size_ok :: "int \<Rightarrow> bool" where
  "size_ok n \<longleftrightarrow> 0 \<le> n \<and> n \<le> 0x0FFFFFFF"

definition size_image :: "int \<Rightarrow> bytes" where
  "size_image n = (case size_groups (word_of_int n) [] of Inl _ \<Rightarrow> [] | Inr gs \<Rightarrow> size_flush gs)"

definition readSize_int :: "int reader" where
  "readSize_int d = rbind (readSize d) (\<lambda>(n, d). Inr (sint n, d))"

lemma size_groups_ok:
  assumes "size_ok n"
  obtains gs where "size_groups (word_of_int n) [] = Inr gs" "gs \<noteq> []" "length gs \<le> 4"
    "\<forall>g \<in> set gs. g AND 0x7F = g" "foldl size_join 0 gs = word_of_int n"
proof -
  have "unat (word_of_int n :: jint) < 2 ^ (7 * (4 - length ([] :: jint list)))"
    using assms by (simp add: size_ok_def unat_eq_nat_uint uint_word_of_int nat_less_iff)
  with size_groups_spec [of "[]" "word_of_int n"] that show thesis by auto
qed

lemma length_size_flush: "length (size_flush gs) = length gs"
  by (induction gs rule: size_flush.induct) simp_all

lemma length_size_image: "size_ok n \<Longrightarrow> length (size_image n) \<le> 4"
  by (erule size_groups_ok) (simp add: size_image_def length_size_flush)

interpretation size_codec: field_codec writeSize readSize_int size_ok size_image
proof unfold_locales
  fix n out
  show "writeSize n out = (if size_ok n then Inr (out @ size_image n) else Inl IllegalArgument)"
  proof (cases "size_ok n")
    case True
    then show ?thesis
      by (rule size_groups_ok) (use True in \<open>auto simp: writeSize_def size_image_def size_ok_def\<close>)
  qed (auto simp: writeSize_def size_ok_def)
next
  fix n f pre rest
  assume ok: "size_ok n"
  then obtain gs where gs: "size_groups (word_of_int n) [] = Inr gs" "gs \<noteq> []" "length gs \<le> 4"
    "\<forall>g \<in> set gs. g AND 0x7F = g" "foldl size_join 0 gs = word_of_int n"
    by (rule size_groups_ok)
  have "sint (word_of_int n :: jint) = n"
    using ok by (intro sint_of_int_jint) (auto simp: size_ok_def)
  with gs show "readSize_int (dec_at f pre (size_image n @ rest)) = Inr (n, dec_at f (pre @ size_image n) rest)"
    by (simp add: readSize_int_def readSize_def size_image_def readSize_loop_groups)
qed

definition bytes_ok :: "bytes \<Rightarrow> bool" where
  "bytes_ok bs \<longleftrightarrow> length bs \<le> 0x0FFFFFFF"

definition bytes_image :: "bytes \<Rightarrow> bytes" where
  "bytes_image bs = size_image (int (length bs)) @ bs"

lemma length_bytes_image: "bytes_ok bs \<Longrightarrow> length (bytes_image bs) \<le> length bs + 4"
  using length_size_image [of "int (length bs)"] by (simp add: bytes_image_def size_ok_def bytes_ok_def)

lemma size_ok_length: "size_ok (int (length bs)) = bytes_ok bs"
  by (simp add: size_ok_def bytes_ok_def)

lemma readBytes_unfold:
  "readBytes d = rbind (readSize_int d) (\<lambda>(len, d).
     rbind (require len d) (\<lambda>_.
       if len < 0 then Inl NegativeArraySize
       else if dec_index d + nat len > length (dec_in d) then Inl IndexOutOfBounds
       else Inr (take (nat len) (drop (dec_index d) (dec_in d)), d\<lparr>dec_index := dec_index d + nat len\<rparr>)))"
  by (cases "readSize d")
    (auto simp: readBytes_def readBytes_vlq_def readSize_int_def Let_def split: prod.splits)

interpretation bytes_codec: field_codec writeBytes readBytes bytes_ok bytes_image
proof unfold_locales
  fix bs out
  show "writeBytes bs out = (if bytes_ok bs then Inr (out @ bytes_image bs) else Inl IllegalArgument)"
    by (simp add: writeBytes_def writeBytes_vlq_def size_codec.write_spec size_ok_length bytes_image_def)
next
  fix bs f pre rest
  assume "bytes_ok bs"
  then have "size_ok (int (length bs))" by (simp add: size_ok_length)
  then show "readBytes (dec_at f pre (bytes_image bs @ rest)) = Inr (bs, dec_at f (pre @ bytes_image bs) rest)"
    by (simp add: readBytes_unfold bytes_image_def size_codec.read_at) (simp add: dec_at_def)
qed

lemmas codec_writes [simp] =
  boolean_codec.write_spec byte_codec.write_spec short_codec.write_spec int_codec.write_spec
  long_codec.write_spec size_codec.write_spec bytes_codec.write_spec

lemmas codec_reads [simp] =
  boolean_codec.read_at byte_codec.read_at short_codec.read_at int_codec.read_at
  long_codec.read_at bytes_codec.read_at
  boolean_codec.read_at_end byte_codec.read_at_end short_codec.read_at_end int_codec.read_at_end
  long_codec.read_at_end bytes_codec.read_at_end

lemma encode_simps [simp]:
  "encode [] = Inr []"
  "rfold (\<lambda>w out. w out) [] out = Inr out"
  "encode (w # ws) = rbind (w []) (rfold (\<lambda>w out. w out) ws)"
  by (simp_all add: encode_def EMPTY_BYTES_def)

section \<open>What every decoding guarantees\<close>

text \<open>A size read from any input is below \<open>2 ^ 28\<close>, so it never asks for a negative array.\<close>

lemma size_join_bound:
  assumes "uint s < 2 ^ (7 * i)" and g: "uint g < 128"
  shows "uint (size_join s g) < 2 ^ (7 * Suc i)"
proof -
  have "uint (push_bit 7 s) \<le> push_bit 7 (uint s)"
    by (simp add: unsigned_push_bit_eq take_bit_int_less_eq_self_iff)
  also have "\<dots> = uint s * 128" by (simp add: push_bit_eq_mult)
  also have "\<dots> < 2 ^ (7 * Suc i)" using assms(1) by (simp add: power_add)
  finally have "uint (push_bit 7 s) < 2 ^ (7 * Suc i)" .
  moreover have "uint g < 2 ^ (7 * Suc i)"
  proof -
    have "(128 :: int) \<le> 2 ^ (7 * Suc i)" using power_increasing [of 7 "7 * Suc i" "2 :: int"] by simp
    with g show ?thesis by (rule less_le_trans)
  qed
  ultimately show ?thesis
    unfolding size_join_def unsigned_or_eq by (intro OR_upper) auto
qed

lemma uint_low7: "uint (x AND (0x7F :: jint)) < 128"
proof -
  have "x AND (0x7F :: jint) = take_bit 7 x" by (simp add: mask7 take_bit_eq_mask and.commute)
  then have "uint (x AND (0x7F :: jint)) = take_bit 7 (uint x)" by (simp add: unsigned_take_bit_eq)
  then show ?thesis using take_bit_int_less_exp [of 7 "uint x"] by simp
qed

lemma readSize_loop_bound:
  "readSize_loop k s d = Inr (n, d') \<Longrightarrow> uint s < 2 ^ (7 * i) \<Longrightarrow> i + k = 4 \<Longrightarrow> uint n < 2 ^ 28"
proof (induction k arbitrary: s d i)
  case 0
  then show ?case by simp
next
  case (Suc k)
  from Suc.prems(1) obtain b d1 where b: "next_byte d = Inr (b, d1)"
    by (auto simp: rbind_eq_Inr)
  let ?s = "size_join s (scast b AND 0x7F)"
  have bound: "uint ?s < 2 ^ (7 * Suc i)" using Suc.prems(2) uint_low7 by (rule size_join_bound)
  show ?case
  proof (cases "scast b AND (0x80 :: jint) = 0")
    case True
    then have n: "n = ?s" using Suc.prems(1) b by (auto simp: rbind_eq_Inr size_join_def)
    have "(2 :: int) ^ (7 * Suc i) \<le> 2 ^ 28" using Suc.prems(3) by (intro power_increasing) auto
    with bound n show ?thesis by (meson less_le_trans)
  next
    case False
    then have "readSize_loop k ?s d1 = Inr (n, d')"
      using Suc.prems(1) b by (auto simp: rbind_eq_Inr size_join_def)
    then show ?thesis using bound Suc.prems(3) by (intro Suc.IH [of ?s d1 "Suc i"]) auto
  qed
qed

lemma readSize_bound:
  assumes "readSize d = Inr (n, d')"
  shows "size_ok (sint n)"
proof -
  have u: "uint n < 2 ^ 28"
    using assms readSize_loop_bound [of 4 0 d n d' 0] by (simp add: readSize_def)
  then have "sint n = uint n"
    by (simp add: sint_uint signed_take_bit_int_eq_self_iff order_trans [of _ 0])
  with u show ?thesis by (simp add: size_ok_def)
qed

text \<open>A decoder is well formed when its index and its end lie inside the array.\<close>

definition dec_wf :: "SimpleDecoder \<Rightarrow> bool" where
  "dec_wf d \<longleftrightarrow> dec_index d \<le> dec_to d \<and> dec_to d \<le> length (dec_in d)"

lemma next_byte_frame:
  "next_byte d = Inr (b, d') \<Longrightarrow> d' = d\<lparr>dec_index := Suc (dec_index d)\<rparr> \<and> dec_index d < length (dec_in d)"
  by (auto simp: next_byte_def aget_def rbind_eq_Inr split: if_splits)

lemma readSize_loop_frame:
  "readSize_loop k s d = Inr (n, d') \<Longrightarrow> dec_wf d \<Longrightarrow>
   dec_wf d' \<and> dec_index d \<le> dec_index d' \<and> d' = d\<lparr>dec_index := dec_index d'\<rparr>"
proof (induction k arbitrary: s d)
  case (Suc k)
  from Suc.prems obtain b d1 where b: "next_byte d = Inr (b, d1)" and r: "require 1 d = Inr ()"
    by (auto simp: rbind_eq_Inr)
  have d1: "d1 = d\<lparr>dec_index := Suc (dec_index d)\<rparr>" using next_byte_frame [OF b] by simp
  have wf: "dec_wf d1" using r Suc.prems(2) d1 by (auto simp: require_def dec_wf_def)
  show ?case
  proof (cases "scast b AND (0x80 :: jint) = 0")
    case True
    then show ?thesis using Suc.prems b d1 wf by (auto simp: rbind_eq_Inr)
  next
    case False
    then obtain s' where "readSize_loop k s' d1 = Inr (n, d')"
      using Suc.prems b by (auto simp: rbind_eq_Inr)
    from Suc.IH [OF this wf] d1 show ?thesis by (auto intro: SimpleDecoder.equality)
  qed
qed simp

lemma readBytes_slice:
  assumes "readBytes d = Inr (bs, d')" and "dec_wf d"
  shows "dec_wf d'" and "dec_index d + length bs \<le> dec_index d'" and "bytes_ok bs"
    and "bs = take (length bs) (drop (dec_index d' - length bs) (dec_in d))"
    and "d' = d\<lparr>dec_index := dec_index d'\<rparr>"
proof -
  from assms(1) obtain n d1 where n: "readSize d = Inr (n, d1)"
    and r: "sint n \<le> int (dec_to d1) - int (dec_index d1)"
    and bs: "bs = take (nat (sint n)) (drop (dec_index d1) (dec_in d1))"
    and d': "d' = d1\<lparr>dec_index := dec_index d1 + nat (sint n)\<rparr>"
    by (auto simp: readBytes_def readBytes_vlq_def rbind_eq_Inr require_def Let_def not_less
        split: if_splits)
  have fr: "dec_wf d1" "dec_index d \<le> dec_index d1" "d1 = d\<lparr>dec_index := dec_index d1\<rparr>"
    using readSize_loop_frame [OF n [unfolded readSize_def] assms(2)] by auto
  have ok: "size_ok (sint n)" by (rule readSize_bound [OF n])
  have same: "dec_in d1 = dec_in d" "dec_to d1 = dec_to d" by (subst fr(3), simp)+
  have len: "length bs = nat (sint n)"
    using bs r fr(1) ok by (auto simp: dec_wf_def size_ok_def)
  show "dec_wf d'" using d' fr(1) r ok by (auto simp: dec_wf_def size_ok_def)
  show "dec_index d + length bs \<le> dec_index d'" using d' len fr(2) by simp
  show "bytes_ok bs" using len ok by (auto simp: bytes_ok_def size_ok_def)
  show "bs = take (length bs) (drop (dec_index d' - length bs) (dec_in d))"
    using bs len d' same by simp
  show "d' = d\<lparr>dec_index := dec_index d'\<rparr>"
  proof -
    obtain i where "d1 = d\<lparr>dec_index := i\<rparr>" using fr(3) by blast
    with d' show ?thesis by simp
  qed
qed

section \<open>Strings\<close>

text \<open>
  Strings on the wire are the bytes of their UTF-8 encoding. The strings the node writes (hex
  addresses, host names, identifiers) are ASCII, for which a character is one byte.
\<close>

definition string_bytes :: "string \<Rightarrow> bytes" where
  "string_bytes s = map (\<lambda>c. word_of_nat (of_char c)) s"

definition bytes_string :: "bytes \<Rightarrow> string" where
  "bytes_string bs = map (\<lambda>b. char_of (unat b)) bs"

definition writeString :: "string writer" where
  "writeString s = writeBytes (string_bytes s)"

definition readString :: "string reader" where
  "readString d = rbind (readBytes d) (\<lambda>(bs, d). Inr (bytes_string bs, d))"

lemma length_string_bytes [simp]: "length (string_bytes s) = length s"
  by (simp add: string_bytes_def)

lemma bytes_string_bytes [simp]: "bytes_string (string_bytes s) = s"
  by (induction s) (simp_all add: string_bytes_def bytes_string_def unat_of_nat take_bit_nat_eq_self)

definition string_image :: "string \<Rightarrow> bytes" where
  "string_image s = bytes_image (string_bytes s)"

interpretation string_codec: field_codec writeString readString "\<lambda>s. bytes_ok (string_bytes s)" string_image
  by unfold_locales (simp_all add: writeString_def readString_def string_image_def)

lemmas string_codec_rules [simp] = string_codec.write_spec string_codec.read_at string_codec.read_at_end

end
