(* ===== verification/AmountModel.thy ===== *)
theory AmountModel
  imports Complex_Main Codec
begin

text \<open>
  \<open>org.semux.core.Amount\<close>: a quantity of nano SEM held in a signed 64-bit integer. Additions,
  subtractions and unit conversions use Java's exact arithmetic, so an overflow is the value
  \<open>Inl ArithmeticOverflow\<close> and never a wrapped number. \<open>BigDecimal\<close> values are rationals.
\<close>

datatype Amount = Amount (nano: jlong)

datatype Unit = NANO_SEM | MICRO_SEM | MILLI_SEM | SEM | KILO_SEM | MEGA_SEM

definition units :: "Unit list" where
  "units = [NANO_SEM, MICRO_SEM, MILLI_SEM, SEM, KILO_SEM, MEGA_SEM]"

fun unit_exp :: "Unit \<Rightarrow> nat" where
  "unit_exp NANO_SEM = 0"
| "unit_exp MICRO_SEM = 3"
| "unit_exp MILLI_SEM = 6"
| "unit_exp SEM = 9"
| "unit_exp KILO_SEM = 12"
| "unit_exp MEGA_SEM = 15"

text \<open>The symbols; the micro sign is the two bytes of its UTF-8 encoding.\<close>

fun unit_symbol :: "Unit \<Rightarrow> string" where
  "unit_symbol NANO_SEM = ''nSEM''"
| "unit_symbol MICRO_SEM = [CHR 0xCE, CHR 0xBC] @ ''SEM''"
| "unit_symbol MILLI_SEM = ''mSEM''"
| "unit_symbol SEM = ''SEM''"
| "unit_symbol KILO_SEM = ''kSEM''"
| "unit_symbol MEGA_SEM = ''MSEM''"

definition unit_factor :: "Unit \<Rightarrow> int" where
  "unit_factor u = 10 ^ unit_exp u"

definition Unit_ofSymbol :: "string \<Rightarrow> Unit res" where
  "Unit_ofSymbol s =
     (case find (\<lambda>u. s = unit_symbol u) units of None \<Rightarrow> Inl NoSuchElement | Some u \<Rightarrow> Inr u)"

text \<open>\<open>Math.addExact\<close>, \<open>subtractExact\<close>, \<open>negateExact\<close>, \<open>multiplyExact\<close>, \<open>longValueExact\<close>.\<close>

definition in_long :: "int \<Rightarrow> bool" where
  "in_long x \<longleftrightarrow> - (2 ^ 63) \<le> x \<and> x < 2 ^ 63"

definition exact_long :: "int \<Rightarrow> jlong res" where
  "exact_long x = (if in_long x then Inr (word_of_int x) else Inl ArithmeticOverflow)"

definition ZERO :: Amount where "ZERO = Amount 0"

definition Unit_of :: "Unit \<Rightarrow> jlong \<Rightarrow> Amount res" where
  "Unit_of u a = rmap Amount (exact_long (sint a * unit_factor u))"

definition toDecimal :: "Unit \<Rightarrow> Amount \<Rightarrow> nat \<Rightarrow> rat" where
  "toDecimal u a scale =
     (let d = of_int (sint (nano a)) / 10 ^ unit_exp u :: rat
      in of_int \<lfloor>d * 10 ^ scale\<rfloor> / 10 ^ scale)"

definition fromDecimal :: "Unit \<Rightarrow> rat \<Rightarrow> Amount res" where
  "fromDecimal u d = rmap Amount (exact_long \<lfloor>d * 10 ^ unit_exp u\<rfloor>)"

definition am :: "Amount \<Rightarrow> int" where
  "am a = sint (nano a)"

definition gt :: "Amount \<Rightarrow> Amount \<Rightarrow> bool" where "gt a b \<longleftrightarrow> sint (nano a) > sint (nano b)"
definition gte :: "Amount \<Rightarrow> Amount \<Rightarrow> bool" where "gte a b \<longleftrightarrow> sint (nano a) \<ge> sint (nano b)"
definition lt :: "Amount \<Rightarrow> Amount \<Rightarrow> bool" where "lt a b \<longleftrightarrow> sint (nano a) < sint (nano b)"
definition lte :: "Amount \<Rightarrow> Amount \<Rightarrow> bool" where "lte a b \<longleftrightarrow> sint (nano a) \<le> sint (nano b)"
definition gt0 :: "Amount \<Rightarrow> bool" where "gt0 a \<longleftrightarrow> gt a ZERO"
definition gte0 :: "Amount \<Rightarrow> bool" where "gte0 a \<longleftrightarrow> gte a ZERO"
definition lt0 :: "Amount \<Rightarrow> bool" where "lt0 a \<longleftrightarrow> lt a ZERO"
definition lte0 :: "Amount \<Rightarrow> bool" where "lte0 a \<longleftrightarrow> lte a ZERO"

definition Amount_compareTo :: "Amount \<Rightarrow> Amount \<Rightarrow> int" where
  "Amount_compareTo a b = (if lt a b then -1 else if gt a b then 1 else 0)"

definition Amount_neg :: "Amount \<Rightarrow> Amount res" where
  "Amount_neg a = rmap Amount (exact_long (- sint (nano a)))"

definition Amount_sum :: "Amount \<Rightarrow> Amount \<Rightarrow> Amount res" where
  "Amount_sum a1 a2 = rmap Amount (exact_long (sint (nano a1) + sint (nano a2)))"

definition Amount_sub :: "Amount \<Rightarrow> Amount \<Rightarrow> Amount res" where
  "Amount_sub a1 a2 = rmap Amount (exact_long (sint (nano a1) - sint (nano a2)))"

section \<open>Amounts are integers in the range of a long\<close>

text \<open>Amounts are ordered by the number they hold, as \<open>compareTo\<close> orders them.\<close>

lemma nano_inject: "sint (nano a) = sint (nano b) \<longleftrightarrow> a = b"
  by (metis Amount.expand signed_word_eqI)

instantiation Amount :: linorder
begin

definition less_eq_Amount :: "Amount \<Rightarrow> Amount \<Rightarrow> bool" where "a \<le> b \<longleftrightarrow> sint (nano a) \<le> sint (nano b)"
definition less_Amount :: "Amount \<Rightarrow> Amount \<Rightarrow> bool" where "a < b \<longleftrightarrow> sint (nano a) < sint (nano b)"

instance
  by standard (auto simp: less_eq_Amount_def less_Amount_def nano_inject)

end

lemma am_inject: "am a = am b \<longleftrightarrow> a = b"
  by (simp add: am_def nano_inject)

lemma am_range: "in_long (am a)"
  using sint_range_jlong [of "nano a"] by (simp add: am_def in_long_def)

lemma am_ZERO [simp]: "am ZERO = 0"
  by (simp add: am_def ZERO_def)

lemma exact_long_Inr: "exact_long x = Inr w \<longleftrightarrow> in_long x \<and> sint w = x"
  by (auto simp: exact_long_def in_long_def sint_of_int_jlong)

lemma exact_long_Inl: "exact_long x = Inl e \<longleftrightarrow> \<not> in_long x \<and> e = ArithmeticOverflow"
  by (auto simp: exact_long_def)

lemma rmap_Amount_Inr: "rmap Amount m = Inr a \<longleftrightarrow> m = Inr (nano a)"
  by (cases m; cases a) auto

lemma Amount_sum_Inr: "Amount_sum a b = Inr c \<longleftrightarrow> am c = am a + am b"
  using am_range [of c] by (auto simp: Amount_sum_def rmap_Amount_Inr exact_long_Inr am_def)

lemma Amount_sub_Inr: "Amount_sub a b = Inr c \<longleftrightarrow> am c = am a - am b"
  using am_range [of c] by (auto simp: Amount_sub_def rmap_Amount_Inr exact_long_Inr am_def)

lemma Amount_neg_Inr: "Amount_neg a = Inr c \<longleftrightarrow> am c = - am a"
  using am_range [of c] by (auto simp: Amount_neg_def rmap_Amount_Inr exact_long_Inr am_def)

lemma Unit_of_Inr: "Unit_of u l = Inr c \<longleftrightarrow> am c = sint l * unit_factor u"
  using am_range [of c] by (auto simp: Unit_of_def rmap_Amount_Inr exact_long_Inr am_def)

lemma rmap_exact_Inl: "rmap f (exact_long x) = Inl e \<longleftrightarrow> \<not> in_long x \<and> e = ArithmeticOverflow"
  by (auto simp: exact_long_def)

lemma Amount_sum_Inl: "Amount_sum a b = Inl e \<longleftrightarrow> \<not> in_long (am a + am b) \<and> e = ArithmeticOverflow"
  by (simp add: Amount_sum_def am_def rmap_exact_Inl)

lemma Amount_sub_Inl: "Amount_sub a b = Inl e \<longleftrightarrow> \<not> in_long (am a - am b) \<and> e = ArithmeticOverflow"
  by (simp add: Amount_sub_def am_def rmap_exact_Inl)

lemma Amount_neg_Inl: "Amount_neg a = Inl e \<longleftrightarrow> \<not> in_long (- am a) \<and> e = ArithmeticOverflow"
  by (simp add: Amount_neg_def am_def rmap_exact_Inl)

text \<open>An amount holding a given number.\<close>

definition mk_amount :: "int \<Rightarrow> Amount" where
  "mk_amount x = Amount (word_of_int x)"

lemma am_mk_amount: "in_long x \<Longrightarrow> am (mk_amount x) = x"
  by (simp add: am_def mk_amount_def in_long_def sint_of_int_jlong)

lemma mk_amount_am [simp]: "mk_amount (am a) = a"
  by (simp add: am_mk_amount am_range flip: am_inject)

lemma Amount_sum_eq: "Amount_sum a b = (if in_long (am a + am b) then Inr (mk_amount (am a + am b)) else Inl ArithmeticOverflow)"
  by (simp add: Amount_sum_Inr Amount_sum_Inl am_mk_amount)

lemma Amount_sub_eq: "Amount_sub a b = (if in_long (am a - am b) then Inr (mk_amount (am a - am b)) else Inl ArithmeticOverflow)"
  by (simp add: Amount_sub_Inr Amount_sub_Inl am_mk_amount)

lemma Amount_neg_eq: "Amount_neg a = (if in_long (- am a) then Inr (mk_amount (- am a)) else Inl ArithmeticOverflow)"
  by (simp add: Amount_neg_Inr Amount_neg_Inl am_mk_amount)

lemma compare_am:
  "gt a b \<longleftrightarrow> am a > am b" "gte a b \<longleftrightarrow> am a \<ge> am b" "lt a b \<longleftrightarrow> am a < am b" "lte a b \<longleftrightarrow> am a \<le> am b"
  "gt0 a \<longleftrightarrow> am a > 0" "gte0 a \<longleftrightarrow> am a \<ge> 0" "lt0 a \<longleftrightarrow> am a < 0" "lte0 a \<longleftrightarrow> am a \<le> 0"
  by (simp_all add: gt_def gte_def lt_def lte_def gt0_def gte0_def lt0_def lte0_def am_def ZERO_def)

lemma less_am: "a \<le> b \<longleftrightarrow> am a \<le> am b" "a < b \<longleftrightarrow> am a < am b"
  by (simp_all add: less_eq_Amount_def less_Amount_def am_def)

lemma compareTo_linorder:
  "Amount_compareTo a b < 0 \<longleftrightarrow> a < b" "Amount_compareTo a b = 0 \<longleftrightarrow> a = b" "Amount_compareTo a b > 0 \<longleftrightarrow> a > b"
  by (auto simp: Amount_compareTo_def compare_am less_am am_inject [symmetric])

section \<open>Decimal conversions\<close>

lemma unit_factor_pos: "unit_factor u > 0"
  by (simp add: unit_factor_def)

lemma Unit_of_NANO [simp]: "Unit_of NANO_SEM l = Inr (Amount l)"
  using sint_range_jlong [of l] by (simp add: Unit_of_Inr am_def unit_factor_def)

lemma toDecimal_exact:
  assumes "unit_exp u \<le> scale"
  shows "toDecimal u a scale = of_int (am a) / 10 ^ unit_exp u"
proof -
  have "(10 :: rat) ^ scale = 10 ^ unit_exp u * 10 ^ (scale - unit_exp u)"
    using assms by (simp flip: power_add)
  then have "of_int (am a) / 10 ^ unit_exp u * 10 ^ scale = (of_int (am a * 10 ^ (scale - unit_exp u)) :: rat)"
    by simp
  then have "of_int \<lfloor>of_int (am a) / 10 ^ unit_exp u * (10 :: rat) ^ scale\<rfloor> =
      (of_int (am a) / 10 ^ unit_exp u * 10 ^ scale :: rat)" by (metis floor_of_int)
  then show ?thesis
    unfolding toDecimal_def am_def [symmetric] Let_def by (simp only:) simp
qed

lemma fromDecimal_toDecimal:
  assumes "unit_exp u \<le> scale"
  shows "fromDecimal u (toDecimal u a scale) = Inr a"
proof -
  have "\<lfloor>toDecimal u a scale * 10 ^ unit_exp u\<rfloor> = am a"
    using assms by (simp add: toDecimal_exact)
  then show ?thesis using am_range [of a]
    by (simp add: fromDecimal_def rmap_Amount_Inr exact_long_Inr am_def)
qed

lemma toDecimal_floor:
  "toDecimal u a scale \<le> of_int (am a) / 10 ^ unit_exp u"
  "of_int (am a) / 10 ^ unit_exp u < toDecimal u a scale + 1 / 10 ^ scale"
proof -
  let ?d = "of_int (am a) / 10 ^ unit_exp u :: rat"
  have p: "(10 :: rat) ^ scale > 0" by simp
  have "of_int \<lfloor>?d * 10 ^ scale\<rfloor> \<le> ?d * 10 ^ scale" by (rule of_int_floor_le)
  then show "toDecimal u a scale \<le> ?d"
    by (simp add: toDecimal_def am_def divide_le_eq)
  have "?d * 10 ^ scale < of_int \<lfloor>?d * 10 ^ scale\<rfloor> + 1" by linarith
  then show "?d < toDecimal u a scale + 1 / 10 ^ scale"
    by (simp add: toDecimal_def am_def add_divide_distrib [symmetric] less_divide_eq)
qed

section \<open>The codec of an amount field\<close>

definition writeAmount :: "Amount writer" where
  "writeAmount a = writeLong (nano a)"

definition readAmount :: "Amount reader" where
  "readAmount d = rbind (readLong d) (\<lambda>(l, d). rbind (Unit_of NANO_SEM l) (\<lambda>a. Inr (a, d)))"

definition amount_image :: "Amount \<Rightarrow> bytes" where
  "amount_image a = long_image (nano a)"

lemma length_amount_image [simp]: "length (amount_image a) = 8"
  by (simp add: amount_image_def)

interpretation amount_codec: field_codec writeAmount readAmount "\<lambda>_. True" amount_image
  by unfold_locales (simp_all add: writeAmount_def readAmount_def amount_image_def)

lemmas amount_codec_rules [simp] =
  amount_codec.write_spec amount_codec.read_at amount_codec.read_at_end

end
