(* ===== verification/AccountModel.thy ===== *)
theory AccountModel
  imports Store AmountModel
begin

text \<open>
  \<open>Account\<close> and \<open>AccountStateImpl\<close> of \<open>org.semux.core.state\<close>. An account state is a \<open>store\<close>
  whose keys are a type byte followed by the address. The locale \<open>ledger\<close> is the contract of the
  \<open>AccountState\<close> interface as its clients use it: what each operation does to the balances, and
  that it touches no other account.
\<close>

section \<open>Account\<close>

record Account =
  acc_address :: bytes
  acc_available :: Amount
  acc_locked :: Amount
  acc_nonce :: jlong

definition Account_toBytes :: "Account \<Rightarrow> bytes res" where
  "Account_toBytes acc =
     encode [writeAmount (acc_available acc), writeAmount (acc_locked acc), writeLong (acc_nonce acc)]"

definition Account_fromBytes :: "bytes \<Rightarrow> bytes \<Rightarrow> Account res" where
  "Account_fromBytes address bs =
     rbind (readAmount (SimpleDecoder_new bs)) (\<lambda>(available, d).
     rbind (readAmount d) (\<lambda>(locked, d).
     rbind (readLong d) (\<lambda>(nonce, d).
       Inr \<lparr>acc_address = address, acc_available = available, acc_locked = locked, acc_nonce = nonce\<rparr>)))"

definition account_image :: "Account \<Rightarrow> bytes" where
  "account_image acc =
     amount_image (acc_available acc) @ amount_image (acc_locked acc) @ long_image (acc_nonce acc)"

lemma Account_toBytes_eq [simp]: "Account_toBytes acc = Inr (account_image acc)"
  by (simp add: Account_toBytes_def account_image_def)

lemma Account_fromBytes_image [simp]:
  "Account_fromBytes address (account_image acc) = Inr (acc\<lparr>acc_address := address\<rparr>)"
  by (simp add: Account_fromBytes_def account_image_def SimpleDecoder_new_at)

section \<open>AccountStateImpl\<close>

type_synonym AccountState = store

definition TYPE_ACCOUNT :: jbyte where "TYPE_ACCOUNT = 0"
definition TYPE_CODE :: jbyte where "TYPE_CODE = 1"
definition TYPE_STORAGE :: jbyte where "TYPE_STORAGE = 2"

definition getKey :: "jbyte \<Rightarrow> bytes \<Rightarrow> bytes" where
  "getKey type address = merge_byte_left type address"

definition getStorageKey :: "bytes \<Rightarrow> bytes \<Rightarrow> bytes" where
  "getStorageKey address key = TYPE_STORAGE # address @ key"

definition AccountState_new :: "database \<Rightarrow> AccountState" where
  "AccountState_new accountDB = store_new accountDB"

definition empty_account :: "bytes \<Rightarrow> Account" where
  "empty_account address =
     \<lparr>acc_address = address, acc_available = ZERO, acc_locked = ZERO, acc_nonce = 0\<rparr>"

text \<open>The first map of the chain that has the key decides, and the database if none has.\<close>

definition getAccount :: "bytes \<Rightarrow> AccountState \<Rightarrow> Account res" where
  "getAccount address s =
     (case store_get s (getKey TYPE_ACCOUNT address) of
        None \<Rightarrow> Inr (empty_account address)
      | Some v \<Rightarrow> Account_fromBytes address v)"

definition increaseNonce :: "bytes \<Rightarrow> AccountState \<Rightarrow> AccountState res" where
  "increaseNonce address s =
     rbind (getAccount address s) (\<lambda>acc.
     rbind (Account_toBytes (acc\<lparr>acc_nonce := acc_nonce acc + 1\<rparr>)) (\<lambda>v.
       Inr (store_put (getKey TYPE_ACCOUNT address) v s)))"

definition adjustAvailable :: "bytes \<Rightarrow> Amount \<Rightarrow> AccountState \<Rightarrow> AccountState res" where
  "adjustAvailable address delta s =
     rbind (getAccount address s) (\<lambda>acc.
     rbind (Amount_sum (acc_available acc) delta) (\<lambda>a.
     rbind (Account_toBytes (acc\<lparr>acc_available := a\<rparr>)) (\<lambda>v.
       Inr (store_put (getKey TYPE_ACCOUNT address) v s))))"

definition adjustLocked :: "bytes \<Rightarrow> Amount \<Rightarrow> AccountState \<Rightarrow> AccountState res" where
  "adjustLocked address delta s =
     rbind (getAccount address s) (\<lambda>acc.
     rbind (Amount_sum (acc_locked acc) delta) (\<lambda>a.
     rbind (Account_toBytes (acc\<lparr>acc_locked := a\<rparr>)) (\<lambda>v.
       Inr (store_put (getKey TYPE_ACCOUNT address) v s))))"

text \<open>The operations on contract code and storage are declared and not supported.\<close>

definition getCode :: "bytes \<Rightarrow> AccountState \<Rightarrow> AccountState res" where
  "getCode address s = Inl UnsupportedOperation"

definition setCode :: "bytes \<Rightarrow> bytes \<Rightarrow> AccountState \<Rightarrow> AccountState res" where
  "setCode address code s = Inl UnsupportedOperation"

definition getStorage :: "bytes \<Rightarrow> bytes \<Rightarrow> AccountState \<Rightarrow> bytes res" where
  "getStorage address key s = Inl UnsupportedOperation"

definition putStorage :: "bytes \<Rightarrow> bytes \<Rightarrow> bytes \<Rightarrow> AccountState \<Rightarrow> AccountState res" where
  "putStorage address key value s = Inl UnsupportedOperation"

definition removeStorage :: "bytes \<Rightarrow> bytes \<Rightarrow> AccountState \<Rightarrow> AccountState res" where
  "removeStorage address key s = Inl UnsupportedOperation"

definition AccountState_track :: "AccountState \<Rightarrow> AccountState" where
  "AccountState_track s = store_track s"

definition AccountState_commit :: "AccountState \<Rightarrow> AccountState" where
  "AccountState_commit s = store_commit s"

definition AccountState_rollback :: "AccountState \<Rightarrow> AccountState" where
  "AccountState_rollback s = store_rollback s"

section \<open>What a state says of an account\<close>

text \<open>A state whose account records are all written by \<open>toBytes\<close>.\<close>

definition accounts_ok :: "AccountState \<Rightarrow> bool" where
  "accounts_ok s \<longleftrightarrow>
     (\<forall>address v. store_get s (getKey TYPE_ACCOUNT address) = Some v \<longrightarrow> (\<exists>acc. v = account_image acc))"

definition account :: "AccountState \<Rightarrow> bytes \<Rightarrow> Account" where
  "account s address =
     (case getAccount address s of Inl _ \<Rightarrow> empty_account address | Inr acc \<Rightarrow> acc)"

lemma getKey_inject [simp]: "getKey t a = getKey t b \<longleftrightarrow> a = b"
  by (simp add: getKey_def merge_byte_left_def)

lemma getAccount_ok: "accounts_ok s \<Longrightarrow> getAccount a s = Inr (account s a)"
  by (force simp: account_def getAccount_def accounts_ok_def split: option.split)

lemma account_address [simp]: "accounts_ok s \<Longrightarrow> acc_address (account s a) = a"
  by (force simp: account_def getAccount_def accounts_ok_def empty_account_def split: option.split)

definition set_account :: "bytes \<Rightarrow> Account \<Rightarrow> AccountState \<Rightarrow> AccountState" where
  "set_account a acc s = store_put (getKey TYPE_ACCOUNT a) (account_image acc) s"

lemma accounts_ok_set [simp]: "accounts_ok s \<Longrightarrow> accounts_ok (set_account a acc s)"
  by (auto simp: accounts_ok_def set_account_def)

lemma account_set [simp]:
  "acc_address acc = a \<Longrightarrow> account (set_account a acc s) = (account s)(a := acc)"
  by (auto simp: fun_eq_iff account_def getAccount_def set_account_def)

lemma increaseNonce_eq:
  "accounts_ok s \<Longrightarrow> increaseNonce a s =
     Inr (set_account a ((account s a)\<lparr>acc_nonce := acc_nonce (account s a) + 1\<rparr>) s)"
  by (simp add: increaseNonce_def getAccount_ok set_account_def)

lemma adjustAvailable_eq:
  "accounts_ok s \<Longrightarrow> adjustAvailable a d s =
     (let x = am (acc_available (account s a)) + am d
      in if in_long x then Inr (set_account a ((account s a)\<lparr>acc_available := mk_amount x\<rparr>) s)
         else Inl ArithmeticOverflow)"
  by (simp add: adjustAvailable_def getAccount_ok set_account_def Amount_sum_eq Let_def)

lemma adjustLocked_eq:
  "accounts_ok s \<Longrightarrow> adjustLocked a d s =
     (let x = am (acc_locked (account s a)) + am d
      in if in_long x then Inr (set_account a ((account s a)\<lparr>acc_locked := mk_amount x\<rparr>) s)
         else Inl ArithmeticOverflow)"
  by (simp add: adjustLocked_def getAccount_ok set_account_def Amount_sum_eq Let_def)

lemma account_new_empty: "account (AccountState_new []) a = empty_account a"
  by (simp add: account_def getAccount_def AccountState_new_def db_get_def)

lemma accounts_ok_new: "accounts_ok (AccountState_new [])"
  by (simp add: accounts_ok_def AccountState_new_def db_get_def)

section \<open>The contract of the account state\<close>

text \<open>
  The interface \<open>AccountState\<close>: a well-formed state gives every address an account; each
  adjustment changes one field of one account, unless the checked addition overflows.
\<close>

locale ledger =
  fixes wf :: "'s \<Rightarrow> bool"
    and acct :: "'s \<Rightarrow> bytes \<Rightarrow> Account"
    and avail :: "bytes \<Rightarrow> Amount \<Rightarrow> 's \<Rightarrow> 's res"
    and lock :: "bytes \<Rightarrow> Amount \<Rightarrow> 's \<Rightarrow> 's res"
    and bump :: "bytes \<Rightarrow> 's \<Rightarrow> 's res"
  assumes avail_Inl: "wf s \<Longrightarrow> avail a d s = Inl e \<longleftrightarrow>
      e = ArithmeticOverflow \<and> \<not> in_long (am (acc_available (acct s a)) + am d)"
    and avail_wf: "wf s \<Longrightarrow> avail a d s = Inr t \<Longrightarrow> wf t"
    and avail_acct: "wf s \<Longrightarrow> avail a d s = Inr t \<Longrightarrow> acct t = (acct s)(a :=
      (acct s a)\<lparr>acc_available := mk_amount (am (acc_available (acct s a)) + am d)\<rparr>)"
    and lock_Inl: "wf s \<Longrightarrow> lock a d s = Inl e \<longleftrightarrow>
      e = ArithmeticOverflow \<and> \<not> in_long (am (acc_locked (acct s a)) + am d)"
    and lock_wf: "wf s \<Longrightarrow> lock a d s = Inr t \<Longrightarrow> wf t"
    and lock_acct: "wf s \<Longrightarrow> lock a d s = Inr t \<Longrightarrow> acct t = (acct s)(a :=
      (acct s a)\<lparr>acc_locked := mk_amount (am (acc_locked (acct s a)) + am d)\<rparr>)"
    and bump_ok: "wf s \<Longrightarrow> is_ok (bump a s)"
    and bump_wf: "wf s \<Longrightarrow> bump a s = Inr t \<Longrightarrow> wf t"
    and bump_acct: "wf s \<Longrightarrow> bump a s = Inr t \<Longrightarrow> acct t = (acct s)(a :=
      (acct s a)\<lparr>acc_nonce := acc_nonce (acct s a) + 1\<rparr>)"
begin

definition holdings :: "'s \<Rightarrow> bytes \<Rightarrow> int" where
  "holdings s a = am (acc_available (acct s a)) + am (acc_locked (acct s a))"

definition total :: "bytes set \<Rightarrow> 's \<Rightarrow> int" where
  "total A s = (\<Sum>a\<in>A. holdings s a)"

lemma avail_in_long: "wf s \<Longrightarrow> avail a d s = Inr t \<Longrightarrow> in_long (am (acc_available (acct s a)) + am d)"
  using avail_Inl [of s a d ArithmeticOverflow] by auto

lemma lock_in_long: "wf s \<Longrightarrow> lock a d s = Inr t \<Longrightarrow> in_long (am (acc_locked (acct s a)) + am d)"
  using lock_Inl [of s a d ArithmeticOverflow] by auto

lemma avail_holdings: "wf s \<Longrightarrow> avail a d s = Inr t \<Longrightarrow>
    holdings t b = holdings s b + (if b = a then am d else 0)"
  using avail_in_long [of s a d t] by (simp add: holdings_def avail_acct am_mk_amount)

lemma lock_holdings: "wf s \<Longrightarrow> lock a d s = Inr t \<Longrightarrow>
    holdings t b = holdings s b + (if b = a then am d else 0)"
  using lock_in_long [of s a d t] by (simp add: holdings_def lock_acct am_mk_amount)

lemma bump_holdings: "wf s \<Longrightarrow> bump a s = Inr t \<Longrightarrow> holdings t b = holdings s b"
  by (simp add: holdings_def bump_acct)

lemma total_shift:
  assumes "finite A" and "\<And>b. holdings t b = holdings s b + (if b = a then d else 0)"
  shows "total A t = total A s + (if a \<in> A then d else 0)"
  using assms by (simp add: total_def sum.distrib)

lemma avail_total: "wf s \<Longrightarrow> finite A \<Longrightarrow> avail a d s = Inr t \<Longrightarrow>
    total A t = total A s + (if a \<in> A then am d else 0)"
  by (rule total_shift) (simp_all add: avail_holdings)

lemma lock_total: "wf s \<Longrightarrow> finite A \<Longrightarrow> lock a d s = Inr t \<Longrightarrow>
    total A t = total A s + (if a \<in> A then am d else 0)"
  by (rule total_shift) (simp_all add: lock_holdings)

lemma bump_total: "wf s \<Longrightarrow> bump a s = Inr t \<Longrightarrow> total A t = total A s"
  by (simp add: total_def bump_holdings)

lemmas step_wf = avail_wf lock_wf bump_wf
lemmas step_acct = avail_acct lock_acct bump_acct
lemmas step_total = avail_total lock_total bump_total

end

text \<open>The states \<open>AccountStateImpl\<close> produces satisfy it.\<close>

interpretation accounts: ledger accounts_ok account adjustAvailable adjustLocked increaseNonce
  by unfold_locales
    (auto simp: adjustAvailable_eq adjustLocked_eq increaseNonce_eq Let_def split: if_splits)

text \<open>Only the object's own update map is written.\<close>

lemma account_ops_prev:
  "adjustAvailable a d s = Inr t \<Longrightarrow> store_prev t = store_prev s"
  "adjustLocked a d s = Inr t \<Longrightarrow> store_prev t = store_prev s"
  "increaseNonce a s = Inr t \<Longrightarrow> store_prev t = store_prev s"
  by (auto simp: adjustAvailable_def adjustLocked_def increaseNonce_def rbind_eq_Inr)

lemma account_ops_overlay:
  "adjustAvailable a d s = Inr t \<Longrightarrow> store_overlay s \<Longrightarrow> store_overlay t"
  "adjustLocked a d s = Inr t \<Longrightarrow> store_overlay s \<Longrightarrow> store_overlay t"
  "increaseNonce a s = Inr t \<Longrightarrow> store_overlay s \<Longrightarrow> store_overlay t"
  by (auto simp: adjustAvailable_def adjustLocked_def increaseNonce_def rbind_eq_Inr store_put_overlay)

lemma account_ops_ok:
  "adjustAvailable a d s = Inr t \<Longrightarrow> store_ok s \<Longrightarrow> store_ok t"
  "adjustLocked a d s = Inr t \<Longrightarrow> store_ok s \<Longrightarrow> store_ok t"
  "increaseNonce a s = Inr t \<Longrightarrow> store_ok s \<Longrightarrow> store_ok t"
  by (auto simp: adjustAvailable_def adjustLocked_def increaseNonce_def rbind_eq_Inr store_put_ok)

lemma account_view: "store_get s = store_get t \<Longrightarrow> account s = account t \<and> accounts_ok s = accounts_ok t"
  by (simp add: fun_eq_iff account_def getAccount_def accounts_ok_def)

text \<open>The layered contract at the level of accounts.\<close>

interpretation account_layers: layered_store "\<lambda>s. store_ok s \<and> accounts_ok s"
  "\<lambda>s. store_overlay s \<and> accounts_ok s \<and> accounts_ok (store_prev s)"
  account store_prev AccountState_track AccountState_commit AccountState_rollback
proof (unfold_locales, goal_cases)
  case (1 s)
  then show ?case by (simp add: layers.wf_overlay)
next
  case (2 s)
  then show ?case by (simp add: layers.wf_prev)
next
  case (3 s)
  then show ?case
    using account_view [of "store_track s" s]
    by (simp add: AccountState_track_def layers.track_overlay layers.track_view layers.track_prev)
next
  case (4 s)
  then show ?case
    using account_view [of "store_track s" s] by (simp add: AccountState_track_def layers.track_view)
next
  case (5 s)
  then show ?case by (simp add: AccountState_track_def layers.track_prev)
next
  case (6 s)
  then show ?case using account_view [of "store_commit s" s]
    by (simp add: AccountState_commit_def layers.commit_wf layers.commit_view)
next
  case (7 s)
  then show ?case
    using account_view [of "store_commit s" s] account_view [of "store_prev (store_commit s)" s]
    by (simp add: AccountState_commit_def layers.commit_overlay layers.commit_view layers.commit_prev
        layers.wf_overlay)
next
  case (8 s)
  then show ?case using account_view [of "store_commit s" s]
    by (simp add: AccountState_commit_def layers.commit_view)
next
  case (9 s)
  then show ?case using account_view [of "store_prev (store_commit s)" s]
    by (simp add: AccountState_commit_def layers.commit_prev)
next
  case (10 s)
  then show ?case using account_view [of "store_rollback s" "store_prev s"]
    by (simp add: AccountState_rollback_def layers.rollback_overlay layers.rollback_view layers.rollback_prev)
next
  case (11 s)
  then show ?case using account_view [of "store_rollback s" "store_prev s"]
    by (simp add: AccountState_rollback_def layers.rollback_view)
next
  case (12 s)
  then show ?case by (simp add: AccountState_rollback_def layers.rollback_prev)
qed

end
