(* ===== verification/DelegateModel.thy ===== *)
theory DelegateModel
  imports Store AmountModel
begin

text \<open>
  \<open>Delegate\<close> and \<open>DelegateStateImpl\<close> of \<open>org.semux.core.state\<close>: the registry of delegates by
  name and address, the votes each voter has given, and the ranking the validators are chosen from.
  A delegate state is a pair of \<open>store\<close>s of the same depth, one for delegates and one for votes.
\<close>

section \<open>Delegate\<close>

record Delegate =
  del_address :: bytes
  del_name :: bytes
  del_registeredAt :: jlong
  del_votes :: Amount

definition Delegate_toBytes :: "Delegate \<Rightarrow> bytes res" where
  "Delegate_toBytes d =
     encode [writeBytes (del_name d), writeLong (del_registeredAt d), writeAmount (del_votes d)]"

definition Delegate_fromBytes :: "bytes \<Rightarrow> bytes \<Rightarrow> Delegate res" where
  "Delegate_fromBytes address bs =
     rbind (readBytes (SimpleDecoder_new bs)) (\<lambda>(name, d).
     rbind (readLong d) (\<lambda>(registeredAt, d).
     rbind (readAmount d) (\<lambda>(votes, d).
       Inr \<lparr>del_address = address, del_name = name, del_registeredAt = registeredAt, del_votes = votes\<rparr>)))"

definition delegate_image :: "Delegate \<Rightarrow> bytes" where
  "delegate_image d =
     bytes_image (del_name d) @ long_image (del_registeredAt d) @ amount_image (del_votes d)"

lemma Delegate_toBytes_eq:
  "Delegate_toBytes d = (if bytes_ok (del_name d) then Inr (delegate_image d) else Inl IllegalArgument)"
  by (simp add: Delegate_toBytes_def delegate_image_def)

lemma Delegate_fromBytes_image:
  "bytes_ok (del_name d) \<Longrightarrow> Delegate_fromBytes a (delegate_image d) = Inr (d\<lparr>del_address := a\<rparr>)"
  by (simp add: Delegate_fromBytes_def delegate_image_def SimpleDecoder_new_at)

text \<open>
  The name as a Java string: UTF-8 decoded into UTF-16 code units, which is what
  \<open>String.compareTo\<close> compares. A byte that starts no well-formed sequence becomes U+FFFD.
\<close>

definition utf8_tail :: "jbyte \<Rightarrow> bool" where
  "utf8_tail b \<longleftrightarrow> 0x80 \<le> unat b \<and> unat b < 0xC0"

definition utf16_units :: "nat \<Rightarrow> nat list" where
  "utf16_units c = (if c < 0x10000 then [c]
     else [0xD800 + (c - 0x10000) div 0x400, 0xDC00 + (c - 0x10000) mod 0x400])"

function utf8_decode :: "bytes \<Rightarrow> nat list" where
  "utf8_decode [] = []"
| "utf8_decode (b # bs) =
     (let x = unat b; y = unat (bs ! 0) mod 0x40; z = unat (bs ! 1) mod 0x40; w = unat (bs ! 2) mod 0x40;
          c2 = (x mod 0x20) * 0x40 + y; c3 = (x mod 0x10) * 0x1000 + y * 0x40 + z;
          c4 = (x mod 0x08) * 0x40000 + y * 0x1000 + z * 0x40 + w
      in if x < 0x80 then x # utf8_decode bs
         else if 0xC2 \<le> x \<and> x < 0xE0 \<and> length bs \<ge> 1 \<and> utf8_tail (bs ! 0)
              then c2 # utf8_decode (drop 1 bs)
         else if 0xE0 \<le> x \<and> x < 0xF0 \<and> length bs \<ge> 2 \<and> list_all utf8_tail (take 2 bs) \<and>
                 0x800 \<le> c3 \<and> \<not> (0xD800 \<le> c3 \<and> c3 < 0xE000)
              then c3 # utf8_decode (drop 2 bs)
         else if 0xF0 \<le> x \<and> x < 0xF5 \<and> length bs \<ge> 3 \<and> list_all utf8_tail (take 3 bs) \<and>
                 0x10000 \<le> c4 \<and> c4 < 0x110000
              then utf16_units c4 @ utf8_decode (drop 3 bs)
         else 0xFFFD # utf8_decode bs)"
  by pat_completeness auto
termination by (relation "measure length") auto

definition getNameString :: "Delegate \<Rightarrow> nat list" where
  "getNameString d = utf8_decode (del_name d)"

lemma utf8_decode_ascii: "list_all (\<lambda>b. unat b < 0x80) bs \<Longrightarrow> utf8_decode bs = map unat bs"
  by (induction bs) (auto simp: Let_def)

section \<open>DelegateStateImpl\<close>

record DelegateState =
  ds_delegates :: store
  ds_votes :: store

definition ADDRESS_LENGTH :: nat where "ADDRESS_LENGTH = 20"

definition DelegateState_new :: "database \<Rightarrow> database \<Rightarrow> DelegateState" where
  "DelegateState_new delegateDB voteDB =
     \<lparr>ds_delegates = store_new delegateDB, ds_votes = store_new voteDB\<rparr>"

definition put_delegate :: "bytes \<Rightarrow> bytes \<Rightarrow> DelegateState \<Rightarrow> DelegateState" where
  "put_delegate k v ds = ds\<lparr>ds_delegates := store_put k v (ds_delegates ds)\<rparr>"

definition put_vote :: "bytes \<Rightarrow> bytes \<Rightarrow> DelegateState \<Rightarrow> DelegateState" where
  "put_vote k v ds = ds\<lparr>ds_votes := store_put k v (ds_votes ds)\<rparr>"

definition encodeAmount :: "Amount \<Rightarrow> bytes" where
  "encodeAmount a = bytes_of_long (nano a)"

definition decodeAmount :: "bytes option \<Rightarrow> Amount res" where
  "decodeAmount bs =
     (case bs of None \<Rightarrow> Inr ZERO | Some b \<Rightarrow> rbind (bytes_toLong b) (Unit_of NANO_SEM))"

definition address_lookup :: "updates list \<Rightarrow> database \<Rightarrow> bytes \<Rightarrow> Delegate option res" where
  "address_lookup us db address =
     (case lookup_layers us db address of
        None \<Rightarrow> Inr None
      | Some v \<Rightarrow> rmap Some (Delegate_fromBytes address v))"

definition getDelegateByAddress :: "bytes \<Rightarrow> DelegateState \<Rightarrow> Delegate option res" where
  "getDelegateByAddress address ds =
     address_lookup (st_layers (ds_delegates ds)) (st_db (ds_delegates ds)) address"

text \<open>
  The object of the chain that knows the name resolves the address itself: updates made above it
  do not show in the result.
\<close>

fun name_lookup :: "updates list \<Rightarrow> database \<Rightarrow> bytes \<Rightarrow> Delegate option res" where
  "name_lookup [] db name =
     (case db_get db name of None \<Rightarrow> Inr None | Some v \<Rightarrow> address_lookup [] db v)"
| "name_lookup [u] db name =
     (case map_of u name of
        Some None \<Rightarrow> Inr None
      | Some (Some v) \<Rightarrow> address_lookup [u] db v
      | None \<Rightarrow> (case db_get db name of None \<Rightarrow> Inr None | Some v \<Rightarrow> address_lookup [u] db v))"
| "name_lookup (u # p # ps) db name =
     (case map_of u name of
        Some None \<Rightarrow> Inr None
      | Some (Some v) \<Rightarrow> address_lookup (u # p # ps) db v
      | None \<Rightarrow> name_lookup (p # ps) db name)"

definition getDelegateByName :: "bytes \<Rightarrow> DelegateState \<Rightarrow> Delegate option res" where
  "getDelegateByName name ds =
     name_lookup (st_layers (ds_delegates ds)) (st_db (ds_delegates ds)) name"

definition DelegateState_register :: "bytes \<Rightarrow> bytes \<Rightarrow> jlong \<Rightarrow> DelegateState \<Rightarrow> (bool \<times> DelegateState) res" where
  "DelegateState_register address name registeredAt ds =
     rbind (getDelegateByAddress address ds) (\<lambda>d1.
     if d1 \<noteq> None then Inr (False, ds)
     else rbind (getDelegateByName name ds) (\<lambda>d2.
     if d2 \<noteq> None then Inr (False, ds)
     else
       let d = \<lparr>del_address = address, del_name = name, del_registeredAt = registeredAt, del_votes = ZERO\<rparr>
       in rbind (Delegate_toBytes d) (\<lambda>bs.
            Inr (True, put_delegate address bs (put_delegate name address ds)))))"

text \<open>\<open>register(address, name)\<close> takes the number after the latest block from the chain.\<close>

definition DelegateState_registerAtNext ::
  "jlong \<Rightarrow> bytes \<Rightarrow> bytes \<Rightarrow> DelegateState \<Rightarrow> (bool \<times> DelegateState) res" where
  "DelegateState_registerAtNext latestBlockNumber address name ds =
     DelegateState_register address name (latestBlockNumber + 1) ds"

definition getVote_key :: "bytes \<Rightarrow> DelegateState \<Rightarrow> Amount res" where
  "getVote_key key ds = decodeAmount (store_get (ds_votes ds) key)"

definition getVote :: "bytes \<Rightarrow> bytes \<Rightarrow> DelegateState \<Rightarrow> Amount res" where
  "getVote voter delegate ds = getVote_key (merge2 delegate voter) ds"

definition DelegateState_vote :: "bytes \<Rightarrow> bytes \<Rightarrow> Amount \<Rightarrow> DelegateState \<Rightarrow> (bool \<times> DelegateState) res" where
  "DelegateState_vote voter delegate v ds =
     (let key = merge2 delegate voter in
      rbind (getVote_key key ds) (\<lambda>value.
      rbind (getDelegateByAddress delegate ds) (\<lambda>d.
      case d of
        None \<Rightarrow> Inr (False, ds)
      | Some d \<Rightarrow>
          rbind (Amount_sum value v) (\<lambda>value'.
          rbind (Amount_sum (del_votes d) v) (\<lambda>votes.
          rbind (Delegate_toBytes (d\<lparr>del_votes := votes\<rparr>)) (\<lambda>bs.
            Inr (True, put_delegate delegate bs (put_vote key (encodeAmount value') ds))))))))"

definition DelegateState_unvote :: "bytes \<Rightarrow> bytes \<Rightarrow> Amount \<Rightarrow> DelegateState \<Rightarrow> (bool \<times> DelegateState) res" where
  "DelegateState_unvote voter delegate v ds =
     (let key = merge2 delegate voter in
      rbind (getVote_key key ds) (\<lambda>value.
      if gt v value then Inr (False, ds)
      else
        rbind (Amount_sub value v) (\<lambda>value'.
        rbind (getDelegateByAddress delegate ds) (\<lambda>d.
        rbind (non_null d) (\<lambda>d.
        rbind (Amount_sub (del_votes d) v) (\<lambda>votes.
        rbind (Delegate_toBytes (d\<lparr>del_votes := votes\<rparr>)) (\<lambda>bs.
          Inr (True, put_delegate delegate bs (put_vote key (encodeAmount value') ds)))))))))"

subsection \<open>Listing the delegates and the votes\<close>

definition note_delegate ::
  "bytes \<times> bytes option \<Rightarrow> (bytes \<times> Delegate option) list \<Rightarrow> (bytes \<times> Delegate option) list res" where
  "note_delegate e m =
     (if length (fst e) = ADDRESS_LENGTH \<and> map_of m (fst e) = None
      then (case snd e of
              None \<Rightarrow> Inr (m @ [(fst e, None)])
            | Some v \<Rightarrow> rmap (\<lambda>d. m @ [(fst e, Some d)]) (Delegate_fromBytes (fst e) v))
      else Inr m)"

text \<open>From the object's own updates down to the database; an entry above hides those below.\<close>

fun collect_delegates ::
  "updates list \<Rightarrow> database \<Rightarrow> (bytes \<times> Delegate option) list \<Rightarrow> (bytes \<times> Delegate option) list res" where
  "collect_delegates [] db m = rfold note_delegate (map (\<lambda>(k, v). (k, Some v)) (db_iterator db None)) m"
| "collect_delegates (u # us) db m = rbind (rfold note_delegate u m) (collect_delegates us db)"

definition delegate_rank :: "Delegate \<Rightarrow> int \<times> nat list" where
  "delegate_rank d = (- am (del_votes d), getNameString d)"

text \<open>
  The comparator dereferences both sides, so a null among several entries would raise; a list of
  one entry is not compared.
\<close>

definition sort_delegates :: "Delegate option list \<Rightarrow> Delegate option list res" where
  "sort_delegates xs =
     (if length xs \<le> 1 then Inr xs
      else rmap (\<lambda>ds. map Some (sort_key delegate_rank ds)) (rmapM non_null xs))"

definition getDelegates :: "DelegateState \<Rightarrow> Delegate option list res" where
  "getDelegates ds =
     rbind (collect_delegates (st_layers (ds_delegates ds)) (st_db (ds_delegates ds)) []) (\<lambda>m.
       sort_delegates (map snd m))"

text \<open>\<open>Arrays.copyOf(a, n)\<close> and \<open>Arrays.copyOfRange(a, from, to)\<close>: missing elements are zero.\<close>

definition copyOf :: "bytes \<Rightarrow> nat \<Rightarrow> bytes" where
  "copyOf a n = take n a @ replicate (n - length a) 0"

definition copyOfRange :: "bytes \<Rightarrow> nat \<Rightarrow> nat \<Rightarrow> bytes res" where
  "copyOfRange a from to =
     (if from > length a then Inl IndexOutOfBounds else Inr (copyOf (drop from a) (to - from)))"

fun getVotes_loop ::
  "bytes \<Rightarrow> (bytes \<times> bytes) list \<Rightarrow> (bytes \<times> Amount) list \<Rightarrow> (bytes \<times> Amount) list res" where
  "getVotes_loop delegate [] result = Inr result"
| "getVotes_loop delegate (e # es) result =
     rbind (copyOfRange (fst e) 20 40) (\<lambda>v.
     if delegate \<noteq> copyOf (fst e) 20 then Inr result
     else rbind (bytes_toLong (snd e)) (\<lambda>l.
       if l \<noteq> 0
       then rbind (decodeAmount (Some (snd e))) (\<lambda>a.
              getVotes_loop delegate es (AList.update v a result))
       else getVotes_loop delegate es result))"

text \<open>Only an object that works directly on the database has a vote database to iterate.\<close>

definition getVotes :: "bytes \<Rightarrow> DelegateState \<Rightarrow> (bytes \<times> Amount) list res" where
  "getVotes delegate ds =
     (if length (st_layers (ds_votes ds)) \<noteq> 1 then Inl NullPointer
      else getVotes_loop delegate (db_iterator (st_db (ds_votes ds)) (Some delegate)) [])"

subsection \<open>Tracking\<close>

definition DelegateState_track :: "DelegateState \<Rightarrow> DelegateState" where
  "DelegateState_track ds =
     \<lparr>ds_delegates = store_track (ds_delegates ds), ds_votes = store_track (ds_votes ds)\<rparr>"

definition DelegateState_prev :: "DelegateState \<Rightarrow> DelegateState" where
  "DelegateState_prev ds =
     \<lparr>ds_delegates = store_prev (ds_delegates ds), ds_votes = store_prev (ds_votes ds)\<rparr>"

definition DelegateState_commit :: "DelegateState \<Rightarrow> DelegateState" where
  "DelegateState_commit ds =
     \<lparr>ds_delegates = store_commit (ds_delegates ds), ds_votes = store_commit (ds_votes ds)\<rparr>"

definition DelegateState_rollback :: "DelegateState \<Rightarrow> DelegateState" where
  "DelegateState_rollback ds =
     \<lparr>ds_delegates = store_rollback (ds_delegates ds), ds_votes = store_rollback (ds_votes ds)\<rparr>"

definition ds_ok :: "DelegateState \<Rightarrow> bool" where
  "ds_ok ds \<longleftrightarrow> store_ok (ds_delegates ds) \<and> store_ok (ds_votes ds)"

definition ds_overlay :: "DelegateState \<Rightarrow> bool" where
  "ds_overlay ds \<longleftrightarrow> store_overlay (ds_delegates ds) \<and> store_overlay (ds_votes ds)"

definition ds_view :: "DelegateState \<Rightarrow> bytes + bytes \<Rightarrow> bytes option" where
  "ds_view ds k = (case k of Inl key \<Rightarrow> store_get (ds_delegates ds) key | Inr key \<Rightarrow> store_get (ds_votes ds) key)"

lemma ds_view_eqI:
  "store_get (ds_delegates a) = store_get (ds_delegates b) \<Longrightarrow>
   store_get (ds_votes a) = store_get (ds_votes b) \<Longrightarrow> ds_view a = ds_view b"
  by (simp add: fun_eq_iff ds_view_def split: sum.split)

lemmas ds_ops_defs = DelegateState_track_def DelegateState_prev_def DelegateState_commit_def
  DelegateState_rollback_def ds_ok_def ds_overlay_def

interpretation delegate_layers: layered_store ds_ok ds_overlay ds_view DelegateState_prev
  DelegateState_track DelegateState_commit DelegateState_rollback
  by unfold_locales
    (auto simp: ds_ops_defs layers.wf_overlay layers.wf_prev layers.track_overlay layers.track_view
      layers.track_prev layers.commit_wf layers.commit_overlay layers.commit_view layers.commit_prev
      layers.rollback_overlay layers.rollback_view layers.rollback_prev intro!: ds_view_eqI)

section \<open>The registry invariant\<close>

text \<open>
  The two kinds of entries of the delegate map point at each other: an address maps to a delegate
  whose name maps back, and a name maps to the address of the delegate so called.
\<close>

definition registry_map :: "(bytes \<Rightarrow> bytes option) \<Rightarrow> bool" where
  "registry_map m \<longleftrightarrow> (\<forall>k v. m k = Some v \<longrightarrow>
     (if length k = ADDRESS_LENGTH
      then \<exists>d. v = delegate_image d \<and> bytes_ok (del_name d) \<and> length (del_name d) \<noteq> ADDRESS_LENGTH \<and>
               m (del_name d) = Some k
      else length v = ADDRESS_LENGTH \<and>
           (\<exists>d. m v = Some (delegate_image d) \<and> bytes_ok (del_name d) \<and> del_name d = k)))"

lemma delegate_image_inject:
  assumes "delegate_image d = delegate_image e" "bytes_ok (del_name d)" "bytes_ok (del_name e)"
  shows "del_name d = del_name e" "del_registeredAt d = del_registeredAt e" "del_votes d = del_votes e"
proof -
  have "Inr (d\<lparr>del_address := []\<rparr>) = (Inr (e\<lparr>del_address := []\<rparr>) :: Delegate res)"
    using assms Delegate_fromBytes_image by metis
  then have eq: "d\<lparr>del_address := []\<rparr> = e\<lparr>del_address := []\<rparr>" by simp
  show "del_name d = del_name e" "del_registeredAt d = del_registeredAt e" "del_votes d = del_votes e"
    using arg_cong [OF eq, of del_name] arg_cong [OF eq, of del_registeredAt] arg_cong [OF eq, of del_votes]
    by simp_all
qed

lemma registry_address:
  "registry_map m \<Longrightarrow> length a = ADDRESS_LENGTH \<Longrightarrow> m a = Some v \<Longrightarrow>
   \<exists>d. v = delegate_image d \<and> bytes_ok (del_name d) \<and> length (del_name d) \<noteq> ADDRESS_LENGTH \<and> m (del_name d) = Some a"
  unfolding registry_map_def by metis

lemma registry_name:
  "registry_map m \<Longrightarrow> length n \<noteq> ADDRESS_LENGTH \<Longrightarrow> m n = Some v \<Longrightarrow>
   length v = ADDRESS_LENGTH \<and> (\<exists>d. m v = Some (delegate_image d) \<and> bytes_ok (del_name d) \<and> del_name d = n)"
  unfolding registry_map_def by metis

lemma registry_register:
  assumes m: "registry_map m" and a: "m a = None" "length a = ADDRESS_LENGTH"
    and n: "m n = None" "length n \<noteq> ADDRESS_LENGTH" and d: "del_name d = n" "bytes_ok n"
  shows "registry_map (m(n \<mapsto> a, a \<mapsto> delegate_image d))" (is "registry_map ?m")
  unfolding registry_map_def
proof (intro allI impI)
  fix k v assume kv: "?m k = Some v"
  have na: "n \<noteq> a" using a n by auto
  show "if length k = ADDRESS_LENGTH
      then \<exists>d. v = delegate_image d \<and> bytes_ok (del_name d) \<and> length (del_name d) \<noteq> ADDRESS_LENGTH \<and>
               ?m (del_name d) = Some k
      else length v = ADDRESS_LENGTH \<and> (\<exists>d. ?m v = Some (delegate_image d) \<and> bytes_ok (del_name d) \<and> del_name d = k)"
  proof (cases "k = a \<or> k = n")
    case True
    have "?m a = Some (delegate_image d)" "?m n = Some a" using na by simp_all
    with True show ?thesis using kv na a(2) n(2) d by (elim disjE) (auto intro!: exI [of _ d])
  next
    case False
    with kv have mk: "m k = Some v" by simp
    show ?thesis
    proof (cases "length k = ADDRESS_LENGTH")
      case True
      with registry_address [OF m _ mk] a n obtain e where "v = delegate_image e" "bytes_ok (del_name e)"
        "length (del_name e) \<noteq> ADDRESS_LENGTH" "m (del_name e) = Some k" by blast
      with True a n show ?thesis by auto
    next
      case len: False
      with registry_name [OF m _ mk] a n obtain e where "length v = ADDRESS_LENGTH" "m v = Some (delegate_image e)"
        "bytes_ok (del_name e)" "del_name e = k" by blast
      with len a n show ?thesis by auto
    qed
  qed
qed

lemma registry_revote:
  assumes m: "registry_map m" and a: "m a = Some (delegate_image d)" "length a = ADDRESS_LENGTH"
    and d: "bytes_ok (del_name d)" and e: "del_name e = del_name d"
  shows "registry_map (m(a \<mapsto> delegate_image e))" (is "registry_map ?m")
  unfolding registry_map_def
proof (intro allI impI)
  fix k v assume kv: "?m k = Some v"
  from registry_address [OF m a(2,1)] obtain g where g: "delegate_image d = delegate_image g"
    "bytes_ok (del_name g)" "length (del_name g) \<noteq> ADDRESS_LENGTH" "m (del_name g) = Some a" by blast
  with delegate_image_inject(1) [OF g(1) d g(2)]
  have nd: "length (del_name d) \<noteq> ADDRESS_LENGTH" "m (del_name d) = Some a" by simp_all
  then have ne: "del_name d \<noteq> a" using a by auto
  show "if length k = ADDRESS_LENGTH
      then \<exists>d. v = delegate_image d \<and> bytes_ok (del_name d) \<and> length (del_name d) \<noteq> ADDRESS_LENGTH \<and>
               ?m (del_name d) = Some k
      else length v = ADDRESS_LENGTH \<and> (\<exists>d. ?m v = Some (delegate_image d) \<and> bytes_ok (del_name d) \<and> del_name d = k)"
  proof (cases "k = a")
    case True
    then have "v = delegate_image e" "?m (del_name e) = Some k" using kv nd ne e by simp_all
    with True show ?thesis using nd d e a(2) by (auto intro!: exI [of _ e])
  next
    case False
    with kv have mk: "m k = Some v" by simp
    show ?thesis
    proof (cases "length k = ADDRESS_LENGTH")
      case True
      from registry_address [OF m True mk] obtain h where "v = delegate_image h" "bytes_ok (del_name h)"
        "length (del_name h) \<noteq> ADDRESS_LENGTH" "m (del_name h) = Some k" by blast
      moreover then have "del_name h \<noteq> a" using a(2) by auto
      ultimately show ?thesis using True by auto
    next
      case len: False
      with registry_name [OF m len mk] obtain f where f: "length v = ADDRESS_LENGTH"
        "m v = Some (delegate_image f)" "bytes_ok (del_name f)" "del_name f = k" by blast
      show ?thesis
      proof (cases "v = a")
        case True
        then have "del_name e = k" using f a d e delegate_image_inject(1) [of f d] by auto
        with True len f(1) d e show ?thesis by auto
      next
        case False
        with f len show ?thesis by auto
      qed
    qed
  qed
qed

definition delegates_ok :: "DelegateState \<Rightarrow> bool" where
  "delegates_ok ds \<longleftrightarrow> store_ok (ds_delegates ds) \<and> store_all registry_map (ds_delegates ds)"

definition votes_ok :: "DelegateState \<Rightarrow> bool" where
  "votes_ok ds \<longleftrightarrow> store_ok (ds_votes ds) \<and> (\<forall>k v. store_get (ds_votes ds) k = Some v \<longrightarrow> length v = 8)"

text \<open>What a state says: the delegate at an address, and the vote under a key.\<close>

definition deleg :: "DelegateState \<Rightarrow> bytes \<Rightarrow> Delegate option" where
  "deleg ds a = (case getDelegateByAddress a ds of Inl _ \<Rightarrow> None | Inr d \<Rightarrow> d)"

definition vote_at :: "DelegateState \<Rightarrow> bytes \<Rightarrow> Amount" where
  "vote_at ds k = (case getVote_key k ds of Inl _ \<Rightarrow> ZERO | Inr a \<Rightarrow> a)"

definition ballot :: "DelegateState \<Rightarrow> bytes \<Rightarrow> bytes \<Rightarrow> Amount" where
  "ballot ds voter delegate = vote_at ds (merge2 delegate voter)"

lemma delegates_ok_map: "delegates_ok ds \<Longrightarrow> registry_map (store_get (ds_delegates ds))"
  by (simp add: delegates_ok_def store_all_get)

lemma getDelegateByAddress_eq:
  "getDelegateByAddress a ds =
     (case store_get (ds_delegates ds) a of None \<Rightarrow> Inr None | Some v \<Rightarrow> rmap Some (Delegate_fromBytes a v))"
  by (simp add: getDelegateByAddress_def address_lookup_def store_get_def)

lemma getDelegateByAddress_ok:
  assumes "delegates_ok ds" "length a = ADDRESS_LENGTH"
  shows "getDelegateByAddress a ds = Inr (deleg ds a)"
  using registry_address [OF delegates_ok_map [OF assms(1)] assms(2)]
  by (cases "store_get (ds_delegates ds) a")
    (auto simp: deleg_def getDelegateByAddress_eq Delegate_fromBytes_image)

lemma deleg_Some:
  assumes "delegates_ok ds" "length a = ADDRESS_LENGTH" "deleg ds a = Some d"
  shows "store_get (ds_delegates ds) a = Some (delegate_image d)" "bytes_ok (del_name d)"
    "length (del_name d) \<noteq> ADDRESS_LENGTH" "store_get (ds_delegates ds) (del_name d) = Some a" "del_address d = a"
proof -
  obtain v where v: "store_get (ds_delegates ds) a = Some v"
    using assms by (auto simp: deleg_def getDelegateByAddress_eq split: option.splits)
  from registry_address [OF delegates_ok_map [OF assms(1)] assms(2) v] obtain e where
    e: "v = delegate_image e" "bytes_ok (del_name e)" "length (del_name e) \<noteq> ADDRESS_LENGTH"
      "store_get (ds_delegates ds) (del_name e) = Some a" by blast
  have d: "d = e\<lparr>del_address := a\<rparr>"
    using assms(3) v e by (simp add: deleg_def getDelegateByAddress_eq Delegate_fromBytes_image)
  show "store_get (ds_delegates ds) a = Some (delegate_image d)" using v e d by (simp add: delegate_image_def)
  show "bytes_ok (del_name d)" "length (del_name d) \<noteq> ADDRESS_LENGTH"
    "store_get (ds_delegates ds) (del_name d) = Some a" "del_address d = a"
    using e d by simp_all
qed

lemma deleg_None:
  "delegates_ok ds \<Longrightarrow> length a = ADDRESS_LENGTH \<Longrightarrow> deleg ds a = None \<longleftrightarrow> store_get (ds_delegates ds) a = None"
  using getDelegateByAddress_ok [of ds a]
  by (auto simp: getDelegateByAddress_eq rmap_eq_Inr split: option.splits)

text \<open>Two delegates never share a name.\<close>

lemma delegates_names_unique:
  assumes "delegates_ok ds" "length a = ADDRESS_LENGTH" "length b = ADDRESS_LENGTH"
    "deleg ds a = Some d" "deleg ds b = Some e" "del_name d = del_name e"
  shows "a = b"
  using deleg_Some(4) [OF assms(1,2,4)] deleg_Some(4) [OF assms(1,3,5)] assms(6) by simp

text \<open>A name is found exactly when the map holds it, at whatever level that is.\<close>

lemma address_lookup_registry:
  assumes "registry_map (lookup_layers us db)" "length n \<noteq> ADDRESS_LENGTH" "lookup_layers us db n = Some v"
  shows "\<exists>d. address_lookup us db v = Inr (Some d) \<and> del_name d = n \<and> del_address d = v"
  using registry_name [OF assms] by (auto simp: address_lookup_def Delegate_fromBytes_image)

lemma name_lookup_ok:
  assumes "us \<noteq> []" "\<forall>i < length us. registry_map (lookup_layers (drop i us) db)"
    "length n \<noteq> ADDRESS_LENGTH"
  shows "(lookup_layers us db n = None \<and> name_lookup us db n = Inr None) \<or>
    (\<exists>d. lookup_layers us db n = Some (del_address d) \<and> name_lookup us db n = Inr (Some d) \<and> del_name d = n)"
  using assms
proof (induction us db n rule: name_lookup.induct)
  case (2 u db n)
  then have r: "registry_map (lookup_layers [u] db)" using drop_0 [of "[u]"] by (metis length_Cons zero_less_Suc)
  show ?case
    using address_lookup_registry [OF r 2(3)] by (auto split: option.splits)
next
  case (3 u p ps db n)
  then have r: "registry_map (lookup_layers (u # p # ps) db)" by (auto simp: all_less_Suc)
  show ?case
    using address_lookup_registry [OF r 3(4)] 3 by (auto simp: all_less_Suc split: option.splits)
qed simp

lemma getDelegateByName_ok:
  assumes "delegates_ok ds" "length n \<noteq> ADDRESS_LENGTH"
  shows "(store_get (ds_delegates ds) n = None \<and> getDelegateByName n ds = Inr None) \<or>
    (\<exists>d. store_get (ds_delegates ds) n = Some (del_address d) \<and>
         getDelegateByName n ds = Inr (Some d) \<and> del_name d = n)"
  using assms name_lookup_ok [of "st_layers (ds_delegates ds)" "st_db (ds_delegates ds)" n]
  by (simp add: delegates_ok_def store_ok_def store_all_def getDelegateByName_def store_get_def)

lemma name_taken_iff:
  assumes "delegates_ok ds" "length n \<noteq> ADDRESS_LENGTH"
  shows "store_get (ds_delegates ds) n \<noteq> None \<longleftrightarrow>
    (\<exists>a d. length a = ADDRESS_LENGTH \<and> deleg ds a = Some d \<and> del_name d = n)"
proof
  assume "store_get (ds_delegates ds) n \<noteq> None"
  then obtain v where v: "store_get (ds_delegates ds) n = Some v" by blast
  from registry_name [OF delegates_ok_map [OF assms(1)] assms(2) v] obtain d where
    d: "length v = ADDRESS_LENGTH" "store_get (ds_delegates ds) v = Some (delegate_image d)"
      "bytes_ok (del_name d)" "del_name d = n" by blast
  then have "deleg ds v = Some (d\<lparr>del_address := v\<rparr>)"
    by (simp add: deleg_def getDelegateByAddress_eq Delegate_fromBytes_image)
  with d show "\<exists>a d. length a = ADDRESS_LENGTH \<and> deleg ds a = Some d \<and> del_name d = n"
    by (intro exI [of _ v] exI [of _ "d\<lparr>del_address := v\<rparr>"]) simp
next
  assume "\<exists>a d. length a = ADDRESS_LENGTH \<and> deleg ds a = Some d \<and> del_name d = n"
  then show "store_get (ds_delegates ds) n \<noteq> None" using deleg_Some(4) [OF assms(1)] by auto
qed

section \<open>The contract of the delegate state\<close>

text \<open>
  How a vote moves: the votes of the delegate and the ballot of the voter change by the same
  number, and nothing else changes.
\<close>

definition votes_moved ::
  "(bytes \<Rightarrow> Delegate option) \<Rightarrow> (bytes \<Rightarrow> bytes \<Rightarrow> Amount) \<Rightarrow>
   (bytes \<Rightarrow> Delegate option) \<Rightarrow> (bytes \<Rightarrow> bytes \<Rightarrow> Amount) \<Rightarrow> bytes \<Rightarrow> bytes \<Rightarrow> int \<Rightarrow> bool" where
  "votes_moved dl bl dl' bl' voter delegate x \<longleftrightarrow>
     (\<exists>d. dl delegate = Some d \<and> in_long (am (del_votes d) + x) \<and>
        (\<forall>e. length e = ADDRESS_LENGTH \<longrightarrow> dl' e =
           (if e = delegate then Some (d\<lparr>del_votes := mk_amount (am (del_votes d) + x)\<rparr>) else dl e))) \<and>
     (\<forall>u e. length e = ADDRESS_LENGTH \<longrightarrow>
        am (bl' u e) = am (bl u e) + (if u = voter \<and> e = delegate then x else 0))"

definition name_free :: "(bytes \<Rightarrow> Delegate option) \<Rightarrow> bytes \<Rightarrow> bool" where
  "name_free dl n \<longleftrightarrow> (\<forall>c d. length c = ADDRESS_LENGTH \<longrightarrow> dl c = Some d \<longrightarrow> del_name d \<noteq> n)"

definition new_delegate :: "bytes \<Rightarrow> bytes \<Rightarrow> jlong \<Rightarrow> Delegate" where
  "new_delegate address name registeredAt =
     \<lparr>del_address = address, del_name = name, del_registeredAt = registeredAt, del_votes = ZERO\<rparr>"

locale registry =
  fixes wf :: "'s \<Rightarrow> bool"
    and dele :: "'s \<Rightarrow> bytes \<Rightarrow> Delegate option"
    and ball :: "'s \<Rightarrow> bytes \<Rightarrow> bytes \<Rightarrow> Amount"
    and reg :: "bytes \<Rightarrow> bytes \<Rightarrow> jlong \<Rightarrow> 's \<Rightarrow> (bool \<times> 's) res"
    and vote :: "bytes \<Rightarrow> bytes \<Rightarrow> Amount \<Rightarrow> 's \<Rightarrow> (bool \<times> 's) res"
    and unvote :: "bytes \<Rightarrow> bytes \<Rightarrow> Amount \<Rightarrow> 's \<Rightarrow> (bool \<times> 's) res"
  assumes reg_ok: "wf s \<Longrightarrow> length a = ADDRESS_LENGTH \<Longrightarrow> length n \<noteq> ADDRESS_LENGTH \<Longrightarrow> bytes_ok n \<Longrightarrow>
      is_ok (reg a n t s)"
    and reg_result: "wf s \<Longrightarrow> length a = ADDRESS_LENGTH \<Longrightarrow> length n \<noteq> ADDRESS_LENGTH \<Longrightarrow>
      reg a n t s = Inr (b, s') \<Longrightarrow>
      wf s' \<and> ball s' = ball s \<and> (b \<longleftrightarrow> dele s a = None \<and> name_free (dele s) n) \<and> (\<not> b \<longrightarrow> s' = s) \<and>
      (b \<longrightarrow> (\<forall>c. length c = ADDRESS_LENGTH \<longrightarrow>
         dele s' c = (if c = a then Some (new_delegate a n t) else dele s c)))"
    and vote_Inl: "wf s \<Longrightarrow> length c = ADDRESS_LENGTH \<Longrightarrow> vote w c v s = Inl e \<longleftrightarrow>
      e = ArithmeticOverflow \<and> (\<exists>d. dele s c = Some d \<and>
        (\<not> in_long (am (ball s w c) + am v) \<or> \<not> in_long (am (del_votes d) + am v)))"
    and vote_result: "wf s \<Longrightarrow> length c = ADDRESS_LENGTH \<Longrightarrow> vote w c v s = Inr (b, s') \<Longrightarrow>
      wf s' \<and> (b \<longleftrightarrow> dele s c \<noteq> None) \<and> (\<not> b \<longrightarrow> s' = s) \<and>
      (b \<longrightarrow> votes_moved (dele s) (ball s) (dele s') (ball s') w c (am v))"
    and unvote_Inl: "wf s \<Longrightarrow> length c = ADDRESS_LENGTH \<Longrightarrow> unvote w c v s = Inl e \<longleftrightarrow>
      am v \<le> am (ball s w c) \<and>
      (if \<not> in_long (am (ball s w c) - am v) then e = ArithmeticOverflow
       else case dele s c of None \<Rightarrow> e = NullPointer
            | Some d \<Rightarrow> e = ArithmeticOverflow \<and> \<not> in_long (am (del_votes d) - am v))"
    and unvote_result: "wf s \<Longrightarrow> length c = ADDRESS_LENGTH \<Longrightarrow> unvote w c v s = Inr (b, s') \<Longrightarrow>
      wf s' \<and> (b \<longleftrightarrow> am v \<le> am (ball s w c)) \<and> (\<not> b \<longrightarrow> s' = s) \<and>
      (b \<longrightarrow> votes_moved (dele s) (ball s) (dele s') (ball s') w c (- am v))"
begin

text \<open>The books of the registry: a delegate's votes are the sum of the ballots cast for it.\<close>

definition tally :: "bytes set \<Rightarrow> 's \<Rightarrow> bool" where
  "tally A s \<longleftrightarrow> (\<forall>c. length c = ADDRESS_LENGTH \<longrightarrow>
     (case dele s c of None \<Rightarrow> 0 | Some d \<Rightarrow> am (del_votes d)) = (\<Sum>v\<in>A. am (ball s v c)) \<and>
     (\<forall>v. am (ball s v c) \<ge> 0))"

lemma reg_tally:
  assumes "wf s" "length a = ADDRESS_LENGTH" "length n \<noteq> ADDRESS_LENGTH" "tally A s"
    and r: "reg a n t s = Inr (b, s')"
  shows "tally A s'"
  using reg_result [OF assms(1-3) r] assms(4)
  by (cases b) (auto simp: tally_def new_delegate_def split: option.splits)

lemma moved_tally:
  assumes "finite A" "w \<in> A" "tally A s" "votes_moved (dele s) (ball s) (dele s') (ball s') w c x"
    and "length c = ADDRESS_LENGTH" "am (ball s w c) + x \<ge> 0"
  shows "tally A s'"
proof -
  from assms(4) obtain d where d: "dele s c = Some d" "in_long (am (del_votes d) + x)"
    and dl: "\<And>e. length e = ADDRESS_LENGTH \<Longrightarrow> dele s' e =
        (if e = c then Some (d\<lparr>del_votes := mk_amount (am (del_votes d) + x)\<rparr>) else dele s e)"
    and bl: "\<And>u e. length e = ADDRESS_LENGTH \<Longrightarrow>
        am (ball s' u e) = am (ball s u e) + (if u = w \<and> e = c then x else 0)"
    unfolding votes_moved_def by blast
  have "(\<Sum>u\<in>A. am (ball s' u e)) = (\<Sum>u\<in>A. am (ball s u e)) + (if e = c then x else 0)"
    if "length e = ADDRESS_LENGTH" for e
    using assms(1,2) bl [OF assms(5)] by (cases "e = c") (simp_all add: bl [OF that] sum.distrib)
  moreover have "am (ball s' u e) \<ge> 0" if "length e = ADDRESS_LENGTH" for u e
    using assms(3,6) that by (simp add: bl [OF that] tally_def)
  moreover have "(case dele s' e of None \<Rightarrow> 0 | Some d \<Rightarrow> am (del_votes d)) =
      (case dele s e of None \<Rightarrow> 0 | Some d \<Rightarrow> am (del_votes d)) + (if e = c then x else 0)"
    if "length e = ADDRESS_LENGTH" for e
    using d by (simp add: dl [OF that] am_mk_amount)
  ultimately show ?thesis using assms(3) by (simp add: tally_def)
qed

lemma vote_tally:
  assumes "wf s" "length c = ADDRESS_LENGTH" "finite A" "w \<in> A" "tally A s" "am v \<ge> 0"
    and r: "vote w c v s = Inr (b, s')"
  shows "tally A s'"
proof (cases b)
  case True
  have "am (ball s w c) + am v \<ge> 0" using assms(2,5,6) by (simp add: tally_def)
  moreover have "votes_moved (dele s) (ball s) (dele s') (ball s') w c (am v)"
    using vote_result [OF assms(1,2) r] True by blast
  ultimately show ?thesis using moved_tally assms(2-5) by blast
next
  case False
  then show ?thesis using vote_result [OF assms(1,2) r] assms(5) by simp
qed

lemma unvote_tally:
  assumes "wf s" "length c = ADDRESS_LENGTH" "finite A" "w \<in> A" "tally A s"
    and r: "unvote w c v s = Inr (b, s')"
  shows "tally A s'"
proof (cases b)
  case True
  then have "am (ball s w c) + - am v \<ge> 0"
    and "votes_moved (dele s) (ball s) (dele s') (ball s') w c (- am v)"
    using unvote_result [OF assms(1,2) r] by simp_all
  then show ?thesis using moved_tally assms(2-5) by blast
next
  case False
  then show ?thesis using unvote_result [OF assms(1,2) r] assms(5) by simp
qed

text \<open>In balanced books an address that is no delegate holds no ballot.\<close>

lemma no_ballot:
  assumes "tally A s" "finite A" "w \<in> A" "length c = ADDRESS_LENGTH" "dele s c = None"
  shows "am (ball s w c) = 0"
proof -
  have "(\<Sum>v\<in>A. am (ball s v c)) = 0" and nn: "\<And>v. am (ball s v c) \<ge> 0"
    using assms(1,4,5) by (auto simp: tally_def split: option.splits)
  then show ?thesis using assms(2,3) by (simp add: sum_nonneg_eq_0_iff)
qed

lemma unvote_null:
  assumes "wf s" "tally A s" "finite A" "w \<in> A" "length c = ADDRESS_LENGTH" "am v \<ge> 0"
  shows "unvote w c v s = Inl NullPointer \<longleftrightarrow> dele s c = None \<and> am v = 0"
proof (cases "dele s c")
  case None
  with no_ballot [OF assms(2-5)] have "am (ball s w c) = 0" by simp
  with None assms show ?thesis by (auto simp: unvote_Inl in_long_def)
qed (use assms in \<open>auto simp: unvote_Inl\<close>)

end

subsection \<open>DelegateStateImpl satisfies it\<close>

definition ds_wf :: "DelegateState \<Rightarrow> bool" where
  "ds_wf ds \<longleftrightarrow> delegates_ok ds \<and> votes_ok ds"

lemma put_sel [simp]:
  "ds_delegates (put_delegate k v ds) = store_put k v (ds_delegates ds)"
  "ds_votes (put_delegate k v ds) = ds_votes ds"
  "ds_delegates (put_vote k v ds) = ds_delegates ds"
  "ds_votes (put_vote k v ds) = store_put k v (ds_votes ds)"
  by (simp_all add: put_delegate_def put_vote_def)

lemma length_encodeAmount [simp]: "length (encodeAmount a) = 8"
  by (simp add: encodeAmount_def)

lemma decode_encodeAmount [simp]: "decodeAmount (Some (encodeAmount a)) = Inr a"
  by (simp add: decodeAmount_def encodeAmount_def bytes_toLong_of_long)

lemma bytes_toLong_ok: "length v = 8 \<Longrightarrow> \<exists>l. bytes_toLong v = Inr l"
  by (simp add: bytes_toLong_def aget_def)

lemma getVote_key_ok:
  assumes "votes_ok ds" shows "getVote_key k ds = Inr (vote_at ds k)"
proof (cases "store_get (ds_votes ds) k")
  case (Some v)
  with assms have "length v = 8" by (simp add: votes_ok_def)
  then obtain l where "bytes_toLong v = Inr l" using bytes_toLong_ok by blast
  with Some show ?thesis by (simp add: vote_at_def getVote_key_def decodeAmount_def)
qed (simp add: vote_at_def getVote_key_def decodeAmount_def)

lemma vote_at_put [simp]: "vote_at (put_vote k (encodeAmount a) ds) = (vote_at ds)(k := a)"
  by (auto simp: fun_eq_iff vote_at_def getVote_key_def)

lemma vote_at_put_delegate [simp]: "vote_at (put_delegate k v ds) = vote_at ds"
  by (simp add: fun_eq_iff vote_at_def getVote_key_def)

lemma deleg_put_vote [simp]: "deleg (put_vote k v ds) = deleg ds"
  by (simp add: fun_eq_iff deleg_def getDelegateByAddress_eq)

lemma deleg_put:
  "bytes_ok (del_name d) \<Longrightarrow> del_address d = a \<Longrightarrow> deleg (put_delegate a (delegate_image d) ds) = (deleg ds)(a := Some d)"
  by (auto simp: fun_eq_iff deleg_def getDelegateByAddress_eq Delegate_fromBytes_image)

lemma deleg_put_name: "length n \<noteq> ADDRESS_LENGTH \<Longrightarrow> length c = ADDRESS_LENGTH \<Longrightarrow>
    deleg (put_delegate n v ds) c = deleg ds c"
  by (auto simp: deleg_def getDelegateByAddress_eq)

lemma votes_ok_puts [simp]:
  "votes_ok ds \<Longrightarrow> votes_ok (put_vote k (encodeAmount a) ds)"
  "votes_ok (put_delegate k v ds) = votes_ok ds"
  by (auto simp: votes_ok_def store_put_ok)

lemma delegates_ok_put_vote [simp]: "delegates_ok (put_vote k v ds) = delegates_ok ds"
  by (simp add: delegates_ok_def)

lemma delegates_ok_revote:
  assumes "delegates_ok ds" "length a = ADDRESS_LENGTH" "deleg ds a = Some d" "del_name e = del_name d"
  shows "delegates_ok (put_delegate a (delegate_image e) ds)"
  using assms(1) registry_revote [OF delegates_ok_map [OF assms(1)] deleg_Some(1) [OF assms(1-3)]
      assms(2) deleg_Some(2) [OF assms(1-3)] assms(4)]
  by (simp add: delegates_ok_def store_put_ok store_all_prev)

lemma delegates_ok_register:
  assumes "delegates_ok ds" "length a = ADDRESS_LENGTH" "length n \<noteq> ADDRESS_LENGTH" "bytes_ok n"
    "store_get (ds_delegates ds) a = None" "store_get (ds_delegates ds) n = None" "del_name d = n"
  shows "delegates_ok (put_delegate a (delegate_image d) (put_delegate n a ds))"
  using assms registry_register [OF delegates_ok_map [OF assms(1)] assms(5,2,6,3,7,4)]
  by (simp add: delegates_ok_def store_put_ok store_all_prev)

lemma ballot_put: "length c = length e \<Longrightarrow>
    ballot (put_vote (merge2 c w) (encodeAmount a) ds) u e = (if u = w \<and> e = c then a else ballot ds u e)"
  by (auto simp: ballot_def merge2_def)

lemma ballot_put_delegate [simp]: "ballot (put_delegate k v ds) = ballot ds"
  by (simp add: fun_eq_iff ballot_def)

lemma register_eq:
  assumes "ds_wf ds" "length a = ADDRESS_LENGTH" "length n \<noteq> ADDRESS_LENGTH"
  shows "DelegateState_register a n t ds =
    (if deleg ds a \<noteq> None \<or> \<not> name_free (deleg ds) n then Inr (False, ds)
     else if bytes_ok n
     then Inr (True, put_delegate a (delegate_image (new_delegate a n t)) (put_delegate n a ds))
     else Inl IllegalArgument)"
proof -
  have ok: "delegates_ok ds" using assms(1) by (simp add: ds_wf_def)
  have nf: "store_get (ds_delegates ds) n = None \<longleftrightarrow> name_free (deleg ds) n"
    using name_taken_iff [OF ok assms(3)] by (auto simp: name_free_def)
  show ?thesis
    using getDelegateByName_ok [OF ok assms(3)] getDelegateByAddress_ok [OF ok assms(2)] nf
    by (auto simp: DelegateState_register_def Delegate_toBytes_eq new_delegate_def)
qed

lemma vote_eq:
  assumes "ds_wf ds" "length c = ADDRESS_LENGTH"
  shows "DelegateState_vote w c v ds =
    (case deleg ds c of None \<Rightarrow> Inr (False, ds)
     | Some d \<Rightarrow>
        if in_long (am (ballot ds w c) + am v) \<and> in_long (am (del_votes d) + am v)
        then Inr (True, put_delegate c (delegate_image (d\<lparr>del_votes := mk_amount (am (del_votes d) + am v)\<rparr>))
               (put_vote (merge2 c w) (encodeAmount (mk_amount (am (ballot ds w c) + am v))) ds))
        else Inl ArithmeticOverflow)"
  using assms deleg_Some(2) [of ds c]
  by (auto simp: ds_wf_def DelegateState_vote_def getVote_key_ok getDelegateByAddress_ok Amount_sum_eq
      Delegate_toBytes_eq ballot_def Let_def split: option.split)

lemma unvote_eq:
  assumes "ds_wf ds" "length c = ADDRESS_LENGTH"
  shows "DelegateState_unvote w c v ds =
    (if am v > am (ballot ds w c) then Inr (False, ds)
     else if \<not> in_long (am (ballot ds w c) - am v) then Inl ArithmeticOverflow
     else case deleg ds c of None \<Rightarrow> Inl NullPointer
     | Some d \<Rightarrow>
        if in_long (am (del_votes d) - am v)
        then Inr (True, put_delegate c (delegate_image (d\<lparr>del_votes := mk_amount (am (del_votes d) - am v)\<rparr>))
               (put_vote (merge2 c w) (encodeAmount (mk_amount (am (ballot ds w c) - am v))) ds))
        else Inl ArithmeticOverflow)"
  using assms deleg_Some(2) [of ds c]
  by (auto simp: ds_wf_def DelegateState_unvote_def getVote_key_ok getDelegateByAddress_ok Amount_sub_eq
      Delegate_toBytes_eq ballot_def compare_am Let_def split: option.split)

lemma moved_after_puts:
  assumes "ds_wf ds" "length c = ADDRESS_LENGTH" "deleg ds c = Some d"
    "in_long (am (ballot ds w c) + x)" "in_long (am (del_votes d) + x)"
    and ds': "ds' = put_delegate c (delegate_image (d\<lparr>del_votes := mk_amount (am (del_votes d) + x)\<rparr>))
      (put_vote (merge2 c w) (encodeAmount (mk_amount (am (ballot ds w c) + x))) ds)"
  shows "ds_wf ds'" "votes_moved (deleg ds) (ballot ds) (deleg ds') (ballot ds') w c x"
proof -
  have ok: "delegates_ok ds" using assms(1) by (simp add: ds_wf_def)
  note d = deleg_Some [OF ok assms(2,3)]
  show "ds_wf ds'"
    using assms(1) delegates_ok_revote [of "put_vote (merge2 c w) (encodeAmount (mk_amount (am (ballot ds w c) + x))) ds" c d]
      assms(2,3) by (simp add: ds_wf_def ds')
  show "votes_moved (deleg ds) (ballot ds) (deleg ds') (ballot ds') w c x"
    using assms(2-5) d by (auto simp: votes_moved_def ds' deleg_put ballot_put am_mk_amount)
qed

interpretation delegates: registry ds_wf deleg ballot DelegateState_register DelegateState_vote
  DelegateState_unvote
proof (unfold_locales, goal_cases)
  case (1 s a n t)
  then show ?case by (simp add: register_eq)
next
  case (2 s a n t b s')
  then have ok: "delegates_ok s" "votes_ok s" by (simp_all add: ds_wf_def)
  have free: "store_get (ds_delegates s) n = None" if "name_free (deleg s) n"
    using name_taken_iff [OF ok(1) 2(3)] that by (auto simp: name_free_def)
  show ?case
  proof (cases "deleg s a \<noteq> None \<or> \<not> name_free (deleg s) n")
    case True
    then show ?thesis using 2 by (simp add: register_eq)
  next
    case False
    then have n: "bytes_ok n" and s': "b" "s' = put_delegate a (delegate_image (new_delegate a n t)) (put_delegate n a s)"
      using 2 by (auto simp: register_eq split: if_splits)
    have "delegates_ok s'"
      unfolding s' using 2 False free n ok deleg_None [OF ok(1) 2(2)]
      by (intro delegates_ok_register) (simp_all add: new_delegate_def)
    then show ?thesis
      using False 2 s' ok n by (auto simp: ds_wf_def new_delegate_def deleg_put deleg_put_name)
  qed
next
  case (3 s c w v e)
  then show ?case by (auto simp: vote_eq split: option.split)
next
  case (4 s c w v b s')
  show ?case
  proof (cases "deleg s c")
    case None
    then show ?thesis using 4 by (simp add: vote_eq)
  next
    case (Some d)
    with 4 have "b" "in_long (am (ballot s w c) + am v)" "in_long (am (del_votes d) + am v)"
      "s' = put_delegate c (delegate_image (d\<lparr>del_votes := mk_amount (am (del_votes d) + am v)\<rparr>))
         (put_vote (merge2 c w) (encodeAmount (mk_amount (am (ballot s w c) + am v))) s)"
      by (simp_all add: vote_eq split: if_splits)
    with moved_after_puts [OF 4(1,2) Some, of w "am v" s'] Some show ?thesis by simp
  qed
next
  case (5 s c w v e)
  then show ?case by (auto simp: unvote_eq split: option.split)
next
  case (6 s c w v b s')
  show ?case
  proof (cases "am v > am (ballot s w c)")
    case True
    then show ?thesis using 6 by (simp add: unvote_eq)
  next
    case False
    with 6 obtain d where d: "deleg s c = Some d" and "b" "in_long (am (ballot s w c) + - am v)"
      "in_long (am (del_votes d) + - am v)"
      "s' = put_delegate c (delegate_image (d\<lparr>del_votes := mk_amount (am (del_votes d) + - am v)\<rparr>))
         (put_vote (merge2 c w) (encodeAmount (mk_amount (am (ballot s w c) + - am v))) s)"
      by (auto simp: unvote_eq split: option.splits if_splits)
    with moved_after_puts [OF 6(1,2) d, of w "- am v" s'] False show ?thesis by simp
  qed
qed

end
