(* ===== verification/HexCode.thy ===== *)
theory HexCode
  imports Codec
begin

text \<open>
  \<open>org.semux.crypto.Hex\<close>: hexadecimal text. A Java string is a list of characters; a null
  reference is \<open>None\<close>. Every validator and peer identity of the program is the hexadecimal
  text of an address, so the encoding has to be injective.
\<close>

definition PREF :: string where "PREF = ''0x''"

definition intToHex :: string where "intToHex = ''0123456789abcdef''"

definition hexToInt :: "char \<Rightarrow> jint" where
  "hexToInt c =
     (let n = of_char c :: nat
      in if 48 \<le> n \<and> n < 58 then of_nat (n - 48)
         else if 97 \<le> n \<and> n < 103 then of_nat (n - 97 + 10)
         else if 65 \<le> n \<and> n < 71 then of_nat (n - 65 + 10)
         else 0)"

definition hex_of_byte :: "jbyte \<Rightarrow> string" where
  "hex_of_byte b =
     [intToHex ! unat (drop_bit 4 (b AND 0xF0)), intToHex ! unat (b AND 0x0F)]"

definition Hex_encode :: "bytes \<Rightarrow> string" where
  "Hex_encode raw = concat (map hex_of_byte raw)"

definition Hex_encode0x :: "bytes \<Rightarrow> string" where
  "Hex_encode0x raw = PREF @ Hex_encode raw"

text \<open>The pattern \<open>([0-9a-fA-F]{2})*\<close>, matched against the whole string.\<close>

definition is_hex_char :: "char \<Rightarrow> bool" where
  "is_hex_char c \<longleftrightarrow>
     (let n = of_char c :: nat in 48 \<le> n \<and> n \<le> 57 \<or> 97 \<le> n \<and> n \<le> 102 \<or> 65 \<le> n \<and> n \<le> 70)"

fun matches_hex :: "string \<Rightarrow> bool" where
  "matches_hex [] = True"
| "matches_hex [c] = False"
| "matches_hex (c # d # cs) = (is_hex_char c \<and> is_hex_char d \<and> matches_hex cs)"

fun decode_pairs :: "string \<Rightarrow> bytes" where
  "decode_pairs (c # d # cs) =
     ucast (push_bit 4 (hexToInt c) + hexToInt d) # decode_pairs cs"
| "decode_pairs _ = []"

definition Hex_decode :: "string option \<Rightarrow> bytes res" where
  "Hex_decode hex =
     (case hex of
        None \<Rightarrow> Inl CryptoFailure
      | Some s \<Rightarrow> if \<not> matches_hex s then Inl CryptoFailure else Inr (decode_pairs s))"

definition Hex_decode0x :: "string option \<Rightarrow> bytes res" where
  "Hex_decode0x hex =
     (case hex of
        None \<Rightarrow> Hex_decode None
      | Some s \<Rightarrow> if take 2 s = PREF then Hex_decode (Some (drop 2 s)) else Hex_decode (Some s))"

section \<open>Round trip and injectivity\<close>

lemma hexToInt_digits: "map hexToInt intToHex = map of_nat [0..<16]"
  by (simp add: hexToInt_def intToHex_def Let_def upt_rec)

lemma length_intToHex: "length intToHex = 16"
  by (simp add: intToHex_def)

lemma hexToInt_digit: "n < 16 \<Longrightarrow> hexToInt (intToHex ! n) = of_nat n"
proof -
  assume n: "n < 16"
  then have "hexToInt (intToHex ! n) = map hexToInt intToHex ! n"
    by (simp add: nth_map length_intToHex)
  also have "\<dots> = of_nat n" unfolding hexToInt_digits using n by (subst nth_map) auto
  finally show ?thesis .
qed

lemma is_hex_digits: "list_all is_hex_char intToHex"
  by (simp add: is_hex_char_def intToHex_def Let_def)

lemma is_hex_digit: "n < 16 \<Longrightarrow> is_hex_char (intToHex ! n)"
  using is_hex_digits by (simp add: list_all_length length_intToHex)

lemma bit_15: "bit (0x0F :: int) n \<longleftrightarrow> n < 4"
proof -
  have "(0x0F :: int) = mask 4" by (simp add: mask_eq_exp_minus_1)
  then show ?thesis by (simp only: bit_mask_iff) simp
qed

lemma bit_F0: "bit (0xF0 :: int) n \<longleftrightarrow> 4 \<le> n \<and> n < 8"
proof -
  have "(0xF0 :: int) = push_bit 4 (mask 4)" by (simp add: mask_eq_exp_minus_1)
  then have "bit (0xF0 :: int) n \<longleftrightarrow> bit (push_bit 4 (mask 4) :: int) n" by metis
  then show ?thesis by (simp only: bit_push_bit_iff bit_mask_iff) auto
qed

lemma low_nibble: "b AND (0x0F :: jbyte) = take_bit 4 b"
  by (rule bit_word_eqI) (auto simp: bit_simps bit_15)

lemma high_nibble: "drop_bit 4 (b AND (0xF0 :: jbyte)) = take_bit 4 (drop_bit 4 b)"
  by (rule bit_word_eqI) (auto simp: bit_simps bit_15 bit_F0 dest: bit_byteD)

lemma nibble_bound: "unat (take_bit 4 (b :: jbyte)) < 16"
  using take_bit_nat_less_exp [of 4 "unat b"] by (simp add: unsigned_take_bit_eq)

lemma byte_of_nibbles:
  "ucast (push_bit 4 (ucast (take_bit 4 (drop_bit 4 b))) + ucast (take_bit 4 b) :: jint) = (b :: jbyte)"
proof -
  have "push_bit 4 (ucast (take_bit 4 (drop_bit 4 b))) + ucast (take_bit 4 b) =
      (push_bit 4 (ucast (take_bit 4 (drop_bit 4 b))) OR ucast (take_bit 4 b) :: jint)"
    by (rule disjunctive_add) (auto simp: bit_simps)
  also have "ucast \<dots> = b"
    by (rule bit_word_eqI) (auto simp: bit_simps)
  finally show ?thesis .
qed

lemma hex_of_byte_decode:
  "decode_pairs (hex_of_byte b @ cs) = b # decode_pairs cs"
  "matches_hex (hex_of_byte b @ cs) = matches_hex cs"
  unfolding hex_of_byte_def low_nibble high_nibble
  using nibble_bound [of b] nibble_bound [of "drop_bit 4 b"]
  by (simp_all add: hexToInt_digit is_hex_digit byte_of_nibbles)

lemma matches_hex_encode: "matches_hex (Hex_encode bs)"
  by (induction bs) (simp_all add: Hex_encode_def hex_of_byte_decode)

lemma decode_pairs_encode: "decode_pairs (Hex_encode bs) = bs"
  by (induction bs) (simp_all add: Hex_encode_def hex_of_byte_decode)

lemma Hex_decode_encode: "Hex_decode (Some (Hex_encode bs)) = Inr bs"
  by (simp add: Hex_decode_def matches_hex_encode decode_pairs_encode)

lemma Hex_decode0x_encode0x: "Hex_decode0x (Some (Hex_encode0x bs)) = Inr bs"
  by (simp add: Hex_decode0x_def Hex_encode0x_def PREF_def Hex_decode_encode)

lemma Hex_encode_inject [simp]: "Hex_encode a = Hex_encode b \<longleftrightarrow> a = b"
  by (metis decode_pairs_encode)

lemma Hex_encode_not_PREF: "take 2 (Hex_encode bs) \<noteq> PREF"
proof
  assume "take 2 (Hex_encode bs) = PREF"
  then obtain s where s: "Hex_encode bs = CHR ''0'' # CHR ''x'' # s"
    by (cases "Hex_encode bs" rule: matches_hex.cases) (auto simp: PREF_def)
  have "is_hex_char (CHR ''x'')" using matches_hex_encode [of bs] s by simp
  then show False by (simp add: is_hex_char_def)
qed

lemma Hex_decode0x_encode: "Hex_decode0x (Some (Hex_encode bs)) = Inr bs"
  using Hex_encode_not_PREF by (simp add: Hex_decode0x_def Hex_decode_encode)

end
