(* ===== verification/CryptoModel.thy ===== *)
theory CryptoModel
  imports HexCode
begin

text \<open>
  \<open>org.semux.crypto\<close>: hashes, keys and signatures. BLAKE2b, RIPEMD-160 and Ed25519 are third
  party libraries (or native code): they are the fields of the record \<open>crypto\<close>, an argument of
  every definition that uses them. What the program adds (the two-step address hash, the wrapped
  signature with its public key, the wire form) is defined here.
\<close>

record crypto =
  c_digest :: "bytes \<Rightarrow> bytes"  \<comment> \<open>the message digest BLAKE2B-256\<close>
  c_ripemd :: "bytes \<Rightarrow> bytes"  \<comment> \<open>RIPEMD-160\<close>
  c_public :: "bytes \<Rightarrow> bytes"  \<comment> \<open>the point A of a PKCS#8 private key\<close>
  c_encode_pk :: "bytes \<Rightarrow> bytes"  \<comment> \<open>the X.509 encoding of a point A\<close>
  c_sign :: "bytes \<Rightarrow> bytes \<Rightarrow> bytes"  \<comment> \<open>the S part over a message, with a private key\<close>
  c_verify :: "bytes \<Rightarrow> bytes \<Rightarrow> bytes \<Rightarrow> bool"  \<comment> \<open>message, S and A\<close>

section \<open>Hash\<close>

definition HASH_LEN :: nat where "HASH_LEN = 32"

definition h256 :: "crypto \<Rightarrow> bytes \<Rightarrow> bytes" where
  "h256 C input = c_digest C input"

definition h256_two :: "crypto \<Rightarrow> bytes \<Rightarrow> bytes \<Rightarrow> bytes" where
  "h256_two C one two = h256 C (one @ two)"

definition h160 :: "crypto \<Rightarrow> bytes \<Rightarrow> bytes" where
  "h160 C input = c_ripemd C (h256 C input)"

section \<open>Signature\<close>

definition S_LEN :: nat where "S_LEN = 64"
definition A_LEN :: nat where "A_LEN = 32"
definition SIG_LENGTH :: nat where "SIG_LENGTH = 96"
definition ADDRESS_LEN :: nat where "ADDRESS_LEN = 20"

definition X509 :: bytes where
  "X509 = decode_pairs ''302a300506032b6570032100''"

record Signature =
  sig_s :: bytes
  sig_a :: bytes

definition Signature_new :: "bytes \<Rightarrow> bytes \<Rightarrow> Signature res" where
  "Signature_new s a =
     (if length s \<noteq> S_LEN \<or> length a \<noteq> A_LEN then Inl IllegalArgument
      else Inr \<lparr>sig_s = s, sig_a = a\<rparr>)"

definition Signature_getPublicKey :: "Signature \<Rightarrow> bytes" where
  "Signature_getPublicKey sg = merge2 X509 (sig_a sg)"

definition Signature_getAddress :: "crypto \<Rightarrow> Signature \<Rightarrow> bytes" where
  "Signature_getAddress C sg = h160 C (Signature_getPublicKey sg)"

definition Signature_toBytes :: "Signature \<Rightarrow> bytes" where
  "Signature_toBytes sg = merge2 (sig_s sg) (sig_a sg)"

text \<open>\<open>fromBytes\<close> returns null on a wrong length; the array copies have the lengths the constructor asks for.\<close>

definition Signature_fromBytes :: "bytes \<Rightarrow> Signature option" where
  "Signature_fromBytes bs =
     (if length bs \<noteq> SIG_LENGTH then None
      else case Signature_new (take S_LEN bs) (drop (SIG_LENGTH - A_LEN) bs) of
             Inl _ \<Rightarrow> None | Inr sg \<Rightarrow> Some sg)"

definition Signature_wf :: "Signature \<Rightarrow> bool" where
  "Signature_wf sg \<longleftrightarrow> length (sig_s sg) = S_LEN \<and> length (sig_a sg) = A_LEN"

lemmas sig_lens = S_LEN_def A_LEN_def SIG_LENGTH_def

lemma Signature_new_Inr: "Signature_new s a = Inr sg \<longleftrightarrow> Signature_wf sg \<and> sg = \<lparr>sig_s = s, sig_a = a\<rparr>"
  by (auto simp: Signature_new_def Signature_wf_def)

lemma Signature_fromBytes_toBytes:
  "Signature_wf sg \<Longrightarrow> Signature_fromBytes (Signature_toBytes sg) = Some sg"
  by (simp add: Signature_fromBytes_def Signature_toBytes_def Signature_new_def Signature_wf_def
      merge2_def sig_lens)

lemma length_Signature_toBytes: "Signature_wf sg \<Longrightarrow> length (Signature_toBytes sg) = 96"
  by (simp add: Signature_wf_def Signature_toBytes_def merge2_def sig_lens)

lemma Signature_fromBytes_Some:
  "Signature_fromBytes bs = Some sg \<longleftrightarrow> Signature_wf sg \<and> bs = Signature_toBytes sg"
proof
  assume "Signature_fromBytes bs = Some sg"
  then have len: "length bs = 96" and sg: "sg = \<lparr>sig_s = take 64 bs, sig_a = drop 64 bs\<rparr>"
    by (auto simp: Signature_fromBytes_def Signature_new_def sig_lens split: if_splits sum.splits)
  from len have "Signature_wf sg" by (simp add: sg Signature_wf_def sig_lens)
  then show "Signature_wf sg \<and> bs = Signature_toBytes sg"
    by (simp add: sg Signature_toBytes_def merge2_def)
qed (simp add: Signature_fromBytes_toBytes)

lemma Signature_fromBytes_None: "Signature_fromBytes bs = None \<longleftrightarrow> length bs \<noteq> 96"
  by (auto simp: Signature_fromBytes_def Signature_new_def sig_lens)

section \<open>Key\<close>

text \<open>A key pair is determined by its PKCS#8 private key.\<close>

record Key =
  key_private :: bytes

definition Key_getPublicKey :: "crypto \<Rightarrow> Key \<Rightarrow> bytes" where
  "Key_getPublicKey C k = c_encode_pk C (c_public C (key_private k))"

definition Key_toAddress :: "crypto \<Rightarrow> Key \<Rightarrow> bytes" where
  "Key_toAddress C k = h160 C (Key_getPublicKey C k)"

definition Key_toAddressString :: "crypto \<Rightarrow> Key \<Rightarrow> string" where
  "Key_toAddressString C k = Hex_encode (Key_toAddress C k)"

definition Key_sign :: "crypto \<Rightarrow> Key \<Rightarrow> bytes \<Rightarrow> Signature res" where
  "Key_sign C k message =
     Signature_new (c_sign C message (key_private k)) (c_public C (key_private k))"

definition Key_verify :: "crypto \<Rightarrow> bytes \<Rightarrow> Signature option \<Rightarrow> bool" where
  "Key_verify C message signature =
     (case signature of None \<Rightarrow> False | Some sg \<Rightarrow> c_verify C message (sig_s sg) (sig_a sg))"

definition COINBASE_KEY :: Key where
  "COINBASE_KEY = \<lparr>key_private = decode_pairs
     ''302e020100300506032b657004220420acdd12174cbc3fa6e4076cb1e270989cf4d47b0de8942c8542fe6a3bed34d7bf''\<rparr>"

definition COINBASE_ADDRESS :: "crypto \<Rightarrow> bytes" where
  "COINBASE_ADDRESS C = Key_toAddress C COINBASE_KEY"

section \<open>Documented behaviour of the primitives\<close>

text \<open>Output lengths, the fixed X.509 header, and that a signature made with a key verifies.\<close>

definition digest_ok :: "crypto \<Rightarrow> bool" where
  "digest_ok C \<longleftrightarrow> (\<forall>x. length (c_digest C x) = 32)"

definition ripemd_ok :: "crypto \<Rightarrow> bool" where
  "ripemd_ok C \<longleftrightarrow> (\<forall>x. length (c_ripemd C x) = 20)"

definition keys_ok :: "crypto \<Rightarrow> bool" where
  "keys_ok C \<longleftrightarrow> (\<forall>sk. length (c_public C sk) = 32) \<and> (\<forall>m sk. length (c_sign C m sk) = 64)"

definition x509_ok :: "crypto \<Rightarrow> bool" where
  "x509_ok C \<longleftrightarrow> (\<forall>a. c_encode_pk C a = X509 @ a)"

definition verify_ok :: "crypto \<Rightarrow> bool" where
  "verify_ok C \<longleftrightarrow> (\<forall>m sk. c_verify C m (c_sign C m sk) (c_public C sk))"

lemma length_h256: "digest_ok C \<Longrightarrow> length (h256 C x) = 32"
  by (simp add: digest_ok_def h256_def)

lemma length_h160: "ripemd_ok C \<Longrightarrow> length (h160 C x) = 20"
  by (simp add: ripemd_ok_def h160_def)

lemma Key_sign_ok:
  assumes "keys_ok C"
  obtains sg where "Key_sign C k m = Inr sg" "Signature_wf sg"
    "sg = \<lparr>sig_s = c_sign C m (key_private k), sig_a = c_public C (key_private k)\<rparr>"
  using assms by (auto simp: Key_sign_def Signature_new_def Signature_wf_def keys_ok_def sig_lens)

lemma Key_sign_Inr: "Key_sign C k m = Inr sg \<Longrightarrow> Signature_wf sg \<and>
    sg = \<lparr>sig_s = c_sign C m (key_private k), sig_a = c_public C (key_private k)\<rparr>"
  by (auto simp: Key_sign_def Signature_new_Inr)

lemma Key_sign_verify:
  "verify_ok C \<Longrightarrow> Key_sign C k m = Inr sg \<Longrightarrow> Key_verify C m (Some sg)"
  by (auto simp: Key_verify_def verify_ok_def dest: Key_sign_Inr)

lemma Key_sign_address:
  "x509_ok C \<Longrightarrow> Key_sign C k m = Inr sg \<Longrightarrow> Signature_getAddress C sg = Key_toAddress C k"
  by (auto simp: Signature_getAddress_def Signature_getPublicKey_def Key_toAddress_def
      Key_getPublicKey_def x509_ok_def merge2_def dest: Key_sign_Inr)

section \<open>A concrete instance\<close>

text \<open>
  Padding and truncation in place of the cryptographic functions: an instance of the documented
  behaviour on which closed examples are evaluated.
\<close>

definition pad :: "nat \<Rightarrow> bytes \<Rightarrow> bytes" where
  "pad n bs = take n (bs @ replicate n 0)"

definition plain_crypto :: crypto where
  "plain_crypto = \<lparr>c_digest = pad 32, c_ripemd = \<lambda>x. pad 20 (drop 12 x), c_public = pad 32,
     c_encode_pk = \<lambda>a. X509 @ a, c_sign = \<lambda>m sk. pad 64 sk, c_verify = \<lambda>m s a. pad 32 s = a\<rparr>"

lemma length_pad [simp]: "length (pad n bs) = n"
  by (simp add: pad_def)

lemma nth_pad: "i < n \<Longrightarrow> pad n bs ! i = (if i < length bs then bs ! i else 0)"
  by (simp add: pad_def nth_append)

lemma pad_pad: "m \<le> n \<Longrightarrow> pad m (pad n bs) = pad m bs"
  by (rule nth_equalityI) (simp_all add: nth_pad)

lemma plain_crypto_ok:
  "digest_ok plain_crypto" "ripemd_ok plain_crypto" "keys_ok plain_crypto" "x509_ok plain_crypto"
  "verify_ok plain_crypto"
  by (simp_all add: plain_crypto_def digest_ok_def ripemd_ok_def keys_ok_def x509_ok_def verify_ok_def pad_pad)

end
