(* ===== verification/Tx.thy ===== *)
theory Tx
  imports CryptoModel AmountModel
begin

text \<open>
  \<open>Network\<close>, \<open>TransactionType\<close>, \<open>Transaction\<close> and \<open>TransactionResult\<close> of \<open>org.semux.core\<close>:
  the records, the format check \<open>validate\<close>, and the binary form with its round trips. A null
  network or type reaches the constructor as \<open>None\<close> and raises there.
\<close>

section \<open>Network\<close>

datatype Network = MAINNET | TESTNET | DEVNET

fun Network_id :: "Network \<Rightarrow> jbyte" where
  "Network_id MAINNET = 0"
| "Network_id TESTNET = 1"
| "Network_id DEVNET = 2"

definition networks :: "Network list" where
  "networks = [MAINNET, TESTNET, DEVNET]"

definition Network_of :: "jbyte \<Rightarrow> Network option" where
  "Network_of networkId = find (\<lambda>n. Network_id n = networkId) networks"

lemma Network_of_id [simp]: "Network_of (Network_id n) = Some n"
  by (cases n) (simp_all add: Network_of_def networks_def)

lemma Network_of_Some: "Network_of b = Some n \<longleftrightarrow> b = Network_id n"
  by (cases n) (auto simp: Network_of_def networks_def)

section \<open>TransactionType\<close>

datatype TransactionType = COINBASE | TRANSFER | DELEGATE | VOTE | UNVOTE | CREATE | CALL

fun TransactionType_code :: "TransactionType \<Rightarrow> jint" where
  "TransactionType_code COINBASE = 0x00"
| "TransactionType_code TRANSFER = 0x01"
| "TransactionType_code DELEGATE = 0x02"
| "TransactionType_code VOTE = 0x03"
| "TransactionType_code UNVOTE = 0x04"
| "TransactionType_code CREATE = 0x05"
| "TransactionType_code CALL = 0x06"

definition transaction_types :: "TransactionType list" where
  "transaction_types = [COINBASE, TRANSFER, DELEGATE, VOTE, UNVOTE, CREATE, CALL]"

definition TransactionType_of :: "jbyte \<Rightarrow> TransactionType option" where
  "TransactionType_of code =
     find (\<lambda>t. TransactionType_code t = (0xFF AND scast code)) transaction_types"

definition TransactionType_toByte :: "TransactionType \<Rightarrow> jbyte" where
  "TransactionType_toByte t = ucast (TransactionType_code t)"

lemma TransactionType_of_toByte [simp]: "TransactionType_of (TransactionType_toByte t) = Some t"
  by (cases t) (simp_all add: TransactionType_of_def TransactionType_toByte_def transaction_types_def)

section \<open>Transaction\<close>

record Transaction =
  tx_networkId :: jbyte
  tx_type :: TransactionType
  tx_to :: bytes
  tx_value :: Amount
  tx_fee :: Amount
  tx_nonce :: jlong
  tx_timestamp :: jlong
  tx_data :: bytes
  tx_encoded :: bytes
  tx_hash :: bytes
  tx_signature :: "Signature option"

definition tx_encode ::
  "jbyte \<Rightarrow> TransactionType \<Rightarrow> bytes \<Rightarrow> Amount \<Rightarrow> Amount \<Rightarrow> jlong \<Rightarrow> jlong \<Rightarrow> bytes \<Rightarrow> bytes res" where
  "tx_encode networkId type to value fee nonce timestamp data =
     encode [writeByte networkId, writeByte (TransactionType_toByte type), writeBytes to,
             writeAmount value, writeAmount fee, writeLong nonce, writeLong timestamp,
             writeBytes data]"

definition Transaction_new ::
  "crypto \<Rightarrow> Network option \<Rightarrow> TransactionType option \<Rightarrow> bytes \<Rightarrow> Amount \<Rightarrow> Amount \<Rightarrow> jlong \<Rightarrow> jlong \<Rightarrow>
   bytes \<Rightarrow> Transaction res" where
  "Transaction_new C network type to value fee nonce timestamp data =
     rbind (non_null network) (\<lambda>network.
     rbind (non_null type) (\<lambda>type.
     rbind (tx_encode (Network_id network) type to value fee nonce timestamp data) (\<lambda>enc.
       Inr \<lparr>tx_networkId = Network_id network, tx_type = type, tx_to = to, tx_value = value,
            tx_fee = fee, tx_nonce = nonce, tx_timestamp = timestamp, tx_data = data,
            tx_encoded = enc, tx_hash = h256 C enc, tx_signature = None\<rparr>)))"

definition Transaction_sign :: "crypto \<Rightarrow> Key \<Rightarrow> Transaction \<Rightarrow> Transaction res" where
  "Transaction_sign C key tx =
     rbind (Key_sign C key (tx_hash tx)) (\<lambda>sg. Inr (tx\<lparr>tx_signature := Some sg\<rparr>))"

definition Transaction_validate :: "crypto \<Rightarrow> Network \<Rightarrow> Transaction \<Rightarrow> bool" where
  "Transaction_validate C network tx \<longleftrightarrow>
     length (tx_hash tx) = HASH_LEN
     \<and> tx_networkId tx = Network_id network
     \<and> length (tx_to tx) = ADDRESS_LEN
     \<and> gte0 (tx_value tx)
     \<and> gte0 (tx_fee tx)
     \<and> sint (tx_nonce tx) \<ge> 0
     \<and> sint (tx_timestamp tx) > 0
     \<and> (case tx_signature tx of
          None \<Rightarrow> False
        | Some sg \<Rightarrow>
            h256 C (tx_encoded tx) = tx_hash tx
            \<and> Key_verify C (tx_hash tx) (Some sg)
            \<and> (tx_type tx = COINBASE
               \<or> (Signature_getAddress C sg \<noteq> COINBASE_ADDRESS C \<and> tx_to tx \<noteq> COINBASE_ADDRESS C)))"

text \<open>The sender; \<open>getFrom\<close> is null without a signature.\<close>

definition Transaction_getFrom :: "crypto \<Rightarrow> Transaction \<Rightarrow> bytes option" where
  "Transaction_getFrom C tx = map_option (Signature_getAddress C) (tx_signature tx)"

definition Transaction_fromEncoded :: "crypto \<Rightarrow> bytes \<Rightarrow> Transaction res" where
  "Transaction_fromEncoded C encoded =
     rbind (readByte (SimpleDecoder_new encoded)) (\<lambda>(networkId, d).
     rbind (readByte d) (\<lambda>(type, d).
     rbind (readBytes d) (\<lambda>(to, d).
     rbind (readAmount d) (\<lambda>(value, d).
     rbind (readAmount d) (\<lambda>(fee, d).
     rbind (readLong d) (\<lambda>(nonce, d).
     rbind (readLong d) (\<lambda>(timestamp, d).
     rbind (readBytes d) (\<lambda>(data, d).
       Transaction_new C (Network_of networkId) (TransactionType_of type)
         to value fee nonce timestamp data))))))))"

text \<open>The private constructor from raw bytes: the hash and the signature are taken as given.\<close>

definition Transaction_raw :: "crypto \<Rightarrow> bytes \<Rightarrow> bytes \<Rightarrow> bytes \<Rightarrow> Transaction res" where
  "Transaction_raw C hash encoded signature =
     rbind (Transaction_fromEncoded C encoded) (\<lambda>decodedTx.
       Inr (decodedTx\<lparr>tx_hash := hash, tx_encoded := encoded,
                      tx_signature := Signature_fromBytes signature\<rparr>))"

definition Transaction_toBytes :: "Transaction \<Rightarrow> bytes res" where
  "Transaction_toBytes tx =
     rbind (encode [writeBytes (tx_hash tx), writeBytes (tx_encoded tx)]) (\<lambda>out.
     rbind (non_null (tx_signature tx)) (\<lambda>sg. writeBytes (Signature_toBytes sg) out))"

definition Transaction_fromBytes :: "crypto \<Rightarrow> bytes \<Rightarrow> Transaction res" where
  "Transaction_fromBytes C bs =
     rbind (readBytes (SimpleDecoder_new bs)) (\<lambda>(hash, d).
     rbind (readBytes d) (\<lambda>(encoded, d).
     rbind (readBytes d) (\<lambda>(signature, d).
       Transaction_raw C hash encoded signature)))"

definition Transaction_size :: "Transaction \<Rightarrow> nat res" where
  "Transaction_size tx = rmap length (Transaction_toBytes tx)"

section \<open>Round trips of transactions\<close>

definition tx_image :: "jbyte \<Rightarrow> TransactionType \<Rightarrow> bytes \<Rightarrow> Amount \<Rightarrow> Amount \<Rightarrow> jlong \<Rightarrow> jlong \<Rightarrow> bytes \<Rightarrow> bytes" where
  "tx_image networkId type to value fee nonce timestamp data =
     byte_image networkId @ byte_image (TransactionType_toByte type) @ bytes_image to @
     amount_image value @ amount_image fee @ long_image nonce @ long_image timestamp @ bytes_image data"

lemma tx_encode_eq:
  "tx_encode networkId type to value fee nonce timestamp data =
     (if bytes_ok to \<and> bytes_ok data
      then Inr (tx_image networkId type to value fee nonce timestamp data) else Inl IllegalArgument)"
  by (simp add: tx_encode_def tx_image_def)

lemma Transaction_new_Inr:
  "Transaction_new C net ty to value fee nonce timestamp data = Inr tx \<longleftrightarrow>
     (\<exists>network type. net = Some network \<and> ty = Some type \<and> bytes_ok to \<and> bytes_ok data \<and>
        (let enc = tx_image (Network_id network) type to value fee nonce timestamp data
         in tx = \<lparr>tx_networkId = Network_id network, tx_type = type, tx_to = to, tx_value = value,
            tx_fee = fee, tx_nonce = nonce, tx_timestamp = timestamp, tx_data = data,
            tx_encoded = enc, tx_hash = h256 C enc, tx_signature = None\<rparr>))"
  by (auto simp: Transaction_new_def rbind_eq_Inr tx_encode_eq Let_def split: if_splits)

text \<open>The transactions the constructors can make: the encoding is the encoding of the fields.\<close>

definition tx_wf :: "crypto \<Rightarrow> Transaction \<Rightarrow> bool" where
  "tx_wf C tx \<longleftrightarrow>
     (\<exists>n. tx_networkId tx = Network_id n) \<and> bytes_ok (tx_to tx) \<and> bytes_ok (tx_data tx) \<and>
     bytes_ok (tx_encoded tx) \<and> bytes_ok (tx_hash tx) \<and>
     tx_encoded tx = tx_image (tx_networkId tx) (tx_type tx) (tx_to tx) (tx_value tx) (tx_fee tx)
       (tx_nonce tx) (tx_timestamp tx) (tx_data tx)"

lemma Transaction_fromEncoded_image:
  assumes "bytes_ok to" "bytes_ok data"
  shows "Transaction_fromEncoded C (tx_image (Network_id n) type to value fee nonce timestamp data) =
    Transaction_new C (Some n) (Some type) to value fee nonce timestamp data"
  using assms by (simp add: Transaction_fromEncoded_def tx_image_def SimpleDecoder_new_at)

lemma Transaction_toBytes_eq:
  "tx_signature tx = Some sg \<Longrightarrow> bytes_ok (tx_hash tx) \<Longrightarrow> bytes_ok (tx_encoded tx) \<Longrightarrow> Signature_wf sg \<Longrightarrow>
   Transaction_toBytes tx =
     Inr (bytes_image (tx_hash tx) @ bytes_image (tx_encoded tx) @ bytes_image (Signature_toBytes sg))"
  by (simp add: Transaction_toBytes_def bytes_ok_def [of "Signature_toBytes sg"] length_Signature_toBytes)

lemma Transaction_roundtrip:
  assumes wf: "tx_wf C tx" and sg: "tx_signature tx = Some sg" "Signature_wf sg"
    and bs: "Transaction_toBytes tx = Inr bs"
  shows "Transaction_fromBytes C bs = Inr tx"
proof -
  have oks: "bytes_ok (tx_hash tx)" "bytes_ok (tx_encoded tx)" "bytes_ok (tx_to tx)" "bytes_ok (tx_data tx)"
    and enc: "tx_encoded tx = tx_image (tx_networkId tx) (tx_type tx) (tx_to tx) (tx_value tx) (tx_fee tx)
       (tx_nonce tx) (tx_timestamp tx) (tx_data tx)"
    using wf unfolding tx_wf_def by blast+
  obtain n where n: "tx_networkId tx = Network_id n" using wf by (auto simp: tx_wf_def)
  have sok: "bytes_ok (Signature_toBytes sg)"
    using sg(2) by (simp add: bytes_ok_def length_Signature_toBytes)
  have image: "bs = bytes_image (tx_hash tx) @ bytes_image (tx_encoded tx) @ bytes_image (Signature_toBytes sg)"
    using Transaction_toBytes_eq [OF sg(1) oks(1,2) sg(2)] bs by simp
  have fe: "Transaction_fromEncoded C (tx_encoded tx) =
      Transaction_new C (Some n) (Some (tx_type tx)) (tx_to tx) (tx_value tx) (tx_fee tx)
        (tx_nonce tx) (tx_timestamp tx) (tx_data tx)"
    unfolding enc n using oks by (intro Transaction_fromEncoded_image)
  have "Transaction_fromBytes C bs = Transaction_raw C (tx_hash tx) (tx_encoded tx) (Signature_toBytes sg)"
    using oks sok unfolding image by (simp add: Transaction_fromBytes_def SimpleDecoder_new_at)
  also have "\<dots> = Inr tx"
    using oks n sg
    by (simp add: Transaction_raw_def fe Transaction_new_def tx_encode_eq Signature_fromBytes_toBytes)
  finally show ?thesis .
qed

text \<open>What a received transaction commits to: its fields are those of the bytes it hashes.\<close>

lemma Transaction_fromBytes_wf:
  assumes "Transaction_fromBytes C bs = Inr tx"
  shows "\<exists>tx'. Transaction_fromEncoded C (tx_encoded tx) = Inr tx' \<and>
    tx = tx'\<lparr>tx_hash := tx_hash tx, tx_encoded := tx_encoded tx, tx_signature := tx_signature tx\<rparr>"
  using assms by (auto simp: Transaction_fromBytes_def Transaction_raw_def rbind_eq_Inr)

section \<open>TransactionResult\<close>

datatype TxError =
    INVALID_FORMAT | DUPLICATED_HASH | INVALID_TIMESTAMP | INVALID_TYPE | INVALID_NONCE | INVALID_FEE
  | INVALID_DATA_LENGTH | INSUFFICIENT_AVAILABLE | INSUFFICIENT_LOCKED | INVALID_DELEGATE_NAME
  | INVALID_DELEGATE_BURN_AMOUNT | FAILED

record TransactionResult =
  tr_success :: bool
  tr_returns :: bytes
  tr_logs :: "bytes list"
  tr_error :: "TxError option"

definition TransactionResult_new :: "bool \<Rightarrow> TransactionResult" where
  "TransactionResult_new success =
     \<lparr>tr_success = success, tr_returns = EMPTY_BYTES, tr_logs = [], tr_error = None\<rparr>"

definition TransactionResult_validate :: "TransactionResult \<Rightarrow> bool" where
  "TransactionResult_validate r \<longleftrightarrow> tr_success r"

definition TransactionResult_toBytes :: "TransactionResult \<Rightarrow> bytes res" where
  "TransactionResult_toBytes r =
     rbind (encode [writeBoolean (tr_success r), writeBytes (tr_returns r),
                    writeInt (of_nat (length (tr_logs r)))]) (\<lambda>out.
       rfold writeBytes (tr_logs r) out)"

definition TransactionResult_fromBytes :: "bytes \<Rightarrow> TransactionResult res" where
  "TransactionResult_fromBytes bs =
     rbind (readBoolean (SimpleDecoder_new bs)) (\<lambda>(valid, d).
     rbind (readBytes d) (\<lambda>(returns, d).
     rbind (readInt d) (\<lambda>(n, d).
     rbind (read_times (nat (sint n)) readBytes d) (\<lambda>(logs, d).
       Inr \<lparr>tr_success = valid, tr_returns = returns, tr_logs = logs, tr_error = None\<rparr>))))"

lemma TransactionResult_roundtrip:
  assumes "TransactionResult_toBytes r = Inr bs" and "length (tr_logs r) < 2 ^ 31"
  shows "TransactionResult_fromBytes bs = Inr (r\<lparr>tr_error := None\<rparr>)"
proof -
  have n: "sint (of_nat (length (tr_logs r)) :: jint) = int (length (tr_logs r))"
    using assms(2) by (rule sint_of_nat_jint)
  have eq: "TransactionResult_toBytes r =
      (if bytes_ok (tr_returns r)
       then rfold writeBytes (tr_logs r) (boolean_image (tr_success r) @ bytes_image (tr_returns r) @
         int_image (of_nat (length (tr_logs r))))
       else Inl IllegalArgument)"
    by (simp add: TransactionResult_toBytes_def)
  have "bytes_ok (tr_returns r)" "list_all bytes_ok (tr_logs r)"
    and "bs = boolean_image (tr_success r) @ bytes_image (tr_returns r) @
      int_image (of_nat (length (tr_logs r))) @ concat (map bytes_image (tr_logs r))"
    using assms(1)
    by (auto simp: eq bytes_codec.write_list_Inr split: if_splits)
  then show ?thesis
    by (simp add: TransactionResult_fromBytes_def SimpleDecoder_new_at n bytes_codec.read_list_at_end)
qed

section \<open>Properties\<close>

lemma tx_wf_new:
  assumes new: "Transaction_new C (Some n) (Some ty) to v f nonce ts data = Inr tx"
    and "digest_ok C" and len: "length (tx_encoded tx) \<le> 0x0FFFFFFF"
  shows "tx_wf C tx"
proof -
  have "bytes_ok (tx_encoded tx)" using len by (simp add: bytes_ok_def)
  moreover have "bytes_ok (tx_hash tx)"
    using new assms(2) by (auto simp: Transaction_new_Inr bytes_ok_def length_h256 Let_def)
  ultimately show ?thesis using new by (auto simp: Transaction_new_Inr tx_wf_def Let_def)
qed

lemma tx_wf_signature [simp]: "tx_wf C (tx\<lparr>tx_signature := sg\<rparr>) = tx_wf C tx"
  by (simp add: tx_wf_def)

text \<open>
  C1. A transaction that is built by the constructor and then signed survives the trip over the
  network: its bytes exist and decode to the same transaction, hash and signature included.
\<close>

theorem signed_transaction_roundtrip:
  assumes "digest_ok C" and "keys_ok C"
    and new: "Transaction_new C (Some n) (Some ty) to v f nonce ts data = Inr tx"
    and len: "length (tx_encoded tx) \<le> 0x0FFFFFFF"
  shows "\<exists>stx bs. Transaction_sign C key tx = Inr stx \<and> Transaction_toBytes stx = Inr bs \<and>
           Transaction_fromBytes C bs = Inr stx"
proof -
  obtain sg where sg: "Key_sign C key (tx_hash tx) = Inr sg" "Signature_wf sg"
    using Key_sign_ok [OF assms(2)] by blast
  define stx where "stx = tx\<lparr>tx_signature := Some sg\<rparr>"
  have "tx_wf C tx" by (rule tx_wf_new [OF new assms(1) len])
  then have wf: "tx_wf C stx" by (simp add: stx_def)
  then obtain bs where bs: "Transaction_toBytes stx = Inr bs"
    using Transaction_toBytes_eq [of stx sg] sg(2) unfolding tx_wf_def stx_def by fastforce
  show ?thesis
    using sg bs Transaction_roundtrip [OF wf _ sg(2) bs]
    by (auto simp: Transaction_sign_def stx_def)
qed

theorem signed_transaction_roundtrip_witness:
  "\<exists>tx stx bs. Transaction_new plain_crypto (Some DEVNET) (Some TRANSFER) (replicate 20 1) (Amount 5) (Amount 1) 7 9 [1, 2]
       = Inr tx \<and> Transaction_sign plain_crypto \<lparr>key_private = [3]\<rparr> tx = Inr stx \<and>
     Transaction_toBytes stx = Inr bs \<and> Transaction_fromBytes plain_crypto bs = Inr stx"
proof -
  have oks: "bytes_ok (replicate 20 1)" "bytes_ok [1, 2]" by (simp_all add: bytes_ok_def)
  obtain tx where tx: "Transaction_new plain_crypto (Some DEVNET) (Some TRANSFER) (replicate 20 1)
      (Amount 5) (Amount 1) 7 9 [1, 2] = Inr tx"
    and enc: "tx_encoded tx = tx_image (Network_id DEVNET) TRANSFER (replicate 20 1) (Amount 5) (Amount 1) 7 9 [1, 2]"
    using oks by (simp add: Transaction_new_def tx_encode_eq)
  have "length (tx_encoded tx) \<le> 0x0FFFFFFF"
    using length_bytes_image [OF oks(1)] length_bytes_image [OF oks(2)]
    unfolding enc by (simp add: tx_image_def)
  from signed_transaction_roundtrip [OF plain_crypto_ok(1,3) tx this, of "\<lparr>key_private = [3]\<rparr>"] tx
  show ?thesis by blast
qed

end
