(* ===== verification/Protocol.thy ===== *)
theory Protocol
  imports Tx "HOL-Library.Signed_Division"
begin

text \<open>
  The rules of the protocol that \<open>AbstractConfig\<close> computes (\<open>org.semux.config\<close>): data size limits,
  block rewards, validator counts, and the choice of the primary validator of a view. The
  rejection loop of that choice is a partial function: \<open>None\<close> means the loop never ends.
\<close>

section \<open>Protocol constants\<close>

definition unit_amount :: "Unit \<Rightarrow> jlong \<Rightarrow> Amount" where
  "unit_amount u n = (case Unit_of u n of Inl _ \<Rightarrow> ZERO | Inr a \<Rightarrow> a)"

definition maxTransactionDataSize :: "TransactionType \<Rightarrow> jint" where
  "maxTransactionDataSize type =
     (case type of
        COINBASE \<Rightarrow> 0
      | TRANSFER \<Rightarrow> 128
      | DELEGATE \<Rightarrow> 16
      | UNVOTE \<Rightarrow> 0
      | VOTE \<Rightarrow> 0
      | CREATE \<Rightarrow> 64 * 1024
      | CALL \<Rightarrow> 64 * 1024)"

definition getBlockReward :: "jlong \<Rightarrow> Amount" where
  "getBlockReward number = (if sint number \<le> 25000000 then unit_amount SEM 3 else ZERO)"

definition getValidatorUpdateInterval :: jlong where
  "getValidatorUpdateInterval = 200"

definition getNumberOfValidators :: "jlong \<Rightarrow> jint" where
  "getNumberOfValidators number =
     (let step = 2 * 60 * 2 in
      if sint number < 84 * step then 16 + word_of_int (sint number sdiv step) else 100)"

section \<open>The primary validator\<close>

text \<open>\<open>BigIntegerUtil.random\<close>: big integers are integers, their \<open>xor\<close> and \<open>and\<close> two's complement.\<close>

definition big_random :: "int \<Rightarrow> int" where
  "big_random seed =
     (let s = (seed XOR 0x5DEECE66D) AND (2 ^ 48 - 1)
      in drop_bit 16 (214013 * s + 2531011) AND 0x7FFF)"

partial_function (option) primary_retry :: "int \<Rightarrow> int \<Rightarrow> int \<Rightarrow> int \<Rightarrow> int \<Rightarrow> int option" where
  "primary_retry sz height view prev subView =
     (let seed = (big_random height XOR big_random view) + subView;
          deterministicRand = big_random seed mod sz
      in if deterministicRand = prev then primary_retry sz height view prev (subView + 1)
         else Some deterministicRand)"

partial_function (option) getUniformDistPrimaryValidatorNumber :: "int \<Rightarrow> int \<Rightarrow> int \<Rightarrow> int option" where
  "getUniformDistPrimaryValidatorNumber sz height view =
     (if view = 0 then Some (height smod sz)
      else Option.bind (getUniformDistPrimaryValidatorNumber sz height (view - 1)) (\<lambda>prev.
             primary_retry sz height view prev 0))"

declare primary_retry.simps [code] getUniformDistPrimaryValidatorNumber.simps [code]

definition getPrimaryValidator ::
  "crypto \<Rightarrow> string list \<Rightarrow> jlong \<Rightarrow> jint \<Rightarrow> bool \<Rightarrow> string res option" where
  "getPrimaryValidator C validators height view uniformDist =
     (if validators = [] then Some (Inl ArithmeticOverflow)
      else if uniformDist then
        map_option (\<lambda>i. if i < 0 then Inl IndexOutOfBounds else aget validators (nat i))
          (getUniformDistPrimaryValidatorNumber (int (length validators)) (sint height) (sint view))
      else
        let key = merge2 (bytes_of_long height) (bytes_of_int view)
        in Some (rbind (aget (h256 C key) 0) (\<lambda>b.
             aget validators (unat (scast b AND (0xFF :: jint)) mod length validators))))"

section \<open>The choice ends and never repeats\<close>

text \<open>The generator reaches 38, 41 and 45, so for two or more validators no value blocks the loop.\<close>

lemma mask48: "(2 ^ 48 - 1 :: int) = mask 48"
  by (simp add: mask_eq_exp_minus_1)

lemma big_random_low: "big_random x = big_random (x mod 2 ^ 48)"
  by (simp only: big_random_def mask48 take_bit_eq_mod [symmetric] take_bit_eq_mask [symmetric]
      take_bit_xor take_bit_take_bit min.idem)

lemma big_random_values:
  "big_random 0x5DEECE66D = 38" "big_random 0x5DEECE66C = 41" "big_random 0x5DEECE66F = 45"
  by (simp_all add: big_random_def)

lemma some_residue:
  assumes "(sz :: int) \<ge> 2"
  shows "\<exists>t \<in> {0x5DEECE66D, 0x5DEECE66C, 0x5DEECE66F}. big_random t mod sz \<noteq> prev"
proof (rule ccontr)
  assume "\<not> ?thesis"
  then have "41 mod sz = (38 :: int) mod sz" "45 mod sz = (41 :: int) mod sz"
    by (simp_all add: big_random_values)
  then have "sz dvd 41 - 38" "sz dvd 45 - 41" unfolding mod_eq_dvd_iff by blast+
  then have "sz dvd (45 - 41) - (41 - 38)" by (rule dvd_diff [rotated])
  then have "sz dvd 1" by simp
  then show False using assms by (simp add: zdvd_imp_le)
qed

lemma retry_from:
  "big_random ((big_random height XOR big_random view) + (subView + int n)) mod sz \<noteq> prev \<Longrightarrow>
   \<exists>r. primary_retry sz height view prev subView = Some r"
proof (induction n arbitrary: subView)
  case 0
  then show ?case by (subst primary_retry.simps) (simp add: Let_def)
next
  case (Suc n)
  then have "\<exists>r. primary_retry sz height view prev (subView + 1) = Some r"
    by (intro Suc.IH) (simp add: ac_simps)
  then show ?case by (subst primary_retry.simps) (simp add: Let_def)
qed

lemma primary_retry_result:
  assumes "primary_retry sz height view prev subView = Some r"
  shows "r \<noteq> prev \<and> r \<in> range (\<lambda>s. s mod sz)"
proof (rule primary_retry.raw_induct [of "\<lambda>sz _ _ prev _ r. r \<noteq> prev \<and> r \<in> range (\<lambda>s. s mod sz)", OF _ assms])
  fix f and sz height view prev subView r :: int
  assume IH: "\<And>sz height view prev subView r. f sz height view prev subView = Some r \<Longrightarrow>
      r \<noteq> prev \<and> r \<in> range (\<lambda>s. s mod sz)"
    and step: "(let seed = (big_random height XOR big_random view) + subView;
        deterministicRand = big_random seed mod sz
      in if deterministicRand = prev then f sz height view prev (subView + 1)
         else Some deterministicRand) = Some r"
  let ?r = "big_random ((big_random height XOR big_random view) + subView) mod sz"
  show "r \<noteq> prev \<and> r \<in> range (\<lambda>s. s mod sz)"
  proof (cases "?r = prev")
    case True
    with step have "f sz height view prev (subView + 1) = Some r" by (simp add: Let_def)
    then show ?thesis by (rule IH)
  next
    case False
    with step have "r = ?r" by (simp add: Let_def)
    with False show ?thesis by blast
  qed
qed

lemma reach_residue: "(b + (s + (t - b - s) mod m)) mod m = t mod (m :: int)"
proof -
  have "((b + s) + (t - b - s) mod m) mod m = ((b + s) + (t - b - s)) mod m"
    by (rule mod_add_right_eq)
  then show ?thesis by (simp add: add.assoc)
qed

lemma primary_retry_ends:
  assumes "sz \<ge> 2"
  shows "\<exists>r. primary_retry sz height view prev subView = Some r \<and> 0 \<le> r \<and> r < sz \<and> r \<noteq> prev"
proof -
  let ?b = "big_random height XOR big_random view"
  obtain t where t: "t \<in> {0x5DEECE66D, 0x5DEECE66C, 0x5DEECE66F}" "big_random t mod sz \<noteq> prev"
    using some_residue [OF assms] by blast
  define n where "n = (t - ?b - subView) mod 2 ^ 48"
  have "n \<ge> 0" by (simp add: n_def)
  have "(?b + (subView + n)) mod 2 ^ 48 = t mod 2 ^ 48"
    unfolding n_def by (rule reach_residue)
  then have "big_random (?b + (subView + n)) = big_random t"
    using big_random_low [of "?b + (subView + n)"] big_random_low [of t] by simp
  then have "big_random (?b + (subView + int (nat n))) = big_random t" using \<open>n \<ge> 0\<close> by simp
  with t obtain r where "primary_retry sz height view prev subView = Some r"
    using retry_from [of height view subView "nat n" sz prev] by auto
  with primary_retry_result [OF this] assms show ?thesis by auto
qed

lemma primary_number_ends:
  assumes "sz \<ge> 2" "height \<ge> 0"
  shows "\<exists>r. getUniformDistPrimaryValidatorNumber sz height (int n) = Some r \<and> 0 \<le> r \<and> r < sz"
proof (induction n)
  case 0
  show ?case using assms
    by (subst getUniformDistPrimaryValidatorNumber.simps) (simp add: signed_modulo_int_def sgn_if)
next
  case (Suc n)
  then obtain p where p: "getUniformDistPrimaryValidatorNumber sz height (int n) = Some p" by blast
  then show ?case
    using primary_retry_ends [OF assms(1), of height "int (Suc n)" p 0]
    by (subst getUniformDistPrimaryValidatorNumber.simps) auto
qed

end
