(* ===== verification/Codes.thy ===== *)
theory Codes
  imports AmountModel
begin

text \<open>
  The enumerations shared by the network and consensus layers: \<open>MessageCode\<close>, \<open>ReasonCode\<close>,
  \<open>Capability\<close> with \<open>CapabilitySet\<close>, and \<open>ValidatorActivatedFork\<close> with its \<open>Activation\<close>
  records.
\<close>

section \<open>Message codes\<close>

datatype MessageCode =
    DISCONNECT | HELLO | WORLD | PING | PONG | GET_NODES | NODES | TRANSACTION
  | GET_BLOCK | BLOCK | GET_BLOCK_HEADER | BLOCK_HEADER
  | BFT_NEW_HEIGHT | BFT_NEW_VIEW | BFT_PROPOSAL | BFT_VOTE

fun MessageCode_code :: "MessageCode \<Rightarrow> jint" where
  "MessageCode_code DISCONNECT = 0x00"
| "MessageCode_code HELLO = 0x01"
| "MessageCode_code WORLD = 0x02"
| "MessageCode_code PING = 0x03"
| "MessageCode_code PONG = 0x04"
| "MessageCode_code GET_NODES = 0x05"
| "MessageCode_code NODES = 0x06"
| "MessageCode_code TRANSACTION = 0x07"
| "MessageCode_code GET_BLOCK = 0x30"
| "MessageCode_code BLOCK = 0x31"
| "MessageCode_code GET_BLOCK_HEADER = 0x32"
| "MessageCode_code BLOCK_HEADER = 0x33"
| "MessageCode_code BFT_NEW_HEIGHT = 0x40"
| "MessageCode_code BFT_NEW_VIEW = 0x41"
| "MessageCode_code BFT_PROPOSAL = 0x42"
| "MessageCode_code BFT_VOTE = 0x43"

definition message_codes :: "MessageCode list" where
  "message_codes = [DISCONNECT, HELLO, WORLD, PING, PONG, GET_NODES, NODES, TRANSACTION, GET_BLOCK,
     BLOCK, GET_BLOCK_HEADER, BLOCK_HEADER, BFT_NEW_HEIGHT, BFT_NEW_VIEW, BFT_PROPOSAL, BFT_VOTE]"

definition MessageCode_of :: "jint \<Rightarrow> MessageCode option" where
  "MessageCode_of code = find (\<lambda>m. MessageCode_code m = (0xFF AND code)) message_codes"

definition MessageCode_toByte :: "MessageCode \<Rightarrow> jbyte" where
  "MessageCode_toByte m = ucast (MessageCode_code m)"

lemma MessageCode_of_code [simp]: "MessageCode_of (MessageCode_code m) = Some m"
  by (cases m) (simp_all add: MessageCode_of_def message_codes_def)

lemma MessageCode_of_byte [simp]: "MessageCode_of (scast (MessageCode_toByte m)) = Some m"
  by (cases m) (simp_all add: MessageCode_of_def MessageCode_toByte_def message_codes_def)

lemma MessageCode_of_Some: "MessageCode_of c = Some m \<longleftrightarrow> 0xFF AND c = MessageCode_code m"
  by (cases m) (auto simp: MessageCode_of_def message_codes_def)

section \<open>Reason codes\<close>

datatype ReasonCode =
    RESERVED | INCOMPATIBLE_PROTOCOL | TOO_MANY_PEERS | INVALID_HANDSHAKE | DUPLICATED_PEER_ID
  | MESSAGE_QUEUE_FULL | VALIDATOR_IP_LIMITED | HANDSHAKE_EXISTS | BAD_PEER

fun ReasonCode_code :: "ReasonCode \<Rightarrow> jint" where
  "ReasonCode_code RESERVED = 0x00"
| "ReasonCode_code INCOMPATIBLE_PROTOCOL = 0x01"
| "ReasonCode_code TOO_MANY_PEERS = 0x02"
| "ReasonCode_code INVALID_HANDSHAKE = 0x03"
| "ReasonCode_code DUPLICATED_PEER_ID = 0x04"
| "ReasonCode_code MESSAGE_QUEUE_FULL = 0x05"
| "ReasonCode_code VALIDATOR_IP_LIMITED = 0x06"
| "ReasonCode_code HANDSHAKE_EXISTS = 0x07"
| "ReasonCode_code BAD_PEER = 0x08"

definition reason_codes :: "ReasonCode list" where
  "reason_codes = [RESERVED, INCOMPATIBLE_PROTOCOL, TOO_MANY_PEERS, INVALID_HANDSHAKE,
     DUPLICATED_PEER_ID, MESSAGE_QUEUE_FULL, VALIDATOR_IP_LIMITED, HANDSHAKE_EXISTS, BAD_PEER]"

definition ReasonCode_of :: "jint \<Rightarrow> ReasonCode option" where
  "ReasonCode_of code = find (\<lambda>r. ReasonCode_code r = (0xFF AND code)) reason_codes"

definition ReasonCode_toByte :: "ReasonCode \<Rightarrow> jbyte" where
  "ReasonCode_toByte r = ucast (ReasonCode_code r)"

lemma ReasonCode_of_byte [simp]: "ReasonCode_of (scast (ReasonCode_toByte r)) = Some r"
  by (cases r) (simp_all add: ReasonCode_of_def ReasonCode_toByte_def reason_codes_def)

section \<open>Capabilities\<close>

datatype Capability = CAP_SEM | CAP_SEM_TESTNET

fun Capability_toString :: "Capability \<Rightarrow> string" where
  "Capability_toString CAP_SEM = ''SEM''"
| "Capability_toString CAP_SEM_TESTNET = ''SEM_TESTNET''"

definition MAX_NUMBER_OF_CAPABILITIES :: nat where "MAX_NUMBER_OF_CAPABILITIES = 128"

text \<open>A set of names, kept as a list without duplicates.\<close>

type_synonym CapabilitySet = "string list"

definition CapabilitySet_ofStrings :: "string list \<Rightarrow> CapabilitySet" where
  "CapabilitySet_ofStrings xs = remdups xs"

definition CapabilitySet_of :: "Capability list \<Rightarrow> CapabilitySet" where
  "CapabilitySet_of cs = remdups (map Capability_toString cs)"

definition isSupported :: "Capability \<Rightarrow> CapabilitySet \<Rightarrow> bool" where
  "isSupported c cs \<longleftrightarrow> Capability_toString c \<in> set cs"

definition CapabilitySet_size :: "CapabilitySet \<Rightarrow> nat" where
  "CapabilitySet_size cs = length cs"

lemma isSupported_of [simp]: "isSupported c (CapabilitySet_of cs) \<longleftrightarrow> c \<in> set cs"
proof -
  have inj: "inj Capability_toString"
  proof (rule injI)
    fix a b assume "Capability_toString a = Capability_toString b"
    then show "a = b" by (cases a; cases b) simp_all
  qed
  then show ?thesis
    by (auto simp: isSupported_def CapabilitySet_of_def dest: injD)
qed

section \<open>Forks activated by the validators\<close>

datatype ValidatorActivatedFork = UNIFORM_DISTRIBUTION

fun fork_number :: "ValidatorActivatedFork \<Rightarrow> jshort" where
  "fork_number UNIFORM_DISTRIBUTION = 1"

fun activationBlocks :: "ValidatorActivatedFork \<Rightarrow> jlong" where
  "activationBlocks UNIFORM_DISTRIBUTION = 1500"

fun activationBlocksLookup :: "ValidatorActivatedFork \<Rightarrow> jlong" where
  "activationBlocksLookup UNIFORM_DISTRIBUTION = 2000"

fun activationDeadline :: "ValidatorActivatedFork \<Rightarrow> jlong" where
  "activationDeadline UNIFORM_DISTRIBUTION = 1000000"

definition fork_toBytes :: "ValidatorActivatedFork \<Rightarrow> bytes res" where
  "fork_toBytes f = encode [writeShort (fork_number f)]"

text \<open>An unknown number is null.\<close>

definition fork_fromBytes :: "bytes \<Rightarrow> ValidatorActivatedFork option res" where
  "fork_fromBytes bs =
     rbind (readShort (SimpleDecoder_new bs)) (\<lambda>(forkNumber, d).
       Inr (if forkNumber = 1 then Some UNIFORM_DISTRIBUTION else None))"

lemma fork_toBytes_eq [simp]: "fork_toBytes f = Inr (short_image (fork_number f))"
  by (simp add: fork_toBytes_def)

lemma fork_fromBytes_image [simp]: "fork_fromBytes (short_image (fork_number f)) = Inr (Some f)"
  by (cases f) (simp add: fork_fromBytes_def SimpleDecoder_new_at)

record Activation =
  act_fork :: "ValidatorActivatedFork option"
  act_activatedAt :: jlong

definition Activation_toBytes :: "Activation \<Rightarrow> bytes res" where
  "Activation_toBytes a =
     rbind (non_null (act_fork a)) (\<lambda>f. rbind (fork_toBytes f) (\<lambda>b.
       encode [writeBytes b, writeLong (act_activatedAt a)]))"

definition Activation_fromBytes :: "bytes \<Rightarrow> Activation res" where
  "Activation_fromBytes bs =
     rbind (readBytes (SimpleDecoder_new bs)) (\<lambda>(b, d).
     rbind (fork_fromBytes b) (\<lambda>fork.
     rbind (readLong d) (\<lambda>(activatedAt, d).
       Inr \<lparr>act_fork = fork, act_activatedAt = activatedAt\<rparr>)))"

lemma Activation_roundtrip:
  "\<exists>bs. Activation_toBytes \<lparr>act_fork = Some f, act_activatedAt = n\<rparr> = Inr bs \<and>
     Activation_fromBytes bs = Inr \<lparr>act_fork = Some f, act_activatedAt = n\<rparr>"
  by (simp add: Activation_toBytes_def Activation_fromBytes_def SimpleDecoder_new_at bytes_ok_def)

end
