(* ===== verification/ConfigModel.thy ===== *)
theory ConfigModel
  imports Protocol Codes
begin

text \<open>
  \<open>AbstractConfig\<close> and its three subclasses (\<open>org.semux.config\<close>): the settings, the property
  file parser and the checkpoints.
\<close>

section \<open>Settings\<close>

record Config =
  cf_dataDir :: string
  cf_network :: Network
  cf_networkVersion :: jshort
  cf_maxBlockTransactionsSize :: jint
  cf_minTransactionFee :: Amount
  cf_maxTransactionTimeDrift :: jlong
  cf_minDelegateBurnAmount :: Amount
  cf_p2pDeclaredIp :: "string option"
  cf_p2pListenIp :: string
  cf_p2pListenPort :: jint
  cf_p2pSeedNodes :: "(string \<times> jint) list"
  cf_netMaxOutboundConnections :: jint
  cf_netMaxInboundConnections :: jint
  cf_netMaxInboundConnectionsPerIp :: jint
  cf_netMaxMessageQueueSize :: jint
  cf_netMaxFrameBodySize :: jint
  cf_netMaxPacketSize :: jint
  cf_netRelayRedundancy :: jint
  cf_netHandshakeExpiry :: jint
  cf_netChannelIdleTimeout :: jint
  cf_netPrioritizedMessages :: "MessageCode list"
  cf_netDnsSeedsMainNet :: "string list"
  cf_netDnsSeedsTestNet :: "string list"
  cf_apiEnabled :: bool
  cf_apiListenIp :: string
  cf_apiListenPort :: jint
  cf_apiUsername :: "string option"
  cf_apiPassword :: "string option"
  cf_bftNewHeightTimeout :: jlong
  cf_bftProposeTimeout :: jlong
  cf_bftValidateTimeout :: jlong
  cf_bftPreCommitTimeout :: jlong
  cf_bftCommitTimeout :: jlong
  cf_bftFinalizeTimeout :: jlong
  cf_maxBlockTimeDrift :: jlong
  cf_vmEnabled :: bool
  cf_vmMaxStackSize :: jint
  cf_vmInitHeapSize :: jint
  cf_locale :: "string \<times> string"
  cf_uiUnit :: string
  cf_uiFractionDigits :: jint
  cf_forkUniformDistributionEnabled :: bool

definition DEFAULT_P2P_PORT :: jint where "DEFAULT_P2P_PORT = 5161"
definition DEFAULT_API_PORT :: jint where "DEFAULT_API_PORT = 5171"

text \<open>The values of the fields before the property file is read; the platform gives the locale.\<close>

definition config_defaults :: "string \<times> string \<Rightarrow> string \<Rightarrow> Network \<Rightarrow> jshort \<Rightarrow> Config" where
  "config_defaults locale dataDir network networkVersion =
     \<lparr>cf_dataDir = dataDir, cf_network = network, cf_networkVersion = networkVersion,
      cf_maxBlockTransactionsSize = 1024 * 1024,
      cf_minTransactionFee = unit_amount MILLI_SEM 5,
      cf_maxTransactionTimeDrift = 2 * 60 * 60 * 1000,
      cf_minDelegateBurnAmount = unit_amount SEM 1000,
      cf_p2pDeclaredIp = None, cf_p2pListenIp = ''0.0.0.0'', cf_p2pListenPort = DEFAULT_P2P_PORT,
      cf_p2pSeedNodes = [],
      cf_netMaxOutboundConnections = 128, cf_netMaxInboundConnections = 512,
      cf_netMaxInboundConnectionsPerIp = 5, cf_netMaxMessageQueueSize = 4096,
      cf_netMaxFrameBodySize = 128 * 1024, cf_netMaxPacketSize = 8 * 1024 * 1024,
      cf_netRelayRedundancy = 16, cf_netHandshakeExpiry = 5 * 60 * 1000,
      cf_netChannelIdleTimeout = 2 * 60 * 1000,
      cf_netPrioritizedMessages = [BFT_NEW_HEIGHT, BFT_NEW_VIEW, BFT_PROPOSAL, BFT_VOTE],
      cf_netDnsSeedsMainNet = [''mainnet.semux.org'', ''mainnet.semux.net''],
      cf_netDnsSeedsTestNet = [''testnet.semux.org''],
      cf_apiEnabled = False, cf_apiListenIp = ''127.0.0.1'', cf_apiListenPort = DEFAULT_API_PORT,
      cf_apiUsername = None, cf_apiPassword = None,
      cf_bftNewHeightTimeout = 3000, cf_bftProposeTimeout = 12000, cf_bftValidateTimeout = 6000,
      cf_bftPreCommitTimeout = 6000, cf_bftCommitTimeout = 3000, cf_bftFinalizeTimeout = 3000,
      cf_maxBlockTimeDrift = 30 * 1000,
      cf_vmEnabled = False, cf_vmMaxStackSize = 1024, cf_vmInitHeapSize = 128,
      cf_locale = locale, cf_uiUnit = ''SEM'', cf_uiFractionDigits = 9,
      cf_forkUniformDistributionEnabled = True\<rparr>"

text \<open>The accessors that compute.\<close>

definition isNullOrEmpty :: "string option \<Rightarrow> bool" where
  "isNullOrEmpty s \<longleftrightarrow> (case s of None \<Rightarrow> True | Some x \<Rightarrow> x = [])"

definition p2pDeclaredIp :: "Config \<Rightarrow> string option" where
  "p2pDeclaredIp c = (if isNullOrEmpty (cf_p2pDeclaredIp c) then None else cf_p2pDeclaredIp c)"

definition apiUsername :: "Config \<Rightarrow> string" where
  "apiUsername c = (case cf_apiUsername c of None \<Rightarrow> ''admin'' | Some x \<Rightarrow> x)"

definition apiPassword :: "Config \<Rightarrow> string" where
  "apiPassword c = (case cf_apiPassword c of None \<Rightarrow> ''admin'' | Some x \<Rightarrow> x)"

section \<open>The property file\<close>

text \<open>\<open>String.trim\<close>, \<open>String.split\<close> on one character and \<open>Integer.parseInt\<close>.\<close>

definition trim :: "string \<Rightarrow> string" where
  "trim s = (let blank = (\<lambda>c. of_char c \<le> (32 :: nat))
             in rev (dropWhile blank (rev (dropWhile blank s))))"

fun pieces :: "char \<Rightarrow> string \<Rightarrow> string \<Rightarrow> string list" where
  "pieces sep [] acc = [rev acc]"
| "pieces sep (c # cs) acc =
     (if c = sep then rev acc # pieces sep cs [] else pieces sep cs (c # acc))"

definition split_on :: "char \<Rightarrow> string \<Rightarrow> string list" where
  "split_on sep s =
     (if sep \<notin> set s then [s] else rev (dropWhile (\<lambda>p. p = []) (rev (pieces sep s []))))"

definition digit_value :: "char \<Rightarrow> int" where
  "digit_value c = int (of_char c) - 48"

definition is_digit :: "char \<Rightarrow> bool" where
  "is_digit c \<longleftrightarrow> 48 \<le> (of_char c :: nat) \<and> (of_char c :: nat) \<le> 57"

definition parseInt :: "string \<Rightarrow> jint res" where
  "parseInt s =
     (let (sgn, ds) = (case s of [] \<Rightarrow> (1, [])
            | c # cs \<Rightarrow> if c = CHR ''-'' then (-1, cs) else if c = CHR ''+'' then (1, cs) else (1, s));
          v = sgn * foldl (\<lambda>n d. 10 * n + digit_value d) 0 ds
      in if ds = [] \<or> \<not> list_all is_digit ds \<or> v < - (2 ^ 31) \<or> v \<ge> 2 ^ 31
         then Inl IllegalArgument else Inr (word_of_int v))"

definition lower :: "string \<Rightarrow> string" where
  "lower s = map (\<lambda>c. if 65 \<le> (of_char c :: nat) \<and> (of_char c :: nat) \<le> 90
                      then char_of (of_char c + 32 :: nat) else c) s"

definition parseBoolean :: "string \<Rightarrow> bool" where
  "parseBoolean s \<longleftrightarrow> lower s = ''true''"

text \<open>
  A seed node: \<open>InetSocketAddress\<close> refuses a port outside the 16-bit range. Name resolution is
  left out: a node is the host as written and the port.
\<close>

definition seed_node :: "string \<Rightarrow> (string \<times> jint) list \<Rightarrow> (string \<times> jint) list res" where
  "seed_node node nodes =
     (if trim node = [] then Inr nodes
      else let tokens = split_on (CHR '':'') (trim node) in
        rbind (aget tokens 0) (\<lambda>ip.
        rbind (if length tokens = 2 then parseInt (tokens ! 1) else Inr DEFAULT_P2P_PORT) (\<lambda>port.
        rbind (rguard (0 \<le> sint port \<and> sint port \<le> 0xFFFF) IllegalArgument) (\<lambda>_.
          Inr (if (ip, port) \<in> set nodes then nodes else nodes @ [(ip, port)])))))"

text \<open>Nodes are added until one fails; those before it stay.\<close>

fun seed_nodes :: "string list \<Rightarrow> (string \<times> jint) list \<Rightarrow> (string \<times> jint) list \<times> bool" where
  "seed_nodes [] nodes = (nodes, False)"
| "seed_nodes (n # ns) nodes =
     (case seed_node n nodes of Inl _ \<Rightarrow> (nodes, True) | Inr nodes' \<Rightarrow> seed_nodes ns nodes')"

text \<open>The effect of one option, and whether it raised an exception.\<close>

definition with_int :: "string \<Rightarrow> (jint \<Rightarrow> Config) \<Rightarrow> Config \<Rightarrow> Config \<times> bool" where
  "with_int v f c = (case parseInt (trim v) of Inl _ \<Rightarrow> (c, True) | Inr i \<Rightarrow> (f i, False))"

definition init_option :: "string \<Rightarrow> string \<Rightarrow> Config \<Rightarrow> Config \<times> bool" where
  "init_option name v c =
     (if name = ''p2p.declaredIp'' then (c\<lparr>cf_p2pDeclaredIp := Some (trim v)\<rparr>, False)
      else if name = ''p2p.listenIp'' then (c\<lparr>cf_p2pListenIp := trim v\<rparr>, False)
      else if name = ''p2p.listenPort'' then with_int v (\<lambda>i. c\<lparr>cf_p2pListenPort := i\<rparr>) c
      else if name = ''p2p.seedNodes'' then
        (let (nodes, failed) = seed_nodes (split_on (CHR '','') (trim v)) (cf_p2pSeedNodes c)
         in (c\<lparr>cf_p2pSeedNodes := nodes\<rparr>, failed))
      else if name = ''net.maxInboundConnections'' then
        with_int v (\<lambda>i. c\<lparr>cf_netMaxInboundConnections := i\<rparr>) c
      else if name = ''net.maxInboundConnectionsPerIp'' then
        with_int v (\<lambda>i. c\<lparr>cf_netMaxInboundConnectionsPerIp := i\<rparr>) c
      else if name = ''net.maxOutboundConnections'' then
        with_int v (\<lambda>i. c\<lparr>cf_netMaxInboundConnections := i\<rparr>) c
      else if name = ''net.maxMessageQueueSize'' then
        with_int v (\<lambda>i. c\<lparr>cf_netMaxMessageQueueSize := i\<rparr>) c
      else if name = ''net.relayRedundancy'' then with_int v (\<lambda>i. c\<lparr>cf_netRelayRedundancy := i\<rparr>) c
      else if name = ''net.channelIdleTimeout'' then
        with_int v (\<lambda>i. c\<lparr>cf_netChannelIdleTimeout := i\<rparr>) c
      else if name = ''net.dnsSeeds.mainNet'' then
        (c\<lparr>cf_netDnsSeedsMainNet := split_on (CHR '','') (trim v)\<rparr>, False)
      else if name = ''net.dnsSeeds.testNet'' then
        (c\<lparr>cf_netDnsSeedsTestNet := split_on (CHR '','') (trim v)\<rparr>, False)
      else if name = ''api.enabled'' then (c\<lparr>cf_apiEnabled := parseBoolean (trim v)\<rparr>, False)
      else if name = ''api.listenIp'' then (c\<lparr>cf_apiListenIp := trim v\<rparr>, False)
      else if name = ''api.listenPort'' then with_int v (\<lambda>i. c\<lparr>cf_apiListenPort := i\<rparr>) c
      else if name = ''api.username'' then (c\<lparr>cf_apiUsername := Some (trim v)\<rparr>, False)
      else if name = ''api.password'' then (c\<lparr>cf_apiPassword := Some (trim v)\<rparr>, False)
      else if name = ''ui.locale'' then
        (case split_on (CHR ''_'') (trim v) of
           [language, country] \<Rightarrow> (c\<lparr>cf_locale := (language, country)\<rparr>, False)
         | _ \<Rightarrow> (c, False))
      else if name = ''ui.unit'' then (c\<lparr>cf_uiUnit := trim v\<rparr>, False)
      else if name = ''ui.fractionDigits'' then with_int v (\<lambda>i. c\<lparr>cf_uiFractionDigits := i\<rparr>) c
      else (c, False))"

text \<open>
  The options in the order the property table lists them; an exception ends the loop and is
  logged. \<open>None\<close> stands for a missing file.
\<close>

fun init_options :: "(string \<times> string) list \<Rightarrow> Config \<Rightarrow> Config" where
  "init_options [] c = c"
| "init_options ((name, v) # ps) c =
     (let (c', failed) = init_option name v c in if failed then c' else init_options ps c')"

definition config_init :: "(string \<times> string) list option \<Rightarrow> Config \<Rightarrow> Config" where
  "config_init props c = (case props of None \<Rightarrow> c | Some ps \<Rightarrow> init_options ps c)"

definition config_validate :: "Config \<Rightarrow> unit res" where
  "config_validate c =
     (if cf_apiEnabled c \<and> (cf_apiUsername c = Some ''YOUR_API_USERNAME'' \<or>
                             cf_apiPassword c = Some ''YOUR_API_PASSWORD'')
      then Inl IllegalArgument else Inr ())"

definition AbstractConfig ::
  "string \<times> string \<Rightarrow> (string \<times> string) list option \<Rightarrow> string \<Rightarrow> Network \<Rightarrow> jshort \<Rightarrow> Config res" where
  "AbstractConfig locale props dataDir network networkVersion =
     (let c = config_init props (config_defaults locale dataDir network networkVersion)
      in rbind (config_validate c) (\<lambda>_. Inr c))"

definition MAINNET_VERSION :: jshort where "MAINNET_VERSION = 0"
definition TESTNET_VERSION :: jshort where "TESTNET_VERSION = 0"
definition DEVNET_VERSION :: jshort where "DEVNET_VERSION = 0"

text \<open>The subclasses change fields after the file has been read.\<close>

definition MainnetConfig :: "string \<times> string \<Rightarrow> (string \<times> string) list option \<Rightarrow> string \<Rightarrow> Config res" where
  "MainnetConfig locale props dataDir = AbstractConfig locale props dataDir MAINNET MAINNET_VERSION"

definition TestnetConfig :: "string \<times> string \<Rightarrow> (string \<times> string) list option \<Rightarrow> string \<Rightarrow> Config res" where
  "TestnetConfig locale props dataDir =
     rmap (\<lambda>c. c\<lparr>cf_maxBlockTransactionsSize := 10 * 1024 * 1024\<rparr>)
       (AbstractConfig locale props dataDir TESTNET TESTNET_VERSION)"

definition DevnetConfig :: "string \<times> string \<Rightarrow> (string \<times> string) list option \<Rightarrow> string \<Rightarrow> Config res" where
  "DevnetConfig locale props dataDir =
     rmap (\<lambda>c. c\<lparr>cf_netMaxInboundConnectionsPerIp := 0x7FFFFFFF\<rparr>)
       (AbstractConfig locale props dataDir DEVNET DEVNET_VERSION)"

fun capabilitySet :: "Network \<Rightarrow> CapabilitySet" where
  "capabilitySet MAINNET = CapabilitySet_of [CAP_SEM]"
| "capabilitySet TESTNET = CapabilitySet_of [CAP_SEM_TESTNET]"
| "capabilitySet DEVNET = CapabilitySet_of [CAP_SEM_TESTNET]"

definition hex_constant :: "string \<Rightarrow> bytes" where
  "hex_constant s = (case Hex_decode0x (Some s) of Inl _ \<Rightarrow> [] | Inr b \<Rightarrow> b)"

fun checkpoints :: "Network \<Rightarrow> (jlong \<times> bytes) list" where
  "checkpoints MAINNET =
     [(2880, hex_constant ''0xc494425a534d035d9ceb1c05d84ff23b39e9940c5cbd1cbab35fafaffa711e3c''),
      (172800, hex_constant ''0xe0f8694ab43cddc1cf99fdee887297522111df0b82a07816350e0ffb801d0253''),
      (233514, hex_constant ''0x5afad5833a7f29299fc209e0914bdcd6824975897a8a4dcfb05448e30bef3d2a'')]"
| "checkpoints TESTNET = []"
| "checkpoints DEVNET = []"

fun forkActivationCheckpoints :: "Network \<Rightarrow> (ValidatorActivatedFork \<times> jlong) list" where
  "forkActivationCheckpoints MAINNET = [(UNIFORM_DISTRIBUTION, 233514)]"
| "forkActivationCheckpoints TESTNET = []"
| "forkActivationCheckpoints DEVNET = []"

end
