(* ===== verification/Executor.thy ===== *)
theory Executor
  imports AccountModel DelegateModel ConfigModel
begin

text \<open>
  \<open>TransactionExecutor\<close> (\<open>org.semux.core\<close>): the checks and the effect of every transaction type on
  the account state and the delegate state. The chain is needed only for the number a new
  delegate is registered at. The lemmas balance the books: what a list of transactions takes from
  the accounts is its fees and burns, the locked coins are the votes, and a failed transaction
  changes nothing.
\<close>

section \<open>The executor\<close>

definition name_alphabet :: "jbyte list" where
  "name_alphabet = map (\<lambda>c. word_of_nat (of_char c)) ''abcdefghijklmnopqrstuvwxyz0123456789_''"

definition validateDelegateName :: "bytes \<Rightarrow> bool" where
  "validateDelegateName data \<longleftrightarrow>
     \<not> (length data < 3 \<or> length data > 16) \<and> list_all (\<lambda>b. b \<in> set name_alphabet) data"

definition tx_failed :: "TxError \<Rightarrow> TransactionResult" where
  "tx_failed e = (TransactionResult_new False)\<lparr>tr_error := Some e\<rparr>"

definition tx_succeeded :: TransactionResult where
  "tx_succeeded = (TransactionResult_new False)\<lparr>tr_success := True\<rparr>"

text \<open>\<open>fee.lte(available) && value.lte(available) && sum(value, fee).lte(available)\<close>\<close>

definition affordable :: "Amount \<Rightarrow> Amount \<Rightarrow> Amount \<Rightarrow> bool res" where
  "affordable fee value available =
     (if lte fee available \<and> lte value available
      then rbind (Amount_sum value fee) (\<lambda>s. Inr (lte s available)) else Inr False)"

type_synonym exec_result = "(TransactionResult \<times> AccountState \<times> DelegateState) res"

text \<open>\<open>as.adjustAvailable(from, neg(sum(value, fee)))\<close>\<close>

definition charge :: "bytes \<Rightarrow> Amount \<Rightarrow> Amount \<Rightarrow> AccountState \<Rightarrow> AccountState res" where
  "charge from value fee as =
     rbind (Amount_sum value fee) (\<lambda>s. rbind (Amount_neg s) (\<lambda>n. adjustAvailable from n as))"

definition execute_transfer ::
  "Account \<Rightarrow> bytes \<Rightarrow> Transaction \<Rightarrow> AccountState \<Rightarrow> DelegateState \<Rightarrow> exec_result" where
  "execute_transfer acc from tx as ds =
     rbind (affordable (tx_fee tx) (tx_value tx) (acc_available acc)) (\<lambda>ok.
     if ok then
       rbind (charge from (tx_value tx) (tx_fee tx) as) (\<lambda>as.
       rbind (adjustAvailable (tx_to tx) (tx_value tx) as) (\<lambda>as.
         Inr (tx_succeeded, as, ds)))
     else Inr (tx_failed INSUFFICIENT_AVAILABLE, as, ds))"

definition execute_delegate ::
  "Config \<Rightarrow> jlong \<Rightarrow> Account \<Rightarrow> bytes \<Rightarrow> Transaction \<Rightarrow> AccountState \<Rightarrow> DelegateState \<Rightarrow> exec_result" where
  "execute_delegate cfg latest acc from tx as ds =
     (if \<not> validateDelegateName (tx_data tx) then Inr (tx_failed INVALID_DELEGATE_NAME, as, ds)
      else if lt (tx_value tx) (cf_minDelegateBurnAmount cfg)
      then Inr (tx_failed INVALID_DELEGATE_BURN_AMOUNT, as, ds)
      else rbind (affordable (tx_fee tx) (tx_value tx) (acc_available acc)) (\<lambda>ok.
        if ok then
          rbind (if EMPTY_ADDRESS = tx_to tx
                 then DelegateState_registerAtNext latest from (tx_data tx) ds
                 else Inr (False, ds)) (\<lambda>(registered, ds).
          if registered then
            rbind (charge from (tx_value tx) (tx_fee tx) as) (\<lambda>as. Inr (tx_succeeded, as, ds))
          else Inr (tx_failed FAILED, as, ds))
        else Inr (tx_failed INSUFFICIENT_AVAILABLE, as, ds)))"

definition execute_vote ::
  "Account \<Rightarrow> bytes \<Rightarrow> Transaction \<Rightarrow> AccountState \<Rightarrow> DelegateState \<Rightarrow> exec_result" where
  "execute_vote acc from tx as ds =
     rbind (affordable (tx_fee tx) (tx_value tx) (acc_available acc)) (\<lambda>ok.
     if ok then
       rbind (DelegateState_vote from (tx_to tx) (tx_value tx) ds) (\<lambda>(voted, ds).
       if voted then
         rbind (charge from (tx_value tx) (tx_fee tx) as) (\<lambda>as.
         rbind (adjustLocked from (tx_value tx) as) (\<lambda>as.
           Inr (tx_succeeded, as, ds)))
       else Inr (tx_failed FAILED, as, ds))
     else Inr (tx_failed INSUFFICIENT_AVAILABLE, as, ds))"

definition execute_unvote ::
  "Account \<Rightarrow> bytes \<Rightarrow> Transaction \<Rightarrow> AccountState \<Rightarrow> DelegateState \<Rightarrow> exec_result" where
  "execute_unvote acc from tx as ds =
     (if lt (acc_available acc) (tx_fee tx) then Inr (tx_failed INSUFFICIENT_AVAILABLE, as, ds)
      else if lt (acc_locked acc) (tx_value tx) then Inr (tx_failed INSUFFICIENT_LOCKED, as, ds)
      else rbind (DelegateState_unvote from (tx_to tx) (tx_value tx) ds) (\<lambda>(unvoted, ds).
        if unvoted then
          rbind (Amount_sub (tx_value tx) (tx_fee tx)) (\<lambda>d.
          rbind (adjustAvailable from d as) (\<lambda>as.
          rbind (Amount_neg (tx_value tx)) (\<lambda>n.
          rbind (adjustLocked from n as) (\<lambda>as.
            Inr (tx_succeeded, as, ds)))))
        else Inr (tx_failed FAILED, as, ds)))"

definition execute_type ::
  "Config \<Rightarrow> jlong \<Rightarrow> Account \<Rightarrow> bytes \<Rightarrow> Transaction \<Rightarrow> AccountState \<Rightarrow> DelegateState \<Rightarrow> exec_result" where
  "execute_type cfg latest acc from tx as ds =
     (case tx_type tx of
        TRANSFER \<Rightarrow> execute_transfer acc from tx as ds
      | DELEGATE \<Rightarrow> execute_delegate cfg latest acc from tx as ds
      | VOTE \<Rightarrow> execute_vote acc from tx as ds
      | UNVOTE \<Rightarrow> execute_unvote acc from tx as ds
      | _ \<Rightarrow> Inr (tx_failed INVALID_TYPE, as, ds))"

text \<open>One round of the loop; \<open>latest\<close> is the number of the latest block of the chain.\<close>

definition execute_one ::
  "crypto \<Rightarrow> Config \<Rightarrow> jlong \<Rightarrow> Transaction \<Rightarrow> AccountState \<Rightarrow> DelegateState \<Rightarrow> exec_result" where
  "execute_one C cfg latest tx as ds =
     rbind (non_null (Transaction_getFrom C tx)) (\<lambda>from.
     rbind (getAccount from as) (\<lambda>acc.
     if tx_nonce tx \<noteq> acc_nonce acc then Inr (tx_failed INVALID_NONCE, as, ds)
     else if lt (tx_fee tx) (cf_minTransactionFee cfg) then Inr (tx_failed INVALID_FEE, as, ds)
     else if int (length (tx_data tx)) > sint (maxTransactionDataSize (tx_type tx))
     then Inr (tx_failed INVALID_DATA_LENGTH, as, ds)
     else rbind (execute_type cfg latest acc from tx as ds) (\<lambda>(result, as, ds).
       if tr_success result then rbind (increaseNonce from as) (\<lambda>as. Inr (result, as, ds))
       else Inr (result, as, ds))))"

fun execute ::
  "crypto \<Rightarrow> Config \<Rightarrow> jlong \<Rightarrow> Transaction list \<Rightarrow> AccountState \<Rightarrow> DelegateState \<Rightarrow>
   (TransactionResult list \<times> AccountState \<times> DelegateState) res" where
  "execute C cfg latest [] as ds = Inr ([], as, ds)"
| "execute C cfg latest (tx # txs) as ds =
     rbind (execute_one C cfg latest tx as ds) (\<lambda>(result, as, ds).
     rbind (execute C cfg latest txs as ds) (\<lambda>(results, as, ds).
       Inr (result # results, as, ds)))"

section \<open>Names\<close>

lemma name_alphabet_nat: "b \<in> set name_alphabet \<longleftrightarrow> unat b \<in> {97..122} \<union> {48..57} \<union> {95}"
proof -
  have img: "unat ` set name_alphabet = {97..122} \<union> {48..57} \<union> {95}"
    by (simp add: name_alphabet_def image_image atLeastAtMost_upt upt_rec_numeral insert_commute)
  have "b \<in> set name_alphabet \<longleftrightarrow> unat b \<in> unat ` set name_alphabet"
    by (rule inj_image_mem_iff [symmetric], rule injI) (rule word_unat_eq_iff [THEN iffD2])
  then show ?thesis unfolding img .
qed

lemma valid_name_bounds:
  assumes "validateDelegateName n"
  shows "length n \<noteq> ADDRESS_LENGTH" "bytes_ok n" "utf8_decode n = map unat n"
proof -
  have "list_all (\<lambda>b. unat b < 0x80) n"
    using assms by (auto simp: validateDelegateName_def name_alphabet_nat list_all_iff)
  then show "utf8_decode n = map unat n" by (rule utf8_decode_ascii)
qed (use assms in \<open>auto simp: validateDelegateName_def ADDRESS_LENGTH_def bytes_ok_def\<close>)

section \<open>The effect of a transaction\<close>

text \<open>What a successful transaction adds to the available and to the locked coins of an address.\<close>

definition available_delta :: "Transaction \<Rightarrow> bytes \<Rightarrow> bytes \<Rightarrow> int" where
  "available_delta tx from a =
     (if a = from then
        (if tx_type tx = UNVOTE then am (tx_value tx) - am (tx_fee tx)
         else - (am (tx_value tx) + am (tx_fee tx))) else 0) +
     (if tx_type tx = TRANSFER \<and> a = tx_to tx then am (tx_value tx) else 0)"

definition locked_delta :: "Transaction \<Rightarrow> bytes \<Rightarrow> bytes \<Rightarrow> int" where
  "locked_delta tx from a =
     (if a = from then (if tx_type tx = VOTE then am (tx_value tx)
        else if tx_type tx = UNVOTE then - am (tx_value tx) else 0) else 0)"

text \<open>What it does to the registry.\<close>

definition registry_effect :: "jlong \<Rightarrow> Transaction \<Rightarrow> bytes \<Rightarrow> DelegateState \<Rightarrow> DelegateState \<Rightarrow> bool" where
  "registry_effect latest tx from ds ds' \<longleftrightarrow>
     (if tx_type tx = VOTE then
        votes_moved (deleg ds) (ballot ds) (deleg ds') (ballot ds') from (tx_to tx) (am (tx_value tx))
      else if tx_type tx = UNVOTE then
        votes_moved (deleg ds) (ballot ds) (deleg ds') (ballot ds') from (tx_to tx) (- am (tx_value tx)) \<and>
        am (tx_value tx) \<le> am (ballot ds from (tx_to tx))
      else if tx_type tx = DELEGATE then
        ballot ds' = ballot ds \<and> deleg ds from = None \<and> name_free (deleg ds) (tx_data tx) \<and>
        validateDelegateName (tx_data tx) \<and>
        (\<forall>c. length c = ADDRESS_LENGTH \<longrightarrow> deleg ds' c =
          (if c = from then Some (new_delegate from (tx_data tx) (latest + 1)) else deleg ds c))
      else ds' = ds)"

definition moved_coins :: "AccountState \<Rightarrow> AccountState \<Rightarrow> Transaction \<Rightarrow> bytes \<Rightarrow> bool" where
  "moved_coins as as' tx from \<longleftrightarrow> (\<forall>a.
     am (acc_available (account as' a)) = am (acc_available (account as a)) + available_delta tx from a \<and>
     am (acc_locked (account as' a)) = am (acc_locked (account as a)) + locked_delta tx from a \<and>
     acc_nonce (account as' a) = acc_nonce (account as a))"

lemma affordable_Inr:
  "affordable fee value available = Inr ok \<longleftrightarrow>
     (ok \<longleftrightarrow> am fee \<le> am available \<and> am value \<le> am available \<and> am value + am fee \<le> am available) \<and>
     (am fee \<le> am available \<and> am value \<le> am available \<longrightarrow> in_long (am value + am fee))"
  by (auto simp: affordable_def compare_am Amount_sum_eq am_mk_amount)

lemma charge_result:
  assumes "accounts_ok as" "charge from v f as = Inr as'"
  shows "accounts_ok as'" "account as' = (account as)(from := (account as from)
    \<lparr>acc_available := mk_amount (am (acc_available (account as from)) - (am v + am f))\<rparr>)"
    "in_long (am (acc_available (account as from)) - (am v + am f))"
proof -
  obtain n where n: "am n = - (am v + am f)" "adjustAvailable from n as = Inr as'"
    using assms(2) by (auto simp: charge_def rbind_eq_Inr Amount_sum_Inr Amount_neg_Inr)
  from accounts.avail_wf [OF assms(1) n(2)] show "accounts_ok as'" .
  from accounts.avail_acct [OF assms(1) n(2)] accounts.avail_in_long [OF assms(1) n(2)]
  show "account as' = (account as)(from := (account as from)
      \<lparr>acc_available := mk_amount (am (acc_available (account as from)) - (am v + am f))\<rparr>)"
    "in_long (am (acc_available (account as from)) - (am v + am f))"
    unfolding n(1) by (simp_all add: algebra_simps)
qed

lemmas tx_result_simps = tx_failed_def tx_succeeded_def TransactionResult_new_def

lemma result_sel [simp]:
  "tr_success tx_succeeded" "tr_error tx_succeeded = None"
  "\<not> tr_success (tx_failed e)" "tr_error (tx_failed e) = Some e"
  by (simp_all add: tx_result_simps)

lemmas effect_defs = moved_coins_def available_delta_def locked_delta_def registry_effect_def

lemma transfer_success:
  assumes "accounts_ok as" "tx_type tx = TRANSFER"
    and "execute_transfer acc from tx as ds = Inr (r, as', ds')" "tr_success r"
  shows "accounts_ok as' \<and> moved_coins as as' tx from \<and> ds' = ds"
proof -
  obtain s where s: "charge from (tx_value tx) (tx_fee tx) as = Inr s"
    "adjustAvailable (tx_to tx) (tx_value tx) s = Inr as'" and ds': "ds' = ds"
    using assms(3,4) by (auto simp: execute_transfer_def rbind_eq_Inr split: if_splits)
  note c = charge_result [OF assms(1) s(1)]
  note t = accounts.avail_wf [OF c(1) s(2)] accounts.avail_acct [OF c(1) s(2)]
    accounts.avail_in_long [OF c(1) s(2)]
  from t c ds' assms(2) show ?thesis
    by (auto simp: effect_defs am_mk_amount)
qed

lemma vote_success:
  assumes "accounts_ok as" "ds_wf ds" "tx_type tx = VOTE" "length (tx_to tx) = ADDRESS_LENGTH"
    and "execute_vote acc from tx as ds = Inr (r, as', ds')" "tr_success r"
  shows "accounts_ok as' \<and> moved_coins as as' tx from \<and> ds_wf ds' \<and> registry_effect latest tx from ds ds'"
proof -
  obtain s where v: "DelegateState_vote from (tx_to tx) (tx_value tx) ds = Inr (True, ds')"
    and s: "charge from (tx_value tx) (tx_fee tx) as = Inr s" "adjustLocked from (tx_value tx) s = Inr as'"
    using assms(5,6) by (auto simp: execute_vote_def rbind_eq_Inr split: if_splits)
  note c = charge_result [OF assms(1) s(1)]
  note t = accounts.lock_wf [OF c(1) s(2)] accounts.lock_acct [OF c(1) s(2)]
    accounts.lock_in_long [OF c(1) s(2)]
  from delegates.vote_result [OF assms(2,4) v] t c assms(3) show ?thesis
    by (auto simp: effect_defs am_mk_amount)
qed

lemma unvote_success:
  assumes "accounts_ok as" "ds_wf ds" "tx_type tx = UNVOTE" "length (tx_to tx) = ADDRESS_LENGTH"
    and "execute_unvote acc from tx as ds = Inr (r, as', ds')" "tr_success r"
  shows "accounts_ok as' \<and> moved_coins as as' tx from \<and> ds_wf ds' \<and> registry_effect latest tx from ds ds'"
proof -
  obtain s d n where v: "DelegateState_unvote from (tx_to tx) (tx_value tx) ds = Inr (True, ds')"
    and d: "am d = am (tx_value tx) - am (tx_fee tx)" "adjustAvailable from d as = Inr s"
    and n: "am n = - am (tx_value tx)" "adjustLocked from n s = Inr as'"
    using assms(5,6)
    by (auto simp: execute_unvote_def rbind_eq_Inr Amount_sub_Inr Amount_neg_Inr split: if_splits)
  note c = accounts.avail_wf [OF assms(1) d(2)] accounts.avail_acct [OF assms(1) d(2)]
    accounts.avail_in_long [OF assms(1) d(2)]
  note t = accounts.lock_wf [OF c(1) n(2)] accounts.lock_acct [OF c(1) n(2)]
    accounts.lock_in_long [OF c(1) n(2)]
  from delegates.unvote_result [OF assms(2,4) v] t c d(1) n(1) assms(3) show ?thesis
    by (auto simp: effect_defs am_mk_amount)
qed

lemma delegate_success:
  assumes "accounts_ok as" "ds_wf ds" "tx_type tx = DELEGATE" "length from = ADDRESS_LENGTH"
    and "execute_delegate cfg latest acc from tx as ds = Inr (r, as', ds')" "tr_success r"
  shows "accounts_ok as' \<and> moved_coins as as' tx from \<and> ds_wf ds' \<and> registry_effect latest tx from ds ds'"
proof -
  obtain r where v: "DelegateState_register from (tx_data tx) (latest + 1) ds = Inr (True, ds')"
    and name: "validateDelegateName (tx_data tx)"
    and s: "charge from (tx_value tx) (tx_fee tx) as = Inr as'"
    using assms(5,6)
    by (auto simp: execute_delegate_def DelegateState_registerAtNext_def rbind_eq_Inr split: if_splits)
  note c = charge_result [OF assms(1) s]
  from delegates.reg_result [OF assms(2,4) valid_name_bounds(1) [OF name] v] c name assms(3) show ?thesis
    by (auto simp: effect_defs am_mk_amount)
qed

lemma execute_type_success:
  assumes "accounts_ok as" "ds_wf ds" "length from = ADDRESS_LENGTH" "length (tx_to tx) = ADDRESS_LENGTH"
    and "execute_type cfg latest acc from tx as ds = Inr (r, as', ds')" "tr_success r"
  shows "accounts_ok as' \<and> moved_coins as as' tx from \<and> ds_wf ds' \<and> registry_effect latest tx from ds ds' \<and>
    tx_type tx \<in> {TRANSFER, DELEGATE, VOTE, UNVOTE}"
proof (cases "tx_type tx")
  case TRANSFER
  then show ?thesis using assms transfer_success [OF assms(1) TRANSFER, of acc "from" ds r as' ds']
    by (simp add: execute_type_def registry_effect_def)
next
  case DELEGATE
  then show ?thesis using assms delegate_success [OF assms(1,2) DELEGATE assms(3), of cfg latest acc r as' ds']
    by (simp add: execute_type_def)
next
  case VOTE
  then show ?thesis using assms vote_success [OF assms(1,2) VOTE assms(4), of acc "from" r as' ds' latest]
    by (simp add: execute_type_def)
next
  case UNVOTE
  then show ?thesis using assms unvote_success [OF assms(1,2) UNVOTE assms(4), of acc "from" r as' ds' latest]
    by (simp add: execute_type_def)
qed (use assms in \<open>auto simp: execute_type_def\<close>)

text \<open>A transaction that fails leaves both states as they are.\<close>

lemma execute_type_failure:
  assumes "ds_wf ds" "length from = ADDRESS_LENGTH" "length (tx_to tx) = ADDRESS_LENGTH"
    and "execute_type cfg latest acc from tx as ds = Inr (r, as', ds')" "\<not> tr_success r"
  shows "as' = as \<and> ds' = ds \<and> (\<exists>e. r = tx_failed e)"
proof (cases "tx_type tx")
  case VOTE
  then show ?thesis
    using assms delegates.vote_result [OF assms(1,3), of "from" "tx_value tx" False ds']
    by (auto simp: execute_type_def execute_vote_def rbind_eq_Inr split: if_splits)
next
  case UNVOTE
  then show ?thesis
    using assms delegates.unvote_result [OF assms(1,3), of "from" "tx_value tx" False ds']
    by (auto simp: execute_type_def execute_unvote_def rbind_eq_Inr split: if_splits)
next
  case DELEGATE
  show ?thesis
  proof (cases "validateDelegateName (tx_data tx)")
    case True
    then show ?thesis
      using DELEGATE assms delegates.reg_result [OF assms(1,2) valid_name_bounds(1) [OF True], of "latest + 1" False ds']
      by (auto simp: execute_type_def execute_delegate_def DelegateState_registerAtNext_def rbind_eq_Inr split: if_splits)
  qed (use DELEGATE assms in \<open>auto simp: execute_type_def execute_delegate_def\<close>)
qed (use assms in \<open>auto simp: execute_type_def execute_transfer_def rbind_eq_Inr split: if_splits\<close>)

section \<open>One transaction\<close>

text \<open>The states the executor runs on, and the effect of one successful round on the accounts.\<close>

definition states_ok :: "AccountState \<Rightarrow> DelegateState \<Rightarrow> bool" where
  "states_ok as ds \<longleftrightarrow> accounts_ok as \<and> ds_wf ds"

definition round_effect :: "AccountState \<Rightarrow> AccountState \<Rightarrow> Transaction \<Rightarrow> bytes \<Rightarrow> bool" where
  "round_effect as as' tx from \<longleftrightarrow> (\<forall>a.
     am (acc_available (account as' a)) = am (acc_available (account as a)) + available_delta tx from a \<and>
     am (acc_locked (account as' a)) = am (acc_locked (account as a)) + locked_delta tx from a \<and>
     acc_nonce (account as' a) = acc_nonce (account as a) + (if a = from then 1 else 0))"

definition sender :: "crypto \<Rightarrow> Transaction \<Rightarrow> bytes" where
  "sender C tx = (case Transaction_getFrom C tx of None \<Rightarrow> [] | Some from \<Rightarrow> from)"

lemma sender_length: "ripemd_ok C \<Longrightarrow> Transaction_getFrom C tx = Some from \<Longrightarrow> length from = ADDRESS_LENGTH"
  by (auto simp: Transaction_getFrom_def Signature_getAddress_def length_h160 ADDRESS_LENGTH_def)

lemma round_of_move:
  "accounts_ok s \<Longrightarrow> moved_coins as s tx from \<Longrightarrow> increaseNonce from s = Inr as' \<Longrightarrow> round_effect as as' tx from"
  by (auto simp: round_effect_def moved_coins_def accounts.bump_acct)

lemma execute_one_result:
  assumes C: "ripemd_ok C" and ok: "states_ok as ds" and to: "length (tx_to tx) = ADDRESS_LENGTH"
    and x: "execute_one C cfg latest tx as ds = Inr (r, as', ds')"
  shows "Transaction_getFrom C tx = Some (sender C tx)" "length (sender C tx) = ADDRESS_LENGTH"
    "states_ok as' ds'"
    "\<not> tr_success r \<Longrightarrow> as' = as \<and> ds' = ds \<and> (\<exists>e. r = tx_failed e)"
    "tr_success r \<Longrightarrow> round_effect as as' tx (sender C tx) \<and> registry_effect latest tx (sender C tx) ds ds' \<and>
       tx_nonce tx = acc_nonce (account as (sender C tx)) \<and> am (tx_fee tx) \<ge> am (cf_minTransactionFee cfg) \<and>
       int (length (tx_data tx)) \<le> sint (maxTransactionDataSize (tx_type tx)) \<and>
       tx_type tx \<in> {TRANSFER, DELEGATE, VOTE, UNVOTE}"
proof -
  obtain f where f: "Transaction_getFrom C tx = Some f"
    using x by (auto simp: execute_one_def rbind_eq_Inr)
  then have s: "sender C tx = f" by (simp add: sender_def)
  then show "Transaction_getFrom C tx = Some (sender C tx)" "length (sender C tx) = ADDRESS_LENGTH"
    using f sender_length [OF C f] by simp_all
  have aok: "accounts_ok as" and dok: "ds_wf ds" using ok by (simp_all add: states_ok_def)
  note len = sender_length [OF C f]
  consider (rejected) e where "r = tx_failed e" "as' = as" "ds' = ds"
    | (ran) a where "execute_type cfg latest (account as f) f tx as ds = Inr (r, a, ds')"
        "tr_success r \<longrightarrow> increaseNonce f a = Inr as'" "\<not> tr_success r \<longrightarrow> as' = a"
        "tx_nonce tx = acc_nonce (account as f)" "am (tx_fee tx) \<ge> am (cf_minTransactionFee cfg)"
        "int (length (tx_data tx)) \<le> sint (maxTransactionDataSize (tx_type tx))"
    using x aok
    by (auto simp: execute_one_def f rbind_eq_Inr getAccount_ok compare_am split: if_splits)
  then have "states_ok as' ds' \<and> (\<not> tr_success r \<longrightarrow> as' = as \<and> ds' = ds \<and> (\<exists>e. r = tx_failed e)) \<and>
    (tr_success r \<longrightarrow> round_effect as as' tx f \<and> registry_effect latest tx f ds ds' \<and>
       tx_nonce tx = acc_nonce (account as f) \<and> am (tx_fee tx) \<ge> am (cf_minTransactionFee cfg) \<and>
       int (length (tx_data tx)) \<le> sint (maxTransactionDataSize (tx_type tx)) \<and>
       tx_type tx \<in> {TRANSFER, DELEGATE, VOTE, UNVOTE})"
  proof cases
    case rejected
    then show ?thesis using ok by auto
  next
    case ran
    show ?thesis
    proof (cases "tr_success r")
      case True
      with ran have inc: "increaseNonce f a = Inr as'" by simp
      note es = execute_type_success [OF aok dok len to ran(1) True]
      have "accounts_ok as'" using es accounts.bump_wf [OF _ inc] by blast
      moreover have "round_effect as as' tx f" using es round_of_move [OF _ _ inc] by blast
      ultimately show ?thesis using es ran True by (simp add: states_ok_def)
    next
      case False
      with ran execute_type_failure [OF dok len to ran(1) False] ok show ?thesis by simp
    qed
  qed
  then show "states_ok as' ds'" "\<not> tr_success r \<Longrightarrow> as' = as \<and> ds' = ds \<and> (\<exists>e. r = tx_failed e)"
    "tr_success r \<Longrightarrow> round_effect as as' tx (sender C tx) \<and> registry_effect latest tx (sender C tx) ds ds' \<and>
       tx_nonce tx = acc_nonce (account as (sender C tx)) \<and> am (tx_fee tx) \<ge> am (cf_minTransactionFee cfg) \<and>
       int (length (tx_data tx)) \<le> sint (maxTransactionDataSize (tx_type tx)) \<and>
       tx_type tx \<in> {TRANSFER, DELEGATE, VOTE, UNVOTE}"
    unfolding s by simp_all
qed

section \<open>Balanced books\<close>

text \<open>
  \<open>A\<close> is a finite set of addresses that holds every account, voter and delegate in play. The
  books are balanced when a delegate's votes are the ballots cast for it, the locked coins of an
  account are the ballots it has cast, and nothing is negative.
\<close>

definition books :: "bytes set \<Rightarrow> AccountState \<Rightarrow> DelegateState \<Rightarrow> bool" where
  "books A as ds \<longleftrightarrow> finite A \<and> (\<forall>a\<in>A. length a = ADDRESS_LENGTH) \<and> states_ok as ds \<and>
     delegates.tally A ds \<and> (\<forall>c. length c = ADDRESS_LENGTH \<longrightarrow> deleg ds c \<noteq> None \<longrightarrow> c \<in> A) \<and>
     (\<forall>a\<in>A. am (acc_available (account as a)) \<ge> 0 \<and>
        am (acc_locked (account as a)) = (\<Sum>c\<in>A. am (ballot ds a c)))"

text \<open>What a transaction takes out of circulation.\<close>

definition spent :: "Transaction \<Rightarrow> TransactionResult \<Rightarrow> int" where
  "spent tx r = (if tr_success r
     then am (tx_fee tx) + (if tx_type tx = DELEGATE then am (tx_value tx) else 0) else 0)"

definition tx_in :: "crypto \<Rightarrow> bytes set \<Rightarrow> Transaction \<Rightarrow> bool" where
  "tx_in C A tx \<longleftrightarrow> (\<forall>from. Transaction_getFrom C tx = Some from \<longrightarrow> from \<in> A) \<and>
     (tx_type tx \<noteq> DELEGATE \<longrightarrow> tx_to tx \<in> A) \<and> length (tx_to tx) = ADDRESS_LENGTH \<and>
     gte0 (tx_value tx) \<and> gte0 (tx_fee tx)"

definition coin_supply :: "bytes set \<Rightarrow> AccountState \<Rightarrow> int" where
  "coin_supply A as = (\<Sum>a\<in>A. am (acc_available (account as a)) + am (acc_locked (account as a)))"

lemma round_supply:
  assumes "finite A" "from \<in> A" "tx_type tx \<noteq> DELEGATE \<longrightarrow> tx_to tx \<in> A" "round_effect as as' tx from"
    and "tx_type tx \<in> {TRANSFER, DELEGATE, VOTE, UNVOTE}"
  shows "coin_supply A as' = coin_supply A as - (am (tx_fee tx) + (if tx_type tx = DELEGATE then am (tx_value tx) else 0))"
proof -
  have "coin_supply A as' = coin_supply A as + (\<Sum>a\<in>A. available_delta tx from a + locked_delta tx from a)"
    using assms(4) by (simp add: coin_supply_def round_effect_def sum.distrib algebra_simps)
  also have "(\<Sum>a\<in>A. available_delta tx from a + locked_delta tx from a) =
      - (am (tx_fee tx) + (if tx_type tx = DELEGATE then am (tx_value tx) else 0))"
    using assms(1-3,5) by (auto simp: available_delta_def locked_delta_def sum.distrib)
  finally show ?thesis by simp
qed

lemma moved_ballots:
  assumes "finite A" "\<forall>a\<in>A. length a = ADDRESS_LENGTH" "c \<in> A"
    and "votes_moved (deleg ds) (ballot ds) (deleg ds') (ballot ds') w c x"
  shows "(\<Sum>e\<in>A. am (ballot ds' u e)) = (\<Sum>e\<in>A. am (ballot ds u e)) + (if u = w then x else 0)"
proof -
  have "(\<Sum>e\<in>A. am (ballot ds' u e)) = (\<Sum>e\<in>A. am (ballot ds u e) + (if u = w \<and> e = c then x else 0))"
    using assms(2,4) by (intro sum.cong) (auto simp: votes_moved_def)
  then show ?thesis using assms(1,3) by (cases "u = w") (simp_all add: sum.distrib)
qed

lemma execute_unvote_covered:
  assumes "execute_one C cfg latest tx as ds = Inr (r, as', ds')" "tr_success r" "tx_type tx \<noteq> UNVOTE"
    "accounts_ok as" "Transaction_getFrom C tx = Some from"
  shows "am (tx_value tx) + am (tx_fee tx) \<le> am (acc_available (account as from))"
  using assms
  by (cases "tx_type tx")
    (auto simp: execute_one_def rbind_eq_Inr getAccount_ok execute_type_def execute_transfer_def
      execute_vote_def execute_delegate_def affordable_Inr split: if_splits)

lemma execute_unvote_fee:
  assumes "execute_one C cfg latest tx as ds = Inr (r, as', ds')" "tr_success r" "tx_type tx = UNVOTE"
    "accounts_ok as" "Transaction_getFrom C tx = Some from"
  shows "am (tx_fee tx) \<le> am (acc_available (account as from))"
  using assms
  by (auto simp: execute_one_def rbind_eq_Inr getAccount_ok execute_type_def execute_unvote_def
      compare_am split: if_splits)

lemma tally_nonneg: "delegates.tally A ds \<Longrightarrow> length c = ADDRESS_LENGTH \<Longrightarrow> am (ballot ds v c) \<ge> 0"
  by (simp add: delegates.tally_def)

text \<open>The registry side of the books after a successful round.\<close>

lemma registry_books:
  assumes b: "books A as ds" and f: "from \<in> A" and tx: "tx_in C A tx"
    and ty: "tx_type tx \<in> {TRANSFER, DELEGATE, VOTE, UNVOTE}"
    and e: "registry_effect latest tx from ds ds'"
  shows "delegates.tally A ds' \<and> (\<forall>c. length c = ADDRESS_LENGTH \<longrightarrow> deleg ds' c \<noteq> None \<longrightarrow> c \<in> A) \<and>
    (\<forall>a\<in>A. (\<Sum>c\<in>A. am (ballot ds' a c)) = (\<Sum>c\<in>A. am (ballot ds a c)) + locked_delta tx from a)"
proof -
  have fin: "finite A" and len: "\<forall>a\<in>A. length a = ADDRESS_LENGTH" and tal: "delegates.tally A ds"
    and del: "\<forall>c. length c = ADDRESS_LENGTH \<longrightarrow> deleg ds c \<noteq> None \<longrightarrow> c \<in> A" and wf: "ds_wf ds"
    using b by (auto simp: books_def states_ok_def)
  have v0: "am (tx_value tx) \<ge> 0" and tol: "length (tx_to tx) = ADDRESS_LENGTH"
    using tx by (auto simp: tx_in_def compare_am)
  define x where "x = (if tx_type tx = VOTE then am (tx_value tx) else - am (tx_value tx))"
  show ?thesis
  proof (cases "tx_type tx = VOTE \<or> tx_type tx = UNVOTE")
    case True
    then have m: "votes_moved (deleg ds) (ballot ds) (deleg ds') (ballot ds') from (tx_to tx) x"
      and toA: "tx_to tx \<in> A" and ld: "locked_delta tx from a = (if a = from then x else 0)" for a
      using e tx by (auto simp: registry_effect_def x_def tx_in_def locked_delta_def)
    have cov: "am (ballot ds from (tx_to tx)) + x \<ge> 0"
      using True e v0 tally_nonneg [OF tal tol, of "from"] by (auto simp: registry_effect_def x_def)
    have "deleg ds' c \<noteq> None \<longrightarrow> c \<in> A" if "length c = ADDRESS_LENGTH" for c
      using m that del toA by (auto simp: votes_moved_def split: if_splits)
    moreover have "delegates.tally A ds'"
      by (rule delegates.moved_tally [OF fin f tal m tol cov])
    ultimately show ?thesis using moved_ballots [OF fin len toA m] by (simp add: ld)
  next
    case False
    have ld: "locked_delta tx from a = 0" for a using False by (auto simp: locked_delta_def)
    show ?thesis
    proof (cases "tx_type tx = DELEGATE")
      case True
      then have r: "ballot ds' = ballot ds" "deleg ds from = None"
        "\<And>c. length c = ADDRESS_LENGTH \<Longrightarrow> deleg ds' c =
          (if c = from then Some (new_delegate from (tx_data tx) (latest + 1)) else deleg ds c)"
        using e by (auto simp: registry_effect_def)
      then have "delegates.tally A ds'"
        using tal by (auto simp: delegates.tally_def new_delegate_def split: option.splits)
      then show ?thesis using r del f ld by (auto split: if_splits)
    next
      case transfer: False
      then have "ds' = ds" using False e by (simp add: registry_effect_def)
      then show ?thesis using tal del ld by simp
    qed
  qed
qed

lemma execute_one_books:
  assumes C: "ripemd_ok C" and b: "books A as ds" and tx: "tx_in C A tx"
    and x: "execute_one C cfg latest tx as ds = Inr (r, as', ds')"
  shows "books A as' ds' \<and> coin_supply A as' = coin_supply A as - spent tx r"
proof (cases "tr_success r")
  case False
  have "states_ok as ds" "length (tx_to tx) = ADDRESS_LENGTH"
    using b tx by (simp_all add: books_def tx_in_def)
  with execute_one_result(4) [OF C _ _ x False] b False show ?thesis by (simp add: spent_def)
next
  case True
  let ?f = "sender C tx"
  have ok: "states_ok as ds" and fin: "finite A" and to: "length (tx_to tx) = ADDRESS_LENGTH"
    and bal: "\<forall>a\<in>A. am (acc_available (account as a)) \<ge> 0 \<and>
        am (acc_locked (account as a)) = (\<Sum>c\<in>A. am (ballot ds a c))"
    using b tx by (simp_all add: books_def tx_in_def)
  note res = execute_one_result [OF C ok to x]
  have f: "?f \<in> A" using tx res(1) by (simp add: tx_in_def)
  from res(5) [OF True] have eff: "round_effect as as' tx ?f" and reg: "registry_effect latest tx ?f ds ds'"
    and ty: "tx_type tx \<in> {TRANSFER, DELEGATE, VOTE, UNVOTE}" by blast+
  note rb = registry_books [OF b f tx ty reg]
  have pos: "am (tx_value tx) \<ge> 0" "am (tx_fee tx) \<ge> 0" using tx by (simp_all add: tx_in_def compare_am)
  have "am (acc_available (account as' a)) \<ge> 0" if a: "a \<in> A" for a
  proof -
    have "am (acc_available (account as ?f)) + available_delta tx ?f ?f \<ge> 0"
    proof (cases "tx_type tx = UNVOTE")
      case u: True
      then show ?thesis
        using execute_unvote_fee [OF x True u _ res(1)] ok pos by (simp add: available_delta_def states_ok_def)
    next
      case u: False
      have "am (tx_value tx) + am (tx_fee tx) \<le> am (acc_available (account as ?f))"
        using execute_unvote_covered [OF x True u _ res(1)] ok by (simp add: states_ok_def)
      moreover have "available_delta tx ?f ?f \<ge> - (am (tx_value tx) + am (tx_fee tx))"
        using u pos by (simp add: available_delta_def)
      ultimately show ?thesis by linarith
    qed
    moreover have "available_delta tx ?f a \<ge> 0" if "a \<noteq> ?f"
      using that pos by (simp add: available_delta_def)
    ultimately show ?thesis using eff bal a by (cases "a = ?f") (auto simp: round_effect_def)
  qed
  moreover have "am (acc_locked (account as' a)) = (\<Sum>c\<in>A. am (ballot ds' a c))" if a: "a \<in> A" for a
  proof -
    have "am (acc_locked (account as' a)) = am (acc_locked (account as a)) + locked_delta tx ?f a"
      using eff by (simp add: round_effect_def)
    with a bal rb show ?thesis by simp
  qed
  ultimately have "books A as' ds'"
    using b rb res(3) unfolding books_def by blast
  moreover have "coin_supply A as' = coin_supply A as - spent tx r"
    using round_supply [OF fin f _ eff ty] tx True by (simp add: spent_def tx_in_def)
  ultimately show ?thesis by blast
qed

lemma execute_books:
  assumes C: "ripemd_ok C" and "books A as ds" and "\<forall>tx\<in>set txs. tx_in C A tx"
    and "execute C cfg latest txs as ds = Inr (rs, as', ds')"
  shows "books A as' ds' \<and> length rs = length txs \<and>
    coin_supply A as' = coin_supply A as - (\<Sum>(tx, r)\<leftarrow>zip txs rs. spent tx r)"
  using assms(2-)
proof (induction txs arbitrary: as ds rs)
  case (Cons tx txs)
  obtain r as1 ds1 rs1 where one: "execute_one C cfg latest tx as ds = Inr (r, as1, ds1)"
    and rest: "execute C cfg latest txs as1 ds1 = Inr (rs1, as', ds')" and rs: "rs = r # rs1"
    using Cons.prems(3) by (auto simp: rbind_eq_Inr)
  note step = execute_one_books [OF C Cons.prems(1) _ one]
  with Cons.prems(2) have b: "books A as1 ds1" and "coin_supply A as1 = coin_supply A as - spent tx r" by simp_all
  then show ?case using Cons.IH [OF b _ rest] Cons.prems(2) rs by simp
qed simp

section \<open>No exception\<close>

text \<open>
  With balanced books every number the executor adds is bounded by the supply, so below \<open>2 ^ 62\<close>
  no checked operation overflows.
\<close>

lemma books_ballot_nonneg: "books A as ds \<Longrightarrow> c \<in> A \<Longrightarrow> am (ballot ds v c) \<ge> 0"
  by (auto simp: books_def intro: tally_nonneg)

lemma books_bounds:
  assumes b: "books A as ds" and a: "a \<in> A"
  shows "0 \<le> am (acc_available (account as a))" "0 \<le> am (acc_locked (account as a))"
    "am (acc_available (account as a)) + am (acc_locked (account as a)) \<le> coin_supply A as"
proof -
  have nn: "am (acc_available (account as e)) \<ge> 0 \<and> am (acc_locked (account as e)) \<ge> 0" if "e \<in> A" for e
    using b that books_ballot_nonneg [OF b] by (auto simp: books_def intro!: sum_nonneg)
  with a show "0 \<le> am (acc_available (account as a))" "0 \<le> am (acc_locked (account as a))" by simp_all
  have "(\<lambda>e. am (acc_available (account as e)) + am (acc_locked (account as e))) a \<le> coin_supply A as"
    unfolding coin_supply_def using b a nn by (intro member_le_sum) (auto simp: books_def)
  then show "am (acc_available (account as a)) + am (acc_locked (account as a)) \<le> coin_supply A as" by simp
qed

lemma books_ballot_bound:
  assumes b: "books A as ds" and v: "v \<in> A" and c: "c \<in> A"
  shows "am (ballot ds v c) \<le> am (acc_locked (account as v))"
proof -
  have "(\<lambda>c. am (ballot ds v c)) c \<le> (\<Sum>c\<in>A. am (ballot ds v c))"
    using b c books_ballot_nonneg [OF b] by (intro member_le_sum) (auto simp: books_def)
  then show ?thesis using b v by (simp add: books_def)
qed

lemma books_votes_bound:
  assumes b: "books A as ds" and c: "c \<in> A" and d: "deleg ds c = Some d"
  shows "am (del_votes d) \<le> coin_supply A as"
    "v \<in> A \<Longrightarrow> am (ballot ds v c) \<le> am (del_votes d)" "0 \<le> am (del_votes d)"
proof -
  have fin: "finite A" and len: "length c = ADDRESS_LENGTH" using b c by (auto simp: books_def)
  have votes: "am (del_votes d) = (\<Sum>v\<in>A. am (ballot ds v c))"
    using b d len by (auto simp: books_def delegates.tally_def split: option.splits)
  show "0 \<le> am (del_votes d)" unfolding votes using books_ballot_nonneg [OF b c] by (simp add: sum_nonneg)
  have "(\<Sum>v\<in>A. am (ballot ds v c)) \<le> (\<Sum>v\<in>A. am (acc_available (account as v)) + am (acc_locked (account as v)))"
    using books_ballot_bound [OF b _ c] books_bounds(1) [OF b] by (intro sum_mono) (simp add: add_increasing)
  then show "am (del_votes d) \<le> coin_supply A as" by (simp add: votes coin_supply_def)
  show "am (ballot ds v c) \<le> am (del_votes d)" if "v \<in> A"
    using that fin books_ballot_nonneg [OF b c] member_le_sum [of v A "\<lambda>v. am (ballot ds v c)"]
    by (simp add: votes)
qed

lemma affordable_ok:
  "am available < 2 ^ 62 \<Longrightarrow> am fee \<ge> 0 \<Longrightarrow> am value \<ge> 0 \<Longrightarrow>
   affordable fee value available =
     Inr (am fee \<le> am available \<and> am value \<le> am available \<and> am value + am fee \<le> am available)"
  by (auto simp: affordable_Inr in_long_def)

lemma charge_eq:
  assumes "accounts_ok as" "0 \<le> am v" "0 \<le> am f" "am v + am f \<le> am (acc_available (account as from))"
    "am (acc_available (account as from)) < 2 ^ 62"
  obtains s where "charge from v f as = Inr s"
proof -
  have "in_long (am v + am f)" "in_long (- (am v + am f))"
    "in_long (am (acc_available (account as from)) + - (am v + am f))"
    using assms(2-) by (auto simp: in_long_def)
  then show thesis
    using that assms(1) by (simp add: charge_def Amount_sum_eq Amount_neg_eq am_mk_amount adjustAvailable_eq Let_def)
qed

lemma is_ok_bind: "is_ok m \<Longrightarrow> (\<And>x. m = Inr x \<Longrightarrow> is_ok (f x)) \<Longrightarrow> is_ok (rbind m f)"
  by (cases m) simp_all

definition runnable :: "crypto \<Rightarrow> bytes set \<Rightarrow> AccountState \<Rightarrow> DelegateState \<Rightarrow> Transaction \<Rightarrow> bytes \<Rightarrow> bool" where
  "runnable C A as ds tx from \<longleftrightarrow> books A as ds \<and> tx_in C A tx \<and> from \<in> A \<and> coin_supply A as < 2 ^ 62"

lemma runnable_facts:
  assumes "runnable C A as ds tx from"
  shows "books A as ds" "from \<in> A" "accounts_ok as" "ds_wf ds" "delegates.tally A ds" "finite A"
    "length from = ADDRESS_LENGTH" "am (tx_value tx) \<ge> 0" "am (tx_fee tx) \<ge> 0"
    "length (tx_to tx) = ADDRESS_LENGTH" "tx_type tx \<noteq> DELEGATE \<Longrightarrow> tx_to tx \<in> A"
    "am (acc_available (account as from)) < 2 ^ 62" "am (acc_locked (account as from)) < 2 ^ 62"
    "0 \<le> am (acc_available (account as from))" "0 \<le> am (acc_locked (account as from))"
    "am (acc_available (account as from)) + am (acc_locked (account as from)) < 2 ^ 62"
    "affordable (tx_fee tx) (tx_value tx) (acc_available (account as from)) =
       Inr (am (tx_fee tx) \<le> am (acc_available (account as from)) \<and>
            am (tx_value tx) \<le> am (acc_available (account as from)) \<and>
            am (tx_value tx) + am (tx_fee tx) \<le> am (acc_available (account as from)))"
proof -
  have b: "books A as ds" and f: "from \<in> A" and small: "coin_supply A as < 2 ^ 62" and tx: "tx_in C A tx"
    using assms by (simp_all add: runnable_def)
  note fb = books_bounds [OF b f]
  show "books A as ds" "from \<in> A" by fact+
  show "accounts_ok as" "ds_wf ds" "delegates.tally A ds" "finite A" "length from = ADDRESS_LENGTH"
    using b f by (simp_all add: books_def states_ok_def)
  show pos: "am (tx_value tx) \<ge> 0" "am (tx_fee tx) \<ge> 0"
    and "length (tx_to tx) = ADDRESS_LENGTH" "tx_type tx \<noteq> DELEGATE \<Longrightarrow> tx_to tx \<in> A"
    using tx by (simp_all add: tx_in_def compare_am)
  show av: "am (acc_available (account as from)) < 2 ^ 62" using fb small by linarith
  show "am (acc_locked (account as from)) < 2 ^ 62"
    "am (acc_available (account as from)) + am (acc_locked (account as from)) < 2 ^ 62"
    "0 \<le> am (acc_available (account as from))" "0 \<le> am (acc_locked (account as from))"
    using fb small by linarith+
  show "affordable (tx_fee tx) (tx_value tx) (acc_available (account as from)) =
       Inr (am (tx_fee tx) \<le> am (acc_available (account as from)) \<and>
            am (tx_value tx) \<le> am (acc_available (account as from)) \<and>
            am (tx_value tx) + am (tx_fee tx) \<le> am (acc_available (account as from)))"
    by (rule affordable_ok [OF av pos(2,1)])
qed

lemma runnable_charge:
  assumes "runnable C A as ds tx from"
    and "am (tx_value tx) + am (tx_fee tx) \<le> am (acc_available (account as from))"
  obtains s where "charge from (tx_value tx) (tx_fee tx) as = Inr s" "accounts_ok s"
    "account s = (account as)(from := (account as from)\<lparr>acc_available :=
       mk_amount (am (acc_available (account as from)) - (am (tx_value tx) + am (tx_fee tx)))\<rparr>)"
    "in_long (am (acc_available (account as from)) - (am (tx_value tx) + am (tx_fee tx)))"
proof -
  note rf = runnable_facts [OF assms(1)]
  obtain s where s: "charge from (tx_value tx) (tx_fee tx) as = Inr s"
    using charge_eq [OF rf(3,8,9) assms(2) rf(12)] .
  from that [OF s charge_result [OF rf(3) s]] show thesis .
qed

lemma transfer_total:
  assumes r: "runnable C A as ds tx from" and ty: "tx_type tx = TRANSFER"
  shows "is_ok (execute_transfer (account as from) from tx as ds)"
proof (cases "am (tx_value tx) + am (tx_fee tx) \<le> am (acc_available (account as from))")
  case c: True
  note rf = runnable_facts [OF r]
  obtain s where s: "charge from (tx_value tx) (tx_fee tx) as = Inr s" "accounts_ok s"
    and acc: "account s = (account as)(from := (account as from)\<lparr>acc_available :=
       mk_amount (am (acc_available (account as from)) - (am (tx_value tx) + am (tx_fee tx)))\<rparr>)"
    and l: "in_long (am (acc_available (account as from)) - (am (tx_value tx) + am (tx_fee tx)))"
    using runnable_charge [OF r c] by blast
  have to: "tx_to tx \<in> A" using rf(11) ty by simp
  have "0 \<le> am (acc_available (account s (tx_to tx))) \<and> am (acc_available (account s (tx_to tx))) < 2 ^ 62"
    using books_bounds [OF rf(1) to] c l r rf(8,9,12)
    by (cases "tx_to tx = from") (simp_all add: acc am_mk_amount runnable_def)
  moreover have "am (tx_value tx) < 2 ^ 62" using c rf(9,12) by linarith
  ultimately have "in_long (am (acc_available (account s (tx_to tx))) + am (tx_value tx))"
    using rf(8) by (simp add: in_long_def)
  then show ?thesis using s rf(17) by (simp add: execute_transfer_def adjustAvailable_eq Let_def)
qed (simp add: execute_transfer_def runnable_facts(17) [OF r])

lemma delegate_total:
  assumes r: "runnable C A as ds tx from"
  shows "is_ok (execute_delegate cfg latest (account as from) from tx as ds)"
proof -
  note rf = runnable_facts [OF r]
  have "is_ok (DelegateState_register from (tx_data tx) (latest + 1) ds)" if "validateDelegateName (tx_data tx)"
    using delegates.reg_ok [OF rf(4,7) valid_name_bounds(1,2) [OF that]] .
  moreover have "is_ok (charge from (tx_value tx) (tx_fee tx) as)"
    if "am (tx_value tx) + am (tx_fee tx) \<le> am (acc_available (account as from))"
    using runnable_charge [OF r that] by (metis is_ok_simps(2))
  ultimately show ?thesis
    by (auto simp: execute_delegate_def rf(17) DelegateState_registerAtNext_def intro!: is_ok_bind)
qed

lemma vote_total:
  assumes r: "runnable C A as ds tx from" and ty: "tx_type tx = VOTE"
  shows "is_ok (execute_vote (account as from) from tx as ds)"
proof (cases "am (tx_value tx) + am (tx_fee tx) \<le> am (acc_available (account as from))")
  case c: True
  note rf = runnable_facts [OF r]
  have to: "tx_to tx \<in> A" using rf(11) ty by simp
  have "in_long (am (ballot ds from (tx_to tx)) + am (tx_value tx))"
    using books_ballot_bound [OF rf(1,2) to] books_ballot_nonneg [OF rf(1) to, of "from"] rf(8,9,12,13) c
    by (simp add: in_long_def)
  moreover have "in_long (am (del_votes d) + am (tx_value tx))" if "deleg ds (tx_to tx) = Some d" for d
    using books_votes_bound(1,3) [OF rf(1) to that] rf(8,9,12) c r by (simp add: in_long_def runnable_def)
  ultimately have vok: "is_ok (DelegateState_vote from (tx_to tx) (tx_value tx) ds)"
    using delegates.vote_Inl [OF rf(4,10), of "from" "tx_value tx"]
    by (cases "DelegateState_vote from (tx_to tx) (tx_value tx) ds") auto
  obtain s where s: "charge from (tx_value tx) (tx_fee tx) as = Inr s" "accounts_ok s"
    and acc: "account s = (account as)(from := (account as from)\<lparr>acc_available :=
       mk_amount (am (acc_available (account as from)) - (am (tx_value tx) + am (tx_fee tx)))\<rparr>)"
    using runnable_charge [OF r c] by blast
  have "in_long (am (acc_locked (account s from)) + am (tx_value tx))"
    using rf(8,9,12,13,15) c by (simp add: acc in_long_def)
  with vok s show ?thesis
    by (auto simp: execute_vote_def rf(17) adjustLocked_eq Let_def intro!: is_ok_bind)
qed (simp add: execute_vote_def runnable_facts(17) [OF r])

lemma unvote_state_total:
  assumes r: "runnable C A as ds tx from" and to: "tx_to tx \<in> A"
    and unv: "am (tx_value tx) > 0 \<or> deleg ds (tx_to tx) \<noteq> None"
  shows "is_ok (DelegateState_unvote from (tx_to tx) (tx_value tx) ds)"
proof (cases "DelegateState_unvote from (tx_to tx) (tx_value tx) ds")
  case (Inl e)
  note rf = runnable_facts [OF r]
  note law = delegates.unvote_Inl [OF rf(4,10), of "from" "tx_value tx" e]
  have le: "am (tx_value tx) \<le> am (ballot ds from (tx_to tx))" using Inl law by blast
  have l1: "in_long (am (ballot ds from (tx_to tx)) - am (tx_value tx))"
    using le books_ballot_bound [OF rf(1,2) to] rf(8,13) by (simp add: in_long_def)
  have l2: "in_long (am (del_votes d) - am (tx_value tx))" if "deleg ds (tx_to tx) = Some d" for d
    using books_votes_bound(1) [OF rf(1) to that] books_votes_bound(2) [OF rf(1) to that rf(2)] le rf(8) r
    by (simp add: in_long_def runnable_def)
  have "deleg ds (tx_to tx) = None \<and> e = NullPointer"
    using Inl law l1 l2 by (cases "deleg ds (tx_to tx)") auto
  with Inl delegates.unvote_null [OF rf(4,5,6,2,10,8)] unv show ?thesis by simp
qed simp

lemma unvote_total:
  assumes r: "runnable C A as ds tx from" and ty: "tx_type tx = UNVOTE"
    and unv: "am (tx_value tx) > 0 \<or> deleg ds (tx_to tx) \<noteq> None"
  shows "is_ok (execute_unvote (account as from) from tx as ds)"
proof -
  note rf = runnable_facts [OF r]
  have to: "tx_to tx \<in> A" using rf(11) ty by simp
  note uok = unvote_state_total [OF r to unv]
  have "is_ok (rbind (Amount_sub (tx_value tx) (tx_fee tx)) (\<lambda>d. rbind (adjustAvailable from d as)
      (\<lambda>as. rbind (Amount_neg (tx_value tx)) (\<lambda>n. rbind (adjustLocked from n as)
        (\<lambda>as. Inr (tx_succeeded, as, ds'))))))"
    if "am (tx_fee tx) \<le> am (acc_available (account as from))"
      "am (tx_value tx) \<le> am (acc_locked (account as from))" for ds' :: DelegateState
  proof -
    have "in_long (am (tx_value tx) - am (tx_fee tx))" "in_long (- am (tx_value tx))"
      "in_long (am (acc_available (account as from)) + (am (tx_value tx) - am (tx_fee tx)))"
      "in_long (am (acc_locked (account as from)) + - am (tx_value tx))"
      using that rf(8,9,12,13,14,15) by (simp_all add: in_long_def)
    then show ?thesis using rf(3)
      by (simp add: Amount_sub_eq Amount_neg_eq am_mk_amount adjustAvailable_eq adjustLocked_eq Let_def)
  qed
  with uok show ?thesis
    by (auto simp: execute_unvote_def compare_am intro!: is_ok_bind)
qed

lemma execute_type_total:
  assumes "runnable C A as ds tx from"
    and "tx_type tx = UNVOTE \<longrightarrow> am (tx_value tx) > 0 \<or> deleg ds (tx_to tx) \<noteq> None"
  shows "is_ok (execute_type cfg latest (account as from) from tx as ds)"
  using assms transfer_total delegate_total vote_total unvote_total
  by (cases "tx_type tx") (auto simp: execute_type_def)

lemma execute_one_total:
  assumes b: "books A as ds" and tx: "tx_in C A tx" and f: "Transaction_getFrom C tx = Some from"
    and small: "coin_supply A as < 2 ^ 62"
    and unv: "tx_type tx = UNVOTE \<longrightarrow> am (tx_value tx) > 0 \<or> deleg ds (tx_to tx) \<noteq> None"
    and C: "ripemd_ok C"
  shows "is_ok (execute_one C cfg latest tx as ds)"
proof -
  have fA: "from \<in> A" using tx f by (simp add: tx_in_def)
  have ok: "states_ok as ds" and tol: "length (tx_to tx) = ADDRESS_LENGTH"
    using b tx by (simp_all add: books_def tx_in_def)
  have "runnable C A as ds tx from" using b tx fA small by (simp add: runnable_def)
  then have "is_ok (execute_type cfg latest (account as from) from tx as ds)"
    using unv by (rule execute_type_total)
  then obtain r as1 ds1 where t: "execute_type cfg latest (account as from) from tx as ds = Inr (r, as1, ds1)"
    by (auto simp: is_ok_iff)
  have "is_ok (increaseNonce from as1)" if "tr_success r"
    using execute_type_success [OF _ _ sender_length [OF C f] tol t that] ok accounts.bump_ok
    by (auto simp: states_ok_def)
  then show ?thesis using t ok
    by (auto simp: execute_one_def f getAccount_ok states_ok_def intro!: is_ok_bind)
qed

end
