(* ===== verification/Merkle.thy ===== *)
theory Merkle
  imports CryptoModel
begin

text \<open>
  \<open>org.semux.util.MerkleTree\<close>: a binary hash tree built level by level; an odd node at the end of
  a level is carried up unhashed. \<open>getProof\<close> returns the values on the walk from the root.
\<close>

datatype Node = Node (node_value: bytes) (node_left: "Node option") (node_right: "Node option")

record MerkleTree =
  mt_root :: Node
  mt_size :: nat
  mt_levels :: jint

text \<open>One pass of the \<open>for\<close> loop over a level, two nodes at a time.\<close>

fun build_level :: "crypto \<Rightarrow> Node list \<Rightarrow> Node list" where
  "build_level C (l # r # ns) =
     Node (h256_two C (node_value l) (node_value r)) (Some l) (Some r) # build_level C ns"
| "build_level C [l] = [Node (node_value l) (Some l) None]"
| "build_level C [] = []"

lemma length_build_level: "length (build_level C ns) = (length ns + 1) div 2"
  by (induction C ns rule: build_level.induct) auto

text \<open>The \<open>while (nodes.size() > 1)\<close> loop, with the count of levels.\<close>

function build_loop :: "crypto \<Rightarrow> Node list \<Rightarrow> jint \<Rightarrow> Node list \<times> jint" where
  "build_loop C nodes levels =
     (if length nodes > 1 then build_loop C (build_level C nodes) (levels + 1)
      else (nodes, levels))"
  by pat_completeness auto
termination
  by (relation "measure (\<lambda>(C, nodes, levels). length nodes)") (auto simp: length_build_level)

declare build_loop.simps [simp del]

definition build :: "crypto \<Rightarrow> Node list \<Rightarrow> Node \<times> jint" where
  "build C nodes =
     (if nodes = [] then (Node EMPTY_HASH None None, 0)
      else case build_loop C nodes 0 of (ns, levels) \<Rightarrow> (ns ! 0, levels + 1))"

definition MerkleTree_new :: "crypto \<Rightarrow> bytes list \<Rightarrow> MerkleTree" where
  "MerkleTree_new C hashes =
     (case build C (map (\<lambda>b. Node b None None) hashes) of
        (root, levels) \<Rightarrow> \<lparr>mt_root = root, mt_size = length hashes, mt_levels = levels\<rparr>)"

definition getRootHash :: "MerkleTree \<Rightarrow> bytes" where
  "getRootHash t = node_value (mt_root t)"

text \<open>\<open>1 << n\<close> on an \<open>int\<close>: the distance is taken modulo 32.\<close>

definition shl1 :: "jint \<Rightarrow> jint" where
  "shl1 n = push_bit (unat (n AND 0x1F)) 1"

function proof_walk :: "Node \<Rightarrow> jint \<Rightarrow> jint \<Rightarrow> bytes list" where
  "proof_walk (Node v l r) i half =
     v # (case (if sint i < sint half then l else r) of
            None \<Rightarrow> []
          | Some p \<Rightarrow> proof_walk p (i - half) (signed_drop_bit 1 half))"
  by pat_completeness auto
termination
  by (relation "measure (\<lambda>(p, i, half). size p)") (auto split: if_splits)

definition getProof :: "MerkleTree \<Rightarrow> jint \<Rightarrow> bytes list" where
  "getProof t i = proof_walk (mt_root t) i (shl1 (mt_levels t - 2))"

section \<open>The root as a function of the leaves\<close>

text \<open>The specification: hash neighbours until one value is left; nothing hashes to the empty hash.\<close>

fun pair_hash :: "crypto \<Rightarrow> bytes list \<Rightarrow> bytes list" where
  "pair_hash C (a # b # hs) = h256 C (a @ b) # pair_hash C hs"
| "pair_hash C [a] = [a]"
| "pair_hash C [] = []"

lemma length_pair_hash: "length (pair_hash C hs) = (length hs + 1) div 2"
  by (induction C hs rule: pair_hash.induct) auto

function merkle_root :: "crypto \<Rightarrow> bytes list \<Rightarrow> bytes" where
  "merkle_root C hs =
     (case hs of [] \<Rightarrow> EMPTY_HASH | [h] \<Rightarrow> h | _ \<Rightarrow> merkle_root C (pair_hash C hs))"
  by pat_completeness auto
termination
  by (relation "measure (\<lambda>(C, hs). length hs)") (auto simp: length_pair_hash)

declare merkle_root.simps [simp del]

lemma merkle_root_simps [simp]:
  "merkle_root C [] = EMPTY_HASH"
  "merkle_root C [h] = h"
  "merkle_root C (a # b # hs) = merkle_root C (pair_hash C (a # b # hs))"
  by (subst merkle_root.simps, simp)+

lemma build_level_values: "map node_value (build_level C ns) = pair_hash C (map node_value ns)"
  by (induction C ns rule: build_level.induct) (simp_all add: h256_two_def)

lemma build_loop_root:
  "ns \<noteq> [] \<Longrightarrow> \<exists>n l. build_loop C ns levels = ([n], l) \<and> node_value n = merkle_root C (map node_value ns)"
proof (induction C ns levels rule: build_loop.induct)
  case (1 C ns levels)
  show ?case
  proof (cases "length ns > 1")
    case True
    then obtain a b r where ns: "ns = a # b # r" by (cases ns; cases "tl ns") auto
    then have "build_level C ns \<noteq> []" by simp
    from "1.IH" [OF True this] show ?thesis
      using True by (simp add: build_loop.simps [of C ns levels] build_level_values)
        (simp add: ns)
  next
    case False
    with "1.prems" obtain n where "ns = [n]" by (cases ns; cases "tl ns") auto
    then show ?thesis by (simp add: build_loop.simps)
  qed
qed

lemma getRootHash_spec: "getRootHash (MerkleTree_new C hashes) = merkle_root C hashes"
proof (cases "hashes = []")
  case True
  then show ?thesis by (simp add: getRootHash_def MerkleTree_new_def build_def)
next
  case False
  then have ne: "map (\<lambda>b. Node b None None) hashes \<noteq> []" by simp
  from build_loop_root [OF ne, of C 0] obtain n l where
    "build_loop C (map (\<lambda>b. Node b None None) hashes) 0 = ([n], l)"
    "node_value n = merkle_root C (map node_value (map (\<lambda>b. Node b None None) hashes))"
    by blast
  with False show ?thesis by (simp add: getRootHash_def MerkleTree_new_def build_def comp_def)
qed

section \<open>The root binds the leaves\<close>

text \<open>The inputs hashed while the root is computed.\<close>

fun level_inputs :: "bytes list \<Rightarrow> bytes list" where
  "level_inputs (a # b # hs) = (a @ b) # level_inputs hs"
| "level_inputs _ = []"

function root_inputs :: "crypto \<Rightarrow> bytes list \<Rightarrow> bytes list" where
  "root_inputs C hs =
     (case hs of [] \<Rightarrow> [] | [h] \<Rightarrow> [] | _ \<Rightarrow> level_inputs hs @ root_inputs C (pair_hash C hs))"
  by pat_completeness auto
termination
  by (relation "measure (\<lambda>(C, hs). length hs)") (auto simp: length_pair_hash)

declare root_inputs.simps [simp del]

lemma root_inputs_simps [simp]:
  "root_inputs C [] = []"
  "root_inputs C [h] = []"
  "root_inputs C (a # b # hs) = level_inputs (a # b # hs) @ root_inputs C (pair_hash C (a # b # hs))"
  by (subst root_inputs.simps, simp)+

lemma root_inputs_step:
  assumes "length hs > 1"
  shows "root_inputs C hs = level_inputs hs @ root_inputs C (pair_hash C hs)"
    and "merkle_root C hs = merkle_root C (pair_hash C hs)"
proof -
  from assms obtain a b r where "hs = a # b # r" by (cases hs rule: level_inputs.cases) auto
  then show "root_inputs C hs = level_inputs hs @ root_inputs C (pair_hash C hs)"
    and "merkle_root C hs = merkle_root C (pair_hash C hs)" by simp_all
qed

definition collision :: "crypto \<Rightarrow> bytes list \<Rightarrow> bytes list \<Rightarrow> bool" where
  "collision C xs ys \<longleftrightarrow> (\<exists>x \<in> set xs. \<exists>y \<in> set ys. x \<noteq> y \<and> h256 C x = h256 C y)"

lemma pair_hash_lens:
  "digest_ok C \<Longrightarrow> \<forall>h \<in> set hs. length h = 32 \<Longrightarrow> \<forall>h \<in> set (pair_hash C hs). length h = 32"
  by (induction C hs rule: pair_hash.induct) (auto simp: length_h256)

lemma pair_hash_binding:
  "length hs = length gs \<Longrightarrow> \<forall>h \<in> set hs \<union> set gs. length h = 32 \<Longrightarrow>
   pair_hash C hs = pair_hash C gs \<Longrightarrow> hs = gs \<or> collision C (level_inputs hs) (level_inputs gs)"
proof (induction hs arbitrary: gs rule: level_inputs.induct)
  case (1 a b hs)
  then obtain c d gs' where gs: "gs = c # d # gs'" by (cases gs rule: level_inputs.cases) auto
  have IH: "hs = gs' \<or> collision C (level_inputs hs) (level_inputs gs')"
    using "1.prems" gs by (intro "1.IH") auto
  have "h256 C (a @ b) = h256 C (c @ d)" using "1.prems"(3) gs by simp
  moreover have "a @ b = c @ d \<longleftrightarrow> a = c \<and> b = d" using "1.prems"(2) gs by simp
  ultimately show ?case using IH by (auto simp: gs collision_def)
next
  case "2_1"
  then show ?case by simp
next
  case "2_2"
  then obtain w where "gs = [w]" by (cases gs rule: level_inputs.cases) auto
  with "2_2.prems"(3) show ?case by simp
qed

lemma collision_append:
  "collision C xs ys \<or> collision C xs' ys' \<Longrightarrow> collision C (xs @ xs') (ys @ ys')"
  unfolding collision_def by auto

lemma merkle_root_binding:
  "digest_ok C \<Longrightarrow> length hs = length gs \<Longrightarrow> \<forall>h \<in> set hs \<union> set gs. length h = 32 \<Longrightarrow>
   merkle_root C hs = merkle_root C gs \<Longrightarrow> hs = gs \<or> collision C (root_inputs C hs) (root_inputs C gs)"
proof (induction "length hs" arbitrary: hs gs rule: less_induct)
  case less
  show ?case
  proof (cases "length hs > 1")
    case True
    with less.prems(2) have True': "length gs > 1" by simp
    let ?hs = "pair_hash C hs" and ?gs = "pair_hash C gs"
    note steps = root_inputs_step [OF True, of C] root_inputs_step [OF True', of C]
    have lens: "length ?hs = length ?gs" "length ?hs < length hs"
      using True less.prems(2) by (simp_all add: length_pair_hash)
    have h32: "\<forall>h \<in> set ?hs \<union> set ?gs. length h = 32"
      using pair_hash_lens [OF less.prems(1), of hs] pair_hash_lens [OF less.prems(1), of gs] less.prems(3)
      by blast
    have eq: "merkle_root C ?hs = merkle_root C ?gs" using less.prems(4) steps by metis
    have "?hs = ?gs \<or> collision C (root_inputs C ?hs) (root_inputs C ?gs)"
      by (rule less.hyps [OF lens(2) less.prems(1) lens(1) h32 eq])
    then show ?thesis
      using pair_hash_binding [OF less.prems(2,3)]
        collision_append [of C "level_inputs hs" "level_inputs gs" "root_inputs C ?hs" "root_inputs C ?gs"]
      unfolding steps by blast
  next
    case False
    then consider "hs = []" | h where "hs = [h]" by (cases hs; cases "tl hs") auto
    then show ?thesis
    proof cases
      case 1
      with less.prems(2) show ?thesis by simp
    next
      case (2 h)
      with less.prems(2) obtain g where "gs = [g]" by (cases gs) auto
      with 2 less.prems(4) show ?thesis by simp
    qed
  qed
qed

section \<open>The walk of getProof\<close>

text \<open>
  The index is decreased on every step of the walk, also when it goes left; after a step to the
  left it is negative, and the rest of the walk keeps to the left.
\<close>

lemma getProof_four_leaves:
  "getProof (MerkleTree_new C [a, b, c, d]) 1 =
     [h256 C (h256 C (a @ b) @ h256 C (c @ d)), h256 C (a @ b), a]"
  by (simp add: getProof_def MerkleTree_new_def build_def build_loop.simps h256_two_def shl1_def)

end
