(* ===== verification/BlockModel.thy ===== *)
theory BlockModel
  imports Tx Merkle Codes
begin

text \<open>
  \<open>BlockHeader\<close>, \<open>BlockHeaderData\<close>, \<open>Block\<close> and \<open>MerkleUtil\<close>: headers and their format check,
  the fork signals carried in the header data, blocks with their encodings and transaction indexes,
  and the checks that bind a header to its transactions and results.
\<close>

section \<open>BlockHeader\<close>

record BlockHeader =
  bh_hash :: bytes
  bh_number :: jlong
  bh_coinbase :: bytes
  bh_parentHash :: bytes
  bh_timestamp :: jlong
  bh_transactionsRoot :: bytes
  bh_resultsRoot :: bytes
  bh_stateRoot :: bytes
  bh_data :: bytes
  bh_encoded :: bytes

definition header_encode ::
  "jlong \<Rightarrow> bytes \<Rightarrow> bytes \<Rightarrow> jlong \<Rightarrow> bytes \<Rightarrow> bytes \<Rightarrow> bytes \<Rightarrow> bytes \<Rightarrow> bytes res" where
  "header_encode number coinbase prevHash timestamp transactionsRoot resultsRoot stateRoot data =
     encode [writeLong number, writeBytes coinbase, writeBytes prevHash, writeLong timestamp,
             writeBytes transactionsRoot, writeBytes resultsRoot, writeBytes stateRoot, writeBytes data]"

definition BlockHeader_new ::
  "crypto \<Rightarrow> jlong \<Rightarrow> bytes \<Rightarrow> bytes \<Rightarrow> jlong \<Rightarrow> bytes \<Rightarrow> bytes \<Rightarrow> bytes \<Rightarrow> bytes \<Rightarrow> BlockHeader res" where
  "BlockHeader_new C number coinbase prevHash timestamp transactionsRoot resultsRoot stateRoot data =
     rbind (header_encode number coinbase prevHash timestamp transactionsRoot resultsRoot stateRoot data)
       (\<lambda>enc. Inr \<lparr>bh_hash = h256 C enc, bh_number = number, bh_coinbase = coinbase,
          bh_parentHash = prevHash, bh_timestamp = timestamp, bh_transactionsRoot = transactionsRoot,
          bh_resultsRoot = resultsRoot, bh_stateRoot = stateRoot, bh_data = data, bh_encoded = enc\<rparr>)"

definition BlockHeader_raw :: "bytes \<Rightarrow> bytes \<Rightarrow> BlockHeader res" where
  "BlockHeader_raw hash encoded =
     rbind (readLong (SimpleDecoder_new encoded)) (\<lambda>(number, d).
     rbind (readBytes d) (\<lambda>(coinbase, d).
     rbind (readBytes d) (\<lambda>(parentHash, d).
     rbind (readLong d) (\<lambda>(timestamp, d).
     rbind (readBytes d) (\<lambda>(transactionsRoot, d).
     rbind (readBytes d) (\<lambda>(resultsRoot, d).
     rbind (readBytes d) (\<lambda>(stateRoot, d).
     rbind (readBytes d) (\<lambda>(data, d).
       Inr \<lparr>bh_hash = hash, bh_number = number, bh_coinbase = coinbase, bh_parentHash = parentHash,
            bh_timestamp = timestamp, bh_transactionsRoot = transactionsRoot,
            bh_resultsRoot = resultsRoot, bh_stateRoot = stateRoot, bh_data = data,
            bh_encoded = encoded\<rparr>))))))))"

definition HEADER_DATA_MAX_SIZE :: nat where "HEADER_DATA_MAX_SIZE = 32"

definition BlockHeader_validate :: "crypto \<Rightarrow> BlockHeader \<Rightarrow> bool" where
  "BlockHeader_validate C h \<longleftrightarrow>
     length (bh_hash h) = HASH_LEN
     \<and> sint (bh_number h) \<ge> 0
     \<and> length (bh_coinbase h) = ADDRESS_LEN
     \<and> length (bh_parentHash h) = HASH_LEN
     \<and> sint (bh_timestamp h) \<ge> 0
     \<and> length (bh_transactionsRoot h) = HASH_LEN
     \<and> length (bh_resultsRoot h) = HASH_LEN
     \<and> EMPTY_HASH = bh_stateRoot h
     \<and> length (bh_data h) \<le> HEADER_DATA_MAX_SIZE
     \<and> h256 C (bh_encoded h) = bh_hash h"

definition BlockHeader_toBytes :: "BlockHeader \<Rightarrow> bytes res" where
  "BlockHeader_toBytes h = encode [writeBytes (bh_hash h), writeBytes (bh_encoded h)]"

definition BlockHeader_fromBytes :: "bytes \<Rightarrow> BlockHeader res" where
  "BlockHeader_fromBytes bs =
     rbind (readBytes (SimpleDecoder_new bs)) (\<lambda>(hash, d).
     rbind (readBytes d) (\<lambda>(encoded, d). BlockHeader_raw hash encoded))"

definition header_image :: "BlockHeader \<Rightarrow> bytes" where
  "header_image h = long_image (bh_number h) @ bytes_image (bh_coinbase h) @ bytes_image (bh_parentHash h) @
     long_image (bh_timestamp h) @ bytes_image (bh_transactionsRoot h) @ bytes_image (bh_resultsRoot h) @
     bytes_image (bh_stateRoot h) @ bytes_image (bh_data h)"

text \<open>The headers the constructors can make: the encoding is the encoding of the fields.\<close>

definition header_wf :: "BlockHeader \<Rightarrow> bool" where
  "header_wf h \<longleftrightarrow> bytes_ok (bh_hash h) \<and> bytes_ok (bh_encoded h) \<and> bytes_ok (bh_coinbase h) \<and>
     bytes_ok (bh_parentHash h) \<and> bytes_ok (bh_transactionsRoot h) \<and> bytes_ok (bh_resultsRoot h) \<and>
     bytes_ok (bh_stateRoot h) \<and> bytes_ok (bh_data h) \<and> bh_encoded h = header_image h"

lemma BlockHeader_raw_image:
  assumes "header_wf h" shows "BlockHeader_raw (bh_hash h) (header_image h) = Inr h"
proof -
  have "bh_encoded h = header_image h" using assms unfolding header_wf_def by blast
  moreover have "BlockHeader_raw (bh_hash h) (header_image h) = Inr (h\<lparr>bh_encoded := header_image h\<rparr>)"
    using assms unfolding header_wf_def BlockHeader_raw_def header_image_def
    by (elim conjE) (simp add: SimpleDecoder_new_at)
  ultimately show ?thesis by (simp flip: \<open>bh_encoded h = header_image h\<close>)
qed

lemma BlockHeader_roundtrip:
  assumes "header_wf h"
  shows "\<exists>bs. BlockHeader_toBytes h = Inr bs \<and> BlockHeader_fromBytes bs = Inr h"
proof -
  have ok: "bytes_ok (bh_hash h)" "bytes_ok (bh_encoded h)" and enc: "bh_encoded h = header_image h"
    using assms unfolding header_wf_def by blast+
  have "BlockHeader_fromBytes (bytes_image (bh_hash h) @ bytes_image (bh_encoded h)) =
      BlockHeader_raw (bh_hash h) (bh_encoded h)"
    using ok by (simp add: BlockHeader_fromBytes_def SimpleDecoder_new_at)
  also have "\<dots> = Inr h" unfolding enc by (rule BlockHeader_raw_image [OF assms])
  finally show ?thesis using ok by (simp add: BlockHeader_toBytes_def)
qed

section \<open>BlockHeaderData\<close>

text \<open>A signal set holds numbers of forks; a list without duplicates stands for the set.\<close>

type_synonym ForkSignalSet = "jshort list"

record BlockHeaderData =
  hd_version :: jbyte
  hd_forkSignalSet :: ForkSignalSet
  hd_reserved :: bytes

definition MAX_PENDING_FORKS :: nat where "MAX_PENDING_FORKS = 8"

definition ForkSignalSet_new :: "ValidatorActivatedFork list \<Rightarrow> ForkSignalSet res" where
  "ForkSignalSet_new forks =
     (if length forks > MAX_PENDING_FORKS then Inl Unreachable else Inr (remdups (map fork_number forks)))"

definition ForkSignalSet_fromBytes :: "bytes \<Rightarrow> ForkSignalSet res" where
  "ForkSignalSet_fromBytes bs =
     rbind (readByte (SimpleDecoder_new bs)) (\<lambda>(n, d).
     if sint n < 0 \<or> sint n > int MAX_PENDING_FORKS then Inl Unreachable
     else rbind (read_times (nat (sint n)) readShort d) (\<lambda>(ns, d). Inr (remdups ns)))"

definition ForkSignalSet_signalingFork :: "ForkSignalSet \<Rightarrow> ValidatorActivatedFork \<Rightarrow> bool" where
  "ForkSignalSet_signalingFork s fork \<longleftrightarrow> fork_number fork \<in> set s"

definition ForkSignalSet_toBytes :: "ForkSignalSet \<Rightarrow> bytes res" where
  "ForkSignalSet_toBytes s =
     rbind (encode [writeByte (of_nat (length s))]) (\<lambda>out. rfold writeShort s out)"

definition headerdata_v0 :: BlockHeaderData where
  "headerdata_v0 = \<lparr>hd_version = 0, hd_forkSignalSet = [], hd_reserved = []\<rparr>"

definition headerdata_v1 :: "ForkSignalSet \<Rightarrow> BlockHeaderData" where
  "headerdata_v1 s = \<lparr>hd_version = 1, hd_forkSignalSet = s, hd_reserved = EMPTY_BYTES\<rparr>"

definition headerdata_unrecognized :: "jbyte \<Rightarrow> bytes \<Rightarrow> BlockHeaderData" where
  "headerdata_unrecognized version reserved =
     \<lparr>hd_version = version, hd_forkSignalSet = [], hd_reserved = reserved\<rparr>"

definition signalingFork :: "BlockHeaderData \<Rightarrow> ValidatorActivatedFork \<Rightarrow> bool" where
  "signalingFork d fork = ForkSignalSet_signalingFork (hd_forkSignalSet d) fork"

definition headerdata_toBytes :: "BlockHeaderData \<Rightarrow> bytes res" where
  "headerdata_toBytes d =
     (if hd_version d = 0 then Inr []
      else if hd_version d = 1 then
        rbind (ForkSignalSet_toBytes (hd_forkSignalSet d)) (\<lambda>s.
          encode [writeByte (hd_version d), writeBytes s])
      else encode [writeByte (hd_version d), writeBytes (hd_reserved d)])"

text \<open>Any exception while decoding gives the version 0 data.\<close>

definition headerdata_decode :: "bytes \<Rightarrow> BlockHeaderData res" where
  "headerdata_decode bs =
     rbind (readByte (SimpleDecoder_new bs)) (\<lambda>(version, d).
     if version = 0 then Inr headerdata_v0
     else if version = 1 then
       rbind (readBytes d) (\<lambda>(s, d). rbind (ForkSignalSet_fromBytes s) (\<lambda>fs. Inr (headerdata_v1 fs)))
     else rbind (readBytes d) (\<lambda>(reserved, d). Inr (headerdata_unrecognized version reserved)))"

definition headerdata_fromBytes :: "bytes \<Rightarrow> BlockHeaderData res" where
  "headerdata_fromBytes bs =
     (if bs = [] then Inr headerdata_v0
      else if length bs > HEADER_DATA_MAX_SIZE then Inl Unreachable
      else case headerdata_decode bs of Inl _ \<Rightarrow> Inr headerdata_v0 | Inr d \<Rightarrow> Inr d)"

definition getDecodedData :: "BlockHeader \<Rightarrow> BlockHeaderData res" where
  "getDecodedData h = headerdata_fromBytes (bh_data h)"

lemma headerdata_total: "length bs \<le> HEADER_DATA_MAX_SIZE \<Longrightarrow> is_ok (headerdata_fromBytes bs)"
  by (simp add: headerdata_fromBytes_def split: sum.split)

section \<open>MerkleUtil\<close>

definition computeTransactionsRoot :: "crypto \<Rightarrow> Transaction list \<Rightarrow> bytes" where
  "computeTransactionsRoot C txs = getRootHash (MerkleTree_new C (map tx_hash txs))"

definition computeResultsRoot :: "crypto \<Rightarrow> TransactionResult list \<Rightarrow> bytes res" where
  "computeResultsRoot C results =
     rbind (rmapM (\<lambda>r. rmap (h256 C) (TransactionResult_toBytes r)) results) (\<lambda>hashes.
       Inr (getRootHash (MerkleTree_new C hashes)))"

section \<open>Block\<close>

record Block =
  bl_header :: BlockHeader
  bl_transactions :: "Transaction list"
  bl_results :: "TransactionResult list"
  bl_view :: jint
  bl_votes :: "Signature option list"
  bl_encodedHeader :: bytes
  bl_encodedTransactions :: bytes
  bl_encodedResults :: bytes
  bl_indexes :: "(nat \<times> nat) list"

text \<open>The loop of the constructor over the transactions, the result of the same position with each.\<close>

fun encode_entries ::
  "Transaction list \<Rightarrow> TransactionResult list \<Rightarrow> bytes \<Rightarrow> bytes \<Rightarrow> (nat \<times> nat) list \<Rightarrow>
   (bytes \<times> bytes \<times> (nat \<times> nat) list) res" where
  "encode_entries [] rs encTx encRe indexes = Inr (encTx, encRe, indexes)"
| "encode_entries (tx # txs) rs encTx encRe indexes =
     (let idx = (getWriteIndex encTx, getWriteIndex encRe) in
      rbind (Transaction_toBytes tx) (\<lambda>t.
      rbind (writeBytes t encTx) (\<lambda>encTx.
      rbind (aget rs 0) (\<lambda>r.
      rbind (TransactionResult_toBytes r) (\<lambda>r.
      rbind (writeBytes r encRe) (\<lambda>encRe.
        encode_entries txs (tl rs) encTx encRe (indexes @ [idx])))))))"

definition Block_new ::
  "BlockHeader \<Rightarrow> Transaction list \<Rightarrow> TransactionResult list \<Rightarrow> jint \<Rightarrow> Signature option list \<Rightarrow> Block res" where
  "Block_new header transactions results view votes =
     rbind (BlockHeader_toBytes header) (\<lambda>encodedHeader.
     rbind (encode [writeInt (of_nat (length transactions))]) (\<lambda>encTx.
     rbind (encode [writeInt (of_nat (length results))]) (\<lambda>encRe.
     rbind (encode_entries transactions results encTx encRe []) (\<lambda>(encTx, encRe, indexes).
       Inr \<lparr>bl_header = header, bl_transactions = transactions, bl_results = results, bl_view = view,
            bl_votes = votes, bl_encodedHeader = encodedHeader, bl_encodedTransactions = encTx,
            bl_encodedResults = encRe, bl_indexes = indexes\<rparr>))))"

definition Block_toBytesVotes :: "Block \<Rightarrow> bytes res" where
  "Block_toBytesVotes b =
     rbind (encode [writeInt (bl_view b), writeInt (of_nat (length (bl_votes b)))]) (\<lambda>out.
       rfold (\<lambda>vote out. rbind (non_null vote) (\<lambda>sg. writeBytes (Signature_toBytes sg) out)) (bl_votes b) out)"

definition Block_size :: "Block \<Rightarrow> nat res" where
  "Block_size b = rmap (\<lambda>v. length (bl_encodedHeader b) + length (bl_encodedTransactions b) +
     length (bl_encodedResults b) + length v) (Block_toBytesVotes b)"

text \<open>An element read as bytes and parsed.\<close>

definition read_parsed :: "(bytes \<Rightarrow> 'a res) \<Rightarrow> 'a reader" where
  "read_parsed parse d = rbind (readBytes d) (\<lambda>(bs, d). rbind (parse bs) (\<lambda>x. Inr (x, d)))"

definition Block_fromBytes ::
  "crypto \<Rightarrow> bytes \<Rightarrow> bytes \<Rightarrow> bytes \<Rightarrow> bytes option \<Rightarrow> Block res" where
  "Block_fromBytes C h t r v =
     rbind (BlockHeader_fromBytes h) (\<lambda>header.
     rbind (readInt (SimpleDecoder_new t)) (\<lambda>(n, d).
     rbind (read_times (nat (sint n)) (read_parsed (Transaction_fromBytes C)) d) (\<lambda>(transactions, d).
     rbind (readInt (SimpleDecoder_new r)) (\<lambda>(n, d).
     rbind (read_times (nat (sint n)) (read_parsed TransactionResult_fromBytes) d) (\<lambda>(results, d).
     rbind (case v of
              None \<Rightarrow> Inr (0, [])
            | Some v \<Rightarrow>
                rbind (readInt (SimpleDecoder_new v)) (\<lambda>(view, d).
                rbind (readInt d) (\<lambda>(n, d).
                rbind (read_times (nat (sint n)) (read_parsed (\<lambda>bs. Inr (Signature_fromBytes bs))) d)
                  (\<lambda>(votes, d). Inr (view, votes))))) (\<lambda>(view, votes).
       Block_new header transactions results view votes))))))"

subsection \<open>Validation\<close>

definition validateHeader :: "crypto \<Rightarrow> BlockHeader \<Rightarrow> BlockHeader option \<Rightarrow> bool" where
  "validateHeader C previous header \<longleftrightarrow>
     (case header of None \<Rightarrow> False | Some h \<Rightarrow>
        BlockHeader_validate C h
        \<and> bh_number h = bh_number previous + 1
        \<and> bh_parentHash h = bh_hash previous
        \<and> sint (bh_timestamp h) > sint (bh_timestamp previous))"

text \<open>The stream is parallel, but the checks are pure: all of them must hold.\<close>

definition validateTransactions ::
  "crypto \<Rightarrow> BlockHeader \<Rightarrow> Transaction list \<Rightarrow> Transaction list \<Rightarrow> Network \<Rightarrow> bool" where
  "validateTransactions C header unvalidated allTransactions network \<longleftrightarrow>
     list_all (Transaction_validate C network) unvalidated \<and>
     computeTransactionsRoot C allTransactions = bh_transactionsRoot header"

definition validateResults :: "crypto \<Rightarrow> BlockHeader \<Rightarrow> TransactionResult list \<Rightarrow> bool res" where
  "validateResults C header results =
     (if \<not> list_all TransactionResult_validate results then Inr False
      else rmap (\<lambda>root. root = bh_resultsRoot header) (computeResultsRoot C results))"

section \<open>Round trips of blocks\<close>

lemma encode_entries_spec:
  assumes "encode_entries txs rs encTx encRe idx = Inr (t, r, ix)"
  shows "\<exists>ts us. rmapM Transaction_toBytes txs = Inr ts \<and>
    rmapM TransactionResult_toBytes (take (length txs) rs) = Inr us \<and> length txs \<le> length rs \<and>
    list_all bytes_ok ts \<and> list_all bytes_ok us \<and>
    t = encTx @ concat (map bytes_image ts) \<and> r = encRe @ concat (map bytes_image us) \<and>
    length ix = length idx + length txs \<and> take (length idx) ix = idx \<and>
    (\<forall>i < length txs. ix ! (length idx + i) =
       (length encTx + length (concat (map bytes_image (take i ts))),
        length encRe + length (concat (map bytes_image (take i us)))))"
  using assms
proof (induction txs arbitrary: rs encTx encRe idx)
  case Nil
  then show ?case by simp
next
  case (Cons tx txs)
  obtain b u rs' where b: "Transaction_toBytes tx = Inr b" "bytes_ok b" and rs: "rs = hd rs # rs'"
    and u: "TransactionResult_toBytes (hd rs) = Inr u" "bytes_ok u"
    and rest: "encode_entries txs rs' (encTx @ bytes_image b) (encRe @ bytes_image u)
      (idx @ [(length encTx, length encRe)]) = Inr (t, r, ix)"
    using Cons.prems
    by (cases rs) (auto simp: rbind_eq_Inr aget_def getWriteIndex_def bytes_codec.write_Inr Let_def split: if_splits)
  from Cons.IH [OF rest] obtain ts us where ih: "rmapM Transaction_toBytes txs = Inr ts"
    "rmapM TransactionResult_toBytes (take (length txs) rs') = Inr us" "length txs \<le> length rs'"
    "list_all bytes_ok ts" "list_all bytes_ok us"
    "t = (encTx @ bytes_image b) @ concat (map bytes_image ts)"
    "r = (encRe @ bytes_image u) @ concat (map bytes_image us)"
    "length ix = length idx + 1 + length txs" "take (length idx + 1) ix = idx @ [(length encTx, length encRe)]"
    and nth: "\<forall>i < length txs. ix ! (length idx + 1 + i) =
       (length (encTx @ bytes_image b) + length (concat (map bytes_image (take i ts))),
        length (encRe @ bytes_image u) + length (concat (map bytes_image (take i us))))"
    by auto
  have first: "take (length idx) ix = idx" "ix ! length idx = (length encTx, length encRe)"
  proof -
    show "take (length idx) ix = idx"
      using arg_cong [OF ih(9), of "take (length idx)"] by simp
    have "ix ! length idx = take (length idx + 1) ix ! length idx" using ih(8) by simp
    then show "ix ! length idx = (length encTx, length encRe)" unfolding ih(9) by simp
  qed
  have "ix ! (length idx + i) = (length encTx + length (concat (map bytes_image (take i (b # ts)))),
      length encRe + length (concat (map bytes_image (take i (u # us)))))" if "i < Suc (length txs)" for i
  proof (cases i)
    case 0
    then show ?thesis using first by simp
  next
    case (Suc j)
    then show ?thesis using nth that by simp
  qed
  moreover have "rmapM Transaction_toBytes (tx # txs) = Inr (b # ts)" using b ih by simp
  moreover have "rmapM TransactionResult_toBytes (take (length (tx # txs)) rs) = Inr (u # us)"
    by (subst rs) (simp add: u ih)
  moreover have "length (tx # txs) \<le> length rs" by (subst rs) (simp add: ih)
  ultimately show ?case using ih first b u
    by (intro exI [of _ "b # ts"] exI [of _ "u # us"]) simp
qed

lemma read_parsed_list:
  assumes "list_all bytes_ok bs" "rmapM parse bs = Inr xs"
  shows "read_times (length bs) (read_parsed parse) (dec_at f pre (concat (map bytes_image bs) @ rest)) =
    Inr (xs, dec_at f (pre @ concat (map bytes_image bs)) rest)"
  using assms
proof (induction bs arbitrary: pre xs)
  case (Cons b bs)
  then show ?case by (auto simp: rbind_eq_Inr read_parsed_def)
qed simp

lemma read_parsed_list_end:
  "list_all bytes_ok bs \<Longrightarrow> rmapM parse bs = Inr xs \<Longrightarrow>
   read_times (length bs) (read_parsed parse) (dec_at f pre (concat (map bytes_image bs))) =
    Inr (xs, dec_at f (pre @ concat (map bytes_image bs)) [])"
  using read_parsed_list [of bs parse xs f pre "[]"] by simp

lemma rmapM_inverse:
  "rmapM f xs = Inr ys \<Longrightarrow> \<forall>x \<in> set xs. \<forall>y. f x = Inr y \<longrightarrow> g y = Inr (h x) \<Longrightarrow> rmapM g ys = Inr (map h xs)"
  by (induction xs arbitrary: ys) (auto simp: rbind_eq_Inr)

definition signed_wf :: "crypto \<Rightarrow> Transaction \<Rightarrow> bool" where
  "signed_wf C tx \<longleftrightarrow> tx_wf C tx \<and> (\<exists>sg. tx_signature tx = Some sg \<and> Signature_wf sg)"

lemma signed_wf_roundtrip: "signed_wf C tx \<Longrightarrow> Transaction_toBytes tx = Inr bs \<Longrightarrow> Transaction_fromBytes C bs = Inr tx"
  by (auto simp: signed_wf_def intro: Transaction_roundtrip)

definition without_error :: "TransactionResult \<Rightarrow> TransactionResult" where
  "without_error r = r\<lparr>tr_error := None\<rparr>"

lemma TransactionResult_toBytes_without_error [simp]:
  "TransactionResult_toBytes (without_error r) = TransactionResult_toBytes r"
  by (simp add: TransactionResult_toBytes_def without_error_def)

lemma encode_entries_without_error:
  "encode_entries txs (map without_error rs) a b idx = encode_entries txs rs a b idx"
proof (induction txs arbitrary: rs a b idx)
  case (Cons tx txs)
  then show ?case by (cases rs) (simp_all add: aget_def Let_def)
qed simp

lemma Block_new_parts:
  assumes "Block_new h txs rs view votes = Inr b" and len: "length txs < 2 ^ 31" "length rs = length txs"
  obtains ts us where "rmapM Transaction_toBytes txs = Inr ts" "rmapM TransactionResult_toBytes rs = Inr us"
    "list_all bytes_ok ts" "list_all bytes_ok us"
    "bl_encodedTransactions b = int_image (of_nat (length txs)) @ concat (map bytes_image ts)"
    "bl_encodedResults b = int_image (of_nat (length rs)) @ concat (map bytes_image us)"
    "BlockHeader_toBytes h = Inr (bl_encodedHeader b)" "bl_header b = h" "bl_transactions b = txs"
    "bl_results b = rs" "bl_view b = view" "bl_votes b = votes" "length (bl_indexes b) = length txs"
    "\<forall>i < length txs. bl_indexes b ! i = (4 + length (concat (map bytes_image (take i ts))),
        4 + length (concat (map bytes_image (take i us))))"
proof -
  obtain eh t r ix where eh: "BlockHeader_toBytes h = Inr eh"
    and e: "encode_entries txs rs (int_image (of_nat (length txs))) (int_image (of_nat (length rs))) [] = Inr (t, r, ix)"
    and b: "b = \<lparr>bl_header = h, bl_transactions = txs, bl_results = rs, bl_view = view, bl_votes = votes,
      bl_encodedHeader = eh, bl_encodedTransactions = t, bl_encodedResults = r, bl_indexes = ix\<rparr>"
    using assms(1) by (auto simp: Block_new_def rbind_eq_Inr)
  from encode_entries_spec [OF e] obtain ts us where
    "rmapM Transaction_toBytes txs = Inr ts" "rmapM TransactionResult_toBytes (take (length txs) rs) = Inr us"
    "list_all bytes_ok ts" "list_all bytes_ok us"
    "t = int_image (of_nat (length txs)) @ concat (map bytes_image ts)"
    "r = int_image (of_nat (length rs)) @ concat (map bytes_image us)" "length ix = length txs"
    "\<forall>i < length txs. ix ! i = (4 + length (concat (map bytes_image (take i ts))),
        4 + length (concat (map bytes_image (take i us))))"
    by auto
  with eh b len(2) show thesis by (intro that [of ts us]) simp_all
qed

text \<open>A signature list of which none is missing.\<close>

definition votes_wf :: "Signature option list \<Rightarrow> bool" where
  "votes_wf vs \<longleftrightarrow> list_all (\<lambda>v. case v of None \<Rightarrow> False | Some sg \<Rightarrow> Signature_wf sg) vs"

lemma votes_encoding:
  "votes_wf vs \<Longrightarrow> rfold (\<lambda>vote out. rbind (non_null vote) (\<lambda>sg. writeBytes (Signature_toBytes sg) out)) vs out =
     Inr (out @ concat (map bytes_image (map (\<lambda>v. Signature_toBytes (the v)) vs)))"
  by (induction vs arbitrary: out)
    (auto simp: votes_wf_def bytes_ok_def length_Signature_toBytes split: option.splits)

lemma votes_decoding:
  "votes_wf vs \<Longrightarrow> list_all bytes_ok (map (\<lambda>v. Signature_toBytes (the v)) vs) \<and>
     rmapM (\<lambda>bs. Inr (Signature_fromBytes bs)) (map (\<lambda>v. Signature_toBytes (the v)) vs) = Inr vs"
  by (induction vs)
    (auto simp: votes_wf_def bytes_ok_def length_Signature_toBytes Signature_fromBytes_toBytes split: option.splits)

lemma Block_votes_roundtrip:
  assumes "votes_wf (bl_votes b)" "length (bl_votes b) < 2 ^ 31"
  obtains v where "Block_toBytesVotes b = Inr v"
    "rbind (readInt (SimpleDecoder_new v)) (\<lambda>(view, d). rbind (readInt d) (\<lambda>(n, d).
       rbind (read_times (nat (sint n)) (read_parsed (\<lambda>bs. Inr (Signature_fromBytes bs))) d)
         (\<lambda>(votes, d). Inr (view, votes)))) = Inr (bl_view b, bl_votes b)"
proof -
  let ?sg = "map (\<lambda>v. Signature_toBytes (the v)) (bl_votes b)"
  let ?v = "int_image (bl_view b) @ int_image (of_nat (length (bl_votes b))) @ concat (map bytes_image ?sg)"
  have "Block_toBytesVotes b = Inr ?v"
    by (simp add: Block_toBytesVotes_def votes_encoding [OF assms(1), simplified])
  moreover have "read_times (length (bl_votes b)) (read_parsed (\<lambda>bs. Inr (Signature_fromBytes bs)))
      (dec_at f pre (concat (map bytes_image ?sg))) = Inr (bl_votes b, dec_at f (pre @ concat (map bytes_image ?sg)) [])" for f pre
    using read_parsed_list_end [of ?sg "\<lambda>bs. Inr (Signature_fromBytes bs)" "bl_votes b" f pre]
      votes_decoding [OF assms(1)] by simp
  ultimately show thesis using assms(2)
    by (intro that [of ?v]) (simp_all add: SimpleDecoder_new_at sint_of_nat_jint del: map_map)
qed

lemma Block_new_without_error:
  "Block_new h txs rs view votes = Inr b \<Longrightarrow>
   Block_new h txs (map without_error rs) view votes = Inr (b\<lparr>bl_results := map without_error rs\<rparr>)"
  by (auto simp: Block_new_def rbind_eq_Inr encode_entries_without_error)

lemma Block_roundtrip:
  assumes b: "Block_new h txs rs view votes = Inr b" and h: "header_wf h"
    and txs: "\<forall>tx \<in> set txs. signed_wf C tx" and rs: "\<forall>r \<in> set rs. length (tr_logs r) < 2 ^ 31"
    and len: "length txs < 2 ^ 31" "length rs = length txs" and votes: "votes_wf votes" "length votes < 2 ^ 31"
  shows "\<exists>v. Block_toBytesVotes b = Inr v \<and>
    Block_fromBytes C (bl_encodedHeader b) (bl_encodedTransactions b) (bl_encodedResults b) (Some v) =
      Inr (b\<lparr>bl_results := map without_error rs\<rparr>)"
proof -
  obtain ts us where p: "rmapM Transaction_toBytes txs = Inr ts" "rmapM TransactionResult_toBytes rs = Inr us"
    "list_all bytes_ok ts" "list_all bytes_ok us"
    "bl_encodedTransactions b = int_image (of_nat (length txs)) @ concat (map bytes_image ts)"
    "bl_encodedResults b = int_image (of_nat (length rs)) @ concat (map bytes_image us)"
    "BlockHeader_toBytes h = Inr (bl_encodedHeader b)"
    and sel: "bl_view b = view" "bl_votes b = votes"
    by (rule Block_new_parts [OF b len])
  have lens: "length ts = length txs" "length us = length txs"
    using rmapM_length [OF p(1)] rmapM_length [OF p(2)] len(2) by simp_all
  have "rmapM (Transaction_fromBytes C) ts = Inr (map id txs)"
    using p(1) txs signed_wf_roundtrip by (intro rmapM_inverse) auto
  then have T: "rmapM (Transaction_fromBytes C) ts = Inr txs" by simp
  have R: "rmapM TransactionResult_fromBytes us = Inr (map without_error rs)"
    using p(2) rs TransactionResult_roundtrip by (intro rmapM_inverse) (auto simp: without_error_def)
  have H: "BlockHeader_fromBytes (bl_encodedHeader b) = Inr h"
    using BlockHeader_roundtrip [OF h] p(7) by simp
  obtain v where v: "Block_toBytesVotes b = Inr v"
    "rbind (readInt (SimpleDecoder_new v)) (\<lambda>(view, d). rbind (readInt d) (\<lambda>(n, d).
       rbind (read_times (nat (sint n)) (read_parsed (\<lambda>bs. Inr (Signature_fromBytes bs))) d)
         (\<lambda>(votes, d). Inr (view, votes)))) = Inr (view, votes)"
    using Block_votes_roundtrip [of b] votes unfolding sel by blast
  have "Block_fromBytes C (bl_encodedHeader b) (bl_encodedTransactions b) (bl_encodedResults b) (Some v) =
      Block_new h txs (map without_error rs) view votes"
    using read_parsed_list_end [OF p(3) T] read_parsed_list_end [OF p(4) R] len lens
    by (simp add: Block_fromBytes_def H p(5,6) v(2) [unfolded SimpleDecoder_new_at] SimpleDecoder_new_at sint_of_nat_jint)
  then show ?thesis using v(1) Block_new_without_error [OF b] by simp
qed

text \<open>The recorded index of a transaction is where its bytes start.\<close>

lemma nth_image_split:
  "i < length ts \<Longrightarrow> concat (map bytes_image ts) =
     concat (map bytes_image (take i ts)) @ bytes_image (ts ! i) @ concat (map bytes_image (drop (Suc i) ts))"
  by (subst id_take_nth_drop [of i ts]) simp_all

lemma Block_index:
  assumes b: "Block_new h txs rs view votes = Inr b" and len: "length txs < 2 ^ 31" "length rs = length txs"
    and i: "i < length txs"
  obtains bs us where "Transaction_toBytes (txs ! i) = Inr bs" "TransactionResult_toBytes (rs ! i) = Inr us"
    "rmap fst (readBytes (SimpleDecoder_from (bl_encodedTransactions b) (fst (bl_indexes b ! i)))) = Inr bs"
    "rmap fst (readBytes (SimpleDecoder_from (bl_encodedResults b) (snd (bl_indexes b ! i)))) = Inr us"
proof -
  obtain ts us where p: "rmapM Transaction_toBytes txs = Inr ts" "rmapM TransactionResult_toBytes rs = Inr us"
    "list_all bytes_ok ts" "list_all bytes_ok us"
    "bl_encodedTransactions b = int_image (of_nat (length txs)) @ concat (map bytes_image ts)"
    "bl_encodedResults b = int_image (of_nat (length rs)) @ concat (map bytes_image us)"
    and ix: "\<forall>i < length txs. bl_indexes b ! i = (4 + length (concat (map bytes_image (take i ts))),
        4 + length (concat (map bytes_image (take i us))))"
    by (rule Block_new_parts [OF b len])
  have lens: "length ts = length txs" "length us = length txs"
    using rmapM_length [OF p(1)] rmapM_length [OF p(2)] len(2) by simp_all
  have nth: "f (xs ! i) = Inr (ys ! i)" if "rmapM f xs = Inr ys" "i < length xs" for f :: "'x \<Rightarrow> bytes res" and xs ys i
    using that by (induction xs arbitrary: ys i) (auto simp: rbind_eq_Inr nth_Cons split: nat.split)
  have rd: "rmap fst (readBytes (SimpleDecoder_from (int_image n @ concat (map bytes_image ws))
      (4 + length (concat (map bytes_image (take i ws)))))) = Inr (ws ! i)"
    if "list_all bytes_ok ws" "i < length ws" for n ws
  proof -
    have "SimpleDecoder_from (int_image n @ concat (map bytes_image ws))
      (4 + length (concat (map bytes_image (take i ws)))) =
      dec_at (4 + length (concat (map bytes_image (take i ws)))) (int_image n @ concat (map bytes_image (take i ws)))
        (bytes_image (ws ! i) @ concat (map bytes_image (drop (Suc i) ws)))"
      using SimpleDecoder_from_at [of "int_image n @ concat (map bytes_image (take i ws))"
          "bytes_image (ws ! i) @ concat (map bytes_image (drop (Suc i) ws))"]
      by (subst nth_image_split [OF that(2)]) simp
    then show ?thesis using that by (simp add: list_all_length)
  qed
  show thesis
    using nth [OF p(1) i] nth [OF p(2)] rd [OF p(3)] rd [OF p(4)] i lens len ix p(5,6)
    by (intro that [of "ts ! i" "us ! i"]) simp_all
qed

end
