(* ===== verification/Votes.thy ===== *)
theory Votes
  imports BlockModel
begin

text \<open>
  The messages and vote counting of the BFT consensus (\<open>org.semux.consensus\<close>): \<open>Vote\<close> with its
  memoised validation, \<open>VoteSet\<close>, \<open>Proof\<close> and \<open>Proposal\<close>. The locale \<open>quorum\<close> is what the
  two-thirds threshold promises: any two quorums share a third of the validators.
\<close>

section \<open>VoteType\<close>

datatype VoteType = VT_VALIDATE | VT_PRECOMMIT | VT_COMMIT

fun VoteType_code :: "VoteType \<Rightarrow> jint" where
  "VoteType_code VT_VALIDATE = 0x00"
| "VoteType_code VT_PRECOMMIT = 0x01"
| "VoteType_code VT_COMMIT = 0x02"

definition vote_types :: "VoteType list" where
  "vote_types = [VT_VALIDATE, VT_PRECOMMIT, VT_COMMIT]"

definition VoteType_of :: "jint \<Rightarrow> VoteType option" where
  "VoteType_of code = find (\<lambda>t. VoteType_code t = (0xFF AND code)) vote_types"

definition VoteType_toByte :: "VoteType \<Rightarrow> jbyte" where
  "VoteType_toByte t = ucast (VoteType_code t)"

lemma VoteType_of_toByte [simp]: "VoteType_of (scast (VoteType_toByte t)) = Some t"
  by (cases t) (simp_all add: VoteType_of_def VoteType_toByte_def vote_types_def)

section \<open>Vote\<close>

record Vote =
  vt_type :: "VoteType option"
  vt_value :: bool
  vt_height :: jlong
  vt_view :: jint
  vt_blockHash :: bytes
  vt_encoded :: bytes
  vt_signature :: "Signature option"
  vt_validated :: "bool option"

definition VALUE_APPROVE :: bool where "VALUE_APPROVE = True"
definition VALUE_REJECT :: bool where "VALUE_REJECT = False"

definition Vote_new :: "VoteType \<Rightarrow> bool \<Rightarrow> jlong \<Rightarrow> jint \<Rightarrow> bytes \<Rightarrow> Vote res" where
  "Vote_new type value height view blockHash =
     rbind (encode [writeByte (VoteType_toByte type), writeBoolean value, writeLong height,
                    writeInt view, writeBytes blockHash]) (\<lambda>enc.
       Inr \<lparr>vt_type = Some type, vt_value = value, vt_height = height, vt_view = view,
            vt_blockHash = blockHash, vt_encoded = enc, vt_signature = None, vt_validated = None\<rparr>)"

definition Vote_raw :: "bytes \<Rightarrow> bytes \<Rightarrow> Vote res" where
  "Vote_raw encoded signature =
     rbind (readByte (SimpleDecoder_new encoded)) (\<lambda>(type, d).
     rbind (readBoolean d) (\<lambda>(value, d).
     rbind (readLong d) (\<lambda>(height, d).
     rbind (readInt d) (\<lambda>(view, d).
     rbind (readBytes d) (\<lambda>(blockHash, d).
       Inr \<lparr>vt_type = VoteType_of (scast type), vt_value = value, vt_height = height,
            vt_view = view, vt_blockHash = blockHash, vt_encoded = encoded,
            vt_signature = Signature_fromBytes signature, vt_validated = None\<rparr>)))))"

definition newApprove :: "VoteType \<Rightarrow> jlong \<Rightarrow> jint \<Rightarrow> bytes \<Rightarrow> Vote res" where
  "newApprove type height view blockHash = Vote_new type VALUE_APPROVE height view blockHash"

definition newReject :: "VoteType \<Rightarrow> jlong \<Rightarrow> jint \<Rightarrow> Vote res" where
  "newReject type height view = Vote_new type VALUE_REJECT height view EMPTY_HASH"

definition Vote_sign :: "crypto \<Rightarrow> Key \<Rightarrow> Vote \<Rightarrow> Vote res" where
  "Vote_sign C key v =
     rbind (Key_sign C key (vt_encoded v)) (\<lambda>sg. Inr (v\<lparr>vt_signature := Some sg, vt_validated := None\<rparr>))"

definition vote_check :: "crypto \<Rightarrow> Vote \<Rightarrow> bool" where
  "vote_check C v \<longleftrightarrow>
     vt_type v \<noteq> None
     \<and> sint (vt_height v) > 0
     \<and> sint (vt_view v) \<ge> 0
     \<and> length (vt_blockHash v) = 32
     \<and> vt_signature v \<noteq> None \<and> Key_verify C (vt_encoded v) (vt_signature v)"

definition revalidate :: "crypto \<Rightarrow> Vote \<Rightarrow> bool \<times> Vote" where
  "revalidate C v = (let b = vote_check C v in (b, v\<lparr>vt_validated := Some b\<rparr>))"

definition Vote_validate :: "crypto \<Rightarrow> Vote \<Rightarrow> bool \<times> Vote" where
  "Vote_validate C v = (case vt_validated v of None \<Rightarrow> revalidate C v | Some b \<Rightarrow> (b, v))"

definition Vote_toBytes :: "Vote \<Rightarrow> bytes res" where
  "Vote_toBytes v =
     rbind (encode [writeBytes (vt_encoded v)]) (\<lambda>out.
     rbind (non_null (vt_signature v)) (\<lambda>sg. writeBytes (Signature_toBytes sg) out))"

definition Vote_fromBytes :: "bytes \<Rightarrow> Vote res" where
  "Vote_fromBytes bs =
     rbind (readBytes (SimpleDecoder_new bs)) (\<lambda>(encoded, d).
     rbind (readBytes d) (\<lambda>(signature, d). Vote_raw encoded signature))"

text \<open>The memo is only ever written by the check itself, so it never disagrees with it.\<close>

definition memo_ok :: "crypto \<Rightarrow> Vote \<Rightarrow> bool" where
  "memo_ok C v \<longleftrightarrow> (case vt_validated v of None \<Rightarrow> True | Some b \<Rightarrow> b = vote_check C v)"

lemma vote_check_memo [simp]: "vote_check C (v\<lparr>vt_validated := m\<rparr>) = vote_check C v"
  by (simp add: vote_check_def)

lemma memo_ok_new: "Vote_new t b h w x = Inr v \<Longrightarrow> memo_ok C v"
  by (auto simp: Vote_new_def memo_ok_def rbind_eq_Inr)

lemma memo_ok_sign: "Vote_sign C key v = Inr v' \<Longrightarrow> memo_ok C v'"
  by (auto simp: Vote_sign_def memo_ok_def rbind_eq_Inr)

lemma memo_ok_fromBytes: "Vote_fromBytes bs = Inr v \<Longrightarrow> memo_ok C v"
  by (auto simp: Vote_fromBytes_def Vote_raw_def memo_ok_def rbind_eq_Inr)

lemma validate_memo:
  assumes "memo_ok C v"
  shows "fst (Vote_validate C v) = vote_check C v" "memo_ok C (snd (Vote_validate C v))"
  using assms by (simp_all add: Vote_validate_def revalidate_def memo_ok_def Let_def split: option.splits)

lemma validate_vote: "snd (Vote_validate C v) = v\<lparr>vt_validated := vt_validated (snd (Vote_validate C v))\<rparr>"
  by (simp add: Vote_validate_def revalidate_def Let_def split: option.split)

definition vote_image :: "VoteType \<Rightarrow> bool \<Rightarrow> jlong \<Rightarrow> jint \<Rightarrow> bytes \<Rightarrow> bytes" where
  "vote_image type value height view blockHash =
     byte_image (VoteType_toByte type) @ boolean_image value @ long_image height @ int_image view @
     bytes_image blockHash"

lemma Vote_new_eq:
  "Vote_new type value height view blockHash =
     (if bytes_ok blockHash
      then Inr \<lparr>vt_type = Some type, vt_value = value, vt_height = height, vt_view = view,
            vt_blockHash = blockHash, vt_encoded = vote_image type value height view blockHash,
            vt_signature = None, vt_validated = None\<rparr>
      else Inl IllegalArgument)"
  by (simp add: Vote_new_def vote_image_def)

text \<open>The encoding that is signed determines every field of the vote.\<close>

definition vote_wf :: "Vote \<Rightarrow> bool" where
  "vote_wf v \<longleftrightarrow> (\<exists>t. vt_type v = Some t \<and> bytes_ok (vt_blockHash v) \<and> bytes_ok (vt_encoded v) \<and>
     vt_encoded v = vote_image t (vt_value v) (vt_height v) (vt_view v) (vt_blockHash v))"

lemma Vote_raw_image:
  "bytes_ok blockHash \<Longrightarrow> Vote_raw (vote_image type value height view blockHash) sg =
     Inr \<lparr>vt_type = Some type, vt_value = value, vt_height = height, vt_view = view,
          vt_blockHash = blockHash, vt_encoded = vote_image type value height view blockHash,
          vt_signature = Signature_fromBytes sg, vt_validated = None\<rparr>"
  by (simp add: Vote_raw_def vote_image_def SimpleDecoder_new_at)

lemma Vote_roundtrip:
  assumes "vote_wf v" "vt_signature v = Some sg" "Signature_wf sg"
  shows "\<exists>bs. Vote_toBytes v = Inr bs \<and> Vote_fromBytes bs = Inr (v\<lparr>vt_validated := None\<rparr>)"
proof -
  obtain t where t: "vt_type v = Some t" "bytes_ok (vt_blockHash v)" "bytes_ok (vt_encoded v)"
    "vt_encoded v = vote_image t (vt_value v) (vt_height v) (vt_view v) (vt_blockHash v)"
    using assms(1) by (auto simp: vote_wf_def)
  have sok: "bytes_ok (Signature_toBytes sg)" using assms(3) by (simp add: bytes_ok_def length_Signature_toBytes)
  let ?bs = "bytes_image (vt_encoded v) @ bytes_image (Signature_toBytes sg)"
  have "Vote_fromBytes ?bs = Vote_raw (vt_encoded v) (Signature_toBytes sg)"
    using t(3) sok by (simp add: Vote_fromBytes_def SimpleDecoder_new_at)
  also have "\<dots> = Inr (v\<lparr>vt_validated := None\<rparr>)"
    unfolding t(4) Vote_raw_image [OF t(2)] Signature_fromBytes_toBytes [OF assms(3)]
    using t(1,4) assms(2) by simp
  finally show ?thesis using t(3) sok assms(2) by (simp add: Vote_toBytes_def)
qed

section \<open>The two-thirds threshold\<close>

text \<open>
  \<open>(int) Math.ceil(n * 2.0 / 3.0)\<close>: doubles represent \<open>2 n\<close> exactly and the correctly rounded
  quotient does not cross an integer for any list length, so the result is the exact ceiling.
\<close>

definition two_thirds :: "nat \<Rightarrow> nat" where
  "two_thirds n = (2 * n + 2) div 3"

lemma two_thirds_bounds: "2 * n \<le> 3 * two_thirds n" "3 * two_thirds n \<le> 2 * n + 2"
  by (simp_all add: two_thirds_def)

locale quorum =
  fixes members :: "'v set"
    and threshold :: nat
  assumes finite_members: "finite members"
    and threshold: "2 * card members \<le> 3 * threshold"
begin

lemma quorums_intersect:
  assumes "A \<subseteq> members" "B \<subseteq> members" "threshold \<le> card A" "threshold \<le> card B"
  shows "card members \<le> 3 * card (A \<inter> B)"
proof -
  have fin: "finite A" "finite B" using assms finite_members by (auto dest: finite_subset)
  have "card A + card B = card (A \<union> B) + card (A \<inter> B)" using fin by (rule card_Un_Int)
  moreover have "card (A \<union> B) \<le> card members"
    using assms(1,2) finite_members by (intro card_mono) auto
  ultimately show ?thesis using threshold assms(3,4) by linarith
qed

lemma quorums_share_honest:
  assumes "A \<subseteq> members" "B \<subseteq> members" "threshold \<le> card A" "threshold \<le> card B"
    and "F \<subseteq> members" "3 * card F < card members"
  shows "\<exists>v \<in> A \<inter> B. v \<notin> F"
proof (rule ccontr)
  assume "\<not> ?thesis"
  then have "card (A \<inter> B) \<le> card F"
    using assms(5) finite_members by (intro card_mono) (auto dest: finite_subset)
  with quorums_intersect [OF assms(1-4)] assms(6) show False by linarith
qed

end

interpretation validators: quorum "set vs" "two_thirds (length vs)" for vs :: "string list"
  using card_length [of vs] two_thirds_bounds(1) [of "length vs"] by unfold_locales (simp, linarith)

section \<open>VoteSet\<close>

record VoteSet =
  vs_approvals :: "(bytes \<times> (string \<times> Vote) list) list"
  vs_rejections :: "(string \<times> Vote) list"
  vs_type :: VoteType
  vs_height :: jlong
  vs_view :: jint
  vs_validators :: "string list"
  vs_twoThirds :: nat

definition VoteSet_new :: "VoteType \<Rightarrow> jlong \<Rightarrow> jint \<Rightarrow> string list \<Rightarrow> VoteSet" where
  "VoteSet_new type height view validators =
     \<lparr>vs_approvals = [], vs_rejections = [], vs_type = type, vs_height = height, vs_view = view,
      vs_validators = validators, vs_twoThirds = two_thirds (length validators)\<rparr>"

definition peer_of :: "crypto \<Rightarrow> Signature \<Rightarrow> string" where
  "peer_of C sg = Hex_encode (Signature_getAddress C sg)"

text \<open>The vote is stored as it is after \<open>validate\<close>, which may have written its memo.\<close>

definition addVote :: "crypto \<Rightarrow> Vote \<Rightarrow> VoteSet \<Rightarrow> bool \<times> VoteSet" where
  "addVote C vote s =
     (if vt_type vote = Some (vs_type s) \<and> vt_height vote = vs_height s \<and> vt_view vote = vs_view s
      then let (valid, vote) = Vote_validate C vote in
        case vt_signature vote of
          None \<Rightarrow> (False, s)
        | Some sig \<Rightarrow>
            if valid \<and> peer_of C sig \<in> set (vs_validators s) then
              let peerId = peer_of C sig in
              if vt_value vote = VALUE_APPROVE then
                let key = vt_blockHash vote;
                    m = (case map_of (vs_approvals s) key of None \<Rightarrow> [] | Some m \<Rightarrow> m)
                in (map_of m peerId = None,
                    s\<lparr>vs_approvals := AList.update key (AList.update peerId vote m) (vs_approvals s)\<rparr>)
              else (map_of (vs_rejections s) peerId = None,
                    s\<lparr>vs_rejections := AList.update peerId vote (vs_rejections s)\<rparr>)
            else (False, s)
      else (False, s))"

fun addVotes :: "crypto \<Rightarrow> Vote list \<Rightarrow> VoteSet \<Rightarrow> nat \<times> VoteSet" where
  "addVotes C [] s = (0, s)"
| "addVotes C (v # vs) s =
     (let (b, s) = addVote C v s; (n, s) = addVotes C vs s in ((if b then 1 else 0) + n, s))"

definition isApproved :: "bytes \<Rightarrow> VoteSet \<Rightarrow> bool" where
  "isApproved blockHash s \<longleftrightarrow>
     (case map_of (vs_approvals s) blockHash of None \<Rightarrow> False | Some v \<Rightarrow> length v \<ge> vs_twoThirds s)"

definition isRejected :: "VoteSet \<Rightarrow> bool" where
  "isRejected s \<longleftrightarrow> length (vs_rejections s) \<ge> vs_twoThirds s"

text \<open>The first block hash of the iteration with enough votes; the map's order is not specified.\<close>

definition anyApproved :: "VoteSet \<Rightarrow> bytes option" where
  "anyApproved s = map_option fst (find (\<lambda>e. length (snd e) \<ge> vs_twoThirds s) (vs_approvals s))"

definition VoteSet_clear :: "VoteSet \<Rightarrow> VoteSet" where
  "VoteSet_clear s = s\<lparr>vs_approvals := [], vs_rejections := []\<rparr>"

definition getApprovals :: "bytes \<Rightarrow> VoteSet \<Rightarrow> Vote list" where
  "getApprovals blockHash s =
     (case map_of (vs_approvals s) blockHash of None \<Rightarrow> [] | Some m \<Rightarrow> map snd m)"

definition getRejections :: "VoteSet \<Rightarrow> Vote list" where
  "getRejections s = map snd (vs_rejections s)"

definition VoteSet_size :: "VoteSet \<Rightarrow> nat" where
  "VoteSet_size s = length (vs_approvals s) + length (vs_rejections s)"

subsection \<open>What a vote set holds\<close>

text \<open>A vote counted for a peer: of this set's type, height and view, valid, and signed by the peer.\<close>

definition counted :: "crypto \<Rightarrow> VoteSet \<Rightarrow> string \<Rightarrow> Vote \<Rightarrow> bool" where
  "counted C s p v \<longleftrightarrow> vt_type v = Some (vs_type s) \<and> vt_height v = vs_height s \<and> vt_view v = vs_view s \<and>
     memo_ok C v \<and> vote_check C v \<and> p \<in> set (vs_validators s) \<and>
     (\<exists>sg. vt_signature v = Some sg \<and> peer_of C sg = p)"

definition voteset_ok :: "crypto \<Rightarrow> VoteSet \<Rightarrow> bool" where
  "voteset_ok C s \<longleftrightarrow> vs_twoThirds s = two_thirds (length (vs_validators s)) \<and>
     distinct (map fst (vs_approvals s)) \<and> distinct (map fst (vs_rejections s)) \<and>
     (\<forall>h m. map_of (vs_approvals s) h = Some m \<longrightarrow> distinct (map fst m) \<and> m \<noteq> [] \<and>
        (\<forall>p v. map_of m p = Some v \<longrightarrow> counted C s p v \<and> vt_value v \<and> vt_blockHash v = h)) \<and>
     (\<forall>p v. map_of (vs_rejections s) p = Some v \<longrightarrow> counted C s p v \<and> \<not> vt_value v)"

definition approvers :: "VoteSet \<Rightarrow> bytes \<Rightarrow> string set" where
  "approvers s h = (case map_of (vs_approvals s) h of None \<Rightarrow> {} | Some m \<Rightarrow> dom (map_of m))"

definition rejecters :: "VoteSet \<Rightarrow> string set" where
  "rejecters s = dom (map_of (vs_rejections s))"

lemma voteset_ok_new: "voteset_ok C (VoteSet_new t h w vs)"
  by (simp add: voteset_ok_def VoteSet_new_def)

lemma voteset_ok_clear: "voteset_ok C s \<Longrightarrow> voteset_ok C (VoteSet_clear s)"
  by (simp add: voteset_ok_def VoteSet_clear_def)

lemma counted_update [simp]:
  "counted C (s\<lparr>vs_approvals := a\<rparr>) p v = counted C s p v"
  "counted C (s\<lparr>vs_rejections := r\<rparr>) p v = counted C s p v"
  by (simp_all add: counted_def)

text \<open>The three outcomes of \<open>addVote\<close>.\<close>

lemma addVote_cases:
  assumes "memo_ok C vote"
  obtains (ignored) "addVote C vote s = (False, s)"
      "\<not> (vt_type vote = Some (vs_type s) \<and> vt_height vote = vs_height s \<and> vt_view vote = vs_view s \<and>
          vote_check C vote \<and> (\<exists>sg. vt_signature vote = Some sg \<and> peer_of C sg \<in> set (vs_validators s)))"
    | (approve) p v m where "counted C s p v" "vt_value v" "v = vote\<lparr>vt_validated := vt_validated v\<rparr>"
        "m = (case map_of (vs_approvals s) (vt_blockHash v) of None \<Rightarrow> [] | Some m \<Rightarrow> m)"
        "addVote C vote s = (map_of m p = None,
           s\<lparr>vs_approvals := AList.update (vt_blockHash v) (AList.update p v m) (vs_approvals s)\<rparr>)"
    | (reject) p v where "counted C s p v" "\<not> vt_value v" "v = vote\<lparr>vt_validated := vt_validated v\<rparr>"
        "addVote C vote s = (map_of (vs_rejections s) p = None,
           s\<lparr>vs_rejections := AList.update p v (vs_rejections s)\<rparr>)"
proof -
  obtain valid v where vv: "Vote_validate C vote = (valid, v)" by fastforce
  have v: "v = vote\<lparr>vt_validated := vt_validated v\<rparr>" and valid: "valid = vote_check C vote" and memo: "memo_ok C v"
    using validate_vote [of C vote] validate_memo [OF assms] vv by simp_all
  have sel: "vt_type v = vt_type vote" "vt_height v = vt_height vote" "vt_view v = vt_view vote"
    "vt_signature v = vt_signature vote" "vt_value v = vt_value vote" "vt_blockHash v = vt_blockHash vote"
    "vote_check C v = vote_check C vote"
    by (subst v, simp)+
  show thesis
  proof (cases "vt_type vote = Some (vs_type s) \<and> vt_height vote = vs_height s \<and> vt_view vote = vs_view s \<and>
      vote_check C vote \<and> (\<exists>sg. vt_signature vote = Some sg \<and> peer_of C sg \<in> set (vs_validators s))")
    case False
    then have "addVote C vote s = (False, s)"
      by (auto simp: addVote_def vv valid sel split: option.split)
    with False show thesis by (intro ignored)
  next
    case True
    then obtain sg where sg: "vt_signature vote = Some sg" "peer_of C sg \<in> set (vs_validators s)" by blast
    have c: "counted C s (peer_of C sg) v"
      using True sg memo by (auto simp: counted_def sel)
    show thesis
    proof (cases "vt_value v")
      case t: True
      show thesis
        by (rule approve [OF c t v refl]) (use True sg t in \<open>simp add: addVote_def vv valid sel VALUE_APPROVE_def Let_def\<close>)
    next
      case f: False
      show thesis
        by (rule reject [OF c f v]) (use True sg f in \<open>simp add: addVote_def vv valid sel VALUE_APPROVE_def Let_def\<close>)
    qed
  qed
qed

lemma voteset_ok_add:
  assumes ok: "voteset_ok C s" and "memo_ok C vote"
  shows "voteset_ok C (snd (addVote C vote s))"
  using assms(2)
proof (cases rule: addVote_cases [of C vote s])
  case ignored
  then show ?thesis using ok by simp
next
  case (approve p v m)
  have m: "distinct (map fst m)" "\<forall>q w. map_of m q = Some w \<longrightarrow> counted C s q w \<and> vt_value w \<and> vt_blockHash w = vt_blockHash v"
    using ok approve(4) by (auto simp: voteset_ok_def split: option.splits)
  have ne: "AList.update p v m \<noteq> []" by (cases m) auto
  show ?thesis
    using ok approve(1,2,5) m ne by (simp add: voteset_ok_def distinct_update)
next
  case (reject p v)
  then show ?thesis using ok by (simp add: voteset_ok_def distinct_update)
qed

lemma voteset_okD:
  assumes "voteset_ok C s"
  shows "vs_twoThirds s = two_thirds (length (vs_validators s))"
    "distinct (map fst (vs_approvals s))" "distinct (map fst (vs_rejections s))"
    "map_of (vs_approvals s) h = Some m \<Longrightarrow> distinct (map fst m)"
    "map_of (vs_approvals s) h = Some m \<Longrightarrow> m \<noteq> []"
    "map_of (vs_approvals s) h = Some m \<Longrightarrow> map_of m p = Some v \<Longrightarrow>
       counted C s p v \<and> vt_value v \<and> vt_blockHash v = h"
    "map_of (vs_rejections s) p = Some v \<Longrightarrow> counted C s p v \<and> \<not> vt_value v"
  using assms unfolding voteset_ok_def by blast+

lemma approvers_card:
  assumes "voteset_ok C s"
  shows "isApproved h s \<longleftrightarrow> map_of (vs_approvals s) h \<noteq> None \<and> card (approvers s h) \<ge> vs_twoThirds s"
    and "isRejected s \<longleftrightarrow> card (rejecters s) \<ge> vs_twoThirds s"
proof -
  show "isApproved h s \<longleftrightarrow> map_of (vs_approvals s) h \<noteq> None \<and> card (approvers s h) \<ge> vs_twoThirds s"
  proof (cases "map_of (vs_approvals s) h")
    case (Some m)
    then show ?thesis
      using length_alist_dom [OF voteset_okD(4) [OF assms Some]] by (simp add: isApproved_def approvers_def)
  qed (simp add: isApproved_def)
  show "isRejected s \<longleftrightarrow> card (rejecters s) \<ge> vs_twoThirds s"
    using length_alist_dom [OF voteset_okD(3) [OF assms]] by (simp add: isRejected_def rejecters_def)
qed

lemma approvers_subset:
  assumes "voteset_ok C s"
  shows "approvers s h \<subseteq> set (vs_validators s)" "rejecters s \<subseteq> set (vs_validators s)"
proof -
  show "approvers s h \<subseteq> set (vs_validators s)"
  proof
    fix p assume "p \<in> approvers s h"
    then obtain m v where "map_of (vs_approvals s) h = Some m" "map_of m p = Some v"
      by (auto simp: approvers_def split: option.splits)
    from voteset_okD(6) [OF assms this] show "p \<in> set (vs_validators s)" by (simp add: counted_def)
  qed
  show "rejecters s \<subseteq> set (vs_validators s)"
  proof
    fix p assume "p \<in> rejecters s"
    then obtain v where "map_of (vs_rejections s) p = Some v" by (auto simp: rejecters_def)
    from voteset_okD(7) [OF assms this] show "p \<in> set (vs_validators s)" by (simp add: counted_def)
  qed
qed

lemma anyApproved_isApproved:
  assumes "voteset_ok C s" "anyApproved s = Some h"
  shows "isApproved h s"
proof -
  obtain e where e: "find (\<lambda>e. length (snd e) \<ge> vs_twoThirds s) (vs_approvals s) = Some e" "h = fst e"
    using assms(2) by (auto simp: anyApproved_def)
  then have "e \<in> set (vs_approvals s)" "length (snd e) \<ge> vs_twoThirds s"
    by (auto simp: find_Some_iff)
  then have "map_of (vs_approvals s) h = Some (snd e)"
    using voteset_okD(2) [OF assms(1)] e(2) by simp
  with \<open>length (snd e) \<ge> vs_twoThirds s\<close> show ?thesis by (simp add: isApproved_def)
qed

text \<open>The votes returned for a block hash are signed by distinct validators.\<close>

lemma getApprovals_signed:
  assumes "voteset_ok C s" "v \<in> set (getApprovals h s)"
  shows "\<exists>p. counted C s p v \<and> vt_value v \<and> vt_blockHash v = h"
proof (cases "map_of (vs_approvals s) h")
  case (Some m)
  with assms(2) obtain p where "(p, v) \<in> set m" by (auto simp: getApprovals_def)
  then have "map_of m p = Some v" using voteset_okD(4) [OF assms(1) Some] by simp
  from voteset_okD(6) [OF assms(1) Some this] show ?thesis by blast
qed (use assms(2) in \<open>simp add: getApprovals_def\<close>)

section \<open>Proof\<close>

record Proof =
  pf_height :: jlong
  pf_view :: jint
  pf_votes :: "Vote list"

definition Proof_empty :: "jlong \<Rightarrow> jint \<Rightarrow> Proof" where
  "Proof_empty height view = \<lparr>pf_height = height, pf_view = view, pf_votes = []\<rparr>"

definition Proof_toBytes :: "Proof \<Rightarrow> bytes res" where
  "Proof_toBytes p =
     rbind (encode [writeLong (pf_height p), writeInt (pf_view p), writeInt (of_nat (length (pf_votes p)))])
       (\<lambda>out. rfold (\<lambda>v out. rbind (Vote_toBytes v) (\<lambda>b. writeBytes b out)) (pf_votes p) out)"

definition Proof_fromBytes :: "bytes \<Rightarrow> Proof res" where
  "Proof_fromBytes bs =
     rbind (readLong (SimpleDecoder_new bs)) (\<lambda>(height, d).
     rbind (readInt d) (\<lambda>(view, d).
     rbind (readInt d) (\<lambda>(n, d).
     rbind (read_times (nat (sint n)) (read_parsed Vote_fromBytes) d) (\<lambda>(votes, d).
       Inr \<lparr>pf_height = height, pf_view = view, pf_votes = votes\<rparr>))))"

section \<open>Proposal\<close>

record Proposal =
  pp_proof :: Proof
  pp_blockHeader :: BlockHeader
  pp_transactions :: "Transaction list"
  pp_encoded :: bytes
  pp_signature :: "Signature option"

definition Proposal_new :: "Proof \<Rightarrow> BlockHeader \<Rightarrow> Transaction list \<Rightarrow> Proposal res" where
  "Proposal_new prf header transactions =
     rbind (Proof_toBytes prf) (\<lambda>p.
     rbind (BlockHeader_toBytes header) (\<lambda>h.
     rbind (encode [writeBytes p, writeBytes h, writeInt (of_nat (length transactions))]) (\<lambda>out.
     rbind (rfold (\<lambda>tx out. rbind (Transaction_toBytes tx) (\<lambda>b. writeBytes b out)) transactions out)
       (\<lambda>enc. Inr \<lparr>pp_proof = prf, pp_blockHeader = header, pp_transactions = transactions,
          pp_encoded = enc, pp_signature = None\<rparr>))))"

definition Proposal_raw :: "crypto \<Rightarrow> bytes \<Rightarrow> bytes \<Rightarrow> Proposal res" where
  "Proposal_raw C encoded signature =
     rbind (read_parsed Proof_fromBytes (SimpleDecoder_new encoded)) (\<lambda>(prf, d).
     rbind (read_parsed BlockHeader_fromBytes d) (\<lambda>(header, d).
     rbind (readInt d) (\<lambda>(n, d).
     rbind (read_times (nat (sint n)) (read_parsed (Transaction_fromBytes C)) d) (\<lambda>(transactions, d).
       Inr \<lparr>pp_proof = prf, pp_blockHeader = header, pp_transactions = transactions,
            pp_encoded = encoded, pp_signature = Signature_fromBytes signature\<rparr>))))"

definition Proposal_sign :: "crypto \<Rightarrow> Key \<Rightarrow> Proposal \<Rightarrow> Proposal res" where
  "Proposal_sign C key p =
     rbind (Key_sign C key (pp_encoded p)) (\<lambda>sg. Inr (p\<lparr>pp_signature := Some sg\<rparr>))"

definition Proposal_getHeight :: "Proposal \<Rightarrow> jlong" where
  "Proposal_getHeight p = pf_height (pp_proof p)"

definition Proposal_getView :: "Proposal \<Rightarrow> jint" where
  "Proposal_getView p = pf_view (pp_proof p)"

definition Proposal_validate :: "crypto \<Rightarrow> Proposal \<Rightarrow> bool" where
  "Proposal_validate C p \<longleftrightarrow>
     sint (Proposal_getHeight p) > 0
     \<and> sint (Proposal_getView p) \<ge> 0
     \<and> pf_height (pp_proof p) = bh_number (pp_blockHeader p)
     \<and> pp_signature p \<noteq> None \<and> Key_verify C (pp_encoded p) (pp_signature p)"

definition Proposal_toBytes :: "Proposal \<Rightarrow> bytes res" where
  "Proposal_toBytes p =
     rbind (encode [writeBytes (pp_encoded p)]) (\<lambda>out.
     rbind (non_null (pp_signature p)) (\<lambda>sg. writeBytes (Signature_toBytes sg) out))"

definition Proposal_fromBytes :: "crypto \<Rightarrow> bytes \<Rightarrow> Proposal res" where
  "Proposal_fromBytes C bs =
     rbind (readBytes (SimpleDecoder_new bs)) (\<lambda>(encoded, d).
     rbind (readBytes d) (\<lambda>(signature, d). Proposal_raw C encoded signature))"

subsection \<open>Round trips\<close>

lemma rfold_parsed:
  "rfold (\<lambda>x out. rbind (f x) (\<lambda>b. writeBytes b out)) xs out = Inr out' \<longleftrightarrow>
     (\<exists>bs. rmapM f xs = Inr bs \<and> list_all bytes_ok bs \<and> out' = out @ concat (map bytes_image bs))"
  by (induction xs arbitrary: out) (auto simp: rbind_eq_Inr bytes_codec.write_Inr)

definition vote_signed :: "Vote \<Rightarrow> bool" where
  "vote_signed v \<longleftrightarrow> vote_wf v \<and> (\<exists>sg. vt_signature v = Some sg \<and> Signature_wf sg)"

definition forget_memo :: "Vote \<Rightarrow> Vote" where
  "forget_memo v = v\<lparr>vt_validated := None\<rparr>"

lemma vote_signed_roundtrip:
  "vote_signed v \<Longrightarrow> Vote_toBytes v = Inr b \<Longrightarrow> Vote_fromBytes b = Inr (forget_memo v)"
  using Vote_roundtrip [of v] by (auto simp: vote_signed_def forget_memo_def)

lemma Proof_roundtrip:
  assumes "\<forall>v \<in> set (pf_votes p). vote_signed v" "length (pf_votes p) < 2 ^ 31" "Proof_toBytes p = Inr bs"
  shows "Proof_fromBytes bs = Inr (p\<lparr>pf_votes := map forget_memo (pf_votes p)\<rparr>)"
proof -
  obtain vs where vs: "rmapM Vote_toBytes (pf_votes p) = Inr vs" "list_all bytes_ok vs"
    and bs: "bs = long_image (pf_height p) @ int_image (pf_view p) @
      int_image (of_nat (length (pf_votes p))) @ concat (map bytes_image vs)"
    using assms(3) by (auto simp: Proof_toBytes_def rfold_parsed [simplified])
  have "rmapM Vote_fromBytes vs = Inr (map forget_memo (pf_votes p))"
    using vs(1) assms(1) vote_signed_roundtrip by (intro rmapM_inverse) auto
  from read_parsed_list_end [OF vs(2) this] show ?thesis
    using assms(2) rmapM_length [OF vs(1)]
    by (simp add: bs Proof_fromBytes_def SimpleDecoder_new_at sint_of_nat_jint)
qed

lemma read_parsed_at:
  "bytes_ok b \<Longrightarrow> parse b = Inr x \<Longrightarrow>
   read_parsed parse (dec_at f pre (bytes_image b @ rest)) = Inr (x, dec_at f (pre @ bytes_image b) rest)"
  by (simp add: read_parsed_def)

lemma Proposal_roundtrip:
  assumes p: "Proposal_new prf header txs = Inr p" and s: "pp_signature q = Some sg" "Signature_wf sg"
    and q: "q = p\<lparr>pp_signature := Some sg\<rparr>" and len: "bytes_ok (pp_encoded p)"
    and wf: "\<forall>v \<in> set (pf_votes prf). vote_signed v" "length (pf_votes prf) < 2 ^ 31" "header_wf header"
      "\<forall>tx \<in> set txs. signed_wf C tx" "length txs < 2 ^ 31"
  shows "\<exists>bs. Proposal_toBytes q = Inr bs \<and> Proposal_fromBytes C bs =
    Inr (q\<lparr>pp_proof := prf\<lparr>pf_votes := map forget_memo (pf_votes prf)\<rparr>\<rparr>)"
proof -
  obtain pb hb ts where pb: "Proof_toBytes prf = Inr pb" "bytes_ok pb" and hb: "BlockHeader_toBytes header = Inr hb" "bytes_ok hb"
    and ts: "rmapM Transaction_toBytes txs = Inr ts" "list_all bytes_ok ts"
    and pe: "p = \<lparr>pp_proof = prf, pp_blockHeader = header, pp_transactions = txs,
      pp_encoded = bytes_image pb @ bytes_image hb @ int_image (of_nat (length txs)) @ concat (map bytes_image ts),
      pp_signature = None\<rparr>"
    using p by (auto simp: Proposal_new_def rbind_eq_Inr rfold_parsed [simplified] split: if_splits)
  have H: "BlockHeader_fromBytes hb = Inr header" using BlockHeader_roundtrip [OF wf(3)] hb by simp
  note P = Proof_roundtrip [OF wf(1,2) pb(1)]
  have "rmapM (Transaction_fromBytes C) ts = Inr (map id txs)"
    using ts(1) wf(4) signed_wf_roundtrip by (intro rmapM_inverse) auto
  then have T: "rmapM (Transaction_fromBytes C) ts = Inr txs" by simp
  have sok: "bytes_ok (Signature_toBytes sg)" using s(2) by (simp add: bytes_ok_def length_Signature_toBytes)
  have raw: "Proposal_raw C (pp_encoded p) (Signature_toBytes sg) =
      Inr (q\<lparr>pp_proof := prf\<lparr>pf_votes := map forget_memo (pf_votes prf)\<rparr>\<rparr>)"
    using read_parsed_list_end [OF ts(2) T] rmapM_length [OF ts(1)] wf(5) s(2)
    by (simp add: Proposal_raw_def pe q SimpleDecoder_new_at read_parsed_at [where parse = Proof_fromBytes, OF pb(2) P]
        read_parsed_at [where parse = BlockHeader_fromBytes, OF hb(2) H] sint_of_nat_jint Signature_fromBytes_toBytes)
  let ?bs = "bytes_image (pp_encoded p) @ bytes_image (Signature_toBytes sg)"
  have "Proposal_fromBytes C ?bs = Proposal_raw C (pp_encoded p) (Signature_toBytes sg)"
    using len sok by (simp add: Proposal_fromBytes_def SimpleDecoder_new_at)
  with raw show ?thesis using len sok by (simp add: Proposal_toBytes_def q)
qed

end
