(* ===== verification/Chain.thy ===== *)
theory Chain
  imports Executor Votes
begin

text \<open>
  \<open>BlockchainImpl\<close>: the block and index databases, the latest block, the validator set and
  statistics, the transaction indexes, and the activation of forks by signals in the headers. The
  genesis file, the configuration and the eviction policy of the memo cache (a library) are an
  environment; listeners are called by the owner of the chain after \<open>addBlock\<close>.
\<close>

section \<open>State\<close>

record ForkActivationMemory =
  fm_lowerBoundActivated :: bool
  fm_activatedBlocks :: int

record ValidatorStats =
  st_blocksForged :: jlong
  st_turnsHit :: jlong
  st_turnsMissed :: jlong

type_synonym fork_memory = "((ValidatorActivatedFork \<times> jlong) \<times> ForkActivationMemory) list"

record Genesis =
  gn_block :: Block
  gn_premines :: "(bytes \<times> Amount) list"
  gn_delegates :: "(string \<times> bytes) list"

record ChainEnv =
  env_crypto :: crypto
  env_config :: Config
  env_genesis :: Genesis
  env_evict :: "fork_memory \<Rightarrow> fork_memory"

record Chain =
  ch_index :: database
  ch_block :: database
  ch_accounts :: AccountState
  ch_delegates :: DelegateState
  ch_latest :: "Block option"
  ch_activated :: "(ValidatorActivatedFork \<times> Activation) list"
  ch_memory :: fork_memory

definition TYPE_LATEST_BLOCK_NUMBER :: jbyte where "TYPE_LATEST_BLOCK_NUMBER = 0x00"
definition TYPE_VALIDATORS :: jbyte where "TYPE_VALIDATORS = 0x01"
definition TYPE_VALIDATOR_STATS :: jbyte where "TYPE_VALIDATOR_STATS = 0x02"
definition TYPE_BLOCK_HASH :: jbyte where "TYPE_BLOCK_HASH = 0x03"
definition TYPE_TRANSACTION_HASH :: jbyte where "TYPE_TRANSACTION_HASH = 0x04"
definition TYPE_ACCOUNT_TRANSACTION :: jbyte where "TYPE_ACCOUNT_TRANSACTION = 0x05"
definition TYPE_ACTIVATED_FORKS :: jbyte where "TYPE_ACTIVATED_FORKS = 0x06"
definition TYPE_COINBASE_TRANSACTION_HASH :: jbyte where "TYPE_COINBASE_TRANSACTION_HASH = 0x07"
definition TYPE_DATABASE_VERSION :: jbyte where "TYPE_DATABASE_VERSION = 0xff"

definition TYPE_BLOCK_HEADER :: jbyte where "TYPE_BLOCK_HEADER = 0x00"
definition TYPE_BLOCK_TRANSACTIONS :: jbyte where "TYPE_BLOCK_TRANSACTIONS = 0x01"
definition TYPE_BLOCK_RESULTS :: jbyte where "TYPE_BLOCK_RESULTS = 0x02"
definition TYPE_BLOCK_VOTES :: jbyte where "TYPE_BLOCK_VOTES = 0x03"

definition DATABASE_VERSION :: jint where "DATABASE_VERSION = 1"

lemmas index_types = TYPE_LATEST_BLOCK_NUMBER_def TYPE_VALIDATORS_def TYPE_VALIDATOR_STATS_def
  TYPE_BLOCK_HASH_def TYPE_TRANSACTION_HASH_def TYPE_ACCOUNT_TRANSACTION_def TYPE_ACTIVATED_FORKS_def
  TYPE_COINBASE_TRANSACTION_HASH_def TYPE_DATABASE_VERSION_def

lemmas block_types = TYPE_BLOCK_HEADER_def TYPE_BLOCK_TRANSACTIONS_def TYPE_BLOCK_RESULTS_def TYPE_BLOCK_VOTES_def

definition index_put :: "bytes \<Rightarrow> bytes \<Rightarrow> Chain \<Rightarrow> Chain" where
  "index_put k v ch = ch\<lparr>ch_index := db_put (ch_index ch) k v\<rparr>"

definition index_get :: "Chain \<Rightarrow> bytes \<Rightarrow> bytes option" where
  "index_get ch k = db_get (ch_index ch) k"

definition block_put :: "jbyte \<Rightarrow> jlong \<Rightarrow> bytes \<Rightarrow> Chain \<Rightarrow> Chain" where
  "block_put type number v ch =
     ch\<lparr>ch_block := db_put (ch_block ch) (merge_byte_left type (bytes_of_long number)) v\<rparr>"

definition block_get :: "Chain \<Rightarrow> jbyte \<Rightarrow> jlong \<Rightarrow> bytes option" where
  "block_get ch type number = db_get (ch_block ch) (merge_byte_left type (bytes_of_long number))"

section \<open>Reading blocks and transactions\<close>

definition getLatestBlockNumber :: "Chain \<Rightarrow> jlong res" where
  "getLatestBlockNumber ch = rmap (\<lambda>b. bh_number (bl_header b)) (non_null (ch_latest ch))"

definition getLatestBlockHash :: "Chain \<Rightarrow> bytes res" where
  "getLatestBlockHash ch = rmap (\<lambda>b. bh_hash (bl_header b)) (non_null (ch_latest ch))"

definition getBlockNumber :: "bytes \<Rightarrow> Chain \<Rightarrow> jlong res" where
  "getBlockNumber hash ch =
     (case index_get ch (merge_byte_left TYPE_BLOCK_HASH hash) of
        None \<Rightarrow> Inr (-1) | Some n \<Rightarrow> bytes_toLong n)"

definition getBlock :: "crypto \<Rightarrow> jlong \<Rightarrow> Chain \<Rightarrow> Block option res" where
  "getBlock C number ch =
     (case block_get ch TYPE_BLOCK_HEADER number of
        None \<Rightarrow> Inr None
      | Some header \<Rightarrow>
          rbind (non_null (block_get ch TYPE_BLOCK_TRANSACTIONS number)) (\<lambda>transactions.
          rbind (non_null (block_get ch TYPE_BLOCK_RESULTS number)) (\<lambda>results.
            rmap Some (Block_fromBytes C header transactions results (block_get ch TYPE_BLOCK_VOTES number)))))"

definition getBlock_hash :: "crypto \<Rightarrow> bytes \<Rightarrow> Chain \<Rightarrow> Block option res" where
  "getBlock_hash C hash ch =
     rbind (getBlockNumber hash ch) (\<lambda>number. if number = -1 then Inr None else getBlock C number ch)"

definition getBlockHeader :: "jlong \<Rightarrow> Chain \<Rightarrow> BlockHeader option res" where
  "getBlockHeader number ch =
     (case block_get ch TYPE_BLOCK_HEADER number of
        None \<Rightarrow> Inr None | Some header \<Rightarrow> rmap Some (BlockHeader_fromBytes header))"

definition getBlockHeader_hash :: "bytes \<Rightarrow> Chain \<Rightarrow> BlockHeader option res" where
  "getBlockHeader_hash hash ch =
     rbind (getBlockNumber hash ch) (\<lambda>number. if number = -1 then Inr None else getBlockHeader number ch)"

definition hasBlock :: "jlong \<Rightarrow> Chain \<Rightarrow> bool" where
  "hasBlock number ch \<longleftrightarrow> block_get ch TYPE_BLOCK_HEADER number \<noteq> None"

definition getTransaction :: "crypto \<Rightarrow> bytes \<Rightarrow> Chain \<Rightarrow> Transaction option res" where
  "getTransaction C hash ch =
     (case index_get ch (merge_byte_left TYPE_TRANSACTION_HASH hash) of
        None \<Rightarrow> Inr None
      | Some bs \<Rightarrow>
          if length bs > 64 then rmap Some (Transaction_fromBytes C bs)
          else
            rbind (readLong (SimpleDecoder_new bs)) (\<lambda>(number, d).
            rbind (readInt d) (\<lambda>(start, d).
            rbind (readInt d) (\<lambda>(_, d).
            rbind (non_null (block_get ch TYPE_BLOCK_TRANSACTIONS number)) (\<lambda>transactions.
            rbind (rguard (sint start \<ge> 0) IndexOutOfBounds) (\<lambda>_.
            rbind (readBytes (SimpleDecoder_from transactions (nat (sint start)))) (\<lambda>(b, _).
              rmap Some (Transaction_fromBytes C b))))))))"

definition getCoinbaseTransaction :: "crypto \<Rightarrow> jlong \<Rightarrow> Chain \<Rightarrow> Transaction option res" where
  "getCoinbaseTransaction C blockNumber ch =
     (if blockNumber = 0 then Inr None
      else rbind (non_null (index_get ch
             (merge_byte_left TYPE_COINBASE_TRANSACTION_HASH (bytes_of_long blockNumber)))) (\<lambda>hash.
             getTransaction C hash ch))"

definition hasTransaction :: "bytes \<Rightarrow> Chain \<Rightarrow> bool" where
  "hasTransaction hash ch \<longleftrightarrow> index_get ch (merge_byte_left TYPE_TRANSACTION_HASH hash) \<noteq> None"

definition getTransactionResult :: "bytes \<Rightarrow> Chain \<Rightarrow> TransactionResult option res" where
  "getTransactionResult hash ch =
     (case index_get ch (merge_byte_left TYPE_TRANSACTION_HASH hash) of
        None \<Rightarrow> Inr None
      | Some bs \<Rightarrow>
          if length bs > 64 then Inr (Some (TransactionResult_new True))
          else
            rbind (readLong (SimpleDecoder_new bs)) (\<lambda>(number, d).
            rbind (readInt d) (\<lambda>(_, d).
            rbind (readInt d) (\<lambda>(start, d).
            rbind (non_null (block_get ch TYPE_BLOCK_RESULTS number)) (\<lambda>results.
            rbind (rguard (sint start \<ge> 0) IndexOutOfBounds) (\<lambda>_.
            rbind (readBytes (SimpleDecoder_from results (nat (sint start)))) (\<lambda>(b, _).
              rmap Some (TransactionResult_fromBytes b))))))))"

definition getTransactionBlockNumber :: "crypto \<Rightarrow> bytes \<Rightarrow> Chain \<Rightarrow> jlong res" where
  "getTransactionBlockNumber C hash ch =
     rbind (getTransaction C hash ch) (\<lambda>tx.
     rbind (non_null tx) (\<lambda>tx.
     if tx_type tx = COINBASE then Inr (tx_nonce tx)
     else case index_get ch (merge_byte_left TYPE_TRANSACTION_HASH hash) of
            None \<Rightarrow> Inr (-1)
          | Some bs \<Rightarrow> rmap fst (readLong (SimpleDecoder_new bs))))"

section \<open>Transactions by account\<close>

definition getTransactionCount :: "bytes \<Rightarrow> Chain \<Rightarrow> jint res" where
  "getTransactionCount address ch =
     (case index_get ch (merge_byte_left TYPE_ACCOUNT_TRANSACTION address) of
        None \<Rightarrow> Inr 0 | Some cnt \<Rightarrow> bytes_toInt cnt)"

definition getNthTransactionIndexKey :: "bytes \<Rightarrow> jint \<Rightarrow> bytes" where
  "getNthTransactionIndexKey address n =
     merge_all [bytes_of_byte TYPE_ACCOUNT_TRANSACTION, address, bytes_of_int n]"

definition setTransactionCount :: "bytes \<Rightarrow> jint \<Rightarrow> Chain \<Rightarrow> Chain" where
  "setTransactionCount address cnt ch =
     index_put (merge_byte_left TYPE_ACCOUNT_TRANSACTION address) (bytes_of_int cnt) ch"

definition addTransactionToAccount :: "Transaction \<Rightarrow> bytes \<Rightarrow> Chain \<Rightarrow> Chain res" where
  "addTransactionToAccount tx address ch =
     rbind (getTransactionCount address ch) (\<lambda>cnt.
       Inr (setTransactionCount address (cnt + 1)
              (index_put (getNthTransactionIndexKey address cnt) (tx_hash tx) ch)))"

definition getTransactions :: "crypto \<Rightarrow> bytes \<Rightarrow> jint \<Rightarrow> jint \<Rightarrow> Chain \<Rightarrow> Transaction option list res" where
  "getTransactions C address from to ch =
     rbind (getTransactionCount address ch) (\<lambda>cnt.
     rmapM (\<lambda>i. rbind (non_null (index_get ch (getNthTransactionIndexKey address (word_of_int i)))) (\<lambda>hash.
              getTransaction C hash ch))
       [sint from .. min (sint cnt) (sint to) - 1])"

section \<open>Validators\<close>

definition getValidators :: "Chain \<Rightarrow> string list res" where
  "getValidators ch =
     (case index_get ch (bytes_of_byte TYPE_VALIDATORS) of
        None \<Rightarrow> Inr []
      | Some v \<Rightarrow> rbind (readInt (SimpleDecoder_new v)) (\<lambda>(n, d).
                   rmap fst (read_times (nat (sint n)) readString d)))"

definition updateValidators :: "jlong \<Rightarrow> Chain \<Rightarrow> Chain res" where
  "updateValidators number ch =
     rbind (getDelegates (ch_delegates ch)) (\<lambda>delegates.
     let mx = min (int (length delegates)) (sint (getNumberOfValidators number)) in
     rbind (rmapM (\<lambda>d. rmap (\<lambda>d. Hex_encode (del_address d)) (non_null d)) (take (nat mx) delegates)) (\<lambda>validators.
     rbind (rbind (encode [writeInt (of_nat (length validators))]) (rfold writeString validators)) (\<lambda>enc.
       Inr (index_put (bytes_of_byte TYPE_VALIDATORS) enc ch))))"

definition ValidatorStats_toBytes :: "ValidatorStats \<Rightarrow> bytes res" where
  "ValidatorStats_toBytes s =
     encode [writeLong (st_blocksForged s), writeLong (st_turnsHit s), writeLong (st_turnsMissed s)]"

definition ValidatorStats_fromBytes :: "bytes \<Rightarrow> ValidatorStats res" where
  "ValidatorStats_fromBytes bs =
     rbind (readLong (SimpleDecoder_new bs)) (\<lambda>(forged, d).
     rbind (readLong d) (\<lambda>(hit, d).
     rbind (readLong d) (\<lambda>(missed, d).
       Inr \<lparr>st_blocksForged = forged, st_turnsHit = hit, st_turnsMissed = missed\<rparr>)))"

definition getValidatorStats :: "bytes \<Rightarrow> Chain \<Rightarrow> ValidatorStats res" where
  "getValidatorStats address ch =
     (case index_get ch (merge_byte_left TYPE_VALIDATOR_STATS address) of
        None \<Rightarrow> Inr \<lparr>st_blocksForged = 0, st_turnsHit = 0, st_turnsMissed = 0\<rparr>
      | Some v \<Rightarrow> ValidatorStats_fromBytes v)"

datatype StatsType = FORGED | HIT | MISSED

definition adjustValidatorStats :: "bytes \<Rightarrow> StatsType \<Rightarrow> jlong \<Rightarrow> Chain \<Rightarrow> Chain res" where
  "adjustValidatorStats address type delta ch =
     rbind (getValidatorStats address ch) (\<lambda>s.
     let s' = (case type of
                 FORGED \<Rightarrow> s\<lparr>st_blocksForged := st_blocksForged s + delta\<rparr>
               | HIT \<Rightarrow> s\<lparr>st_turnsHit := st_turnsHit s + delta\<rparr>
               | MISSED \<Rightarrow> s\<lparr>st_turnsMissed := st_turnsMissed s + delta\<rparr>)
     in rbind (ValidatorStats_toBytes s') (\<lambda>v.
          Inr (index_put (merge_byte_left TYPE_VALIDATOR_STATS address) v ch)))"

section \<open>Activated forks\<close>

definition getActivatedForks :: "Chain \<Rightarrow> (ValidatorActivatedFork \<times> Activation) list res" where
  "getActivatedForks ch =
     rbind (non_null (index_get ch (bytes_of_byte TYPE_ACTIVATED_FORKS))) (\<lambda>bs.
     rbind (readInt (SimpleDecoder_new bs)) (\<lambda>(n, d).
     rbind (read_times (nat (sint n)) (read_parsed Activation_fromBytes) d) (\<lambda>(as, d).
     rfold (\<lambda>a m. rbind (non_null (act_fork a)) (\<lambda>f. Inr (AList.update f a m))) as [])))"

definition setActivatedForks :: "(ValidatorActivatedFork \<times> Activation) list \<Rightarrow> Chain \<Rightarrow> Chain res" where
  "setActivatedForks forks ch =
     rbind (encode [writeInt (of_nat (length forks))]) (\<lambda>out.
     rbind (rfold (\<lambda>e out. rbind (Activation_toBytes (snd e)) (\<lambda>b. writeBytes b out)) forks out) (\<lambda>enc.
       Inr (index_put (bytes_of_byte TYPE_ACTIVATED_FORKS) enc ch)))"

definition getDatabaseVersion :: "Chain \<Rightarrow> jint res" where
  "getDatabaseVersion ch =
     (case index_get ch (bytes_of_byte TYPE_DATABASE_VERSION) of
        None \<Rightarrow> Inr 0 | Some v \<Rightarrow> if v = [] then Inr 0 else bytes_toInt v)"

text \<open>Whether the header of a block signals a fork; a missing header is dereferenced.\<close>

definition header_signals :: "jlong \<Rightarrow> ValidatorActivatedFork \<Rightarrow> Chain \<Rightarrow> bool res" where
  "header_signals number fork ch =
     rbind (getBlockHeader number ch) (\<lambda>h.
     rbind (non_null h) (\<lambda>h.
     rbind (getDecodedData h) (\<lambda>d. Inr (signalingFork d fork))))"

definition count_signals :: "int \<Rightarrow> int \<Rightarrow> ValidatorActivatedFork \<Rightarrow> Chain \<Rightarrow> int res" where
  "count_signals lowerBound higherBound fork ch =
     rfold (\<lambda>i n. rmap (\<lambda>b. n + (if b then 1 else 0)) (header_signals (word_of_int i) fork ch))
       (rev [lowerBound .. higherBound]) 0"

definition forkActivated ::
  "ChainEnv \<Rightarrow> jlong \<Rightarrow> ValidatorActivatedFork \<Rightarrow> Chain \<Rightarrow> (bool \<times> Chain) res" where
  "forkActivated env height fork ch =
     (if sint height \<le> 1 then Inr (False, ch)
      else case map_of (ch_activated ch) fork of
        Some a \<Rightarrow> Inr (sint height \<ge> sint (act_activatedAt a), ch)
      | None \<Rightarrow>
      (case map_of (forkActivationCheckpoints (cf_network (env_config env))) fork of
        Some n \<Rightarrow> Inr (sint n \<le> sint height, ch)
      | None \<Rightarrow>
      (case map_of (ch_memory ch) (fork, height) of
        Some m \<Rightarrow> Inr (fm_activatedBlocks m \<ge> sint (activationBlocks fork), ch)
      | None \<Rightarrow>
          let higherBound = sint height - 1;
              lowerBound = min (max (sint height - sint (activationBlocksLookup fork)) 1) higherBound
          in rbind (case map_of (ch_memory ch) (fork, height - 1) of
               Some m \<Rightarrow>
                 rmap (\<lambda>b. fm_activatedBlocks m
                     - (if fm_lowerBoundActivated m \<and> lowerBound > 1 then 1 else 0)
                     + (if b then 1 else 0)) (header_signals (word_of_int higherBound) fork ch)
             | None \<Rightarrow> count_signals lowerBound higherBound fork ch) (\<lambda>activatedBlocks.
             rbind (header_signals (word_of_int lowerBound) fork ch) (\<lambda>lower.
               let m = \<lparr>fm_lowerBoundActivated = lower, fm_activatedBlocks = activatedBlocks\<rparr>
               in Inr (activatedBlocks \<ge> sint (activationBlocks fork),
                       ch\<lparr>ch_memory := env_evict env (AList.update (fork, height) m (ch_memory ch))\<rparr>))))))"

definition activateForks :: "ChainEnv \<Rightarrow> jlong \<Rightarrow> Chain \<Rightarrow> Chain res" where
  "activateForks env number ch =
     (if cf_forkUniformDistributionEnabled (env_config env)
         \<and> map_of (ch_activated ch) UNIFORM_DISTRIBUTION = None
         \<and> sint number \<le> sint (activationDeadline UNIFORM_DISTRIBUTION)
      then rbind (forkActivated env number UNIFORM_DISTRIBUTION ch) (\<lambda>(activated, ch).
        if activated then
          let forks = AList.update UNIFORM_DISTRIBUTION
                \<lparr>act_fork = Some UNIFORM_DISTRIBUTION, act_activatedAt = number\<rparr> (ch_activated ch)
          in setActivatedForks forks (ch\<lparr>ch_activated := forks\<rparr>)
        else Inr ch)
      else Inr ch)"

section \<open>Adding blocks\<close>

definition genesis_number :: "ChainEnv \<Rightarrow> jlong" where
  "genesis_number env = bh_number (bl_header (gn_block (env_genesis env)))"

definition put_block :: "Block \<Rightarrow> Chain \<Rightarrow> Chain res" where
  "put_block block ch =
     (let number = bh_number (bl_header block) in
      rbind (Block_toBytesVotes block) (\<lambda>votes.
        Inr (index_put (merge_byte_left TYPE_BLOCK_HASH (bh_hash (bl_header block))) (bytes_of_long number)
              (block_put TYPE_BLOCK_VOTES number votes
              (block_put TYPE_BLOCK_RESULTS number (bl_encodedResults block)
              (block_put TYPE_BLOCK_TRANSACTIONS number (bl_encodedTransactions block)
              (block_put TYPE_BLOCK_HEADER number (bl_encodedHeader block) ch)))))))"

text \<open>One transaction of the block: its index entry, and the accounts it belongs to.\<close>

definition index_transaction ::
  "crypto \<Rightarrow> jlong \<Rightarrow> Transaction \<Rightarrow> nat \<times> nat \<Rightarrow> Chain \<Rightarrow> Chain res" where
  "index_transaction C number tx idx ch =
     rbind (encode [writeLong number, writeInt (of_nat (fst idx)), writeInt (of_nat (snd idx))]) (\<lambda>enc.
     let ch = index_put (merge_byte_left TYPE_TRANSACTION_HASH (tx_hash tx)) enc ch in
     rbind (non_null (Transaction_getFrom C tx)) (\<lambda>from.
     rbind (addTransactionToAccount tx from ch) (\<lambda>ch.
     if from \<noteq> tx_to tx then addTransactionToAccount tx (tx_to tx) ch else Inr ch)))"

definition index_transactions ::
  "crypto \<Rightarrow> jlong \<Rightarrow> (Transaction \<times> nat \<times> nat) list \<Rightarrow> Amount \<Rightarrow> Chain \<Rightarrow> (Amount \<times> Chain) res" where
  "index_transactions C number txs reward ch =
     rfold (\<lambda>(tx, idx) (reward, ch).
       rbind (Amount_sum reward (tx_fee tx)) (\<lambda>reward.
       rbind (index_transaction C number tx idx ch) (\<lambda>ch. Inr (reward, ch)))) txs (reward, ch)"

definition coinbase_transaction :: "ChainEnv \<Rightarrow> Block \<Rightarrow> Amount \<Rightarrow> Transaction res" where
  "coinbase_transaction env block reward =
     (let h = bl_header block; C = env_crypto env in
      rbind (Transaction_new C (Some (cf_network (env_config env))) (Some COINBASE) (bh_coinbase h) reward
               ZERO (bh_number h) (bh_timestamp h) EMPTY_BYTES) (\<lambda>tx.
        Transaction_sign C COINBASE_KEY tx))"

definition add_coinbase :: "ChainEnv \<Rightarrow> Block \<Rightarrow> Amount \<Rightarrow> Chain \<Rightarrow> Chain res" where
  "add_coinbase env block reward ch =
     rbind (coinbase_transaction env block reward) (\<lambda>tx.
     rbind (Transaction_toBytes tx) (\<lambda>bs.
       addTransactionToAccount tx (bh_coinbase (bl_header block))
         (index_put (merge_byte_left TYPE_COINBASE_TRANSACTION_HASH (bytes_of_long (bh_number (bl_header block))))
            (tx_hash tx)
         (index_put (merge_byte_left TYPE_TRANSACTION_HASH (tx_hash tx)) bs ch))))"

text \<open>At view 0 the choice of the primary always returns, so a missing result is unreachable.\<close>

definition primary_at_view0 :: "ChainEnv \<Rightarrow> string list \<Rightarrow> jlong \<Rightarrow> bool \<Rightarrow> string res" where
  "primary_at_view0 env validators number uniformDist =
     (case getPrimaryValidator (env_crypto env) validators number 0 uniformDist of
        None \<Rightarrow> Inl Unreachable | Some r \<Rightarrow> r)"

definition update_stats :: "ChainEnv \<Rightarrow> Block \<Rightarrow> Chain \<Rightarrow> Chain res" where
  "update_stats env block ch =
     (let coinbase = bh_coinbase (bl_header block) in
      rbind (getValidators ch) (\<lambda>validators.
      rbind (primary_at_view0 env validators (bh_number (bl_header block))
               (map_of (ch_activated ch) UNIFORM_DISTRIBUTION \<noteq> None)) (\<lambda>primary.
      rbind (adjustValidatorStats coinbase FORGED 1 ch) (\<lambda>ch.
      rbind (Hex_decode0x (Some primary)) (\<lambda>p.
        adjustValidatorStats p (if primary = Hex_encode coinbase then HIT else MISSED) 1 ch)))))"

definition addBlock :: "ChainEnv \<Rightarrow> Block \<Rightarrow> Chain \<Rightarrow> Chain res" where
  "addBlock env block ch =
     (let number = bh_number (bl_header block); C = env_crypto env in
      rbind (activateForks env number ch) (\<lambda>ch.
      rbind (if number = genesis_number env then Inr True
             else rmap (\<lambda>latest. number = latest + 1) (getLatestBlockNumber ch)) (\<lambda>sequential.
      if \<not> sequential then Inl BlockchainFailure
      else
        rbind (put_block block ch) (\<lambda>ch.
        rbind (index_transactions C number (zip (bl_transactions block) (bl_indexes block))
                 (getBlockReward number) ch) (\<lambda>(reward, ch).
        rbind (if number \<noteq> genesis_number env
               then rbind (add_coinbase env block reward ch) (update_stats env block)
               else Inr ch) (\<lambda>ch.
        rbind (if sint number smod sint getValidatorUpdateInterval = 0 then updateValidators number ch else Inr ch) (\<lambda>ch.
          Inr (index_put (bytes_of_byte TYPE_LATEST_BLOCK_NUMBER) (bytes_of_long number)
                (ch\<lparr>ch_latest := Some block\<rparr>)))))))))"

section \<open>Opening the database\<close>

definition initializeDb :: "ChainEnv \<Rightarrow> Chain \<Rightarrow> Chain res" where
  "initializeDb env ch =
     rbind (setActivatedForks [] (index_put (bytes_of_byte TYPE_DATABASE_VERSION) (bytes_of_int DATABASE_VERSION) ch)) (\<lambda>ch.
     rbind (rfold (\<lambda>(a, x) as. adjustAvailable a x as) (gn_premines (env_genesis env)) (ch_accounts ch)) (\<lambda>as.
     rbind (rfold (\<lambda>(name, a) ds. rmap snd (DelegateState_register a (string_bytes name) 0 ds))
              (gn_delegates (env_genesis env)) (ch_delegates ch)) (\<lambda>ds.
       addBlock env (gn_block (env_genesis env))
         (ch\<lparr>ch_accounts := AccountState_commit as, ch_delegates := DelegateState_commit ds\<rparr>))))"

definition chain_on :: "database \<Rightarrow> database \<Rightarrow> database \<Rightarrow> database \<Rightarrow> database \<Rightarrow> Chain" where
  "chain_on indexDB blockDB accountDB delegateDB voteDB =
     \<lparr>ch_index = indexDB, ch_block = blockDB, ch_accounts = AccountState_new accountDB,
      ch_delegates = DelegateState_new delegateDB voteDB, ch_latest = None, ch_activated = [], ch_memory = []\<rparr>"

definition empty_chain :: Chain where
  "empty_chain = chain_on [] [] [] [] []"

text \<open>\<open>MigrationBlockchain.applyBlock\<close>, and the replay of all blocks into an empty chain.\<close>

definition block_fees :: "Amount \<Rightarrow> Transaction list \<Rightarrow> Amount res" where
  "block_fees reward txs = rfold (\<lambda>tx r. Amount_sum r (tx_fee tx)) txs reward"

definition migration_applyBlock :: "ChainEnv \<Rightarrow> Block \<Rightarrow> Chain \<Rightarrow> Chain res" where
  "migration_applyBlock env block ch =
     rbind (getLatestBlockNumber ch) (\<lambda>latest.
     rbind (execute (env_crypto env) (env_config env) latest (bl_transactions block)
              (ch_accounts ch) (ch_delegates ch)) (\<lambda>(results, as, ds).
     rbind (block_fees (getBlockReward (bh_number (bl_header block))) (bl_transactions block)) (\<lambda>reward.
     rbind (if gt0 reward then adjustAvailable (bh_coinbase (bl_header block)) reward as else Inr as) (\<lambda>as.
       addBlock env block
         (ch\<lparr>ch_accounts := AccountState_commit as, ch_delegates := DelegateState_commit ds\<rparr>)))))"

definition migrate :: "ChainEnv \<Rightarrow> Chain \<Rightarrow> Chain res" where
  "migrate env old =
     rbind (initializeDb env empty_chain) (\<lambda>new.
     rbind (getLatestBlockNumber old) (\<lambda>latestBlockNumber.
     rfold (\<lambda>i new. rbind (getBlock (env_crypto env) (word_of_int i) old) (\<lambda>b.
                    rbind (non_null b) (\<lambda>b. migration_applyBlock env b new)))
       [1 .. sint latestBlockNumber] new))"

text \<open>
  After a migration the upgraded databases are opened again; their version is 1. The objects of the
  first attempt are replaced, the memo cache is kept.
\<close>

definition load_latest :: "ChainEnv \<Rightarrow> bytes \<Rightarrow> Chain \<Rightarrow> Chain res" where
  "load_latest env number ch =
     rbind (bytes_toLong number) (\<lambda>n.
     rbind (getBlock (env_crypto env) n ch) (\<lambda>latest. Inr (ch\<lparr>ch_latest := latest\<rparr>)))"

definition load_forks :: "Chain \<Rightarrow> Chain res" where
  "load_forks ch = rmap (\<lambda>forks. ch\<lparr>ch_activated := forks\<rparr>) (getActivatedForks ch)"

definition reopened :: "Chain \<Rightarrow> fork_memory \<Rightarrow> Chain" where
  "reopened ch memory =
     (chain_on (ch_index ch) (ch_block ch) (st_db (ch_accounts ch))
        (st_db (ds_delegates (ch_delegates ch))) (st_db (ds_votes (ch_delegates ch))))\<lparr>ch_memory := memory\<rparr>"

definition upgradeDb0 :: "ChainEnv \<Rightarrow> Chain \<Rightarrow> Chain res" where
  "upgradeDb0 env ch =
     rbind (migrate env ch) (\<lambda>new.
     let new = reopened new (ch_memory ch) in
     rbind (non_null (index_get new (bytes_of_byte TYPE_LATEST_BLOCK_NUMBER))) (\<lambda>number.
     rbind (load_latest env number new) load_forks))"

definition openDb :: "ChainEnv \<Rightarrow> Chain \<Rightarrow> Chain res" where
  "openDb env ch =
     (case index_get ch (bytes_of_byte TYPE_LATEST_BLOCK_NUMBER) of
        None \<Rightarrow> initializeDb env ch
      | Some number \<Rightarrow>
          if number = [] then initializeDb env ch
          else
            rbind (load_latest env number ch) (\<lambda>ch.
            rbind (getDatabaseVersion ch) (\<lambda>version.
            if version = 0 then upgradeDb0 env ch else load_forks ch)))"

section \<open>What the operations touch\<close>

named_theorems touches_intros \<open>what an operation may change\<close>

text \<open>Only index entries whose key starts with one of the types change.\<close>

definition touches :: "jbyte set \<Rightarrow> Chain \<Rightarrow> Chain \<Rightarrow> bool" where
  "touches T ch ch' \<longleftrightarrow> ch' = ch\<lparr>ch_index := ch_index ch'\<rparr> \<and>
     (\<forall>k. (\<forall>t \<in> T. \<forall>r. k \<noteq> t # r) \<longrightarrow> index_get ch' k = index_get ch k)"

lemma touches_refl [simp, intro]: "touches T ch ch"
  by (simp add: touches_def)

lemma touches_trans: "touches T ch ch1 \<Longrightarrow> touches T ch1 ch2 \<Longrightarrow> touches T ch ch2"
proof -
  assume a: "touches T ch ch1" and b: "touches T ch1 ch2"
  obtain X Y where "ch1 = ch\<lparr>ch_index := X\<rparr>" "ch2 = ch1\<lparr>ch_index := Y\<rparr>"
    using a b unfolding touches_def by blast
  then have "ch2 = ch\<lparr>ch_index := ch_index ch2\<rparr>" by simp
  with a b show ?thesis unfolding touches_def by simp
qed

lemma touches_mono: "touches S ch ch' \<Longrightarrow> S \<subseteq> T \<Longrightarrow> touches T ch ch'"
  unfolding touches_def by blast

lemma touches_index: "touches T ch ch' \<Longrightarrow> t \<notin> T \<Longrightarrow> index_get ch' (t # r) = index_get ch (t # r)"
  unfolding touches_def by (metis list.inject)

lemma touches_fields:
  assumes "touches T ch ch'"
  shows "ch_block ch' = ch_block ch" "ch_accounts ch' = ch_accounts ch" "ch_delegates ch' = ch_delegates ch"
    "ch_latest ch' = ch_latest ch" "ch_activated ch' = ch_activated ch" "ch_memory ch' = ch_memory ch"
proof -
  obtain X where "ch' = ch\<lparr>ch_index := X\<rparr>" using assms unfolding touches_def by blast
  then show "ch_block ch' = ch_block ch" "ch_accounts ch' = ch_accounts ch" "ch_delegates ch' = ch_delegates ch"
    "ch_latest ch' = ch_latest ch" "ch_activated ch' = ch_activated ch" "ch_memory ch' = ch_memory ch"
    by simp_all
qed

lemma key_simps [simp]:
  "merge_byte_left t k = t # k" "bytes_of_byte t = [t]"
  "getNthTransactionIndexKey a n = TYPE_ACCOUNT_TRANSACTION # a @ bytes_of_int n"
  by (simp_all add: merge_byte_left_def bytes_of_byte_def getNthTransactionIndexKey_def merge_all_def)

lemma index_get_put [simp]: "index_get (index_put k v ch) k' = (if k' = k then Some v else index_get ch k')"
  by (simp add: index_get_def index_put_def)

lemma index_put_fields [simp]:
  "ch_block (index_put k v ch) = ch_block ch" "ch_latest (index_put k v ch) = ch_latest ch"
  "ch_activated (index_put k v ch) = ch_activated ch" "ch_memory (index_put k v ch) = ch_memory ch"
  "ch_delegates (index_put k v ch) = ch_delegates ch" "ch_accounts (index_put k v ch) = ch_accounts ch"
  by (simp_all add: index_put_def)

lemma index_get_cong: "ch_index ch' = ch_index ch \<Longrightarrow> index_get ch' k = index_get ch k"
  by (simp add: index_get_def)

lemma index_get_fields [simp]:
  "index_get (ch\<lparr>ch_latest := l\<rparr>) k = index_get ch k" "index_get (ch\<lparr>ch_memory := m\<rparr>) k = index_get ch k"
  "index_get (ch\<lparr>ch_activated := a\<rparr>) k = index_get ch k"
  "index_get (block_put ty n v ch) k = index_get ch k"
  by (simp_all add: index_get_def block_put_def)

lemma block_put_fields [simp]:
  "ch_index (block_put ty n v ch) = ch_index ch" "ch_latest (block_put ty n v ch) = ch_latest ch"
  "ch_activated (block_put ty n v ch) = ch_activated ch" "ch_memory (block_put ty n v ch) = ch_memory ch"
  "ch_delegates (block_put ty n v ch) = ch_delegates ch" "ch_accounts (block_put ty n v ch) = ch_accounts ch"
  by (simp_all add: block_put_def)

lemma bytes_of_long_inject [simp]: "bytes_of_long m = bytes_of_long n \<longleftrightarrow> m = n"
  by (metis bytes_toLong_of_long sum.inject(2))

lemma bytes_of_int_inject [simp]: "bytes_of_int m = bytes_of_int n \<longleftrightarrow> m = n"
  by (metis bytes_toInt_of_int sum.inject(2))

lemma block_get_put [simp]:
  "block_get (block_put ty n v ch) ty' n' = (if ty' = ty \<and> n' = n then Some v else block_get ch ty' n')"
  by (simp add: block_get_def block_put_def)

lemma block_get_cong: "ch_block ch' = ch_block ch \<Longrightarrow> block_get ch' ty n = block_get ch ty n"
  by (simp add: block_get_def)

lemma block_get_index_put [simp]: "block_get (index_put k v ch) ty n = block_get ch ty n"
  by (simp add: block_get_def)

lemma touches_index_put [touches_intros]: "touches {t} ch (index_put (t # r) v ch)"
  unfolding touches_def by (simp add: index_put_def index_get_def)

lemma touches_chain:
  "touches S ch ch1 \<Longrightarrow> touches T ch1 ch2 \<Longrightarrow> touches (S \<union> T) ch ch2"
  by (meson sup_ge1 sup_ge2 touches_mono touches_trans)

lemma touches_addTransactionToAccount [touches_intros]:
  "addTransactionToAccount tx a ch = Inr ch' \<Longrightarrow> touches {TYPE_ACCOUNT_TRANSACTION} ch ch'"
  unfolding addTransactionToAccount_def setTransactionCount_def
  by (auto simp: rbind_eq_Inr intro: touches_trans touches_index_put)

lemma touches_adjustValidatorStats [touches_intros]:
  "adjustValidatorStats a ty n ch = Inr ch' \<Longrightarrow> touches {TYPE_VALIDATOR_STATS} ch ch'"
  unfolding adjustValidatorStats_def Let_def by (auto simp: rbind_eq_Inr intro: touches_index_put)

lemma touches_updateValidators [touches_intros]:
  "updateValidators n ch = Inr ch' \<Longrightarrow> touches {TYPE_VALIDATORS} ch ch'"
  unfolding updateValidators_def Let_def by (auto simp: rbind_eq_Inr intro: touches_index_put)

lemma touches_setActivatedForks [touches_intros]:
  "setActivatedForks fs ch = Inr ch' \<Longrightarrow> touches {TYPE_ACTIVATED_FORKS} ch ch'"
  unfolding setActivatedForks_def by (auto simp: rbind_eq_Inr intro: touches_index_put)

lemma touches_index_transaction [touches_intros]:
  assumes "index_transaction C n tx idx ch = Inr ch'"
  shows "touches {TYPE_TRANSACTION_HASH, TYPE_ACCOUNT_TRANSACTION} ch ch'"
proof -
  obtain enc "from" c1 where
    1: "addTransactionToAccount tx from (index_put (TYPE_TRANSACTION_HASH # tx_hash tx) enc ch) = Inr c1"
    and 2: "c1 = ch' \<or> addTransactionToAccount tx (tx_to tx) c1 = Inr ch'"
    using assms by (auto simp: index_transaction_def rbind_eq_Inr Let_def split: if_splits)
  have "touches {TYPE_ACCOUNT_TRANSACTION} c1 ch'"
    using 2 touches_addTransactionToAccount by auto
  with 1 have "touches {TYPE_ACCOUNT_TRANSACTION} (index_put (TYPE_TRANSACTION_HASH # tx_hash tx) enc ch) ch'"
    using touches_addTransactionToAccount touches_trans by blast
  with touches_index_put show ?thesis using touches_chain by fastforce
qed

lemma touches_index_transactions [touches_intros]:
  "index_transactions C n txs reward ch = Inr (reward', ch') \<Longrightarrow>
   touches {TYPE_TRANSACTION_HASH, TYPE_ACCOUNT_TRANSACTION} ch ch'"
  unfolding index_transactions_def
  by (rule rfold_invariant [where P = "\<lambda>s. touches {TYPE_TRANSACTION_HASH, TYPE_ACCOUNT_TRANSACTION} ch (snd s)",
        of _ txs "(reward, ch)" "(reward', ch')", simplified])
    (auto simp: rbind_eq_Inr dest!: touches_index_transaction elim: touches_trans)

lemma touches_add_coinbase [touches_intros]:
  assumes "add_coinbase env b reward ch = Inr ch'"
  shows "touches {TYPE_TRANSACTION_HASH, TYPE_COINBASE_TRANSACTION_HASH, TYPE_ACCOUNT_TRANSACTION} ch ch'"
proof -
  obtain tx bs where "addTransactionToAccount tx (bh_coinbase (bl_header b))
      (index_put (TYPE_COINBASE_TRANSACTION_HASH # bytes_of_long (bh_number (bl_header b))) (tx_hash tx)
        (index_put (TYPE_TRANSACTION_HASH # tx_hash tx) bs ch)) = Inr ch'"
    using assms by (auto simp: add_coinbase_def rbind_eq_Inr)
  from touches_chain [OF touches_chain [OF touches_index_put touches_index_put] touches_addTransactionToAccount [OF this]]
  show ?thesis by (simp add: insert_commute)
qed

lemma touches_update_stats [touches_intros]:
  "update_stats env b ch = Inr ch' \<Longrightarrow> touches {TYPE_VALIDATOR_STATS} ch ch'"
  unfolding update_stats_def Let_def
  by (auto simp: rbind_eq_Inr intro: touches_trans touches_adjustValidatorStats)

end
