(* ===== verification/ChainIndex.thy ===== *)
theory ChainIndex
  imports Chain
begin

text \<open>
  What \<open>addBlock\<close> makes of the databases. The abstract chain is the list of the blocks added so
  far, \<open>blocks_of\<close> relates it to the databases, and adding a block appends to the list. On top
  of it: blocks and transactions are found again by number and hash, the history of an account
  grows by the block's transactions, and the validator set is the head of the ranking of delegates.
\<close>

section \<open>The steps of addBlock\<close>

abbreviation bl_number :: "Block \<Rightarrow> jlong" where
  "bl_number b \<equiv> bh_number (bl_header b)"

abbreviation bl_hash :: "Block \<Rightarrow> bytes" where
  "bl_hash b \<equiv> bh_hash (bl_header b)"

lemma addBlock_steps:
  assumes "addBlock env b ch = Inr ch'"
  obtains c1 c2 c3 c4 c5 reward where "activateForks env (bl_number b) ch = Inr c1"
    "bl_number b = genesis_number env \<or> getLatestBlockNumber c1 = Inr (bl_number b - 1)"
    "put_block b c1 = Inr c2"
    "index_transactions (env_crypto env) (bl_number b) (zip (bl_transactions b) (bl_indexes b))
       (getBlockReward (bl_number b)) c2 = Inr (reward, c3)"
    "(if bl_number b \<noteq> genesis_number env
      then rbind (add_coinbase env b reward c3) (update_stats env b) else Inr c3) = Inr c4"
    "(if sint (bl_number b) smod sint getValidatorUpdateInterval = 0
      then updateValidators (bl_number b) c4 else Inr c4) = Inr c5"
    "ch' = index_put [TYPE_LATEST_BLOCK_NUMBER] (bytes_of_long (bl_number b)) (c5\<lparr>ch_latest := Some b\<rparr>)"
proof -
  obtain c1 sequential where 1: "activateForks env (bl_number b) ch = Inr c1"
    and 2: "(if bl_number b = genesis_number env then Inr True
             else rmap (\<lambda>latest. bl_number b = latest + 1) (getLatestBlockNumber c1)) = Inr sequential"
    and sequential: "sequential"
    using assms by (auto simp: addBlock_def rbind_eq_Inr Let_def split: if_splits)
  have seq: "bl_number b = genesis_number env \<or> getLatestBlockNumber c1 = Inr (bl_number b - 1)"
    using 2 sequential by (auto simp: rmap_eq_Inr split: if_splits)
  have "rbind (put_block b c1) (\<lambda>c2.
      rbind (index_transactions (env_crypto env) (bl_number b) (zip (bl_transactions b) (bl_indexes b))
        (getBlockReward (bl_number b)) c2) (\<lambda>(reward, c3).
      rbind (if bl_number b \<noteq> genesis_number env
        then rbind (add_coinbase env b reward c3) (update_stats env b) else Inr c3) (\<lambda>c4.
      rbind (if sint (bl_number b) smod sint getValidatorUpdateInterval = 0
        then updateValidators (bl_number b) c4 else Inr c4) (\<lambda>c5.
      Inr (index_put [TYPE_LATEST_BLOCK_NUMBER] (bytes_of_long (bl_number b)) (c5\<lparr>ch_latest := Some b\<rparr>)))))) = Inr ch'"
    using assms unfolding addBlock_def Let_def 1 rbind_simps 2 by (simp only: sequential) simp
  then obtain c2 where c2: "put_block b c1 = Inr c2" and rest: "rbind
      (index_transactions (env_crypto env) (bl_number b) (zip (bl_transactions b) (bl_indexes b))
        (getBlockReward (bl_number b)) c2) (\<lambda>(reward, c3).
      rbind (if bl_number b \<noteq> genesis_number env
        then rbind (add_coinbase env b reward c3) (update_stats env b) else Inr c3) (\<lambda>c4.
      rbind (if sint (bl_number b) smod sint getValidatorUpdateInterval = 0
        then updateValidators (bl_number b) c4 else Inr c4) (\<lambda>c5.
      Inr (index_put [TYPE_LATEST_BLOCK_NUMBER] (bytes_of_long (bl_number b)) (c5\<lparr>ch_latest := Some b\<rparr>))))) = Inr ch'"
    by (rule rbindE)
  from rest show thesis
    by (rule rbindE) (clarsimp simp only: prod.case; elim rbindE; erule (2) that [OF 1 seq c2]; simp)
qed

text \<open>Everything but the latest block, the recorded forks and the memo cache.\<close>

definition keeps :: "jbyte set \<Rightarrow> Chain \<Rightarrow> Chain \<Rightarrow> bool" where
  "keeps T ch ch' \<longleftrightarrow> ch_block ch' = ch_block ch \<and> ch_accounts ch' = ch_accounts ch \<and>
     ch_delegates ch' = ch_delegates ch \<and>
     (\<forall>k. (\<forall>t \<in> T. \<forall>r. k \<noteq> t # r) \<longrightarrow> index_get ch' k = index_get ch k)"

lemma keeps_touches: "touches T ch ch' \<Longrightarrow> keeps T ch ch'"
  unfolding keeps_def using touches_fields [of T ch ch'] by (auto simp: touches_def)

lemma keeps_index: "keeps T ch ch' \<Longrightarrow> t \<notin> T \<Longrightarrow> index_get ch' (t # r) = index_get ch (t # r)"
  unfolding keeps_def by (metis list.inject)

lemma keeps_block: "keeps T ch ch' \<Longrightarrow> block_get ch' ty n = block_get ch ty n"
  by (simp add: keeps_def block_get_def)

lemma activateForks_cases:
  assumes "activateForks env n ch = Inr ch'"
  obtains "ch' = ch"
  | memory where "ch' = ch\<lparr>ch_memory := memory\<rparr>"
  | forks memory where "setActivatedForks forks (ch\<lparr>ch_memory := memory, ch_activated := forks\<rparr>) = Inr ch'"
proof -
  have fork: "\<exists>m. c = ch\<lparr>ch_memory := m\<rparr>" if "forkActivated env n UNIFORM_DISTRIBUTION ch = Inr (x, c)" for x c
  proof -
    have "c = ch \<or> (\<exists>m. c = ch\<lparr>ch_memory := m\<rparr>)"
      using that by (auto simp: forkActivated_def rbind_eq_Inr Let_def split: if_splits option.splits)
    moreover have "ch = ch\<lparr>ch_memory := ch_memory ch\<rparr>" by simp
    ultimately show ?thesis by metis
  qed
  show thesis
  proof (cases "ch' = ch")
    case False
    then obtain x c where "forkActivated env n UNIFORM_DISTRIBUTION ch = Inr (x, c)"
      and "ch' = c \<or> (\<exists>forks. setActivatedForks forks (c\<lparr>ch_activated := forks\<rparr>) = Inr ch')"
      using assms by (auto simp: activateForks_def rbind_eq_Inr Let_def split: if_splits)
    then show ?thesis using fork that(2,3) by metis
  qed (rule that(1))
qed

lemma keeps_activateForks:
  assumes "activateForks env n ch = Inr ch'"
  shows "keeps {TYPE_ACTIVATED_FORKS} ch ch'" "ch_latest ch' = ch_latest ch"
proof -
  have "keeps {TYPE_ACTIVATED_FORKS} ch ch' \<and> ch_latest ch' = ch_latest ch"
    using assms
  proof (cases rule: activateForks_cases)
    case (3 forks memory)
    from touches_setActivatedForks [OF this] have t: "touches {TYPE_ACTIVATED_FORKS}
        (ch\<lparr>ch_memory := memory, ch_activated := forks\<rparr>) ch'" .
    from keeps_touches [OF t] touches_fields(4) [OF t] show ?thesis by (simp add: keeps_def)
  qed (simp_all add: keeps_def)
  then show "keeps {TYPE_ACTIVATED_FORKS} ch ch'" "ch_latest ch' = ch_latest ch" by blast+
qed

abbreviation derived_types :: "jbyte set" where
  "derived_types \<equiv> {TYPE_VALIDATORS, TYPE_VALIDATOR_STATS, TYPE_TRANSACTION_HASH, TYPE_ACCOUNT_TRANSACTION,
     TYPE_COINBASE_TRANSACTION_HASH}"

lemma addBlock_frame:
  assumes "addBlock env b ch = Inr ch'"
  obtains c1 c2 c5 where "keeps {TYPE_ACTIVATED_FORKS} ch c1" "ch_latest c1 = ch_latest ch"
    "bl_number b = genesis_number env \<or> getLatestBlockNumber ch = Inr (bl_number b - 1)"
    "put_block b c1 = Inr c2" "touches derived_types c2 c5"
    "ch' = index_put [TYPE_LATEST_BLOCK_NUMBER] (bytes_of_long (bl_number b)) (c5\<lparr>ch_latest := Some b\<rparr>)"
proof -
  obtain c1 c2 c3 c4 c5 reward where s: "activateForks env (bl_number b) ch = Inr c1"
    "bl_number b = genesis_number env \<or> getLatestBlockNumber c1 = Inr (bl_number b - 1)"
    "put_block b c1 = Inr c2"
    "index_transactions (env_crypto env) (bl_number b) (zip (bl_transactions b) (bl_indexes b))
       (getBlockReward (bl_number b)) c2 = Inr (reward, c3)"
    "(if bl_number b \<noteq> genesis_number env
      then rbind (add_coinbase env b reward c3) (update_stats env b) else Inr c3) = Inr c4"
    "(if sint (bl_number b) smod sint getValidatorUpdateInterval = 0
      then updateValidators (bl_number b) c4 else Inr c4) = Inr c5"
    "ch' = index_put [TYPE_LATEST_BLOCK_NUMBER] (bytes_of_long (bl_number b)) (c5\<lparr>ch_latest := Some b\<rparr>)"
    by (rule addBlock_steps [OF assms])
  have 3: "touches derived_types c2 c3" by (rule touches_mono [OF touches_index_transactions [OF s(4)]]) blast
  have 4: "touches derived_types c3 c4"
  proof (cases "bl_number b = genesis_number env")
    case True
    with s(5) show ?thesis by simp
  next
    case False
    with s(5) obtain c where "add_coinbase env b reward c3 = Inr c" "update_stats env b c = Inr c4"
      by (auto simp: rbind_eq_Inr)
    from touches_chain [OF touches_add_coinbase [OF this(1)] touches_update_stats [OF this(2)]]
    show ?thesis by (rule touches_mono) blast
  qed
  have 5: "touches derived_types c4 c5"
  proof (cases "sint (bl_number b) smod sint getValidatorUpdateInterval = 0")
    case True
    with s(6) have "updateValidators (bl_number b) c4 = Inr c5" by simp
    from touches_updateValidators [OF this] show ?thesis by (rule touches_mono) blast
  next
    case False
    with s(6) show ?thesis by simp
  qed
  have "touches derived_types c2 c5" by (rule touches_trans [OF touches_trans [OF 3 4] 5])
  moreover have "getLatestBlockNumber c1 = getLatestBlockNumber ch"
    by (simp add: getLatestBlockNumber_def keeps_activateForks(2) [OF s(1)])
  ultimately show thesis
    using s(2) by (intro that [OF keeps_activateForks [OF s(1)] _ s(3) _ s(7)]) simp_all
qed

section \<open>The abstract chain\<close>

text \<open>A block as its constructor makes it, with parts that have an encoding.\<close>

definition block_wf :: "crypto \<Rightarrow> Block \<Rightarrow> bool" where
  "block_wf C b \<longleftrightarrow>
     Block_new (bl_header b) (bl_transactions b) (bl_results b) (bl_view b) (bl_votes b) = Inr b \<and>
     header_wf (bl_header b) \<and> (\<forall>tx \<in> set (bl_transactions b). signed_wf C tx) \<and>
     (\<forall>r \<in> set (bl_results b). length (tr_logs r) < 2 ^ 31) \<and>
     length (bl_transactions b) < 2 ^ 31 \<and> length (bl_results b) = length (bl_transactions b) \<and>
     votes_wf (bl_votes b) \<and> length (bl_votes b) < 2 ^ 31 \<and>
     length (bl_encodedTransactions b) < 2 ^ 31 \<and> length (bl_encodedResults b) < 2 ^ 31"

text \<open>What is read back of a block: all of it but the reasons of failed transactions.\<close>

definition as_stored :: "Block \<Rightarrow> Block" where
  "as_stored b = b\<lparr>bl_results := map without_error (bl_results b)\<rparr>"

definition stored :: "Chain \<Rightarrow> Block \<Rightarrow> bool" where
  "stored ch b \<longleftrightarrow>
     block_get ch TYPE_BLOCK_HEADER (bl_number b) = Some (bl_encodedHeader b) \<and>
     block_get ch TYPE_BLOCK_TRANSACTIONS (bl_number b) = Some (bl_encodedTransactions b) \<and>
     block_get ch TYPE_BLOCK_RESULTS (bl_number b) = Some (bl_encodedResults b) \<and>
     (\<exists>v. Block_toBytesVotes b = Inr v \<and> block_get ch TYPE_BLOCK_VOTES (bl_number b) = Some v)"

lemma stored_getBlock:
  assumes "stored ch b" and wf: "block_wf C b"
  shows "getBlock C (bl_number b) ch = Inr (Some (as_stored b))"
proof -
  obtain v where v: "Block_toBytesVotes b = Inr v" "Block_fromBytes C (bl_encodedHeader b)
      (bl_encodedTransactions b) (bl_encodedResults b) (Some v) = Inr (as_stored b)"
    using wf Block_roundtrip [of "bl_header b" "bl_transactions b" "bl_results b" "bl_view b" "bl_votes b" b C]
    unfolding block_wf_def as_stored_def by blast
  then show ?thesis using assms(1) by (auto simp: stored_def getBlock_def)
qed

lemma stored_getBlockHeader:
  assumes "stored ch b" and wf: "block_wf C b"
  shows "getBlockHeader (bl_number b) ch = Inr (Some (bl_header b))"
proof -
  have "BlockHeader_toBytes (bl_header b) = Inr (bl_encodedHeader b)"
    using wf Block_new_parts unfolding block_wf_def by blast
  then have "BlockHeader_fromBytes (bl_encodedHeader b) = Inr (bl_header b)"
    using wf BlockHeader_roundtrip [of "bl_header b"] unfolding block_wf_def by auto
  then show ?thesis using assms(1) by (simp add: stored_def getBlockHeader_def)
qed

lemma stored_cong: "ch_block ch' = ch_block ch \<Longrightarrow> stored ch' b = stored ch b"
  by (simp add: stored_def block_get_def)

lemma block_types_distinct [simp]:
  "TYPE_BLOCK_HEADER \<noteq> TYPE_BLOCK_TRANSACTIONS" "TYPE_BLOCK_TRANSACTIONS \<noteq> TYPE_BLOCK_HEADER"
  "TYPE_BLOCK_HEADER \<noteq> TYPE_BLOCK_RESULTS" "TYPE_BLOCK_RESULTS \<noteq> TYPE_BLOCK_HEADER"
  "TYPE_BLOCK_HEADER \<noteq> TYPE_BLOCK_VOTES" "TYPE_BLOCK_VOTES \<noteq> TYPE_BLOCK_HEADER"
  "TYPE_BLOCK_TRANSACTIONS \<noteq> TYPE_BLOCK_RESULTS" "TYPE_BLOCK_RESULTS \<noteq> TYPE_BLOCK_TRANSACTIONS"
  "TYPE_BLOCK_TRANSACTIONS \<noteq> TYPE_BLOCK_VOTES" "TYPE_BLOCK_VOTES \<noteq> TYPE_BLOCK_TRANSACTIONS"
  "TYPE_BLOCK_RESULTS \<noteq> TYPE_BLOCK_VOTES" "TYPE_BLOCK_VOTES \<noteq> TYPE_BLOCK_RESULTS"
  by (simp_all add: block_types)

lemma put_block_stored:
  assumes "put_block b ch = Inr ch'"
  shows "stored ch' b" "bl_number b' \<noteq> bl_number b \<Longrightarrow> stored ch' b' = stored ch b'"
    "n \<noteq> bl_number b \<Longrightarrow> block_get ch' ty n = block_get ch ty n"
    "index_get ch' k = (if k = TYPE_BLOCK_HASH # bl_hash b then Some (bytes_of_long (bl_number b)) else index_get ch k)"
  using assms by (auto simp: put_block_def Let_def rbind_eq_Inr stored_def)

text \<open>The blocks of a chain, genesis first; numbers stay below the sign bit.\<close>

definition blocks_of :: "crypto \<Rightarrow> Chain \<Rightarrow> Block list \<Rightarrow> bool" where
  "blocks_of C ch bs \<longleftrightarrow> bs \<noteq> [] \<and> length bs \<le> 2 ^ 63 \<and>
     (\<exists>latest. ch_latest ch = Some latest \<and> bl_header latest = bl_header (last bs)) \<and>
     (\<forall>i < length bs. bl_number (bs ! i) = of_nat i \<and> block_wf C (bs ! i) \<and> stored ch (bs ! i)) \<and>
     (\<forall>n. block_get ch TYPE_BLOCK_HEADER n \<noteq> None \<longrightarrow> unat n < length bs)"

lemma of_nat_jlong_less: "i < 2 ^ 63 \<Longrightarrow> unat (of_nat i :: jlong) = i"
  by (simp add: unsigned_of_nat take_bit_nat_eq_self)

lemma blocks_of_latest:
  assumes "blocks_of C ch bs"
  shows "getLatestBlockNumber ch = Inr (of_nat (length bs - 1))"
    "getLatestBlockHash ch = Inr (bl_hash (last bs))"
  using assms by (auto simp: blocks_of_def getLatestBlockNumber_def getLatestBlockHash_def last_conv_nth)

lemma blocks_of_get:
  assumes "blocks_of C ch bs" and "i < length bs"
  shows "getBlock C (of_nat i) ch = Inr (Some (as_stored (bs ! i)))"
    "getBlockHeader (of_nat i) ch = Inr (Some (bl_header (bs ! i)))"
  using assms stored_getBlock [of ch "bs ! i" C] stored_getBlockHeader [of ch "bs ! i" C]
  by (auto simp: blocks_of_def)

lemma blocks_of_has:
  assumes "blocks_of C ch bs"
  shows "hasBlock n ch \<longleftrightarrow> unat n < length bs"
proof
  assume "hasBlock n ch"
  then show "unat n < length bs" using assms unfolding blocks_of_def hasBlock_def by blast
next
  assume n: "unat n < length bs"
  then have "bl_number (bs ! unat n) = n" "stored ch (bs ! unat n)" using assms by (auto simp: blocks_of_def)
  then show "hasBlock n ch" by (simp add: stored_def hasBlock_def)
qed

text \<open>Adding a block appends it to the abstract chain, or starts the chain with the genesis block.\<close>

lemma addBlock_stored:
  assumes "addBlock env b ch = Inr ch'"
  shows "stored ch' b" "bl_number b' \<noteq> bl_number b \<Longrightarrow> stored ch' b' = stored ch b'"
    "n \<noteq> bl_number b \<Longrightarrow> block_get ch' ty n = block_get ch ty n" "ch_latest ch' = Some b"
proof -
  obtain c1 c2 c5 where s: "keeps {TYPE_ACTIVATED_FORKS} ch c1" "put_block b c1 = Inr c2" "touches derived_types c2 c5"
    "ch' = index_put [TYPE_LATEST_BLOCK_NUMBER] (bytes_of_long (bl_number b)) (c5\<lparr>ch_latest := Some b\<rparr>)"
    by (rule addBlock_frame [OF assms])
  have blk: "ch_block ch' = ch_block c2" "ch_block c1 = ch_block ch"
    using s(1) by (simp_all add: s(4) touches_fields [OF s(3)] keeps_def)
  note eqs = stored_cong [OF blk(1)] stored_cong [OF blk(2)] block_get_cong [OF blk(1)] block_get_cong [OF blk(2)]
    put_block_stored [OF s(2)]
  show "stored ch' b" "bl_number b' \<noteq> bl_number b \<Longrightarrow> stored ch' b' = stored ch b'"
    "n \<noteq> bl_number b \<Longrightarrow> block_get ch' ty n = block_get ch ty n"
    by (simp_all add: eqs)
  show "ch_latest ch' = Some b" by (simp add: s(4))
qed

lemma addBlock_latest:
  assumes "addBlock env b ch = Inr ch'" "bl_number b \<noteq> genesis_number env"
  shows "getLatestBlockNumber ch = Inr (bl_number b - 1)"
  by (rule addBlock_frame [OF assms(1)]) (use assms(2) in simp)

lemma addBlock_append:
  assumes bs: "blocks_of C ch bs" and add: "addBlock env b ch = Inr ch'" and wf: "block_wf C b"
    and gen: "bl_number b \<noteq> genesis_number env" and len: "length bs < 2 ^ 63"
  shows "blocks_of C ch' (bs @ [b])"
proof -
  have ne: "bs \<noteq> []" using bs by (simp add: blocks_of_def)
  have "bl_number b - 1 = of_nat (length bs - 1)"
    using addBlock_latest [OF add gen] blocks_of_latest(1) [OF bs] by simp
  then have num: "bl_number b = of_nat (length bs)"
    using ne by (cases bs rule: rev_cases) (simp_all add: algebra_simps)
  have other: "bl_number (bs ! i) \<noteq> bl_number b" if "i < length bs" for i
  proof -
    have "bl_number (bs ! i) = of_nat i" using bs that by (simp add: blocks_of_def)
    then show ?thesis using of_nat_jlong_less [of i] of_nat_jlong_less [OF len] that len by (auto simp: num)
  qed
  have all: "bl_number ((bs @ [b]) ! i) = of_nat i \<and> block_wf C ((bs @ [b]) ! i) \<and> stored ch' ((bs @ [b]) ! i)"
    if "i < length (bs @ [b])" for i
  proof (cases "i < length bs")
    case True
    then show ?thesis using bs addBlock_stored(2) [OF add other [OF True]] by (simp add: blocks_of_def nth_append)
  next
    case False
    with that have "i = length bs" by simp
    then show ?thesis using num wf addBlock_stored(1) [OF add] by simp
  qed
  have "unat n < length (bs @ [b])" if "block_get ch' TYPE_BLOCK_HEADER n \<noteq> None" for n
  proof (cases "n = bl_number b")
    case True
    then show ?thesis using of_nat_jlong_less [OF len] by (simp add: num)
  next
    case False
    then show ?thesis using that bs addBlock_stored(3) [OF add False] unfolding blocks_of_def by force
  qed
  with all show ?thesis using len addBlock_stored(4) [OF add] unfolding blocks_of_def by auto
qed

lemma addBlock_genesis:
  assumes "addBlock env g ch = Inr ch'" "block_wf C g" "bl_number g = 0" "\<forall>n. block_get ch TYPE_BLOCK_HEADER n = None"
  shows "blocks_of C ch' [g]"
proof -
  have "n = 0" if "block_get ch' TYPE_BLOCK_HEADER n = Some h" for n h
    using that assms(3,4) addBlock_stored(3) [OF assms(1), of n TYPE_BLOCK_HEADER] by (cases "n = 0") auto
  then have "unat n < length [g]" if "block_get ch' TYPE_BLOCK_HEADER n \<noteq> None" for n
    using that by force
  then show ?thesis
    using assms(2,3) addBlock_stored(1,4) [OF assms(1)] unfolding blocks_of_def by auto
qed

text \<open>The number of every block is found by its hash, unless a later block has the same hash.\<close>

lemma index_types_distinct [simp]:
  "TYPE_BLOCK_HASH \<noteq> TYPE_VALIDATORS" "TYPE_BLOCK_HASH \<noteq> TYPE_VALIDATOR_STATS"
  "TYPE_BLOCK_HASH \<noteq> TYPE_TRANSACTION_HASH" "TYPE_BLOCK_HASH \<noteq> TYPE_ACCOUNT_TRANSACTION"
  "TYPE_BLOCK_HASH \<noteq> TYPE_COINBASE_TRANSACTION_HASH" "TYPE_BLOCK_HASH \<noteq> TYPE_ACTIVATED_FORKS"
  "TYPE_BLOCK_HASH \<noteq> TYPE_LATEST_BLOCK_NUMBER" "TYPE_TRANSACTION_HASH \<noteq> TYPE_COINBASE_TRANSACTION_HASH"
  "TYPE_TRANSACTION_HASH \<noteq> TYPE_ACCOUNT_TRANSACTION" "TYPE_TRANSACTION_HASH \<noteq> TYPE_VALIDATOR_STATS"
  "TYPE_TRANSACTION_HASH \<noteq> TYPE_VALIDATORS" "TYPE_TRANSACTION_HASH \<noteq> TYPE_LATEST_BLOCK_NUMBER"
  "TYPE_TRANSACTION_HASH \<noteq> TYPE_ACTIVATED_FORKS" "TYPE_TRANSACTION_HASH \<noteq> TYPE_BLOCK_HASH"
  "TYPE_ACCOUNT_TRANSACTION \<noteq> TYPE_VALIDATOR_STATS" "TYPE_ACCOUNT_TRANSACTION \<noteq> TYPE_VALIDATORS"
  "TYPE_ACCOUNT_TRANSACTION \<noteq> TYPE_LATEST_BLOCK_NUMBER" "TYPE_ACCOUNT_TRANSACTION \<noteq> TYPE_ACTIVATED_FORKS"
  "TYPE_ACCOUNT_TRANSACTION \<noteq> TYPE_BLOCK_HASH" "TYPE_ACCOUNT_TRANSACTION \<noteq> TYPE_TRANSACTION_HASH"
  "TYPE_ACCOUNT_TRANSACTION \<noteq> TYPE_COINBASE_TRANSACTION_HASH"
  "TYPE_VALIDATORS \<noteq> TYPE_LATEST_BLOCK_NUMBER"
  by (simp_all add: index_types)

lemma addBlock_hash:
  assumes "addBlock env b ch = Inr ch'"
  shows "getBlockNumber hash ch' = (if hash = bl_hash b then Inr (bl_number b) else getBlockNumber hash ch)"
proof -
  obtain c1 c2 c5 where s: "keeps {TYPE_ACTIVATED_FORKS} ch c1" "put_block b c1 = Inr c2" "touches derived_types c2 c5"
    "ch' = index_put [TYPE_LATEST_BLOCK_NUMBER] (bytes_of_long (bl_number b)) (c5\<lparr>ch_latest := Some b\<rparr>)"
    by (rule addBlock_frame [OF assms])
  show ?thesis
    using keeps_index [OF s(1), of TYPE_BLOCK_HASH hash] touches_index [OF s(3), of TYPE_BLOCK_HASH hash]
    by (simp add: s(4) getBlockNumber_def put_block_stored(4) [OF s(2)] bytes_toLong_of_long)
qed

section \<open>The index of transactions\<close>

definition location :: "jlong \<Rightarrow> nat \<times> nat \<Rightarrow> bytes" where
  "location number idx = long_image number @ int_image (of_nat (fst idx)) @ int_image (of_nat (snd idx))"

lemma index_transaction_hash:
  assumes "index_transaction C n tx idx ch = Inr ch'"
  shows "index_get ch' (TYPE_TRANSACTION_HASH # h) =
    (if h = tx_hash tx then Some (location n idx) else index_get ch (TYPE_TRANSACTION_HASH # h))"
proof -
  obtain "from" c1 where
    1: "addTransactionToAccount tx from (index_put (TYPE_TRANSACTION_HASH # tx_hash tx) (location n idx) ch) = Inr c1"
    and 2: "c1 = ch' \<or> addTransactionToAccount tx (tx_to tx) c1 = Inr ch'"
    using assms by (auto simp: index_transaction_def location_def rbind_eq_Inr Let_def split: if_splits)
  have "touches {TYPE_ACCOUNT_TRANSACTION} c1 ch'" using 2 touches_addTransactionToAccount by auto
  from touches_index [OF this] touches_index [OF touches_addTransactionToAccount [OF 1]] show ?thesis by simp
qed

lemma index_transactions_Cons:
  assumes "index_transactions C n ((tx, idx) # txs) reward ch = Inr (reward', ch')"
  obtains r1 c1 where "Amount_sum reward (tx_fee tx) = Inr r1" "index_transaction C n tx idx ch = Inr c1"
    "index_transactions C n txs r1 c1 = Inr (reward', ch')"
  using assms by (auto simp: index_transactions_def rbind_eq_Inr)

lemma index_transactions_hashes:
  assumes "index_transactions C n txs reward ch = Inr (reward', ch')"
    and "distinct (map (\<lambda>e. tx_hash (fst e)) txs)"
  shows "index_get ch' (TYPE_TRANSACTION_HASH # h) =
    (case map_of (map (\<lambda>(tx, idx). (tx_hash tx, location n idx)) txs) h of
       Some l \<Rightarrow> Some l | None \<Rightarrow> index_get ch (TYPE_TRANSACTION_HASH # h))"
  using assms
proof (induction txs arbitrary: reward ch)
  case Nil
  then show ?case by (simp add: index_transactions_def)
next
  case (Cons e txs)
  obtain tx idx where e: "e = (tx, idx)" by (cases e)
  obtain r1 c1 where c1: "index_transaction C n tx idx ch = Inr c1"
    and rest: "index_transactions C n txs r1 c1 = Inr (reward', ch')"
    using Cons.prems(1) unfolding e by (rule index_transactions_Cons)
  have "map_of (map (\<lambda>(tx, idx). (tx_hash tx, location n idx)) txs) (tx_hash tx) = None"
    using Cons.prems(2) by (force simp: e map_of_eq_None_iff)
  then show ?case
    using Cons.IH [OF rest] Cons.prems(2) index_transaction_hash [OF c1] by (auto simp: e split: option.splits)
qed

lemma index_transactions_reward:
  "index_transactions C n txs reward ch = Inr (reward', ch') \<Longrightarrow>
   am reward' = am reward + (\<Sum>e \<leftarrow> txs. am (tx_fee (fst e)))"
proof (induction txs arbitrary: reward ch)
  case Nil
  then show ?case by (simp add: index_transactions_def)
next
  case (Cons e txs)
  obtain tx idx where e: "e = (tx, idx)" by (cases e)
  obtain r1 c1 where "Amount_sum reward (tx_fee tx) = Inr r1" "index_transactions C n txs r1 c1 = Inr (reward', ch')"
    using Cons.prems unfolding e by (rule index_transactions_Cons)
  with Cons.IH show ?case by (simp add: e Amount_sum_Inr)
qed

lemma add_coinbase_hash:
  assumes "add_coinbase env b reward ch = Inr ch'"
  obtains cb bs where "coinbase_transaction env b reward = Inr cb" "Transaction_toBytes cb = Inr bs"
    "\<And>h. index_get ch' (TYPE_TRANSACTION_HASH # h) =
      (if h = tx_hash cb then Some bs else index_get ch (TYPE_TRANSACTION_HASH # h))"
    "index_get ch' (TYPE_COINBASE_TRANSACTION_HASH # bytes_of_long (bl_number b)) = Some (tx_hash cb)"
proof -
  obtain cb bs where cb: "coinbase_transaction env b reward = Inr cb" "Transaction_toBytes cb = Inr bs"
    and add: "addTransactionToAccount cb (bh_coinbase (bl_header b))
      (index_put (TYPE_COINBASE_TRANSACTION_HASH # bytes_of_long (bl_number b)) (tx_hash cb)
        (index_put (TYPE_TRANSACTION_HASH # tx_hash cb) bs ch)) = Inr ch'"
    using assms by (auto simp: add_coinbase_def rbind_eq_Inr)
  have "TYPE_COINBASE_TRANSACTION_HASH \<noteq> TYPE_ACCOUNT_TRANSACTION" by (simp add: index_types)
  with touches_index [OF touches_addTransactionToAccount [OF add]] show thesis
    by (intro that [OF cb]) simp_all
qed

text \<open>The whole of \<open>addBlock\<close>, seen from the transaction index.\<close>

lemma addBlock_transactions:
  assumes add: "addBlock env b ch = Inr ch'" and gen: "bl_number b \<noteq> genesis_number env"
    and len: "length (bl_indexes b) = length (bl_transactions b)"
    and dist: "distinct (map tx_hash (bl_transactions b))"
  obtains cb bs reward where "coinbase_transaction env b reward = Inr cb" "Transaction_toBytes cb = Inr bs"
    "am reward = am (getBlockReward (bl_number b)) + (\<Sum>tx \<leftarrow> bl_transactions b. am (tx_fee tx))"
    "index_get ch' (TYPE_COINBASE_TRANSACTION_HASH # bytes_of_long (bl_number b)) = Some (tx_hash cb)"
    "index_get ch' (TYPE_TRANSACTION_HASH # tx_hash cb) = Some bs"
    "\<And>i. i < length (bl_transactions b) \<Longrightarrow> tx_hash (bl_transactions b ! i) \<noteq> tx_hash cb \<Longrightarrow>
       index_get ch' (TYPE_TRANSACTION_HASH # tx_hash (bl_transactions b ! i)) =
         Some (location (bl_number b) (bl_indexes b ! i))"
    "\<And>h. h \<notin> tx_hash ` set (bl_transactions b) \<Longrightarrow> h \<noteq> tx_hash cb \<Longrightarrow>
       index_get ch' (TYPE_TRANSACTION_HASH # h) = index_get ch (TYPE_TRANSACTION_HASH # h)"
proof -
  obtain c1 c2 c3 c4 c5 reward where s: "activateForks env (bl_number b) ch = Inr c1"
    "put_block b c1 = Inr c2"
    "index_transactions (env_crypto env) (bl_number b) (zip (bl_transactions b) (bl_indexes b))
       (getBlockReward (bl_number b)) c2 = Inr (reward, c3)"
    "(if bl_number b \<noteq> genesis_number env
      then rbind (add_coinbase env b reward c3) (update_stats env b) else Inr c3) = Inr c4"
    "(if sint (bl_number b) smod sint getValidatorUpdateInterval = 0
      then updateValidators (bl_number b) c4 else Inr c4) = Inr c5"
    "ch' = index_put [TYPE_LATEST_BLOCK_NUMBER] (bytes_of_long (bl_number b)) (c5\<lparr>ch_latest := Some b\<rparr>)"
    by (rule addBlock_steps [OF add])
  obtain c where coin: "add_coinbase env b reward c3 = Inr c" and stats: "update_stats env b c = Inr c4"
    using s(4) gen by (auto simp: rbind_eq_Inr)
  obtain cb bs where cb: "coinbase_transaction env b reward = Inr cb" "Transaction_toBytes cb = Inr bs"
    and ch: "\<And>h. index_get c (TYPE_TRANSACTION_HASH # h) =
      (if h = tx_hash cb then Some bs else index_get c3 (TYPE_TRANSACTION_HASH # h))"
    and cn: "index_get c (TYPE_COINBASE_TRANSACTION_HASH # bytes_of_long (bl_number b)) = Some (tx_hash cb)"
    by (rule add_coinbase_hash [OF coin]) (rule that)
  have 5: "touches {TYPE_VALIDATORS} c4 c5"
    using s(5) touches_updateValidators by (auto split: if_splits)
  from touches_chain [OF touches_update_stats [OF stats] 5]
  have t: "touches {TYPE_VALIDATOR_STATS, TYPE_VALIDATORS} c c5" by (simp add: insert_commute)
  have late: "index_get ch' (ty # h) = index_get c (ty # h)"
    if "ty = TYPE_TRANSACTION_HASH \<or> ty = TYPE_COINBASE_TRANSACTION_HASH" for ty h
  proof -
    have "ty \<notin> {TYPE_VALIDATOR_STATS, TYPE_VALIDATORS}" "ty \<noteq> TYPE_LATEST_BLOCK_NUMBER"
      using that by (auto simp: index_types)
    with touches_index [OF t] show ?thesis by (simp add: s(6))
  qed
  have early: "index_get c2 (TYPE_TRANSACTION_HASH # h) = index_get ch (TYPE_TRANSACTION_HASH # h)" for h
    using keeps_index [OF keeps_activateForks(1) [OF s(1)]] by (simp add: put_block_stored(4) [OF s(2)])
  let ?txs = "zip (bl_transactions b) (bl_indexes b)"
  have firsts: "map (\<lambda>e. f (fst e)) ?txs = map f (bl_transactions b)" for f :: "Transaction \<Rightarrow> 'z"
  proof -
    have "map f (map fst ?txs) = map f (bl_transactions b)" using len by simp
    then show ?thesis by (simp add: comp_def)
  qed
  have "map (\<lambda>e. tx_hash (fst e)) ?txs = map tx_hash (bl_transactions b)" by (rule firsts)
  with dist have d: "distinct (map (\<lambda>e. tx_hash (fst e)) ?txs)" by simp
  note hs = index_transactions_hashes [OF s(3) d]
  have keys: "map fst (map (\<lambda>(tx, idx). (tx_hash tx, location (bl_number b) idx)) ?txs) = map tx_hash (bl_transactions b)"
    using firsts [of tx_hash] by (simp add: comp_def split_def)
  show thesis
  proof (rule that [OF cb])
    show "am reward = am (getBlockReward (bl_number b)) + (\<Sum>tx \<leftarrow> bl_transactions b. am (tx_fee tx))"
      using index_transactions_reward [OF s(3)] firsts [of "\<lambda>tx. am (tx_fee tx)"] by simp
    show "index_get ch' (TYPE_COINBASE_TRANSACTION_HASH # bytes_of_long (bl_number b)) = Some (tx_hash cb)"
      using late cn by simp
    show "index_get ch' (TYPE_TRANSACTION_HASH # tx_hash cb) = Some bs" using late ch by simp
  next
    fix i assume i: "i < length (bl_transactions b)" and ne: "tx_hash (bl_transactions b ! i) \<noteq> tx_hash cb"
    have "(tx_hash (bl_transactions b ! i), location (bl_number b) (bl_indexes b ! i)) \<in>
        set (map (\<lambda>(tx, idx). (tx_hash tx, location (bl_number b) idx)) ?txs)"
      using i len by (force simp: set_zip)
    then have "map_of (map (\<lambda>(tx, idx). (tx_hash tx, location (bl_number b) idx)) ?txs) (tx_hash (bl_transactions b ! i)) =
        Some (location (bl_number b) (bl_indexes b ! i))"
      using dist by (intro map_of_is_SomeI) (simp_all only: keys)
    then show "index_get ch' (TYPE_TRANSACTION_HASH # tx_hash (bl_transactions b ! i)) =
        Some (location (bl_number b) (bl_indexes b ! i))"
      using ne late ch hs by simp
  next
    fix h assume h: "h \<notin> tx_hash ` set (bl_transactions b)" "h \<noteq> tx_hash cb"
    have "map_of (map (\<lambda>(tx, idx). (tx_hash tx, location (bl_number b) idx)) ?txs) h = None"
      using h(1) arg_cong [OF keys, of set] by (auto simp: map_of_eq_None_iff simp del: map_map)
    then show "index_get ch' (TYPE_TRANSACTION_HASH # h) = index_get ch (TYPE_TRANSACTION_HASH # h)"
      using h(2) late ch hs early by simp
  qed
qed

text \<open>A transaction of a stored block is read back through its location, and so is its result.\<close>

lemma location_reads:
  "readLong (SimpleDecoder_new (location n idx)) =
     Inr (n, dec_at 0 (long_image n) (int_image (of_nat (fst idx)) @ int_image (of_nat (snd idx))))"
  "readInt (dec_at 0 (long_image n) (int_image (of_nat (fst idx)) @ int_image (of_nat (snd idx)))) =
     Inr (of_nat (fst idx), dec_at 0 (long_image n @ int_image (of_nat (fst idx))) (int_image (of_nat (snd idx))))"
  "length (location n idx) = 16"
  by (simp_all add: location_def SimpleDecoder_new_at)

lemma read_within:
  assumes "rmap fst (readBytes (SimpleDecoder_from bs n)) = Inr x"
  shows "n < length bs"
proof (rule ccontr)
  assume "\<not> n < length bs"
  then have "readBytes (SimpleDecoder_from bs n) = Inl IndexOutOfBounds"
    by (simp add: readBytes_def readBytes_vlq_def readSize_def require_def SimpleDecoder_from_def
        SimpleDecoder_range_def eval_nat_numeral)
  with assms show False by simp
qed

lemma stored_transaction:
  assumes st: "stored ch b" and wf: "block_wf C b" and i: "i < length (bl_transactions b)"
    and ix: "index_get ch (TYPE_TRANSACTION_HASH # h) = Some (location (bl_number b) (bl_indexes b ! i))"
  shows "getTransaction C h ch = Inr (Some (bl_transactions b ! i))"
    "getTransactionResult h ch = Inr (Some (without_error (bl_results b ! i)))"
proof -
  have new: "Block_new (bl_header b) (bl_transactions b) (bl_results b) (bl_view b) (bl_votes b) = Inr b"
    and len: "length (bl_transactions b) < 2 ^ 31" "length (bl_results b) = length (bl_transactions b)"
    and big: "length (bl_encodedTransactions b) < 2 ^ 31" "length (bl_encodedResults b) < 2 ^ 31"
    and tx: "signed_wf C (bl_transactions b ! i)" and logs: "length (tr_logs (bl_results b ! i)) < 2 ^ 31"
    using wf i by (auto simp: block_wf_def)
  obtain bs us where 1: "Transaction_toBytes (bl_transactions b ! i) = Inr bs"
    "TransactionResult_toBytes (bl_results b ! i) = Inr us"
    and r: "rmap fst (readBytes (SimpleDecoder_from (bl_encodedTransactions b) (fst (bl_indexes b ! i)))) = Inr bs"
    "rmap fst (readBytes (SimpleDecoder_from (bl_encodedResults b) (snd (bl_indexes b ! i)))) = Inr us"
    by (rule Block_index [OF new len i])
  have s: "sint (of_nat (fst (bl_indexes b ! i)) :: jint) = int (fst (bl_indexes b ! i))"
    "sint (of_nat (snd (bl_indexes b ! i)) :: jint) = int (snd (bl_indexes b ! i))"
    using read_within [OF r(1)] read_within [OF r(2)] big by (intro sint_of_nat_jint; simp)+
  have blk: "block_get ch TYPE_BLOCK_TRANSACTIONS (bl_number b) = Some (bl_encodedTransactions b)"
    "block_get ch TYPE_BLOCK_RESULTS (bl_number b) = Some (bl_encodedResults b)"
    using st by (auto simp: stored_def)
  obtain d where d: "readBytes (SimpleDecoder_from (bl_encodedTransactions b) (fst (bl_indexes b ! i))) = Inr (bs, d)"
    using r(1) by (auto simp: rmap_eq_Inr)
  obtain d' where d': "readBytes (SimpleDecoder_from (bl_encodedResults b) (snd (bl_indexes b ! i))) = Inr (us, d')"
    using r(2) by (auto simp: rmap_eq_Inr)
  have "readInt (dec_at 0 pre (int_image x)) = Inr (x, dec_at 0 (pre @ int_image x) [])" for pre x by simp
  note reads = location_reads this
  show "getTransaction C h ch = Inr (Some (bl_transactions b ! i))"
    using signed_wf_roundtrip [OF tx 1(1)] by (simp add: getTransaction_def ix reads s blk d)
  show "getTransactionResult h ch = Inr (Some (without_error (bl_results b ! i)))"
    using TransactionResult_roundtrip [OF 1(2) logs]
    by (simp add: getTransactionResult_def ix reads s blk d' without_error_def)
qed

text \<open>The coinbase transaction is kept whole in the index.\<close>

lemma coinbase_transaction_fields:
  assumes "coinbase_transaction env b reward = Inr cb" and C: "C = env_crypto env" "digest_ok C"
    and a: "length (bh_coinbase (bl_header b)) = 20"
  shows "signed_wf C cb" "tx_type cb = COINBASE" "tx_to cb = bh_coinbase (bl_header b)" "tx_value cb = reward"
    "tx_nonce cb = bl_number b" "Transaction_toBytes cb = Inr bs \<Longrightarrow> length bs > 64"
proof -
  let ?h = "bl_header b"
  obtain tx sg where new: "Transaction_new C (Some (cf_network (env_config env))) (Some COINBASE) (bh_coinbase ?h) reward
      ZERO (bh_number ?h) (bh_timestamp ?h) EMPTY_BYTES = Inr tx"
    and sg: "Key_sign C COINBASE_KEY (tx_hash tx) = Inr sg" and cb: "cb = tx\<lparr>tx_signature := Some sg\<rparr>"
    using assms(1) by (auto simp: coinbase_transaction_def Transaction_sign_def Let_def rbind_eq_Inr C)
  have tx: "tx_type tx = COINBASE" "tx_to tx = bh_coinbase ?h" "tx_value tx = reward" "tx_nonce tx = bl_number b"
    "tx_encoded tx = tx_image (Network_id (cf_network (env_config env))) COINBASE (bh_coinbase ?h) reward ZERO
       (bl_number b) (bh_timestamp ?h) EMPTY_BYTES"
    using new by (auto simp: Transaction_new_Inr Let_def)
  have ok: "bytes_ok (bh_coinbase ?h)" "bytes_ok EMPTY_BYTES" using a by (simp_all add: bytes_ok_def EMPTY_BYTES_def)
  have "length (tx_encoded tx) \<le> 0x0FFFFFFF"
    using length_bytes_image [OF ok(1)] length_bytes_image [OF ok(2)] a
    by (simp add: tx(5) tx_image_def EMPTY_BYTES_def)
  from tx_wf_new [OF new C(2) this] Key_sign_Inr [OF sg] show wf: "signed_wf C cb"
    by (auto simp: signed_wf_def cb)
  show "tx_type cb = COINBASE" "tx_to cb = bh_coinbase ?h" "tx_value cb = reward" "tx_nonce cb = bl_number b"
    by (simp_all add: cb tx)
  show "length bs > 64" if "Transaction_toBytes cb = Inr bs"
  proof -
    from wf have "bytes_ok (tx_hash cb)" "bytes_ok (tx_encoded cb)" "Signature_wf sg"
      by (auto simp: signed_wf_def tx_wf_def cb)
    moreover have "tx_signature cb = Some sg" by (simp add: cb)
    ultimately have "bs = bytes_image (tx_hash cb) @ bytes_image (tx_encoded cb) @ bytes_image (Signature_toBytes sg)"
      using that Transaction_toBytes_eq by simp
    then show ?thesis using length_Signature_toBytes [OF \<open>Signature_wf sg\<close>] by (simp add: bytes_image_def)
  qed
qed

lemma whole_transaction:
  assumes ix: "index_get ch (TYPE_TRANSACTION_HASH # h) = Some bs" and "length bs > 64"
    and wf: "signed_wf C tx" and bs: "Transaction_toBytes tx = Inr bs"
  shows "getTransaction C h ch = Inr (Some tx)"
  using assms(2) signed_wf_roundtrip [OF wf bs] by (simp add: getTransaction_def ix)

section \<open>The history of an account\<close>

text \<open>The hashes recorded for an address, oldest first.\<close>

definition history :: "Chain \<Rightarrow> bytes \<Rightarrow> bytes option list" where
  "history ch a =
     (case getTransactionCount a ch of
        Inl _ \<Rightarrow> []
      | Inr cnt \<Rightarrow> map (\<lambda>i. index_get ch (getNthTransactionIndexKey a (of_nat i))) [0 ..< unat cnt])"

lemma history_cong:
  "(\<And>k. index_get ch' (TYPE_ACCOUNT_TRANSACTION # k) = index_get ch (TYPE_ACCOUNT_TRANSACTION # k)) \<Longrightarrow>
   history ch' a = history ch a"
  by (simp add: history_def getTransactionCount_def split: sum.split)

lemma of_nat_jint_eq: "i < 2 ^ 32 \<Longrightarrow> j < 2 ^ 32 \<Longrightarrow> (of_nat i :: jint) = of_nat j \<longleftrightarrow> i = j"
  by (simp add: word_of_nat_eq_iff take_bit_nat_eq_self)

lemma account_keys:
  assumes "length (a :: bytes) = 20" "length (b :: bytes) = 20"
  shows "a \<noteq> b @ bytes_of_int n" "b @ bytes_of_int n \<noteq> a" "a @ bytes_of_int m = b @ bytes_of_int n \<longleftrightarrow> a = b \<and> m = n"
  using assms by (auto dest: arg_cong [where f = length])

lemma addTransactionToAccount_put:
  assumes "addTransactionToAccount tx a ch = Inr ch'"
  obtains cnt where "getTransactionCount a ch = Inr cnt"
    "ch' = index_put (TYPE_ACCOUNT_TRANSACTION # a) (bytes_of_int (cnt + 1))
      (index_put (TYPE_ACCOUNT_TRANSACTION # a @ bytes_of_int cnt) (tx_hash tx) ch)"
  using assms by (auto simp: addTransactionToAccount_def setTransactionCount_def rbind_eq_Inr)

lemma history_other:
  assumes add: "addTransactionToAccount tx a ch = Inr ch'" and len: "length a = 20" "length a' = 20" and "a' \<noteq> a"
  shows "history ch' a' = history ch a'"
proof -
  obtain cnt where ch': "ch' = index_put (TYPE_ACCOUNT_TRANSACTION # a) (bytes_of_int (cnt + 1))
      (index_put (TYPE_ACCOUNT_TRANSACTION # a @ bytes_of_int cnt) (tx_hash tx) ch)"
    by (rule addTransactionToAccount_put [OF add])
  have "getTransactionCount a' ch' = getTransactionCount a' ch"
    "index_get ch' (getNthTransactionIndexKey a' n) = index_get ch (getNthTransactionIndexKey a' n)" for n
    using assms(4) account_keys [OF len] account_keys [OF len(2,1)] by (simp_all add: getTransactionCount_def ch')
  then show ?thesis by (simp add: history_def split: sum.split)
qed

lemma history_add:
  assumes add: "addTransactionToAccount tx a ch = Inr ch'" and len: "length a = 20" "length a' = 20"
    and bound: "length (history ch a') + 1 < 2 ^ 32"
  shows "history ch' a' = history ch a' @ (if a' = a then [Some (tx_hash tx)] else [])"
proof -
  obtain cnt where cnt: "getTransactionCount a ch = Inr cnt"
    and ch': "ch' = index_put (TYPE_ACCOUNT_TRANSACTION # a) (bytes_of_int (cnt + 1))
      (index_put (TYPE_ACCOUNT_TRANSACTION # a @ bytes_of_int cnt) (tx_hash tx) ch)"
    by (rule addTransactionToAccount_put [OF add])
  note ne = account_keys [OF len(1,1)]
  show ?thesis
  proof (cases "a' = a")
    case False
    with history_other [OF add len] show ?thesis by simp
  next
    case True
    have b: "unat cnt + 1 < 2 ^ 32" using bound by (simp add: True history_def cnt)
    have c': "getTransactionCount a ch' = Inr (cnt + 1)"
      by (simp add: getTransactionCount_def ch' bytes_toInt_of_int)
    have u: "unat (cnt + 1) = Suc (unat cnt)"
      using b by (simp add: unat_word_ariths take_bit_nat_eq_self)
    have "index_get ch' (getNthTransactionIndexKey a (of_nat i)) = index_get ch (getNthTransactionIndexKey a (of_nat i))"
      if "i < unat cnt" for i
    proof -
      have "(of_nat i :: jint) \<noteq> of_nat (unat cnt)" using that b by (subst of_nat_jint_eq) simp_all
      then show ?thesis using ne by (simp add: ch')
    qed
    moreover have "index_get ch' (getNthTransactionIndexKey a cnt) = Some (tx_hash tx)"
      using ne by (simp add: ch')
    ultimately show ?thesis by (simp add: True history_def c' cnt u)
  qed
qed

text \<open>A block adds the hashes of the transactions that name the address, in order.\<close>

definition names :: "crypto \<Rightarrow> bytes \<Rightarrow> Transaction \<Rightarrow> bool" where
  "names C a tx \<longleftrightarrow> Transaction_getFrom C tx = Some a \<or> tx_to tx = a"

lemma length_getFrom: "ripemd_ok C \<Longrightarrow> Transaction_getFrom C tx = Some a \<Longrightarrow> length a = 20"
  by (auto simp: Transaction_getFrom_def Signature_getAddress_def length_h160)

lemma history_touches:
  "touches T ch ch' \<Longrightarrow> TYPE_ACCOUNT_TRANSACTION \<notin> T \<Longrightarrow> history ch' a = history ch a"
  by (rule history_cong) (rule touches_index)

lemma index_transaction_history:
  assumes ix: "index_transaction C n tx idx ch = Inr ch'" and C: "ripemd_ok C"
    and len: "length (tx_to tx) = 20" "length a = 20" and bound: "length (history ch a) + 1 < 2 ^ 32"
  shows "history ch' a = history ch a @ (if names C a tx then [Some (tx_hash tx)] else [])"
proof -
  let ?c = "index_put (TYPE_TRANSACTION_HASH # tx_hash tx) (location n idx) ch"
  obtain "from" c1 where f: "Transaction_getFrom C tx = Some from" and 1: "addTransactionToAccount tx from ?c = Inr c1"
    and 2: "if from \<noteq> tx_to tx then addTransactionToAccount tx (tx_to tx) c1 = Inr ch' else c1 = ch'"
    using ix by (auto simp: index_transaction_def location_def rbind_eq_Inr Let_def split: if_splits)
  have 0: "history ?c a = history ch a" by (rule history_touches [OF touches_index_put]) simp
  have h1: "history c1 a = history ch a @ (if a = from then [Some (tx_hash tx)] else [])"
    using history_add [OF 1 length_getFrom [OF C f] len(2)] bound by (simp add: 0)
  show ?thesis
  proof (cases "from = tx_to tx")
    case True
    with 2 h1 show ?thesis by (auto simp: names_def f)
  next
    case False
    with 2 have add: "addTransactionToAccount tx (tx_to tx) c1 = Inr ch'" by simp
    show ?thesis
    proof (cases "a = tx_to tx")
      case True
      with False h1 have "history c1 a = history ch a" by simp
      with history_add [OF add len] bound True show ?thesis by (simp add: names_def)
    next
      case other: False
      have "history ch' a = history c1 a" using history_other [OF add len] other by simp
      with h1 other show ?thesis by (auto simp: names_def f)
    qed
  qed
qed

lemma index_transactions_history:
  assumes "index_transactions C n txs reward ch = Inr (reward', ch')" and "ripemd_ok C"
    and "\<forall>e \<in> set txs. length (tx_to (fst e)) = 20" "length a = 20" "length (history ch a) + length txs < 2 ^ 32"
  shows "history ch' a = history ch a @ map (\<lambda>e. Some (tx_hash (fst e))) (filter (\<lambda>e. names C a (fst e)) txs)"
  using assms
proof (induction txs arbitrary: reward ch)
  case Nil
  then show ?case by (simp add: index_transactions_def)
next
  case (Cons e txs)
  obtain tx idx where e: "e = (tx, idx)" by (cases e)
  obtain r1 c1 where c1: "index_transaction C n tx idx ch = Inr c1"
    and rest: "index_transactions C n txs r1 c1 = Inr (reward', ch')"
    using Cons.prems(1) unfolding e by (rule index_transactions_Cons)
  have h1: "history c1 a = history ch a @ (if names C a tx then [Some (tx_hash tx)] else [])"
    using index_transaction_history [OF c1] Cons.prems by (simp add: e)
  show ?case
    using Cons.IH [OF rest] Cons.prems by (simp add: h1 e)
qed

lemma addBlock_history:
  assumes add: "addBlock env b ch = Inr ch'" and gen: "bl_number b \<noteq> genesis_number env"
    and idx: "length (bl_indexes b) = length (bl_transactions b)"
    and C: "C = env_crypto env" "ripemd_ok C" and a: "length a = 20" "length (bh_coinbase (bl_header b)) = 20"
    and tos: "\<forall>tx \<in> set (bl_transactions b). length (tx_to tx) = 20"
    and bound: "length (history ch a) + length (bl_transactions b) + 1 < 2 ^ 32"
  obtains cb reward where "coinbase_transaction env b reward = Inr cb"
    "am reward = am (getBlockReward (bl_number b)) + (\<Sum>tx \<leftarrow> bl_transactions b. am (tx_fee tx))"
    "history ch' a = history ch a @ map (\<lambda>tx. Some (tx_hash tx)) (filter (names C a) (bl_transactions b)) @
       (if a = bh_coinbase (bl_header b) then [Some (tx_hash cb)] else [])"
proof -
  obtain c1 c2 c3 c4 c5 reward where s: "activateForks env (bl_number b) ch = Inr c1"
    "put_block b c1 = Inr c2"
    "index_transactions (env_crypto env) (bl_number b) (zip (bl_transactions b) (bl_indexes b))
       (getBlockReward (bl_number b)) c2 = Inr (reward, c3)"
    "(if bl_number b \<noteq> genesis_number env
      then rbind (add_coinbase env b reward c3) (update_stats env b) else Inr c3) = Inr c4"
    "(if sint (bl_number b) smod sint getValidatorUpdateInterval = 0
      then updateValidators (bl_number b) c4 else Inr c4) = Inr c5"
    "ch' = index_put [TYPE_LATEST_BLOCK_NUMBER] (bytes_of_long (bl_number b)) (c5\<lparr>ch_latest := Some b\<rparr>)"
    by (rule addBlock_steps [OF add])
  obtain c where coin: "add_coinbase env b reward c3 = Inr c" and stats: "update_stats env b c = Inr c4"
    using s(4) gen by (auto simp: rbind_eq_Inr)
  obtain cb bs where cb: "coinbase_transaction env b reward = Inr cb"
    and addcb: "addTransactionToAccount cb (bh_coinbase (bl_header b))
      (index_put (TYPE_COINBASE_TRANSACTION_HASH # bytes_of_long (bl_number b)) (tx_hash cb)
        (index_put (TYPE_TRANSACTION_HASH # tx_hash cb) bs c3)) = Inr c"
    using coin by (auto simp: add_coinbase_def rbind_eq_Inr)
  let ?txs = "zip (bl_transactions b) (bl_indexes b)"
  have firsts: "map (\<lambda>e. f (fst e)) (filter (\<lambda>e. P (fst e)) ?txs) = map f (filter P (bl_transactions b))"
    for f :: "Transaction \<Rightarrow> 'z" and P
  proof -
    have "map f (filter P (map fst ?txs)) = map f (filter P (bl_transactions b))" using idx by simp
    then show ?thesis by (simp add: comp_def filter_map)
  qed
  have h2: "history c2 a = history ch a"
    using keeps_index [OF keeps_activateForks(1) [OF s(1)]]
    by (intro history_cong) (simp add: put_block_stored(4) [OF s(2)])
  have h3: "history c3 a = history ch a @ map (\<lambda>tx. Some (tx_hash tx)) (filter (names C a) (bl_transactions b))"
  proof -
    have "\<forall>e \<in> set ?txs. length (tx_to (fst e)) = 20" using tos by (auto dest: set_zip_leftD)
    from index_transactions_history [OF s(3) C(2) [unfolded C(1)] this a(1)] bound idx
    show ?thesis using firsts [of "\<lambda>tx. Some (tx_hash tx)" "names C a"] by (simp add: h2 C(1))
  qed
  have "TYPE_ACCOUNT_TRANSACTION \<notin> {TYPE_TRANSACTION_HASH} \<union> {TYPE_COINBASE_TRANSACTION_HASH}" by simp
  note h3' = history_touches [OF touches_chain [OF touches_index_put touches_index_put] this]
  have "length (history c3 a) + 1 < 2 ^ 32"
    using bound length_filter_le [of "names C a" "bl_transactions b"] by (simp add: h3 del: length_filter_le)
  then have hc: "history c a = history c3 a @ (if a = bh_coinbase (bl_header b) then [Some (tx_hash cb)] else [])"
    using history_add [OF addcb a(2) a(1)] by (simp add: h3')
  have 5: "touches {TYPE_VALIDATORS} c4 c5"
    using s(5) touches_updateValidators by (auto split: if_splits)
  from touches_chain [OF touches_update_stats [OF stats] 5]
  have "history c5 a = history c a" by (rule history_touches) simp
  moreover have "history ch' a = history c5 a" by (rule history_cong) (simp add: s(6))
  ultimately show thesis
    using index_transactions_reward [OF s(3)] firsts [of "\<lambda>tx. am (tx_fee tx)" "\<lambda>_. True"] hc h3
    by (intro that [OF cb]) simp_all
qed

end
