(* ===== verification/ForkActivation.thy ===== *)
theory ForkActivation
  imports ChainIndex
begin

text \<open>
  \<open>forkActivated\<close> counts the signals in a window of headers and keeps the counts of the last
  heights in a bounded cache, from which the next count is derived. The theory shows that on every
  reachable chain the answer is the count over the window, whatever the cache evicts, and that the
  reachable chains are lists of blocks.
\<close>

section \<open>The window of signals\<close>

definition fork_signal :: "ValidatorActivatedFork \<Rightarrow> Block \<Rightarrow> bool" where
  "fork_signal f b = (case getDecodedData (bl_header b) of Inl _ \<Rightarrow> False | Inr d \<Rightarrow> signalingFork d f)"

definition window_start :: "ValidatorActivatedFork \<Rightarrow> int \<Rightarrow> int" where
  "window_start f h = min (max (h - sint (activationBlocksLookup f)) 1) (h - 1)"

text \<open>The number of blocks below height \<open>h\<close>, at most \<open>activationBlocksLookup\<close> back, that signal.\<close>

definition signal_count :: "Block list \<Rightarrow> ValidatorActivatedFork \<Rightarrow> int \<Rightarrow> int" where
  "signal_count bs f h = int (length (filter (\<lambda>i. fork_signal f (bs ! nat i)) [window_start f h .. h - 1]))"

lemma lookup_pos: "0 < sint (activationBlocksLookup f)"
  by (cases f) simp

lemma window_bounds: "2 \<le> h \<Longrightarrow> 1 \<le> window_start f h" "window_start f h \<le> h - 1"
  by (auto simp: window_start_def)

text \<open>The recurrence of the cache: the window moves by one, or grows at the start of the chain.\<close>

lemma signal_count_step:
  assumes "3 \<le> h"
  shows "signal_count bs f h = signal_count bs f (h - 1) -
      (if fork_signal f (bs ! nat (window_start f (h - 1))) \<and> window_start f h > 1 then 1 else 0) +
      (if fork_signal f (bs ! nat (h - 1)) then 1 else 0)"
proof -
  have top: "[a .. h - 1] = [a .. h - 2] @ [h - 1]" if "a \<le> h - 1" for a
    using upto_rec2 [of a "h - 1"] that by simp
  show ?thesis
  proof (cases "window_start f h > 1")
    case True
    then have w: "window_start f h = window_start f (h - 1) + 1" "window_start f (h - 1) \<le> h - 2"
      using assms lookup_pos [of f] by (auto simp: window_start_def)
    then have "[window_start f (h - 1) .. h - 2] = window_start f (h - 1) # [window_start f h .. h - 2]"
      by (subst upto_rec1) simp_all
    then show ?thesis using True top [of "window_start f h"] window_bounds(2) [of f h]
      by (simp add: signal_count_def)
  next
    case False
    then have "window_start f h = window_start f (h - 1)"
      using assms lookup_pos [of f] by (auto simp: window_start_def)
    then show ?thesis using False top [of "window_start f h"] window_bounds(2) [of f h]
      by (simp add: signal_count_def)
  qed
qed

section \<open>Reading the signals\<close>

definition data_ok :: "Block \<Rightarrow> bool" where
  "data_ok b \<longleftrightarrow> length (bh_data (bl_header b)) \<le> HEADER_DATA_MAX_SIZE"

lemma header_signals_get:
  assumes "blocks_of C ch bs" "0 \<le> i" "i < int (length bs)" "data_ok (bs ! nat i)"
  shows "header_signals (word_of_int i) f ch = Inr (fork_signal f (bs ! nat i))"
proof -
  have "getBlockHeader (of_nat (nat i)) ch = Inr (Some (bl_header (bs ! nat i)))"
    using assms by (intro blocks_of_get) auto
  moreover have "(of_nat (nat i) :: jlong) = word_of_int i" using assms(2) by simp
  moreover have "is_ok (getDecodedData (bl_header (bs ! nat i)))"
    using assms(4) headerdata_total by (simp add: getDecodedData_def data_ok_def)
  ultimately show ?thesis by (auto simp: header_signals_def fork_signal_def is_ok_iff)
qed

lemma header_signals_defined:
  assumes "blocks_of C ch bs" "header_signals (word_of_int i) f ch = Inr x" "0 \<le> i" "i < 2 ^ 63"
  shows "i < int (length bs)"
proof -
  have "block_get ch TYPE_BLOCK_HEADER (word_of_int i) \<noteq> None"
    using assms(2) by (auto simp: header_signals_def getBlockHeader_def rbind_eq_Inr split: option.splits)
  then have "unat (word_of_int i :: jlong) < length bs" using assms(1) unfolding blocks_of_def by blast
  then show ?thesis
    using assms(3,4) by (simp add: unsigned_of_int take_bit_int_eq_self)
qed

lemma count_fold:
  assumes "\<forall>i \<in> set xs. header_signals (word_of_int i) f ch = Inr (P i)"
  shows "rfold (\<lambda>i n. rmap (\<lambda>b. n + (if b then 1 else 0)) (header_signals (word_of_int i) f ch)) xs n =
    Inr (n + int (length (filter P xs)))"
  using assms by (induction xs arbitrary: n) simp_all

lemma count_signals_window:
  assumes bs: "blocks_of C ch bs" and d: "list_all data_ok bs" and h: "2 \<le> h" "h \<le> int (length bs)"
  shows "count_signals (window_start f h) (h - 1) f ch = Inr (signal_count bs f h)"
proof -
  let ?S = "\<lambda>i. fork_signal f (bs ! nat i)"
  have "\<forall>i \<in> set (rev [window_start f h .. h - 1]). header_signals (word_of_int i) f ch = Inr (?S i)"
    using h window_bounds(1) [OF h(1), of f] d by (auto intro!: header_signals_get [OF bs] simp: list_all_length)
  from count_fold [OF this, of 0] have "count_signals (window_start f h) (h - 1) f ch =
      Inr (int (length (filter ?S (rev [window_start f h .. h - 1]))))"
    unfolding count_signals_def by simp
  then show ?thesis by (simp add: signal_count_def rev_filter [symmetric])
qed

section \<open>The cache\<close>

text \<open>A bounded cache may drop entries and keeps the others.\<close>

definition evict_ok :: "ChainEnv \<Rightarrow> bool" where
  "evict_ok env \<longleftrightarrow> (\<forall>m k v. map_of (env_evict env m) k = Some v \<longrightarrow> map_of m k = Some v)"

definition memory_ok :: "Block list \<Rightarrow> fork_memory \<Rightarrow> bool" where
  "memory_ok bs mem \<longleftrightarrow> (\<forall>f h m. map_of mem (f, h) = Some m \<longrightarrow>
     2 \<le> sint h \<and> sint h \<le> int (length bs) \<and>
     fm_lowerBoundActivated m = fork_signal f (bs ! nat (window_start f (sint h))) \<and>
     fm_activatedBlocks m = signal_count bs f (sint h))"

lemma memory_ok_empty [simp]: "memory_ok bs []"
  by (simp add: memory_ok_def)

lemma signal_count_append:
  "2 \<le> h \<Longrightarrow> h \<le> int (length bs) \<Longrightarrow> signal_count (bs @ [b]) f h = signal_count bs f h"
  using window_bounds(1) [of h f] unfolding signal_count_def
  by (intro arg_cong [where f = int] arg_cong [where f = length] filter_cong) (auto simp: nth_append)

lemma memory_ok_append:
  assumes "memory_ok bs mem" shows "memory_ok (bs @ [b]) mem"
  unfolding memory_ok_def
proof (intro allI impI)
  fix f h m assume m: "map_of mem (f, h) = Some m"
  with assms have h: "2 \<le> sint h" "sint h \<le> int (length bs)"
    "fm_lowerBoundActivated m = fork_signal f (bs ! nat (window_start f (sint h)))"
    "fm_activatedBlocks m = signal_count bs f (sint h)"
    unfolding memory_ok_def by blast+
  then have "nat (window_start f (sint h)) < length bs"
    using window_bounds [where f = f and h = "sint h"] by linarith
  with h show "2 \<le> sint h \<and> sint h \<le> int (length (bs @ [b])) \<and>
      fm_lowerBoundActivated m = fork_signal f ((bs @ [b]) ! nat (window_start f (sint h))) \<and>
      fm_activatedBlocks m = signal_count (bs @ [b]) f (sint h)"
    by (simp add: nth_append signal_count_append)
qed

lemma memory_ok_evict:
  assumes "evict_ok env" "memory_ok bs (AList.update k m mem)" shows "memory_ok bs (env_evict env (AList.update k m mem))"
  using assms unfolding evict_ok_def memory_ok_def by blast

lemma memory_ok_update:
  assumes "memory_ok bs mem" "2 \<le> sint h" "sint h \<le> int (length bs)"
  shows "memory_ok bs (AList.update (f, h)
    \<lparr>fm_lowerBoundActivated = fork_signal f (bs ! nat (window_start f (sint h))),
     fm_activatedBlocks = signal_count bs f (sint h)\<rparr> mem)"
  using assms unfolding memory_ok_def by auto

text \<open>What a query answers, past the guards of the recorded and the configured forks.\<close>

lemma forkActivated_count:
  assumes bs: "blocks_of C ch bs" and d: "list_all data_ok bs" and mem: "memory_ok bs (ch_memory ch)"
    and ev: "evict_ok env" and h: "2 \<le> sint h" "sint h \<le> int (length bs)"
    and open_fork: "map_of (ch_activated ch) f = None" "map_of (forkActivationCheckpoints (cf_network (env_config env))) f = None"
  shows "\<exists>memory. forkActivated env h f ch =
      Inr (signal_count bs f (sint h) \<ge> sint (activationBlocks f), ch\<lparr>ch_memory := memory\<rparr>) \<and> memory_ok bs memory"
proof (cases "map_of (ch_memory ch) (f, h)")
  case (Some m)
  then have "fm_activatedBlocks m = signal_count bs f (sint h)" using mem unfolding memory_ok_def by blast
  then show ?thesis
    using Some h open_fork mem by (intro exI [of _ "ch_memory ch"]) (simp add: forkActivated_def)
next
  case None
  let ?lo = "window_start f (sint h)"
  let ?m = "\<lparr>fm_lowerBoundActivated = fork_signal f (bs ! nat ?lo), fm_activatedBlocks = signal_count bs f (sint h)\<rparr>"
  have sig: "header_signals (word_of_int i) f ch = Inr (fork_signal f (bs ! nat i))" if "1 \<le> i" "i \<le> sint h - 1" for i
    using that h d by (intro header_signals_get [OF bs]) (auto simp: list_all_length)
  have low: "header_signals (word_of_int ?lo) f ch = Inr (fork_signal f (bs ! nat ?lo))"
    using window_bounds [where f = f and h = "sint h"] h(1) by (intro sig) auto
  have top: "header_signals (word_of_int (sint h - 1)) f ch = Inr (fork_signal f (bs ! nat (sint h - 1)))"
    using h(1) by (intro sig) auto
  have count: "(case map_of (ch_memory ch) (f, h - 1) of
       Some m \<Rightarrow> rmap (\<lambda>b. fm_activatedBlocks m - (if fm_lowerBoundActivated m \<and> ?lo > 1 then 1 else 0)
           + (if b then 1 else 0)) (header_signals (word_of_int (sint h - 1)) f ch)
     | None \<Rightarrow> count_signals ?lo (sint h - 1) f ch) = Inr (signal_count bs f (sint h))"
  proof (cases "map_of (ch_memory ch) (f, h - 1)")
    case None
    then show ?thesis using count_signals_window [OF bs d h] by simp
  next
    case (Some m)
    have "h \<noteq> - (2 ^ 63)" using h(1) by auto
    then have pred: "sint (h - 1) = sint h - 1"
      using sint_of_int_jlong [of "sint h - 1"] sint_range_jlong [of h] h(1) by simp
    from Some mem have "2 \<le> sint h - 1" "fm_lowerBoundActivated m = fork_signal f (bs ! nat (window_start f (sint h - 1)))"
      "fm_activatedBlocks m = signal_count bs f (sint h - 1)"
      unfolding memory_ok_def pred [symmetric] by blast+
    then show ?thesis using Some signal_count_step [of "sint h" bs f] by (simp add: top [simplified])
  qed
  have "forkActivated env h f ch = Inr (signal_count bs f (sint h) \<ge> sint (activationBlocks f),
      ch\<lparr>ch_memory := env_evict env (AList.update (f, h) ?m (ch_memory ch))\<rparr>)"
    unfolding forkActivated_def Let_def window_start_def [symmetric]
    using h(1) open_fork None by (simp only: count low rbind_simps) simp
  then show ?thesis using memory_ok_evict [OF ev memory_ok_update [OF mem h]] by blast
qed

section \<open>Reachable chains\<close>

text \<open>
  A chain starts as a new database and moves by blocks, of a positive number and with header data
  within the limit, and by queries of forks. The genesis block has number 0.
\<close>

definition chain_init :: "ChainEnv \<Rightarrow> Chain \<Rightarrow> bool" where
  "chain_init env ch \<longleftrightarrow> initializeDb env empty_chain = Inr ch"

inductive chain_step :: "ChainEnv \<Rightarrow> Chain \<Rightarrow> Chain \<Rightarrow> bool" for env :: ChainEnv where
  step_block: "block_wf (env_crypto env) b \<Longrightarrow> data_ok b \<Longrightarrow> 0 < sint (bl_number b) \<Longrightarrow> addBlock env b ch = Inr ch' \<Longrightarrow>
    chain_step env ch ch'"
| step_query: "forkActivated env h f ch = Inr (r, ch') \<Longrightarrow> chain_step env ch ch'"

definition genesis_wf :: "ChainEnv \<Rightarrow> bool" where
  "genesis_wf env \<longleftrightarrow> block_wf (env_crypto env) (gn_block (env_genesis env)) \<and>
     data_ok (gn_block (env_genesis env)) \<and> genesis_number env = 0 \<and> evict_ok env"

definition chain_inv :: "ChainEnv \<Rightarrow> Chain \<Rightarrow> bool" where
  "chain_inv env ch \<longleftrightarrow> (\<exists>bs. blocks_of (env_crypto env) ch bs \<and> list_all data_ok bs \<and> memory_ok bs (ch_memory ch))"

lemma blocks_of_cong:
  "ch_block ch' = ch_block ch \<Longrightarrow> ch_latest ch' = ch_latest ch \<Longrightarrow> blocks_of C ch' bs = blocks_of C ch bs"
  by (simp add: blocks_of_def stored_cong [of ch' ch] block_get_cong [of ch' ch])

text \<open>A query changes only the cache, and keeps it right.\<close>

lemma query_memory:
  assumes bs: "blocks_of C ch bs" and d: "list_all data_ok bs" and mem: "memory_ok bs (ch_memory ch)"
    and ev: "evict_ok env" and q: "forkActivated env h f ch = Inr (r, ch')"
  obtains memory where "ch' = ch\<lparr>ch_memory := memory\<rparr>" "memory_ok bs memory"
proof (cases "ch' = ch")
  case True
  then show thesis using mem by (intro that [of "ch_memory ch"]) simp_all
next
  case False
  then have g: "1 < sint h" "map_of (ch_activated ch) f = None"
    "map_of (forkActivationCheckpoints (cf_network (env_config env))) f = None" "map_of (ch_memory ch) (f, h) = None"
    using q by (auto simp: forkActivated_def split: if_splits option.splits)
  have "\<exists>x. header_signals (word_of_int (sint h - 1)) f ch = Inr x"
  proof (cases "map_of (ch_memory ch) (f, h - 1)")
    case (Some m)
    then show ?thesis using q g by (auto simp: forkActivated_def Let_def rbind_eq_Inr rmap_eq_Inr)
  next
    case None
    have "[window_start f (sint h) .. sint h - 1] = [window_start f (sint h) .. sint h - 2] @ [sint h - 1]"
      using upto_rec2 [of "window_start f (sint h)" "sint h - 1"] window_bounds(2) [of f "sint h"] by simp
    then show ?thesis using q g None
      by (auto simp: forkActivated_def Let_def rbind_eq_Inr rmap_eq_Inr count_signals_def window_start_def)
  qed
  then have "sint h - 1 < int (length bs)"
    using header_signals_defined [OF bs, of "sint h - 1"] g(1) sint_range_jlong [of h] by auto
  with forkActivated_count [OF bs d mem ev _ _ g(2,3), of h] q g(1) show thesis by (auto intro: that)
qed

lemma activateForks_memory:
  assumes bs: "blocks_of C ch bs" and d: "list_all data_ok bs" and mem: "memory_ok bs (ch_memory ch)"
    and ev: "evict_ok env" and q: "activateForks env n ch = Inr ch'"
  shows "memory_ok bs (ch_memory ch')"
proof (cases "ch' = ch")
  case False
  then obtain x c where f: "forkActivated env n UNIFORM_DISTRIBUTION ch = Inr (x, c)"
    and c: "ch' = c \<or> (\<exists>forks. setActivatedForks forks (c\<lparr>ch_activated := forks\<rparr>) = Inr ch')"
    using q by (auto simp: activateForks_def rbind_eq_Inr Let_def split: if_splits)
  obtain memory where m: "c = ch\<lparr>ch_memory := memory\<rparr>" "memory_ok bs memory"
    by (rule query_memory [OF bs d mem ev f])
  from c have "ch_memory ch' = ch_memory c"
    using touches_fields(6) [OF touches_setActivatedForks] by fastforce
  with m show ?thesis by simp
qed (simp add: mem)

lemma addBlock_memory:
  assumes "addBlock env b ch = Inr ch'"
  obtains c1 where "activateForks env (bl_number b) ch = Inr c1" "ch_memory ch' = ch_memory c1"
proof -
  obtain c1 c2 c3 c4 c5 reward where s: "activateForks env (bl_number b) ch = Inr c1"
    "put_block b c1 = Inr c2"
    "index_transactions (env_crypto env) (bl_number b) (zip (bl_transactions b) (bl_indexes b))
       (getBlockReward (bl_number b)) c2 = Inr (reward, c3)"
    "(if bl_number b \<noteq> genesis_number env
      then rbind (add_coinbase env b reward c3) (update_stats env b) else Inr c3) = Inr c4"
    "(if sint (bl_number b) smod sint getValidatorUpdateInterval = 0
      then updateValidators (bl_number b) c4 else Inr c4) = Inr c5"
    "ch' = index_put [TYPE_LATEST_BLOCK_NUMBER] (bytes_of_long (bl_number b)) (c5\<lparr>ch_latest := Some b\<rparr>)"
    by (rule addBlock_steps [OF assms])
  have "ch_memory c2 = ch_memory c1" using s(2) by (auto simp: put_block_def Let_def rbind_eq_Inr)
  moreover have "ch_memory c3 = ch_memory c2" by (rule touches_fields(6) [OF touches_index_transactions [OF s(3)]])
  moreover have "ch_memory c4 = ch_memory c3"
    using s(4) touches_fields(6) [OF touches_add_coinbase] touches_fields(6) [OF touches_update_stats]
    by (fastforce simp: rbind_eq_Inr split: if_splits)
  moreover have "ch_memory c5 = ch_memory c4"
    using s(5) touches_fields(6) [OF touches_updateValidators] by (auto split: if_splits)
  ultimately show thesis using s(1,6) by (intro that) simp_all
qed

lemma chain_init_blocks:
  assumes "genesis_wf env" "chain_init env ch"
  shows "blocks_of (env_crypto env) ch [gn_block (env_genesis env)]" "ch_memory ch = []"
proof -
  let ?g = "gn_block (env_genesis env)"
  obtain c0 as ds where c0: "setActivatedForks [] (index_put [TYPE_DATABASE_VERSION] (bytes_of_int DATABASE_VERSION)
      empty_chain) = Inr c0"
    and add: "addBlock env ?g (c0\<lparr>ch_accounts := AccountState_commit as, ch_delegates := DelegateState_commit ds\<rparr>) = Inr ch"
    using assms(2) by (auto simp: chain_init_def initializeDb_def rbind_eq_Inr)
  let ?c = "c0\<lparr>ch_accounts := AccountState_commit as, ch_delegates := DelegateState_commit ds\<rparr>"
  have c: "ch_block ?c = []" "ch_memory ?c = []"
    using touches_fields [OF touches_setActivatedForks [OF c0]] by (simp_all add: empty_chain_def chain_on_def)
  have g: "block_wf (env_crypto env) ?g" "data_ok ?g" "bl_number ?g = 0"
    using assms(1) by (auto simp: genesis_wf_def genesis_number_def)
  have "\<forall>n. block_get ?c TYPE_BLOCK_HEADER n = None" using c(1) by (simp add: block_get_def db_get_def)
  note bs = addBlock_genesis [OF add g(1,3) this]
  obtain c1 where c1: "activateForks env (bl_number ?g) ?c = Inr c1" "ch_memory ch = ch_memory c1"
    by (rule addBlock_memory [OF add])
  have "c1 = ?c" using c1(1) by (auto simp: activateForks_def forkActivated_def g(3) rbind_eq_Inr split: if_splits)
  then show "ch_memory ch = []" using c1(2) c(2) by simp
  show "blocks_of (env_crypto env) ch [?g]" by (rule bs)
qed

lemma chain_inv_init:
  assumes "genesis_wf env" "chain_init env ch" shows "chain_inv env ch"
  using chain_init_blocks [OF assms] assms(1) unfolding chain_inv_def genesis_wf_def
  by (intro exI [of _ "[gn_block (env_genesis env)]"]) simp

lemma chain_inv_step:
  assumes gen: "genesis_wf env" and inv: "chain_inv env ch" and st: "chain_step env ch ch'"
  shows "chain_inv env ch'"
proof -
  obtain bs where bs: "blocks_of (env_crypto env) ch bs" and d: "list_all data_ok bs" and m: "memory_ok bs (ch_memory ch)"
    using inv unfolding chain_inv_def by blast
  have ev: "evict_ok env" and g0: "genesis_number env = 0" using gen by (simp_all add: genesis_wf_def)
  from st show ?thesis
  proof cases
    case (step_block b)
    have ne: "bl_number b \<noteq> genesis_number env" using step_block(3) g0 by auto
    have "bl_number b - 1 = of_nat (length bs - 1)"
      using addBlock_latest [OF step_block(4) ne] blocks_of_latest(1) [OF bs] by simp
    moreover have "bs \<noteq> []" using bs by (simp add: blocks_of_def)
    ultimately have "bl_number b = of_nat (length bs)"
      by (cases bs rule: rev_cases) (simp_all add: algebra_simps)
    moreover have "length bs \<le> 2 ^ 63" using bs by (simp add: blocks_of_def)
    moreover have "length bs \<noteq> 2 ^ 63"
    proof
      assume "length bs = 2 ^ 63"
      with \<open>bl_number b = of_nat (length bs)\<close> have "sint (bl_number b) < 0" by simp
      with step_block(3) show False by simp
    qed
    ultimately have len: "length bs < 2 ^ 63" by simp
    obtain c1 where c1: "activateForks env (bl_number b) ch = Inr c1" "ch_memory ch' = ch_memory c1"
      by (rule addBlock_memory [OF step_block(4)])
    have "memory_ok (bs @ [b]) (ch_memory ch')"
      unfolding c1(2) by (rule memory_ok_append [OF activateForks_memory [OF bs d m ev c1(1)]])
    then show ?thesis
      using addBlock_append [OF bs step_block(4,1) ne len] d step_block(2) unfolding chain_inv_def
      by (intro exI [of _ "bs @ [b]"]) simp
  next
    case (step_query h f r)
    obtain memory where "ch' = ch\<lparr>ch_memory := memory\<rparr>" "memory_ok bs memory"
      by (rule query_memory [OF bs d m ev step_query])
    then show ?thesis
      using bs d blocks_of_cong [of ch' ch] unfolding chain_inv_def by (intro exI [of _ bs]) simp
  qed
qed

text \<open>A genesis file that is not well formed admits no chain at all here.\<close>

interpretation chains: inductive_invariant
  "\<lambda>ch. genesis_wf env \<and> chain_init env ch" "\<lambda>ch ch'. genesis_wf env \<and> chain_step env ch ch'" "chain_inv env" for env
  by unfold_locales (auto intro: chain_inv_init chain_inv_step)

end
