(* ===== verification/Ranking.thy ===== *)
theory Ranking
  imports DelegateModel
begin

text \<open>
  \<open>DelegateStateImpl.getDelegates\<close>: whatever the update maps hold, the list it returns has every
  visible delegate once, those with more votes first and equal votes in the order of names.
\<close>

section \<open>Collecting the delegates of all levels\<close>

lemma note_delegates:
  assumes "distinct (map fst es)" "\<forall>e \<in> set es. snd e \<noteq> None" "distinct (map fst m)"
    and "\<forall>a v. length a = ADDRESS_LENGTH \<longrightarrow> map_of m a = None \<longrightarrow> map_of es a = Some (Some v) \<longrightarrow>
      Delegate_fromBytes a v = Inr (g a v)"
  shows "\<exists>m'. rfold note_delegate es m = Inr m' \<and> distinct (map fst m') \<and>
    (\<forall>a. map_of m' a = (case map_of m a of Some x \<Rightarrow> Some x
       | None \<Rightarrow> if length a = ADDRESS_LENGTH then map_option (\<lambda>v. Some (g a (the v))) (map_of es a) else None))"
  using assms
proof (induction es arbitrary: m)
  case Nil
  then show ?case by (simp split: option.split)
next
  case (Cons e es)
  obtain k v where e: "e = (k, Some v)" using Cons.prems(2) by (cases e) auto
  have fresh: "map_of es k = None" using Cons.prems(1) by (simp add: e map_of_eq_None_iff)
  show ?case
  proof (cases "length k = ADDRESS_LENGTH \<and> map_of m k = None")
    case False
    then have n: "note_delegate e m = Inr m" by (auto simp: note_delegate_def e)
    have "\<forall>a v. length a = ADDRESS_LENGTH \<longrightarrow> map_of m a = None \<longrightarrow> map_of es a = Some (Some v) \<longrightarrow>
        Delegate_fromBytes a v = Inr (g a v)"
      using Cons.prems(4) fresh by (auto simp: e split: if_splits)
    from Cons.IH [OF _ _ Cons.prems(3) this] Cons.prems(1,2) obtain m' where
      "rfold note_delegate es m = Inr m'" "distinct (map fst m')"
      "\<forall>a. map_of m' a = (case map_of m a of Some x \<Rightarrow> Some x
       | None \<Rightarrow> if length a = ADDRESS_LENGTH then map_option (\<lambda>v. Some (g a (the v))) (map_of es a) else None)"
      by auto
    then show ?thesis using False by (intro exI [of _ m']) (auto simp: n [unfolded e] e split: option.split)
  next
    case True
    then have "Delegate_fromBytes k v = Inr (g k v)" using Cons.prems(4) by (simp add: e)
    with True have n: "note_delegate e m = Inr (m @ [(k, Some (g k v))])" by (simp add: note_delegate_def e)
    have look: "map_of (m @ [(k, Some (g k v))]) a =
        (if a = k then Some (Some (g k v)) else map_of m a)" for a
      using True by (auto simp: map_add_def split: option.split)
    have "distinct (map fst (m @ [(k, Some (g k v))]))"
      using Cons.prems(3) True by (auto simp: map_of_eq_None_iff)
    moreover have "\<forall>a v. length a = ADDRESS_LENGTH \<longrightarrow> map_of (m @ [(k, Some (g k v'))]) a = None \<longrightarrow>
        map_of es a = Some (Some v) \<longrightarrow> Delegate_fromBytes a v = Inr (g a v)" for v'
      using Cons.prems(4) by (auto simp: e map_add_def split: option.splits if_splits)
    moreover have "distinct (map fst es)" "\<forall>e \<in> set es. snd e \<noteq> None" using Cons.prems(1,2) by simp_all
    ultimately obtain m' where
      "rfold note_delegate es (m @ [(k, Some (g k v))]) = Inr m'" "distinct (map fst m')"
      and m': "\<forall>a. map_of m' a = (case map_of (m @ [(k, Some (g k v))]) a of Some x \<Rightarrow> Some x
       | None \<Rightarrow> if length a = ADDRESS_LENGTH then map_option (\<lambda>v. Some (g a (the v))) (map_of es a) else None)"
      using Cons.IH by blast
    have "\<forall>a. map_of m' a = (case (if a = k then Some (Some (g k v)) else map_of m a) of Some x \<Rightarrow> Some x
       | None \<Rightarrow> if length a = ADDRESS_LENGTH then map_option (\<lambda>v. Some (g a (the v))) (map_of es a) else None)"
      using m' unfolding look .
    then show ?thesis
      using True \<open>rfold note_delegate es _ = Inr m'\<close> \<open>distinct (map fst m')\<close>
      by (intro exI [of _ m'] conjI allI) (auto simp add: n [unfolded e] e split: option.split)
  qed
qed

lemma collect_delegates_ok:
  assumes "list_all layer_ok us" "distinct (map fst db)" "distinct (map fst m)"
    and "\<forall>a v. length a = ADDRESS_LENGTH \<longrightarrow> map_of m a = None \<longrightarrow> lookup_layers us db a = Some v \<longrightarrow>
      Delegate_fromBytes a v = Inr (g a v)"
  shows "\<exists>m'. collect_delegates us db m = Inr m' \<and> distinct (map fst m') \<and>
    (\<forall>a. map_of m' a = (case map_of m a of Some x \<Rightarrow> Some x
       | None \<Rightarrow> if length a = ADDRESS_LENGTH then map_option (\<lambda>v. Some (g a v)) (lookup_layers us db a) else None))"
  using assms
proof (induction us arbitrary: m)
  case Nil
  let ?es = "map (\<lambda>(k, v). (k, Some v)) (db_iterator db None)"
  have keys: "map fst ?es = map fst (db_iterator db None)" by (simp add: comp_def split_def)
  have d: "distinct (map fst (db_iterator db None))"
    using Nil.prems(2) by (simp add: db_iterator_def distinct_map distinct_insort_key)
  have "map_of (db_iterator db None) = map_of db"
    using Nil.prems(2) d by (intro map_of_inject_set [THEN iffD2]) (simp_all add: set_db_iterator)
  then have es: "map_of ?es a = map_option Some (db_get db a)" for a
    by (simp add: map_of_map db_get_def)
  have "distinct (map fst ?es)" unfolding keys by (rule d)
  moreover have "\<forall>e \<in> set ?es. snd e \<noteq> None" by auto
  moreover have "\<forall>a v. length a = ADDRESS_LENGTH \<longrightarrow> map_of m a = None \<longrightarrow> map_of ?es a = Some (Some v) \<longrightarrow>
      Delegate_fromBytes a v = Inr (g a v)"
    using Nil.prems(4) by (simp add: es)
  moreover have "map_option (\<lambda>v. Some (g a (the v))) (map_of ?es a) = map_option (\<lambda>v. Some (g a v)) (db_get db a)" for a
    unfolding es by (simp add: option.map_comp comp_def)
  note opt = this
  ultimately obtain m' where "rfold note_delegate ?es m = Inr m'" "distinct (map fst m')"
    "\<forall>a. map_of m' a = (case map_of m a of Some x \<Rightarrow> Some x
       | None \<Rightarrow> if length a = ADDRESS_LENGTH then map_option (\<lambda>v. Some (g a (the v))) (map_of ?es a) else None)"
    using note_delegates [of ?es m g] Nil.prems(3) by blast
  then show ?case by (intro exI [of _ m']) (simp only: collect_delegates.simps lookup_layers.simps opt simp_thms)
next
  case (Cons u us)
  have u: "distinct (map fst u)" "\<forall>e \<in> set u. snd e \<noteq> None" using Cons.prems(1) by (auto simp: layer_ok_def)
  have "\<forall>a v. length a = ADDRESS_LENGTH \<longrightarrow> map_of m a = None \<longrightarrow> map_of u a = Some (Some v) \<longrightarrow>
      Delegate_fromBytes a v = Inr (g a v)"
    using Cons.prems(4) by auto
  from note_delegates [OF u Cons.prems(3) this] obtain m1 where m1: "rfold note_delegate u m = Inr m1"
    "distinct (map fst m1)" "\<forall>a. map_of m1 a = (case map_of m a of Some x \<Rightarrow> Some x
       | None \<Rightarrow> if length a = ADDRESS_LENGTH then map_option (\<lambda>v. Some (g a (the v))) (map_of u a) else None)"
    by blast
  have some: "map_of u a = Some x \<Longrightarrow> \<exists>v. x = Some v" for a x
    using u(2) by (auto dest!: map_of_SomeD)
  have "\<forall>a v. length a = ADDRESS_LENGTH \<longrightarrow> map_of m1 a = None \<longrightarrow> lookup_layers us db a = Some v \<longrightarrow>
      Delegate_fromBytes a v = Inr (g a v)"
    using Cons.prems(4) m1(3) by (auto split: option.splits)
  from Cons.IH [OF _ Cons.prems(2) m1(2) this] Cons.prems(1) obtain m' where m': "collect_delegates us db m1 = Inr m'"
    "distinct (map fst m')" "\<forall>a. map_of m' a = (case map_of m1 a of Some x \<Rightarrow> Some x
       | None \<Rightarrow> if length a = ADDRESS_LENGTH then map_option (\<lambda>v. Some (g a v)) (lookup_layers us db a) else None)"
    by auto
  show ?case
    using m1(1,3) m' by (intro exI [of _ m']) (auto dest!: some split: option.splits)
qed

section \<open>The ranking\<close>

lemma rmapM_non_null: "rmapM non_null (map Some xs) = Inr xs"
  by (induction xs) simp_all

lemma getDelegates_ranking:
  assumes ok: "delegates_ok ds"
  obtains xs where "getDelegates ds = Inr (map Some xs)" "sorted (map delegate_rank xs)"
    "distinct (map del_address xs)" "set xs = {d. \<exists>a. length a = ADDRESS_LENGTH \<and> deleg ds a = Some d}"
proof -
  let ?s = "ds_delegates ds"
  let ?g = "\<lambda>a v. case Delegate_fromBytes a v of Inl _ \<Rightarrow> undefined | Inr d \<Rightarrow> d"
  have s: "list_all layer_ok (st_layers ?s)" "distinct (map fst (st_db ?s))"
    using ok by (auto simp: delegates_ok_def store_ok_def)
  have parse: "Delegate_fromBytes a v = Inr (?g a v)"
    if "length a = ADDRESS_LENGTH" "lookup_layers (st_layers ?s) (st_db ?s) a = Some v" for a v
    using registry_address [OF delegates_ok_map [OF ok] that(1), of v] that(2)
    by (auto simp: store_get_def Delegate_fromBytes_image)
  obtain m where m: "collect_delegates (st_layers ?s) (st_db ?s) [] = Inr m" "distinct (map fst m)"
    "\<And>a. map_of m a = (if length a = ADDRESS_LENGTH
       then map_option (\<lambda>v. Some (?g a v)) (lookup_layers (st_layers ?s) (st_db ?s) a) else None)"
    using collect_delegates_ok [OF s, of "[]" ?g] parse by auto
  have entry: "map_of m a = (if length a = ADDRESS_LENGTH then map_option Some (deleg ds a) else None)" for a
  proof (cases "lookup_layers (st_layers ?s) (st_db ?s) a")
    case None
    then show ?thesis by (simp add: m(3) deleg_def getDelegateByAddress_eq store_get_def)
  next
    case (Some v)
    show ?thesis
    proof (cases "length a = ADDRESS_LENGTH")
      case True
      from parse [OF True Some] obtain d where "Delegate_fromBytes a v = Inr d" by blast
      then show ?thesis by (simp add: m(3) deleg_def getDelegateByAddress_eq store_get_def Some True)
    qed (simp add: m(3))
  qed
  define ys where "ys = map (\<lambda>e. the (snd e)) m"
  have elem: "(a, x) \<in> set m \<longleftrightarrow> length a = ADDRESS_LENGTH \<and> (\<exists>d. x = Some d \<and> deleg ds a = Some d)" for a x
  proof -
    have "(a, x) \<in> set m \<longleftrightarrow> map_of m a = Some x" using m(2) by simp
    also have "\<dots> \<longleftrightarrow> length a = ADDRESS_LENGTH \<and> (\<exists>d. x = Some d \<and> deleg ds a = Some d)"
      unfolding entry by auto
    finally show ?thesis .
  qed
  have elem': "length (fst e) = ADDRESS_LENGTH \<and> snd e = Some (the (snd e)) \<and> deleg ds (fst e) = Some (the (snd e)) \<and>
      del_address (the (snd e)) = fst e" if "e \<in> set m" for e
    using that elem [of "fst e" "snd e"] deleg_Some(5) [OF ok] by fastforce
  have somes: "map snd m = map Some ys" unfolding ys_def using elem' by simp
  have "map del_address ys = map fst m" unfolding ys_def using elem' by simp
  then have dist: "distinct (map del_address ys)" using m(2) by simp
  have sety: "set ys = {d. \<exists>a. length a = ADDRESS_LENGTH \<and> deleg ds a = Some d}"
  proof (rule set_eqI, rule iffI)
    fix d assume "d \<in> set ys"
    then obtain e where "e \<in> set m" "d = the (snd e)" unfolding ys_def by auto
    then show "d \<in> {d. \<exists>a. length a = ADDRESS_LENGTH \<and> deleg ds a = Some d}" using elem' by blast
  next
    fix d assume "d \<in> {d. \<exists>a. length a = ADDRESS_LENGTH \<and> deleg ds a = Some d}"
    then obtain a where "(a, Some d) \<in> set m" using elem by blast
    then show "d \<in> set ys" unfolding ys_def by force
  qed
  have len: "length m = length ys" by (simp add: ys_def)
  let ?xs = "sort_key delegate_rank ys"
  have "getDelegates ds = Inr (map Some ?xs)"
  proof (cases "length ys \<le> 1")
    case True
    then have "?xs = ys" by (cases ys) auto
    with True show ?thesis by (simp add: getDelegates_def m(1) somes sort_delegates_def len)
  next
    case False
    then show ?thesis by (simp add: getDelegates_def m(1) somes sort_delegates_def len rmapM_non_null)
  qed
  moreover have "distinct (map del_address ?xs)"
    using dist by (simp add: distinct_map inj_on_def)
  ultimately show thesis using sety by (intro that [of ?xs]) simp_all
qed

end
