(* ===== verification/ValidatorSet.thy ===== *)
theory ValidatorSet
  imports Ranking ChainIndex
begin

text \<open>
  The validator set and its statistics: every 200 blocks the delegates with the most votes, as many
  as the protocol admits at that height, become the validators; every block counts for the forger
  and for the primary validator of its height.
\<close>

section \<open>The update of the validator set\<close>

lemma getNumberOfValidators_range:
  assumes "0 \<le> sint n"
  shows "16 \<le> sint (getNumberOfValidators n)" "sint (getNumberOfValidators n) \<le> 100"
proof -
  have "16 \<le> sint (getNumberOfValidators n) \<and> sint (getNumberOfValidators n) \<le> 100"
  proof (cases "sint n < 84 * 240")
    case True
    then have q: "0 \<le> sint n div 240" "sint n div 240 < 84" using assms by simp_all
    have "(16 + word_of_int (sint n div 240) :: jint) = word_of_int (16 + sint n div 240)" by simp
    then have "sint (16 + word_of_int (sint n div 240) :: jint) = 16 + sint n div 240"
      using sint_of_int_jint [of "16 + sint n div 240"] q by simp
    moreover have "sint n sdiv 240 = sint n div 240"
      using assms by (cases "sint n = 0") (simp_all add: signed_divide_int_def sgn_if)
    ultimately show ?thesis
      using q True by (simp add: getNumberOfValidators_def)
  qed (simp add: getNumberOfValidators_def)
  then show "16 \<le> sint (getNumberOfValidators n)" "sint (getNumberOfValidators n) \<le> 100" by blast+
qed

definition top_delegates :: "DelegateState \<Rightarrow> nat \<Rightarrow> Delegate list \<Rightarrow> bool" where
  "top_delegates ds n ts \<longleftrightarrow> (\<exists>xs. ts = take n xs \<and> sorted (map delegate_rank xs) \<and> distinct (map del_address xs) \<and>
     set xs = {d. \<exists>a. length a = ADDRESS_LENGTH \<and> deleg ds a = Some d})"

text \<open>A delegate that is not among them has no more votes than any that is.\<close>

lemma top_delegates_votes:
  assumes "top_delegates ds n ts" "d \<in> set ts" "length a = ADDRESS_LENGTH" "deleg ds a = Some e" "e \<notin> set ts"
  shows "am (del_votes e) \<le> am (del_votes d)"
proof -
  obtain xs where xs: "ts = take n xs" "sorted (map delegate_rank xs)"
    "set xs = {d. \<exists>a. length a = ADDRESS_LENGTH \<and> deleg ds a = Some d}"
    using assms(1) unfolding top_delegates_def by blast
  have "e \<in> set xs" using assms(3,4) xs(3) by blast
  moreover have "set xs = set ts \<union> set (drop n xs)" unfolding xs(1) by (metis append_take_drop_id set_append)
  ultimately have "e \<in> set (drop n xs)" using assms(5) by blast
  moreover have "sorted (map delegate_rank (take n xs) @ map delegate_rank (drop n xs))"
    using xs(2) by (metis append_take_drop_id map_append)
  ultimately have "delegate_rank d \<le> delegate_rank e"
    using assms(2) by (auto simp: sorted_append xs(1))
  then show ?thesis by (auto simp: delegate_rank_def less_eq_prod_def)
qed

lemma length_Hex_encode: "length (Hex_encode bs) = 2 * length bs"
  by (induction bs) (simp_all add: Hex_encode_def hex_of_byte_def)

lemma bytes_ok_hex: "length a = ADDRESS_LENGTH \<Longrightarrow> bytes_ok (string_bytes (Hex_encode a))"
  by (simp add: bytes_ok_def ADDRESS_LENGTH_def length_Hex_encode)

lemma rmapM_some: "rmapM (\<lambda>d. rmap f (non_null d)) (map Some xs) = Inr (map f xs)"
  by (induction xs) simp_all

lemma updateValidators_top:
  assumes up: "updateValidators n ch = Inr ch'" and ok: "delegates_ok (ch_delegates ch)" and n: "0 \<le> sint n"
  obtains ts where "top_delegates (ch_delegates ch) (nat (sint (getNumberOfValidators n))) ts"
    "getValidators ch' = Inr (map (\<lambda>d. Hex_encode (del_address d)) ts)"
proof -
  let ?N = "nat (sint (getNumberOfValidators n))"
  obtain xs where xs: "getDelegates (ch_delegates ch) = Inr (map Some xs)" "sorted (map delegate_rank xs)"
    "distinct (map del_address xs)" "set xs = {d. \<exists>a. length a = ADDRESS_LENGTH \<and> deleg (ch_delegates ch) a = Some d}"
    by (rule getDelegates_ranking [OF ok])
  let ?ts = "take ?N xs"
  let ?vs = "map (\<lambda>d. Hex_encode (del_address d)) ?ts"
  have take: "take (nat (min (int (length (map Some xs))) (sint (getNumberOfValidators n)))) (map Some xs) = map Some ?ts"
    by (simp add: take_map min_def)
  have "bytes_ok (string_bytes (Hex_encode (del_address d)))" if "d \<in> set ?ts" for d
  proof -
    from that obtain a where "length a = ADDRESS_LENGTH" "deleg (ch_delegates ch) a = Some d"
      using xs(4) set_take_subset by fastforce
    then show ?thesis using deleg_Some(5) [OF ok] by (auto intro: bytes_ok_hex)
  qed
  then have oks: "list_all (\<lambda>s. bytes_ok (string_bytes s)) ?vs" by (auto simp: list_all_iff)
  have "length ?vs \<le> ?N" by simp
  then have len: "length ?vs < 2 ^ 31" using getNumberOfValidators_range(2) [OF n]
    by (intro le_less_trans [of "length ?vs" ?N "2 ^ 31"]) simp_all
  have "ch' = index_put [TYPE_VALIDATORS] (int_image (of_nat (length ?vs)) @ concat (map string_image ?vs)) ch"
    using up by (simp add: updateValidators_def xs(1) Let_def take [simplified] rmapM_some string_codec.write_list [OF oks, simplified]
        del: take_map)
  then have "getValidators ch' = Inr ?vs"
    using string_codec.read_list_at_end [OF oks, of 0] len
    by (simp add: getValidators_def SimpleDecoder_new_at sint_of_nat_jint del: map_map take_map)
  moreover have "top_delegates (ch_delegates ch) ?N ?ts" using xs(2-4) unfolding top_delegates_def by blast
  ultimately show thesis by (intro that)
qed

text \<open>In \<open>addBlock\<close>: the set changes at multiples of the interval, from the committed delegates, and only there.\<close>

lemma addBlock_validators:
  assumes add: "addBlock env b ch = Inr ch'" and ok: "delegates_ok (ch_delegates ch)" and n: "0 \<le> sint (bl_number b)"
  shows "if sint (bl_number b) smod sint getValidatorUpdateInterval = 0
    then \<exists>ts. top_delegates (ch_delegates ch) (nat (sint (getNumberOfValidators (bl_number b)))) ts \<and>
      getValidators ch' = Inr (map (\<lambda>d. Hex_encode (del_address d)) ts)
    else getValidators ch' = getValidators ch"
proof -
  obtain c1 c2 c3 c4 c5 reward where s: "activateForks env (bl_number b) ch = Inr c1"
    "put_block b c1 = Inr c2"
    "index_transactions (env_crypto env) (bl_number b) (zip (bl_transactions b) (bl_indexes b))
       (getBlockReward (bl_number b)) c2 = Inr (reward, c3)"
    "(if bl_number b \<noteq> genesis_number env
      then rbind (add_coinbase env b reward c3) (update_stats env b) else Inr c3) = Inr c4"
    "(if sint (bl_number b) smod sint getValidatorUpdateInterval = 0
      then updateValidators (bl_number b) c4 else Inr c4) = Inr c5"
    "ch' = index_put [TYPE_LATEST_BLOCK_NUMBER] (bytes_of_long (bl_number b)) (c5\<lparr>ch_latest := Some b\<rparr>)"
    by (rule addBlock_steps [OF add])
  note t3 = touches_index_transactions [OF s(3)]
  have t4: "touches {TYPE_TRANSACTION_HASH, TYPE_COINBASE_TRANSACTION_HASH, TYPE_ACCOUNT_TRANSACTION, TYPE_VALIDATOR_STATS} c3 c4"
  proof (cases "bl_number b = genesis_number env")
    case False
    with s(4) obtain c where "add_coinbase env b reward c3 = Inr c" "update_stats env b c = Inr c4"
      by (auto simp: rbind_eq_Inr)
    from touches_chain [OF touches_add_coinbase [OF this(1)] touches_update_stats [OF this(2)]]
    show ?thesis by (rule touches_mono) blast
  qed (use s(4) in simp)
  have del: "ch_delegates c4 = ch_delegates ch"
    using touches_fields(3) [OF t4] touches_fields(3) [OF t3] keeps_activateForks(1) [OF s(1)] s(2)
    by (auto simp: keeps_def put_block_def Let_def rbind_eq_Inr)
  have latest: "getValidators ch' = getValidators c5"
    by (simp add: getValidators_def s(6) index_types)
  show ?thesis
  proof (cases "sint (bl_number b) smod sint getValidatorUpdateInterval = 0")
    case True
    with s(5) have up: "updateValidators (bl_number b) c4 = Inr c5" by simp
    obtain ts where "top_delegates (ch_delegates c4) (nat (sint (getNumberOfValidators (bl_number b)))) ts"
      "getValidators c5 = Inr (map (\<lambda>d. Hex_encode (del_address d)) ts)"
      by (rule updateValidators_top [OF up _ n]) (use ok in \<open>simp_all add: del\<close>)
    then show ?thesis using True latest by (auto simp: del)
  next
    case False
    then have "c5 = c4" using s(5) by simp
    moreover have "index_get c4 (TYPE_VALIDATORS # []) = index_get c3 (TYPE_VALIDATORS # [])"
      by (rule touches_index [OF t4]) (simp add: index_types)
    moreover have "index_get c3 (TYPE_VALIDATORS # []) = index_get c2 (TYPE_VALIDATORS # [])"
      by (rule touches_index [OF t3]) (simp add: index_types)
    moreover have "index_get c2 (TYPE_VALIDATORS # []) = index_get c1 (TYPE_VALIDATORS # [])"
      by (simp add: put_block_stored(4) [OF s(2)] index_types)
    moreover have "index_get c1 (TYPE_VALIDATORS # []) = index_get ch (TYPE_VALIDATORS # [])"
      by (rule keeps_index [OF keeps_activateForks(1) [OF s(1)]]) (simp add: index_types)
    ultimately show ?thesis using False latest by (simp add: getValidators_def)
  qed
qed

section \<open>Statistics\<close>

lemma ValidatorStats_roundtrip: "rbind (ValidatorStats_toBytes s) ValidatorStats_fromBytes = Inr s"
  by (simp add: ValidatorStats_toBytes_def ValidatorStats_fromBytes_def SimpleDecoder_new_at)

lemma adjustValidatorStats_get:
  assumes "adjustValidatorStats a ty n ch = Inr ch'"
  obtains s where "getValidatorStats a ch = Inr s"
    "\<And>c. getValidatorStats c ch' = (if c = a then Inr (case ty of
        FORGED \<Rightarrow> s\<lparr>st_blocksForged := st_blocksForged s + n\<rparr>
      | HIT \<Rightarrow> s\<lparr>st_turnsHit := st_turnsHit s + n\<rparr>
      | MISSED \<Rightarrow> s\<lparr>st_turnsMissed := st_turnsMissed s + n\<rparr>) else getValidatorStats c ch)"
proof -
  obtain s v where s: "getValidatorStats a ch = Inr s"
    and v: "ValidatorStats_toBytes (case ty of
        FORGED \<Rightarrow> s\<lparr>st_blocksForged := st_blocksForged s + n\<rparr>
      | HIT \<Rightarrow> s\<lparr>st_turnsHit := st_turnsHit s + n\<rparr>
      | MISSED \<Rightarrow> s\<lparr>st_turnsMissed := st_turnsMissed s + n\<rparr>) = Inr v"
    and ch': "ch' = index_put (TYPE_VALIDATOR_STATS # a) v ch"
    using assms by (auto simp: adjustValidatorStats_def Let_def rbind_eq_Inr)
  have "ValidatorStats_fromBytes v = Inr (case ty of
        FORGED \<Rightarrow> s\<lparr>st_blocksForged := st_blocksForged s + n\<rparr>
      | HIT \<Rightarrow> s\<lparr>st_turnsHit := st_turnsHit s + n\<rparr>
      | MISSED \<Rightarrow> s\<lparr>st_turnsMissed := st_turnsMissed s + n\<rparr>)"
    using ValidatorStats_roundtrip v by (metis rbind_simps(2))
  then show thesis by (intro that [OF s]) (simp add: ch' getValidatorStats_def)
qed

lemma getValidatorStats_cong:
  "index_get ch' (TYPE_VALIDATOR_STATS # a) = index_get ch (TYPE_VALIDATOR_STATS # a) \<Longrightarrow>
   getValidatorStats a ch' = getValidatorStats a ch"
  by (simp add: getValidatorStats_def)

text \<open>
  One block: the forger gains a block; the primary of the height gains a hit when it is the forger,
  and a miss otherwise; nobody else's numbers move.
\<close>

lemma update_stats_get:
  assumes "update_stats env b ch = Inr ch'"
  obtains vs primary p where "getValidators ch = Inr vs"
    "primary_at_view0 env vs (bl_number b) (map_of (ch_activated ch) UNIFORM_DISTRIBUTION \<noteq> None) = Inr primary"
    "Hex_decode0x (Some primary) = Inr p"
    "\<And>c s. getValidatorStats c ch = Inr s \<Longrightarrow> getValidatorStats c ch' = Inr
      \<lparr>st_blocksForged = st_blocksForged s + (if c = bh_coinbase (bl_header b) then 1 else 0),
       st_turnsHit = st_turnsHit s + (if c = p \<and> primary = Hex_encode (bh_coinbase (bl_header b)) then 1 else 0),
       st_turnsMissed = st_turnsMissed s + (if c = p \<and> primary \<noteq> Hex_encode (bh_coinbase (bl_header b)) then 1 else 0)\<rparr>"
proof -
  let ?a = "bh_coinbase (bl_header b)"
  obtain vs primary c1 p where vs: "getValidators ch = Inr vs"
    and pr: "primary_at_view0 env vs (bl_number b) (map_of (ch_activated ch) UNIFORM_DISTRIBUTION \<noteq> None) = Inr primary"
    and c1: "adjustValidatorStats ?a FORGED 1 ch = Inr c1"
    and p: "Hex_decode0x (Some primary) = Inr p"
    and c2: "adjustValidatorStats p (if primary = Hex_encode ?a then HIT else MISSED) 1 c1 = Inr ch'"
    using assms by (auto simp: update_stats_def Let_def rbind_eq_Inr)
  obtain s1 where s1: "getValidatorStats ?a ch = Inr s1"
    "\<And>c. getValidatorStats c c1 = (if c = ?a then Inr (s1\<lparr>st_blocksForged := st_blocksForged s1 + 1\<rparr>)
       else getValidatorStats c ch)"
    by (rule adjustValidatorStats_get [OF c1]) (auto intro: that)
  obtain s2 where s2: "getValidatorStats p c1 = Inr s2"
    "\<And>c. getValidatorStats c ch' = (if c = p then Inr (case if primary = Hex_encode ?a then HIT else MISSED of
        FORGED \<Rightarrow> s2\<lparr>st_blocksForged := st_blocksForged s2 + 1\<rparr>
      | HIT \<Rightarrow> s2\<lparr>st_turnsHit := st_turnsHit s2 + 1\<rparr>
      | MISSED \<Rightarrow> s2\<lparr>st_turnsMissed := st_turnsMissed s2 + 1\<rparr>) else getValidatorStats c c1)"
    by (rule adjustValidatorStats_get [OF c2]) (rule that)
  show thesis
  proof (rule that [OF vs pr p])
    fix c s assume s: "getValidatorStats c ch = Inr s"
    show "getValidatorStats c ch' = Inr
      \<lparr>st_blocksForged = st_blocksForged s + (if c = ?a then 1 else 0),
       st_turnsHit = st_turnsHit s + (if c = p \<and> primary = Hex_encode ?a then 1 else 0),
       st_turnsMissed = st_turnsMissed s + (if c = p \<and> primary \<noteq> Hex_encode ?a then 1 else 0)\<rparr>"
      using s s1 s2 by (cases "c = ?a"; cases "c = p") (auto simp: split: if_splits)
  qed
qed

text \<open>The statistics change in no other step of \<open>addBlock\<close>.\<close>

lemma addBlock_stats:
  assumes add: "addBlock env b ch = Inr ch'" and gen: "bl_number b \<noteq> genesis_number env"
  obtains vs primary p where "getValidators ch = Inr vs"
    "primary_at_view0 env vs (bl_number b) (map_of (ch_activated ch') UNIFORM_DISTRIBUTION \<noteq> None) = Inr primary"
    "Hex_decode0x (Some primary) = Inr p"
    "\<And>c s. getValidatorStats c ch = Inr s \<Longrightarrow> getValidatorStats c ch' = Inr
      \<lparr>st_blocksForged = st_blocksForged s + (if c = bh_coinbase (bl_header b) then 1 else 0),
       st_turnsHit = st_turnsHit s + (if c = p \<and> primary = Hex_encode (bh_coinbase (bl_header b)) then 1 else 0),
       st_turnsMissed = st_turnsMissed s + (if c = p \<and> primary \<noteq> Hex_encode (bh_coinbase (bl_header b)) then 1 else 0)\<rparr>"
proof -
  obtain c1 c2 c3 c4 c5 reward where s: "activateForks env (bl_number b) ch = Inr c1"
    "put_block b c1 = Inr c2"
    "index_transactions (env_crypto env) (bl_number b) (zip (bl_transactions b) (bl_indexes b))
       (getBlockReward (bl_number b)) c2 = Inr (reward, c3)"
    "(if bl_number b \<noteq> genesis_number env
      then rbind (add_coinbase env b reward c3) (update_stats env b) else Inr c3) = Inr c4"
    "(if sint (bl_number b) smod sint getValidatorUpdateInterval = 0
      then updateValidators (bl_number b) c4 else Inr c4) = Inr c5"
    "ch' = index_put [TYPE_LATEST_BLOCK_NUMBER] (bytes_of_long (bl_number b)) (c5\<lparr>ch_latest := Some b\<rparr>)"
    by (rule addBlock_steps [OF add])
  obtain c where coin: "add_coinbase env b reward c3 = Inr c" and stats: "update_stats env b c = Inr c4"
    using s(4) gen by (auto simp: rbind_eq_Inr)
  have t5: "touches {TYPE_VALIDATORS} c4 c5"
    using s(5) touches_updateValidators by (auto split: if_splits)
  from touches_chain [OF touches_index_transactions [OF s(3)] touches_add_coinbase [OF coin]]
  have t: "touches {TYPE_TRANSACTION_HASH, TYPE_COINBASE_TRANSACTION_HASH, TYPE_ACCOUNT_TRANSACTION} c2 c"
    by (rule touches_mono) blast
  have before: "index_get c (ty # k) = index_get ch (ty # k)" if "ty = TYPE_VALIDATORS \<or> ty = TYPE_VALIDATOR_STATS" for ty k
  proof -
    have "index_get c (ty # k) = index_get c2 (ty # k)" by (rule touches_index [OF t]) (use that in \<open>auto simp: index_types\<close>)
    also have "\<dots> = index_get c1 (ty # k)" using that by (auto simp: put_block_stored(4) [OF s(2)] index_types)
    also have "\<dots> = index_get ch (ty # k)"
      by (rule keeps_index [OF keeps_activateForks(1) [OF s(1)]]) (use that in \<open>auto simp: index_types\<close>)
    finally show ?thesis .
  qed
  have vs: "getValidators c = getValidators ch" using before [of TYPE_VALIDATORS "[]"] by (simp add: getValidators_def)
  have after: "index_get ch' (TYPE_VALIDATOR_STATS # k) = index_get c4 (TYPE_VALIDATOR_STATS # k)" for k
    using touches_index [OF t5, of TYPE_VALIDATOR_STATS k] by (simp add: s(6) index_types)
  have act: "ch_activated ch' = ch_activated c"
    using touches_fields(5) [OF touches_update_stats [OF stats]] touches_fields(5) [OF t5] by (simp add: s(6))
  obtain vs primary p where u: "getValidators c = Inr vs"
    "primary_at_view0 env vs (bl_number b) (map_of (ch_activated c) UNIFORM_DISTRIBUTION \<noteq> None) = Inr primary"
    "Hex_decode0x (Some primary) = Inr p"
    and st: "\<And>c' s. getValidatorStats c' c = Inr s \<Longrightarrow> getValidatorStats c' c4 = Inr
      \<lparr>st_blocksForged = st_blocksForged s + (if c' = bh_coinbase (bl_header b) then 1 else 0),
       st_turnsHit = st_turnsHit s + (if c' = p \<and> primary = Hex_encode (bh_coinbase (bl_header b)) then 1 else 0),
       st_turnsMissed = st_turnsMissed s + (if c' = p \<and> primary \<noteq> Hex_encode (bh_coinbase (bl_header b)) then 1 else 0)\<rparr>"
    by (rule update_stats_get [OF stats]) (rule that)
  show thesis
  proof (rule that)
    show "getValidators ch = Inr vs" using u(1) vs by simp
    show "primary_at_view0 env vs (bl_number b) (map_of (ch_activated ch') UNIFORM_DISTRIBUTION \<noteq> None) = Inr primary"
      using u(2) act by simp
    show "Hex_decode0x (Some primary) = Inr p" by (rule u(3))
  next
    fix a s0 assume "getValidatorStats a ch = Inr s0"
    then have "getValidatorStats a c = Inr s0" using getValidatorStats_cong before [of TYPE_VALIDATOR_STATS] by metis
    from st [OF this] show "getValidatorStats a ch' = Inr
      \<lparr>st_blocksForged = st_blocksForged s0 + (if a = bh_coinbase (bl_header b) then 1 else 0),
       st_turnsHit = st_turnsHit s0 + (if a = p \<and> primary = Hex_encode (bh_coinbase (bl_header b)) then 1 else 0),
       st_turnsMissed = st_turnsMissed s0 + (if a = p \<and> primary \<noteq> Hex_encode (bh_coinbase (bl_header b)) then 1 else 0)\<rparr>"
      using getValidatorStats_cong [OF after] by simp
  qed
qed

end
