(* ===== verification/Conservation.thy ===== *)
theory Conservation
  imports Chain
begin

text \<open>
  The coins of the ledger over whole blocks: the books of \<open>Executor\<close> are kept by tracking,
  committing and paying rewards, a list of transactions runs without an exception, and the block
  application of the migration changes the supply by the block reward and the burned coins.
\<close>

section \<open>Books and layered states\<close>

lemma books_view:
  assumes "books A as ds" and "account as' = account as" "deleg ds' = deleg ds" "ballot ds' = ballot ds"
    and "states_ok as' ds'"
  shows "books A as' ds'"
  using assms by (simp add: books_def delegates.tally_def)

lemma ds_view_facts:
  assumes "store_get (ds_delegates ds') = store_get (ds_delegates ds)" "store_get (ds_votes ds') = store_get (ds_votes ds)"
  shows "deleg ds' = deleg ds" "ballot ds' = ballot ds"
  using assms by (simp_all add: fun_eq_iff deleg_def getDelegateByAddress_eq ballot_def vote_at_def getVote_key_def)

lemma ds_wf_track: "ds_wf ds \<Longrightarrow> ds_wf (DelegateState_track ds)"
  by (simp add: ds_wf_def delegates_ok_def votes_ok_def DelegateState_track_def store_all_track
      layers.track_view layers.wf_overlay layers.track_overlay)

lemma ds_wf_commit: "ds_wf ds \<Longrightarrow> ds_wf (DelegateState_commit ds)"
  by (simp add: ds_wf_def delegates_ok_def votes_ok_def DelegateState_commit_def store_all_commit
      layers.commit_view layers.commit_wf)

lemma books_track: "books A as ds \<Longrightarrow> store_ok as \<Longrightarrow> books A (AccountState_track as) (DelegateState_track ds)"
proof (rule books_view)
  assume b: "books A as ds" and s: "store_ok as"
  then have wf: "accounts_ok as" "ds_wf ds" "store_ok (ds_delegates ds)" "store_ok (ds_votes ds)"
    by (auto simp: books_def states_ok_def ds_wf_def delegates_ok_def votes_ok_def)
  have v: "store_get (AccountState_track as) = store_get as"
    using s by (simp add: AccountState_track_def layers.track_view)
  show "account (AccountState_track as) = account as" using account_view [OF v] by blast
  have "store_get (ds_delegates (DelegateState_track ds)) = store_get (ds_delegates ds)"
    "store_get (ds_votes (DelegateState_track ds)) = store_get (ds_votes ds)"
    using wf by (simp_all add: DelegateState_track_def layers.track_view)
  from ds_view_facts [OF this] show "deleg (DelegateState_track ds) = deleg ds"
    "ballot (DelegateState_track ds) = ballot ds" by blast+
  show "states_ok (AccountState_track as) (DelegateState_track ds)"
    using account_view [OF v] wf ds_wf_track by (simp add: states_ok_def)
qed

lemma books_commit: "books A as ds \<Longrightarrow> store_ok as \<Longrightarrow> books A (AccountState_commit as) (DelegateState_commit ds)"
proof (rule books_view)
  assume b: "books A as ds" and s: "store_ok as"
  then have wf: "accounts_ok as" "ds_wf ds" "store_ok (ds_delegates ds)" "store_ok (ds_votes ds)"
    by (auto simp: books_def states_ok_def ds_wf_def delegates_ok_def votes_ok_def)
  have v: "store_get (AccountState_commit as) = store_get as"
    using s by (simp add: AccountState_commit_def layers.commit_view)
  show "account (AccountState_commit as) = account as" using account_view [OF v] by blast
  have "store_get (ds_delegates (DelegateState_commit ds)) = store_get (ds_delegates ds)"
    "store_get (ds_votes (DelegateState_commit ds)) = store_get (ds_votes ds)"
    using wf by (simp_all add: DelegateState_commit_def layers.commit_view)
  from ds_view_facts [OF this] show "deleg (DelegateState_commit ds) = deleg ds"
    "ballot (DelegateState_commit ds) = ballot ds" by blast+
  show "states_ok (AccountState_commit as) (DelegateState_commit ds)"
    using account_view [OF v] wf ds_wf_commit by (simp add: states_ok_def)
qed

text \<open>Coins given to an account keep the books.\<close>

lemma books_fund:
  assumes b: "books A as ds" and a: "a \<in> A" and x: "adjustAvailable a d as = Inr as'" and pos: "0 \<le> am d"
  shows "books A as' ds" "coin_supply A as' = coin_supply A as + am d" "store_ok as \<Longrightarrow> store_ok as'"
proof -
  have ok: "accounts_ok as" and fin: "finite A" using b by (simp_all add: books_def states_ok_def)
  note acct = accounts.avail_acct [OF ok x] and l = accounts.avail_in_long [OF ok x]
  have "accounts_ok as'" by (rule accounts.avail_wf [OF ok x])
  then show "books A as' ds"
    using b pos by (auto simp: books_def states_ok_def acct am_mk_amount [OF l])
  show "coin_supply A as' = coin_supply A as + am d"
    using accounts.avail_total [OF ok fin x] a
    by (simp add: accounts.total_def accounts.holdings_def coin_supply_def)
  show "store_ok as \<Longrightarrow> store_ok as'" by (rule account_ops_ok(1) [OF x])
qed

text \<open>The empty ledger.\<close>

lemma ds_new_wf: "ds_wf (DelegateState_new [] [])"
proof -
  have "store_all registry_map (store_new [])"
    by (simp add: store_all_def store_new_def registry_map_def db_get_def)
  moreover have "store_get (store_new []) = (\<lambda>_. None)" by (simp add: fun_eq_iff db_get_def)
  ultimately show ?thesis
    by (simp add: ds_wf_def delegates_ok_def votes_ok_def DelegateState_new_def store_new_ok)
qed

lemma books_new:
  assumes "finite A" "\<forall>a \<in> A. length a = ADDRESS_LENGTH"
  shows "books A (AccountState_new []) (DelegateState_new [] [])" "coin_supply A (AccountState_new []) = 0"
    "store_ok (AccountState_new [])"
proof -
  have d: "deleg (DelegateState_new [] []) c = None" and v: "am (ballot (DelegateState_new [] []) u c) = 0" for u c
    by (simp_all add: deleg_def getDelegateByAddress_eq DelegateState_new_def db_get_def ballot_def vote_at_def
        getVote_key_def decodeAmount_def store_get_new)
  show "books A (AccountState_new []) (DelegateState_new [] [])"
    using assms ds_new_wf accounts_ok_new
    by (simp add: books_def states_ok_def delegates.tally_def d v account_new_empty empty_account_def)
  show "coin_supply A (AccountState_new []) = 0"
    by (simp add: coin_supply_def account_new_empty empty_account_def)
  show "store_ok (AccountState_new [])" by (simp add: AccountState_new_def store_new_ok)
qed

section \<open>Lists of transactions\<close>

lemma spent_nonneg: "tx_in C A tx \<Longrightarrow> spent tx r \<ge> 0"
  by (auto simp: spent_def tx_in_def compare_am)

lemma execute_total:
  assumes C: "ripemd_ok C" and "books A as ds" "coin_supply A as < 2 ^ 62"
    and "\<forall>tx \<in> set txs. tx_in C A tx \<and> Transaction_getFrom C tx \<noteq> None \<and> (tx_type tx = UNVOTE \<longrightarrow> am (tx_value tx) > 0)"
  shows "is_ok (execute C cfg latest txs as ds)"
  using assms(2-)
proof (induction txs arbitrary: as ds)
  case (Cons tx txs)
  obtain "from" where f: "Transaction_getFrom C tx = Some from" and tin: "tx_in C A tx"
    and unv: "tx_type tx = UNVOTE \<longrightarrow> am (tx_value tx) > 0 \<or> deleg ds (tx_to tx) \<noteq> None"
    using Cons.prems(3) by auto
  obtain r as1 ds1 where one: "execute_one C cfg latest tx as ds = Inr (r, as1, ds1)"
    using execute_one_total [OF Cons.prems(1) tin f Cons.prems(2) unv C, of cfg latest] by (auto simp: is_ok_iff)
  from execute_one_books [OF C Cons.prems(1) tin one] spent_nonneg [OF tin, of r] Cons.prems(2)
  have "books A as1 ds1" "coin_supply A as1 < 2 ^ 62" by simp_all
  from Cons.IH [OF this] Cons.prems(3) have "is_ok (execute C cfg latest txs as1 ds1)" by simp
  then show ?case by (auto simp: one is_ok_iff)
qed simp

text \<open>The nonce of the sender moves with every transaction of his that succeeds, so it cannot run twice.\<close>

lemma execute_nonce:
  assumes C: "ripemd_ok C" and "states_ok as ds" "\<forall>tx \<in> set txs. length (tx_to tx) = ADDRESS_LENGTH"
    and "execute C cfg latest txs as ds = Inr (rs, as', ds')"
  shows "states_ok as' ds' \<and> (\<exists>k \<le> length txs. acc_nonce (account as' a) = acc_nonce (account as a) + of_nat k)"
  using assms(2-)
proof (induction txs arbitrary: as ds rs)
  case Nil
  then show ?case by simp
next
  case (Cons tx txs)
  obtain r as1 ds1 rs1 where one: "execute_one C cfg latest tx as ds = Inr (r, as1, ds1)"
    and rest: "execute C cfg latest txs as1 ds1 = Inr (rs1, as', ds')"
    using Cons.prems(3) by (auto simp: rbind_eq_Inr)
  have to: "length (tx_to tx) = ADDRESS_LENGTH" using Cons.prems(2) by simp
  note res = execute_one_result [OF C Cons.prems(1) to one]
  have step: "acc_nonce (account as1 a) = acc_nonce (account as a) + (if tr_success r \<and> a = sender C tx then 1 else 0)"
    using res(4,5) by (cases "tr_success r") (auto simp: round_effect_def)
  obtain k where "k \<le> length txs" "acc_nonce (account as' a) = acc_nonce (account as1 a) + of_nat k" "states_ok as' ds'"
    using Cons.IH [OF res(3) _ rest] Cons.prems(2) by auto
  with step show ?case
    by (intro conjI exI [of _ "k + (if tr_success r \<and> a = sender C tx then 1 else 0)"]) auto
qed

lemma execute_append:
  "execute C cfg latest (xs @ ys) as ds = rbind (execute C cfg latest xs as ds) (\<lambda>(rs, as, ds).
     rbind (execute C cfg latest ys as ds) (\<lambda>(rs', as, ds). Inr (rs @ rs', as, ds)))"
proof (induction xs arbitrary: as ds)
  case Nil
  then show ?case by (cases "execute C cfg latest ys as ds") auto
next
  case (Cons x xs)
  show ?case
    by (cases "execute_one C cfg latest x as ds")
      (auto simp: Cons.IH rbind_assoc split_def intro!: rbind_cong)
qed

section \<open>The frame of the executor\<close>

text \<open>The executor writes only the update maps of the objects it is given.\<close>

lemma register_prev: "DelegateState_register a n t ds = Inr (b, ds') \<Longrightarrow> DelegateState_prev ds' = DelegateState_prev ds"
  by (auto simp: DelegateState_register_def DelegateState_prev_def rbind_eq_Inr Let_def split: option.splits if_splits)

lemma vote_prev: "DelegateState_vote v d x ds = Inr (b, ds') \<Longrightarrow> DelegateState_prev ds' = DelegateState_prev ds"
  by (auto simp: DelegateState_vote_def DelegateState_prev_def rbind_eq_Inr Let_def split: option.splits)

lemma unvote_prev: "DelegateState_unvote v d x ds = Inr (b, ds') \<Longrightarrow> DelegateState_prev ds' = DelegateState_prev ds"
  by (auto simp: DelegateState_unvote_def DelegateState_prev_def rbind_eq_Inr Let_def split: if_splits)

lemma charge_prev: "charge from v f as = Inr as' \<Longrightarrow> store_prev as' = store_prev as"
  by (auto simp: charge_def rbind_eq_Inr dest: account_ops_prev)

lemma execute_one_prev:
  assumes "execute_one C cfg latest tx as ds = Inr (r, as', ds')"
  shows "store_prev as' = store_prev as \<and> DelegateState_prev ds' = DelegateState_prev ds"
proof -
  have type: "store_prev as' = store_prev as \<and> DelegateState_prev ds' = DelegateState_prev ds"
    if "execute_type cfg latest acc f tx as ds = Inr (r, as', ds')" for acc f r as' ds'
    using that
    by (cases "tx_type tx")
      (auto simp: execute_type_def execute_transfer_def execute_delegate_def execute_vote_def execute_unvote_def
        DelegateState_registerAtNext_def rbind_eq_Inr
        dest!: register_prev vote_prev unvote_prev charge_prev account_ops_prev split: if_splits)
  show ?thesis using assms
    by (auto simp: execute_one_def rbind_eq_Inr dest!: type account_ops_prev split: if_splits)
qed

lemma execute_prev:
  "execute C cfg latest txs as ds = Inr (rs, as', ds') \<Longrightarrow>
   store_prev as' = store_prev as \<and> DelegateState_prev ds' = DelegateState_prev ds"
proof (induction txs arbitrary: as ds rs)
  case (Cons tx txs)
  then show ?case by (auto simp: rbind_eq_Inr dest!: execute_one_prev)
qed simp

section \<open>The executor sees only the view\<close>

text \<open>Two pairs of states with the same entries visible, however they are spread over the levels.\<close>

definition same_view :: "AccountState \<Rightarrow> DelegateState \<Rightarrow> AccountState \<Rightarrow> DelegateState \<Rightarrow> bool" where
  "same_view as ds as' ds' \<longleftrightarrow> store_get as = store_get as' \<and>
     store_get (ds_delegates ds) = store_get (ds_delegates ds') \<and> store_get (ds_votes ds) = store_get (ds_votes ds')"

lemma account_ops_cong:
  assumes "store_get as = store_get as'"
  shows "getAccount a as = getAccount a as'"
    "rel_sum (=) (\<lambda>s t. store_get s = store_get t) (increaseNonce a as) (increaseNonce a as')"
    "rel_sum (=) (\<lambda>s t. store_get s = store_get t) (adjustAvailable a d as) (adjustAvailable a d as')"
    "rel_sum (=) (\<lambda>s t. store_get s = store_get t) (adjustLocked a d as) (adjustLocked a d as')"
  using assms
  by (auto simp: increaseNonce_def adjustAvailable_def adjustLocked_def getAccount_def rbind_def split: option.splits sum.splits)

lemma rel_rbind:
  "rel_sum (=) R m m' \<Longrightarrow> (\<And>x y. R x y \<Longrightarrow> rel_sum (=) S (f x) (f' y)) \<Longrightarrow> rel_sum (=) S (rbind m f) (rbind m' f')"
  by (cases m; cases m') auto

lemma rel_same: "(\<And>x. R x x) \<Longrightarrow> rel_sum (=) R m m"
  by (cases m) auto

abbreviation ds_same :: "DelegateState \<Rightarrow> DelegateState \<Rightarrow> bool" where
  "ds_same ds ds' \<equiv> store_get (ds_delegates ds) = store_get (ds_delegates ds') \<and>
     store_get (ds_votes ds) = store_get (ds_votes ds')"

lemma delegate_ops_cong:
  assumes "ds_same ds ds'"
  shows "rel_sum (=) (\<lambda>(b, s) (b', t). b = b' \<and> ds_same s t) (DelegateState_vote v d x ds) (DelegateState_vote v d x ds')"
    "rel_sum (=) (\<lambda>(b, s) (b', t). b = b' \<and> ds_same s t) (DelegateState_unvote v d x ds) (DelegateState_unvote v d x ds')"
  using assms
  by (auto simp: DelegateState_vote_def DelegateState_unvote_def getVote_key_def getDelegateByAddress_eq Let_def
      split: option.splits intro!: rel_rbind [where R = "(=)"] rel_same)

lemma register_cong:
  assumes "ds_same ds ds'" "ds_wf ds" "ds_wf ds'" "length a = ADDRESS_LENGTH" "length n \<noteq> ADDRESS_LENGTH"
  shows "rel_sum (=) (\<lambda>(b, s) (b', t). b = b' \<and> ds_same s t) (DelegateState_register a n x ds) (DelegateState_register a n x ds')"
proof -
  have "deleg ds = deleg ds'" using ds_view_facts [of ds ds'] assms(1) by blast
  then show ?thesis using assms by (simp add: register_eq)
qed

abbreviation exec_rel :: "exec_result \<Rightarrow> exec_result \<Rightarrow> bool" where
  "exec_rel \<equiv> rel_sum (=) (\<lambda>(r, as, ds) (r', as', ds'). r = r' \<and> same_view as ds as' ds')"

abbreviation acc_rel :: "AccountState res \<Rightarrow> AccountState res \<Rightarrow> bool" where
  "acc_rel \<equiv> rel_sum (=) (\<lambda>s t. store_get s = store_get t)"

abbreviation del_rel :: "(bool \<times> DelegateState) res \<Rightarrow> (bool \<times> DelegateState) res \<Rightarrow> bool" where
  "del_rel \<equiv> rel_sum (=) (\<lambda>(b, s) (b', t). b = b' \<and> ds_same s t)"

text \<open>Rules that descend through a computation on both sides at once.\<close>

lemma rel_if: "(b \<Longrightarrow> rel_sum Q R x x') \<Longrightarrow> (\<not> b \<Longrightarrow> rel_sum Q R y y') \<Longrightarrow>
    rel_sum Q R (if b then x else y) (if b then x' else y')"
  by simp

lemma rel_value: "(\<And>x. rel_sum (=) S (f x) (f' x)) \<Longrightarrow> rel_sum (=) S (rbind m f) (rbind m f')"
  by (cases m) auto

lemma rel_account:
  "acc_rel m m' \<Longrightarrow> (\<And>s t. store_get s = store_get t \<Longrightarrow> rel_sum (=) S (f s) (f' t)) \<Longrightarrow>
   rel_sum (=) S (rbind m f) (rbind m' f')"
  by (rule rel_rbind)

lemma rel_delegate:
  "del_rel m m' \<Longrightarrow> (\<And>b s t. ds_same s t \<Longrightarrow> rel_sum (=) S (f (b, s)) (f' (b, t))) \<Longrightarrow>
   rel_sum (=) S (rbind m f) (rbind m' f')"
  by (erule rel_rbind) auto

lemma charge_cong: "store_get as = store_get as' \<Longrightarrow> acc_rel (charge from v f as) (charge from v f as')"
  unfolding charge_def by (intro rel_value account_ops_cong)

lemmas cong_steps = rel_if rel_value rel_account [OF charge_cong] rel_account [OF account_ops_cong(3)]
  rel_account [OF account_ops_cong(4)] rel_account [OF account_ops_cong(2)]
  rel_delegate [OF delegate_ops_cong(1)] rel_delegate [OF delegate_ops_cong(2)]

lemma execute_type_cong:
  assumes v: "same_view as ds as' ds'" and wf: "ds_wf ds" "ds_wf ds'" and len: "length from = ADDRESS_LENGTH"
  shows "exec_rel (execute_type cfg latest acc from tx as ds) (execute_type cfg latest acc from tx as' ds')"
proof -
  have a: "store_get as = store_get as'" and d: "ds_same ds ds'" using v by (simp_all add: same_view_def)
  have "exec_rel (execute_transfer acc from tx as ds) (execute_transfer acc from tx as' ds')"
    unfolding execute_transfer_def by (intro cong_steps a) (use d a in \<open>simp_all add: same_view_def\<close>)
  moreover have "exec_rel (execute_vote acc from tx as ds) (execute_vote acc from tx as' ds')"
    unfolding execute_vote_def prod.case by (intro cong_steps a d) (use d a in \<open>auto simp: same_view_def intro!: cong_steps\<close>)
  moreover have "exec_rel (execute_unvote acc from tx as ds) (execute_unvote acc from tx as' ds')"
    unfolding execute_unvote_def by (intro cong_steps a d) (use d a in \<open>auto simp: same_view_def intro!: cong_steps\<close>)
  moreover have "exec_rel (execute_delegate cfg latest acc from tx as ds) (execute_delegate cfg latest acc from tx as' ds')"
  proof (cases "validateDelegateName (tx_data tx)")
    case True
    have reg: "del_rel
        (if EMPTY_ADDRESS = tx_to tx then DelegateState_registerAtNext latest from (tx_data tx) ds else Inr (False, ds))
        (if EMPTY_ADDRESS = tx_to tx then DelegateState_registerAtNext latest from (tx_data tx) ds' else Inr (False, ds'))"
      using register_cong [OF d wf len valid_name_bounds(1) [OF True]] d by (simp add: DelegateState_registerAtNext_def)
    show ?thesis
      unfolding execute_delegate_def
      by (intro rel_if rel_value rel_delegate [OF reg]) (use d a in \<open>auto simp: same_view_def intro!: cong_steps\<close>)
  qed (use d a in \<open>simp add: execute_delegate_def same_view_def\<close>)
  ultimately show ?thesis
    using d a by (cases "tx_type tx") (simp_all add: execute_type_def same_view_def)
qed

lemma rel_exec:
  "exec_rel m m' \<Longrightarrow> (\<And>r s d t e. same_view s d t e \<Longrightarrow> rel_sum (=) S (f (r, s, d)) (f' (r, t, e))) \<Longrightarrow>
   rel_sum (=) S (rbind m f) (rbind m' f')"
  by (erule rel_rbind) auto

lemma execute_one_cong:
  assumes v: "same_view as ds as' ds'" and wf: "ds_wf ds" "ds_wf ds'" and C: "ripemd_ok C"
  shows "exec_rel (execute_one C cfg latest tx as ds) (execute_one C cfg latest tx as' ds')"
proof (cases "Transaction_getFrom C tx")
  case (Some f)
  have a: "store_get as = store_get as'" using v by (simp add: same_view_def)
  note type = execute_type_cong [OF v wf sender_length [OF C Some]]
  have fin: "exec_rel (if tr_success r then rbind (increaseNonce f s) (\<lambda>as. Inr (r, as, d)) else Inr (r, s, d))
      (if tr_success r then rbind (increaseNonce f t) (\<lambda>as. Inr (r, as, e)) else Inr (r, t, e))"
    if "same_view s d t e" for r s d t e
    using that by (auto simp: same_view_def intro!: rel_account [OF account_ops_cong(2)])
  show ?thesis
    unfolding execute_one_def Some non_null_simps rbind_simps account_ops_cong(1) [OF a]
    by (intro rel_if rel_value rel_exec [OF type]) (use v fin in \<open>simp_all del: if_split\<close>)
qed (simp add: execute_one_def)

lemma execute_cong:
  assumes C: "ripemd_ok C" and "same_view as ds as' ds'" "states_ok as ds" "states_ok as' ds'"
    and "\<forall>tx \<in> set txs. length (tx_to tx) = ADDRESS_LENGTH" "execute C cfg latest txs as ds = Inr (rs, bs, es)"
  shows "\<exists>bs' es'. execute C cfg latest txs as' ds' = Inr (rs, bs', es') \<and> same_view bs es bs' es' \<and> states_ok bs' es'"
  using assms(2-)
proof (induction txs arbitrary: as ds as' ds' rs)
  case Nil
  then show ?case by simp
next
  case (Cons tx txs)
  obtain r as1 ds1 rs1 where one: "execute_one C cfg latest tx as ds = Inr (r, as1, ds1)"
    and rest: "execute C cfg latest txs as1 ds1 = Inr (rs1, bs, es)" and rs: "rs = r # rs1"
    using Cons.prems(5) by (auto simp: rbind_eq_Inr)
  have wf: "ds_wf ds" "ds_wf ds'" using Cons.prems(2,3) by (simp_all add: states_ok_def)
  obtain as1' ds1' where one': "execute_one C cfg latest tx as' ds' = Inr (r, as1', ds1')"
    and v1: "same_view as1 ds1 as1' ds1'"
    using execute_one_cong [OF Cons.prems(1) wf C, of cfg latest tx] one by (auto simp: rel_sum.simps)
  have to: "length (tx_to tx) = ADDRESS_LENGTH" using Cons.prems(4) by simp
  have ok: "states_ok as1 ds1" "states_ok as1' ds1'"
    using execute_one_result(3) [OF C Cons.prems(2) to one] execute_one_result(3) [OF C Cons.prems(3) to one'] by blast+
  from Cons.IH [OF v1 ok _ rest] Cons.prems(4) show ?case by (auto simp: one' rs)
qed

end
