(* ===== verification/Samples.thy ===== *)
theory Samples
  imports ForkActivation ValidatorSet Conservation
begin

text \<open>
  A small concrete instance: the cryptography of \<open>plain_crypto\<close>, a development network whose genesis
  block funds one account and registers one delegate, and a block that holds one transfer. The
  theorems of the chain and of the executor are applied to it.
\<close>

definition the_ok :: "'a res \<Rightarrow> 'a" where
  "the_ok m = (case m of Inr x \<Rightarrow> x)"

definition alice_key :: Key where "alice_key = \<lparr>key_private = 7 # replicate 31 1\<rparr>"
definition alice :: bytes where "alice = Key_toAddress plain_crypto alice_key"
definition bob :: bytes where "bob = replicate 20 2"
definition carol :: bytes where "carol = replicate 20 3"

definition sample_config :: Config where
  "sample_config = config_defaults (''en'', ''US'') ''.'' DEVNET 0"

definition sample_genesis_block :: Block where
  "sample_genesis_block = the_ok (
     rbind (BlockHeader_new plain_crypto 0 EMPTY_ADDRESS EMPTY_HASH 1 (replicate 32 5) (replicate 32 6) EMPTY_HASH [])
       (\<lambda>h. Block_new h [] [] 0 []))"

definition sample_env :: ChainEnv where
  "sample_env = \<lparr>env_crypto = plain_crypto, env_config = sample_config,
     env_genesis = \<lparr>gn_block = sample_genesis_block, gn_premines = [(alice, Amount (1000 * 10 ^ 9))],
       gn_delegates = [(''carol'', carol)]\<rparr>,
     env_evict = id\<rparr>"

definition sample_transfer :: Transaction where
  "sample_transfer = the_ok (
     rbind (Transaction_new plain_crypto (Some DEVNET) (Some TRANSFER) bob (Amount (3 * 10 ^ 9)) (Amount (5 * 10 ^ 6)) 0 9 [1])
       (Transaction_sign plain_crypto alice_key))"

definition sample_block :: Block where
  "sample_block = the_ok (
     rbind (BlockHeader_new plain_crypto 1 carol (bl_hash sample_genesis_block) 2 (replicate 32 5) (replicate 32 6) EMPTY_HASH [])
       (\<lambda>h. Block_new h [sample_transfer] [tx_succeeded] 0 []))"

definition sample_chain0 :: Chain where
  "sample_chain0 = the_ok (initializeDb sample_env empty_chain)"

definition sample_chain :: Chain where
  "sample_chain = the_ok (addBlock sample_env sample_block sample_chain0)"


lemma the_ok_eq: "is_ok m \<Longrightarrow> m = Inr (the_ok m)"
  by (cases m) (simp_all add: the_ok_def)

lemma alice_bytes: "alice = 7 # replicate 19 1"
  by code_simp

lemma sample_init: "initializeDb sample_env empty_chain = Inr sample_chain0"
proof -
  have "is_ok (initializeDb sample_env empty_chain)" by code_simp
  from the_ok_eq [OF this] show ?thesis by (simp add: sample_chain0_def)
qed

lemma sample_add: "addBlock sample_env sample_block sample_chain0 = Inr sample_chain"
proof -
  have "is_ok (addBlock sample_env sample_block sample_chain0)" by code_simp
  from the_ok_eq [OF this] show ?thesis by (simp add: sample_chain_def)
qed

text \<open>The blocks are well formed.\<close>

definition short_bytes :: "bytes \<Rightarrow> bool" where
  "short_bytes bs \<longleftrightarrow> length bs \<le> 300"

lemma short_ok: "short_bytes bs \<Longrightarrow> bytes_ok bs" "short_bytes bs \<Longrightarrow> length bs < 2 ^ 31"
  by (simp_all add: short_bytes_def bytes_ok_def)

definition short_header :: "BlockHeader \<Rightarrow> bool" where
  "short_header h \<longleftrightarrow> short_bytes (bh_hash h) \<and> short_bytes (bh_encoded h) \<and> short_bytes (bh_coinbase h) \<and>
     short_bytes (bh_parentHash h) \<and> short_bytes (bh_transactionsRoot h) \<and> short_bytes (bh_resultsRoot h) \<and>
     short_bytes (bh_stateRoot h) \<and> short_bytes (bh_data h) \<and> bh_encoded h = header_image h"

lemma short_header_wf:
  assumes "short_header h"
  shows "header_wf h"
proof -
  have "bytes_ok (bh_encoded h)" "length (bh_encoded h) < 2 ^ 31"
    using assms unfolding short_header_def by (blast intro: short_ok)+
  with assms show ?thesis by (simp add: short_header_def header_wf_def short_ok)
qed

definition sample_block_ok :: "Block \<Rightarrow> bool" where
  "sample_block_ok b \<longleftrightarrow>
     Block_new (bl_header b) (bl_transactions b) (bl_results b) (bl_view b) (bl_votes b) = Inr b \<and>
     short_header (bl_header b) \<and> list_all (\<lambda>r. tr_logs r = []) (bl_results b) \<and> length (bl_transactions b) \<le> 1 \<and>
     length (bl_results b) = length (bl_transactions b) \<and> bl_votes b = [] \<and>
     short_bytes (bl_encodedTransactions b) \<and> short_bytes (bl_encodedResults b) \<and> bh_data (bl_header b) = []"

lemma sample_block_wf:
  assumes "sample_block_ok b" "list_all (signed_wf plain_crypto) (bl_transactions b)"
  shows "block_wf plain_crypto b" "data_ok b"
  using assms short_ok(2) [of "bl_encodedTransactions b"] short_ok(2) [of "bl_encodedResults b"]
  by (auto simp: sample_block_ok_def block_wf_def data_ok_def short_header_wf list_all_iff votes_wf_def
      intro: short_ok order_le_less_trans)

lemma sample_transfer_wf: "signed_wf plain_crypto sample_transfer"
proof -
  have "tx_networkId sample_transfer = Network_id DEVNET" "short_bytes (tx_to sample_transfer)"
    "short_bytes (tx_data sample_transfer)" "short_bytes (tx_encoded sample_transfer)" "short_bytes (tx_hash sample_transfer)"
    "tx_encoded sample_transfer = tx_image (tx_networkId sample_transfer) (tx_type sample_transfer) (tx_to sample_transfer)
       (tx_value sample_transfer) (tx_fee sample_transfer) (tx_nonce sample_transfer) (tx_timestamp sample_transfer)
       (tx_data sample_transfer)"
    by code_simp+
  moreover have "case tx_signature sample_transfer of None \<Rightarrow> False | Some sg \<Rightarrow> Signature_wf sg" by code_simp
  ultimately show ?thesis unfolding signed_wf_def tx_wf_def
    by (auto simp: short_ok intro: exI [of _ DEVNET] split: option.splits)
qed

lemma sample_blocks_wf:
  "block_wf plain_crypto sample_genesis_block" "data_ok sample_genesis_block"
  "block_wf plain_crypto sample_block" "data_ok sample_block"
proof -
  have g: "sample_block_ok sample_genesis_block" "bl_transactions sample_genesis_block = []" by code_simp+
  have b: "sample_block_ok sample_block" "bl_transactions sample_block = [sample_transfer]" by code_simp+
  show "block_wf plain_crypto sample_genesis_block" "data_ok sample_genesis_block"
    using sample_block_wf [OF g(1)] g(2) by simp_all
  show "block_wf plain_crypto sample_block" "data_ok sample_block"
    using sample_block_wf [OF b(1)] b(2) sample_transfer_wf by simp_all
qed

lemma sample_numbers: "genesis_number sample_env = 0" "bl_number sample_block = 1" "env_crypto sample_env = plain_crypto"
proof -
  show "genesis_number sample_env = 0" by code_simp
  show "bl_number sample_block = 1" by code_simp
qed (simp add: sample_env_def)

lemma sample_genesis_wf: "genesis_wf sample_env"
  using sample_blocks_wf(1,2) sample_numbers by (simp add: genesis_wf_def evict_ok_def sample_env_def)

lemma sample_reach0:
  "chain_init sample_env sample_chain0" "blocks_of plain_crypto sample_chain0 [sample_genesis_block]"
  "ch_memory sample_chain0 = []"
proof -
  show i: "chain_init sample_env sample_chain0" by (simp add: chain_init_def sample_init)
  show "blocks_of plain_crypto sample_chain0 [sample_genesis_block]" "ch_memory sample_chain0 = []"
    using chain_init_blocks [OF sample_genesis_wf i] by (simp_all add: sample_env_def)
qed

lemma sample_step: "chain_step sample_env sample_chain0 sample_chain"
  using sample_blocks_wf(3,4) sample_numbers sample_add by (auto intro!: step_block)

text \<open>What the block holds.\<close>

lemma sample_block_parts:
  "bl_transactions sample_block = [sample_transfer]" "bl_results sample_block = [tx_succeeded]"
  "bh_coinbase (bl_header sample_block) = carol" "tx_to sample_transfer = bob"
  "length bob = 20" "length carol = 20" "tx_fee sample_transfer = Amount (5 * 10 ^ 6)"
proof -
  show "tx_fee sample_transfer = Amount (5 * 10 ^ 6)" by code_simp
qed code_simp+

text \<open>The genesis block is added to a chain whose registry holds the genesis delegates.\<close>

lemma sample_before_genesis:
  "\<exists>ch. addBlock sample_env sample_genesis_block ch = Inr sample_chain0 \<and> delegates_ok (ch_delegates ch)"
proof -
  obtain c0 as ds b where reg: "DelegateState_register carol (string_bytes ''carol'') 0 (ch_delegates c0) = Inr (b, ds)"
    and c0: "setActivatedForks [] (index_put (bytes_of_byte TYPE_DATABASE_VERSION) (bytes_of_int DATABASE_VERSION) empty_chain) = Inr c0"
    and add: "addBlock sample_env sample_genesis_block
      (c0\<lparr>ch_accounts := AccountState_commit as, ch_delegates := DelegateState_commit ds\<rparr>) = Inr sample_chain0"
    using sample_init by (auto simp: initializeDb_def rbind_eq_Inr sample_env_def rmap_eq_Inr)
  have "ch_delegates c0 = DelegateState_new [] []"
    using touches_fields [OF touches_setActivatedForks [OF c0]] by (simp add: empty_chain_def chain_on_def)
  then have wf: "ds_wf (ch_delegates c0)" by (simp add: ds_new_wf)
  have len: "length carol = ADDRESS_LENGTH" "length (string_bytes ''carol'') \<noteq> ADDRESS_LENGTH" by code_simp+
  have "ds_wf ds" using delegates.reg_result [OF wf len reg] by blast
  from ds_wf_commit [OF this] have "delegates_ok (DelegateState_commit ds)" by (simp add: ds_wf_def)
  with add show ?thesis
    by (intro exI [of _ "c0\<lparr>ch_accounts := AccountState_commit as, ch_delegates := DelegateState_commit ds\<rparr>"]) simp
qed

end
