(* ===== verification/SampleLedger.thy ===== *)
theory SampleLedger
  imports Samples
begin

text \<open>
  A sample session of the executor: alice, who owns 5000 SEM, registers as a delegate, sends coins to
  bob, votes for herself and takes part of the votes back. The theorems on the executor are applied to it.
\<close>

definition sample_tx :: "TransactionType \<Rightarrow> bytes \<Rightarrow> nat \<Rightarrow> jlong \<Rightarrow> bytes \<Rightarrow> Transaction" where
  "sample_tx ty to sem nonce data = the_ok (
     rbind (Transaction_new plain_crypto (Some DEVNET) (Some ty) to (Amount (of_nat sem * 10 ^ 9))
         (Amount (5 * 10 ^ 6)) nonce 9 data)
       (Transaction_sign plain_crypto alice_key))"

definition sample_register :: Transaction where
  "sample_register = sample_tx DELEGATE EMPTY_ADDRESS 1000 0 (string_bytes ''alice'')"
definition sample_send :: Transaction where "sample_send = sample_tx TRANSFER bob 30 1 [1]"
definition sample_vote :: Transaction where "sample_vote = sample_tx VOTE alice 20 2 []"
definition sample_unvote :: Transaction where "sample_unvote = sample_tx UNVOTE alice 8 3 []"

definition sample_session :: "Transaction list" where
  "sample_session = [sample_register, sample_send, sample_vote, sample_unvote, sample_send]"

definition sample_accounts :: AccountState where
  "sample_accounts = the_ok (adjustAvailable alice (Amount (5000 * 10 ^ 9)) (AccountState_new []))"

definition sample_registry :: DelegateState where
  "sample_registry = DelegateState_new [] []"

definition sample_people :: "bytes set" where
  "sample_people = {alice, bob}"

lemma sample_books:
  "books sample_people sample_accounts sample_registry" "store_ok sample_accounts"
  "coin_supply sample_people sample_accounts = 5000 * 10 ^ 9"
proof -
  have ok: "is_ok (adjustAvailable alice (Amount (5000 * 10 ^ 9)) (AccountState_new []))"
    and am: "am (Amount (5000 * 10 ^ 9)) = 5000 * 10 ^ 9" and b: "length bob = ADDRESS_LENGTH"
    by code_simp+
  have as: "adjustAvailable alice (Amount (5000 * 10 ^ 9)) (AccountState_new []) = Inr sample_accounts"
    using the_ok_eq [OF ok] by (simp add: sample_accounts_def)
  have A: "finite sample_people" "\<forall>a \<in> sample_people. length a = ADDRESS_LENGTH"
    using b by (simp_all add: sample_people_def alice_bytes ADDRESS_LENGTH_def)
  have pos: "0 \<le> am (Amount (5000 * 10 ^ 9))" unfolding am by simp
  note f = books_fund [OF books_new(1) [OF A] _ as pos]
  have a: "alice \<in> sample_people" by (simp add: sample_people_def)
  show "books sample_people sample_accounts sample_registry"
    using f(1) [OF a] by (simp add: sample_registry_def)
  show "store_ok sample_accounts" using f(3) [OF a] books_new(3) [OF A] by blast
  show "coin_supply sample_people sample_accounts = 5000 * 10 ^ 9"
    using f(2) [OF a] books_new(2) [OF A] unfolding am by simp
qed

definition sample_facts :: "Transaction \<Rightarrow> bool" where
  "sample_facts tx \<longleftrightarrow> Transaction_getFrom plain_crypto tx = Some alice \<and> gte0 (tx_value tx) \<and> gte0 (tx_fee tx) \<and>
     length (tx_to tx) = ADDRESS_LENGTH \<and> (tx_type tx = DELEGATE \<or> tx_to tx = alice \<or> tx_to tx = bob) \<and>
     (tx_type tx = UNVOTE \<longrightarrow> am (tx_value tx) > 0)"

lemma sample_session_in:
  "\<forall>tx \<in> set sample_session. tx_in plain_crypto sample_people tx \<and> Transaction_getFrom plain_crypto tx \<noteq> None \<and>
     length (tx_to tx) = ADDRESS_LENGTH \<and> (tx_type tx = UNVOTE \<longrightarrow> am (tx_value tx) > 0)"
proof -
  have "list_all sample_facts sample_session" by code_simp
  then show ?thesis by (auto simp: list_all_iff sample_facts_def tx_in_def sample_people_def)
qed

lemma sample_session_runs:
  assumes "set txs \<subseteq> set sample_session"
  shows "\<exists>rs as' ds'. execute plain_crypto sample_config 0 txs sample_accounts sample_registry = Inr (rs, as', ds')"
proof -
  have "is_ok (execute plain_crypto sample_config 0 txs sample_accounts sample_registry)"
    using assms sample_session_in by (intro execute_total [OF plain_crypto_ok(2) sample_books(1)])
      (auto simp: sample_books(3))
  then show ?thesis by (cases "execute plain_crypto sample_config 0 txs sample_accounts sample_registry") auto
qed

text \<open>The registration is due and paid for, so it succeeds.\<close>

lemma sample_register_succeeds:
  "\<exists>as' ds'. execute_one plain_crypto sample_config 0 sample_register sample_accounts sample_registry =
     Inr (tx_succeeded, as', ds')"
proof -
  have "(case execute_one plain_crypto sample_config 0 sample_register sample_accounts sample_registry of
      Inl _ \<Rightarrow> False | Inr (r, _) \<Rightarrow> r = tx_succeeded)"
    by code_simp
  then show ?thesis by (auto split: sum.splits)
qed

lemma sample_states: "states_ok sample_accounts sample_registry"
  using sample_books(1) by (simp add: books_def)

text \<open>An unvote of nothing for someone who is no delegate.\<close>

definition sample_void :: Transaction where "sample_void = sample_tx UNVOTE bob 0 0 []"

lemma sample_void_facts:
  "Transaction_getFrom plain_crypto sample_void = Some alice" "tx_type sample_void = UNVOTE" "tx_to sample_void = bob"
  "am (tx_value sample_void) = 0" "am (tx_fee sample_void) = 5 * 10 ^ 6" "tx_nonce sample_void = 0"
  "tx_data sample_void = []" "Transaction_validate plain_crypto DEVNET sample_void"
  "am (cf_minTransactionFee sample_config) = 5 * 10 ^ 6"
  by code_simp+

lemma sample_alice: "acc_nonce (account sample_accounts alice) = 0"
  "am (acc_available (account sample_accounts alice)) = 5000 * 10 ^ 9" "am (acc_locked (account sample_accounts alice)) = 0"
  by code_simp+

lemma sample_registry_empty: "deleg sample_registry c = None" "am (ballot sample_registry v c) = 0"
  by (simp_all add: sample_registry_def deleg_def getDelegateByAddress_eq DelegateState_new_def db_get_def ballot_def
      vote_at_def getVote_key_def decodeAmount_def store_get_new)

end
