(* ===== verification/ExecutorSpec.thy ===== *)
theory ExecutorSpec
  imports Conservation
begin

text \<open>
  A specification of the executor that does not compute the new states: \<open>verdict\<close> names the error a
  transaction is answered with, from the sender's account and the registry alone. On balanced books the
  executor returns and answers exactly that. Then the consequences for a list of transactions: a
  transaction succeeds at most once, and running on tracked copies and committing is running directly.
\<close>

section \<open>The verdict\<close>

definition verdict :: "Config \<Rightarrow> Transaction \<Rightarrow> bytes \<Rightarrow> AccountState \<Rightarrow> DelegateState \<Rightarrow> TxError option" where
  "verdict cfg tx from as ds =
     (let acc = account as from; value = am (tx_value tx); fee = am (tx_fee tx);
          paid = value + fee \<le> am (acc_available acc)
      in if tx_nonce tx \<noteq> acc_nonce acc then Some INVALID_NONCE
         else if fee < am (cf_minTransactionFee cfg) then Some INVALID_FEE
         else if int (length (tx_data tx)) > sint (maxTransactionDataSize (tx_type tx)) then Some INVALID_DATA_LENGTH
         else case tx_type tx of
           TRANSFER \<Rightarrow> if paid then None else Some INSUFFICIENT_AVAILABLE
         | VOTE \<Rightarrow>
             if \<not> paid then Some INSUFFICIENT_AVAILABLE
             else if deleg ds (tx_to tx) = None then Some FAILED else None
         | UNVOTE \<Rightarrow>
             if am (acc_available acc) < fee then Some INSUFFICIENT_AVAILABLE
             else if am (acc_locked acc) < value then Some INSUFFICIENT_LOCKED
             else if am (ballot ds from (tx_to tx)) < value then Some FAILED else None
         | DELEGATE \<Rightarrow>
             if \<not> validateDelegateName (tx_data tx) then Some INVALID_DELEGATE_NAME
             else if value < am (cf_minDelegateBurnAmount cfg) then Some INVALID_DELEGATE_BURN_AMOUNT
             else if \<not> paid then Some INSUFFICIENT_AVAILABLE
             else if tx_to tx \<noteq> EMPTY_ADDRESS \<or> deleg ds from \<noteq> None \<or> \<not> name_free (deleg ds) (tx_data tx)
             then Some FAILED else None
         | _ \<Rightarrow> Some INVALID_TYPE)"

definition answers :: "TransactionResult \<Rightarrow> TxError option \<Rightarrow> bool" where
  "answers r e \<longleftrightarrow> r = (case e of None \<Rightarrow> tx_succeeded | Some e \<Rightarrow> tx_failed e)"

lemma answers_simps [simp]: "answers tx_succeeded None" "answers (tx_failed e) (Some e)"
  by (simp_all add: answers_def)

lemma affordable_runnable:
  assumes "runnable C A as ds tx from"
  shows "affordable (tx_fee tx) (tx_value tx) (acc_available (account as from)) =
    Inr (am (tx_value tx) + am (tx_fee tx) \<le> am (acc_available (account as from)))"
  using runnable_facts(8,9,17) [OF assms] by auto

lemma type_verdict:
  assumes r: "runnable C A as ds tx from" and x: "execute_type cfg latest (account as from) from tx as ds = Inr (res, as', ds')"
    and checks: "tx_nonce tx = acc_nonce (account as from)" "am (tx_fee tx) \<ge> am (cf_minTransactionFee cfg)"
    "int (length (tx_data tx)) \<le> sint (maxTransactionDataSize (tx_type tx))"
  shows "answers res (verdict cfg tx from as ds)"
proof -
  note rf = runnable_facts [OF r]
  note aff = affordable_runnable [OF r]
  show ?thesis
  proof (cases "tx_type tx")
    case TRANSFER
    with x checks show ?thesis
      by (auto simp: execute_type_def execute_transfer_def verdict_def aff rbind_eq_Inr Let_def split: if_splits)
  next
    case VOTE
    with x checks show ?thesis
      by (auto simp: execute_type_def execute_vote_def verdict_def aff rbind_eq_Inr Let_def split: if_splits
          dest: delegates.vote_result [OF rf(4,10)])
  next
    case UNVOTE
    with x checks show ?thesis
      by (auto simp: execute_type_def execute_unvote_def verdict_def compare_am rbind_eq_Inr Let_def split: if_splits
          dest: delegates.unvote_result [OF rf(4,10)])
  next
    case DELEGATE
    show ?thesis
    proof (cases "validateDelegateName (tx_data tx)")
      case True
      then show ?thesis
        using DELEGATE x checks
        by (auto simp: execute_type_def execute_delegate_def verdict_def aff compare_am rbind_eq_Inr Let_def
            DelegateState_registerAtNext_def split: if_splits
            dest: delegates.reg_result [OF rf(4,7) valid_name_bounds(1) [OF True]])
    qed (use DELEGATE x checks in \<open>auto simp: execute_type_def execute_delegate_def verdict_def\<close>)
  qed (use x checks in \<open>auto simp: execute_type_def verdict_def\<close>)
qed

lemma one_verdict:
  assumes b: "books A as ds" and tx: "tx_in C A tx" and f: "Transaction_getFrom C tx = Some from"
    and small: "coin_supply A as < 2 ^ 62" and x: "execute_one C cfg latest tx as ds = Inr (r, as', ds')"
  shows "answers r (verdict cfg tx from as ds)"
proof -
  have aok: "accounts_ok as" using b by (simp add: books_def states_ok_def)
  have run: "runnable C A as ds tx from" using b tx f small by (simp add: runnable_def tx_in_def)
  have sel: "verdict cfg tx from as ds =
      (if tx_nonce tx \<noteq> acc_nonce (account as from) then Some INVALID_NONCE
       else if am (tx_fee tx) < am (cf_minTransactionFee cfg) then Some INVALID_FEE
       else if int (length (tx_data tx)) > sint (maxTransactionDataSize (tx_type tx)) then Some INVALID_DATA_LENGTH
       else verdict cfg tx from as ds)"
    by (simp add: verdict_def)
  consider (checks) "tx_nonce tx = acc_nonce (account as from)" "am (tx_fee tx) \<ge> am (cf_minTransactionFee cfg)"
      "int (length (tx_data tx)) \<le> sint (maxTransactionDataSize (tx_type tx))"
    | (rejected) "tx_nonce tx \<noteq> acc_nonce (account as from) \<or> am (tx_fee tx) < am (cf_minTransactionFee cfg) \<or>
        int (length (tx_data tx)) > sint (maxTransactionDataSize (tx_type tx))"
    by linarith
  then show ?thesis
  proof cases
    case checks
    then obtain a d where "execute_type cfg latest (account as from) from tx as ds = Inr (r, a, d)"
      using x aok by (auto simp: execute_one_def f rbind_eq_Inr getAccount_ok compare_am split: if_splits)
    from type_verdict [OF run this checks] show ?thesis .
  next
    case rejected
    then show ?thesis
      using x aok by (subst sel) (auto simp: execute_one_def f getAccount_ok compare_am split: if_splits)
  qed
qed

text \<open>The one valid transaction that the executor does not answer.\<close>

definition void_unvote :: "Config \<Rightarrow> Transaction \<Rightarrow> bytes \<Rightarrow> AccountState \<Rightarrow> DelegateState \<Rightarrow> bool" where
  "void_unvote cfg tx from as ds \<longleftrightarrow> tx_type tx = UNVOTE \<and> am (tx_value tx) = 0 \<and>
     tx_nonce tx = acc_nonce (account as from) \<and> am (cf_minTransactionFee cfg) \<le> am (tx_fee tx) \<and>
     int (length (tx_data tx)) \<le> sint (maxTransactionDataSize UNVOTE) \<and>
     am (tx_fee tx) \<le> am (acc_available (account as from)) \<and> 0 \<le> am (acc_locked (account as from)) \<and>
     length (tx_to tx) = ADDRESS_LENGTH \<and> deleg ds (tx_to tx) = None \<and> am (ballot ds from (tx_to tx)) = 0"

lemma void_unvote_one:
  assumes ok: "states_ok as ds" and f: "Transaction_getFrom C tx = Some from" and v: "void_unvote cfg tx from as ds"
  shows "execute_one C cfg latest tx as ds = Inl NullPointer"
proof -
  have aok: "accounts_ok as" and dok: "ds_wf ds" using ok by (simp_all add: states_ok_def)
  have to: "length (tx_to tx) = ADDRESS_LENGTH" using v by (simp add: void_unvote_def)
  have "DelegateState_unvote from (tx_to tx) (tx_value tx) ds = Inl NullPointer"
    using v by (simp add: void_unvote_def delegates.unvote_Inl [OF dok to] in_long_def)
  then show ?thesis
    using f v by (simp add: void_unvote_def execute_one_def getAccount_ok [OF aok] compare_am execute_type_def execute_unvote_def)
qed

section \<open>A transaction succeeds at most once\<close>

lemma execute_split:
  assumes "execute C cfg latest (xs @ ys) as ds = Inr (rs, as', ds')"
  obtains r1 r2 a d where "execute C cfg latest xs as ds = Inr (r1, a, d)"
    "execute C cfg latest ys a d = Inr (r2, as', ds')" "rs = r1 @ r2"
  using assms by (auto simp: execute_append rbind_eq_Inr)

lemma execute_length: "execute C cfg latest txs as ds = Inr (rs, as', ds') \<Longrightarrow> length rs = length txs"
  by (induction txs arbitrary: as ds rs) (auto simp: rbind_eq_Inr)

lemma execute_Cons_split:
  assumes "execute C cfg latest (tx # txs) as ds = Inr (rs, as', ds')"
  obtains r rest a d where "execute_one C cfg latest tx as ds = Inr (r, a, d)"
    "execute C cfg latest txs a d = Inr (rest, as', ds')" "rs = r # rest"
  using assms by (auto simp: rbind_eq_Inr)

lemma nonce_moved:
  assumes "ripemd_ok C" "states_ok as ds" "length (tx_to tx) = ADDRESS_LENGTH"
    and "execute_one C cfg latest tx as ds = Inr (r, as', ds')" "tr_success r"
  shows "tx_nonce tx = acc_nonce (account as (sender C tx))" "acc_nonce (account as' (sender C tx)) = tx_nonce tx + 1"
  using execute_one_result(5) [OF assms(1-5)] by (auto simp: round_effect_def)

lemma used_nonce:
  assumes C: "ripemd_ok C" and ok: "states_ok as ds" and tos: "\<forall>tx \<in> set (t1 # mid @ t2 # rest). length (tx_to tx) = ADDRESS_LENGTH"
    and x: "execute C cfg latest (t1 # mid @ t2 # rest) as ds = Inr (r1 # rm @ r2 # rr, as', ds')"
    and rm: "length rm = length mid" and s1: "tr_success r1" and long: "length mid < 2 ^ 63"
    and same: "sender C t2 = sender C t1" "tx_nonce t2 = tx_nonce t1"
  shows "\<not> tr_success r2"
proof
  assume s2: "tr_success r2"
  obtain a1 d1 where one: "execute_one C cfg latest t1 as ds = Inr (r1, a1, d1)"
    and x1: "execute C cfg latest (mid @ t2 # rest) a1 d1 = Inr (rm @ r2 # rr, as', ds')"
    by (rule execute_Cons_split [OF x]) simp
  obtain ra rb a2 d2 where m: "execute C cfg latest mid a1 d1 = Inr (ra, a2, d2)"
    and x2: "execute C cfg latest (t2 # rest) a2 d2 = Inr (rb, as', ds')" and r: "rm @ r2 # rr = ra @ rb"
    by (rule execute_split [OF x1])
  have "rb = r2 # rr" using r execute_length [OF m] rm by simp
  then obtain a3 d3 where two: "execute_one C cfg latest t2 a2 d2 = Inr (r2, a3, d3)"
    using x2 by (blast elim: execute_Cons_split)
  have to1: "length (tx_to t1) = ADDRESS_LENGTH" and to2: "length (tx_to t2) = ADDRESS_LENGTH"
    and tom: "\<forall>tx \<in> set mid. length (tx_to tx) = ADDRESS_LENGTH" using tos by auto
  note ok1 = execute_one_result(3) [OF C ok to1 one]
  note n1 = nonce_moved [OF C ok to1 one s1]
  obtain k where ok2: "states_ok a2 d2" and k: "k \<le> length mid"
    "acc_nonce (account a2 (sender C t1)) = acc_nonce (account a1 (sender C t1)) + of_nat k"
    using execute_nonce [OF C ok1 tom m, of "sender C t1"] by blast
  have "tx_nonce t2 = tx_nonce t1 + 1 + of_nat k"
    using nonce_moved(1) [OF C ok2 to2 two s2] k(2) n1(2) same(1) by simp
  with same(2) have "(of_nat (Suc k) :: jlong) = 0" by (simp add: algebra_simps)
  then have "2 ^ 64 dvd Suc k" by (simp add: word_of_nat_eq_0_iff del: of_nat_Suc)
  then have "2 ^ 64 \<le> Suc k" by (rule dvd_imp_le) simp
  then show False using k(1) long by simp
qed

text \<open>A list around two of its positions.\<close>

lemma split_two:
  assumes "i < j" "j < length xs"
  shows "take i xs @ xs ! i # take (j - Suc i) (drop (Suc i) xs) @ xs ! j # drop (Suc j) xs = xs"
proof -
  have "drop (Suc i) xs = take (j - Suc i) (drop (Suc i) xs) @ drop (j - Suc i) (drop (Suc i) xs)"
    by (rule append_take_drop_id [symmetric])
  moreover have "drop (j - Suc i) (drop (Suc i) xs) = xs ! j # drop (Suc j) xs"
    using assms by (simp add: Cons_nth_drop_Suc)
  ultimately show ?thesis using assms id_take_nth_drop [of i xs] by simp
qed

section \<open>Tracked copies\<close>

lemma same_view_track:
  assumes "states_ok as ds" "store_ok as"
  shows "same_view (AccountState_track as) (DelegateState_track ds) as ds"
    "states_ok (AccountState_track as) (DelegateState_track ds)"
    "store_overlay (AccountState_track as)" "ds_overlay (DelegateState_track ds)"
proof -
  have d: "store_ok (ds_delegates ds)" "store_ok (ds_votes ds)" "ds_wf ds"
    using assms(1) by (auto simp: states_ok_def ds_wf_def delegates_ok_def votes_ok_def)
  show v: "same_view (AccountState_track as) (DelegateState_track ds) as ds"
    using d assms(2) by (simp add: same_view_def AccountState_track_def DelegateState_track_def layers.track_view)
  show "store_overlay (AccountState_track as)" "ds_overlay (DelegateState_track ds)"
    using d assms(2) by (simp_all add: AccountState_track_def ds_overlay_def DelegateState_track_def layers.track_overlay)
  show "states_ok (AccountState_track as) (DelegateState_track ds)"
    using assms(1) d(3) ds_wf_track account_view [of "AccountState_track as" as] v
    by (simp add: states_ok_def same_view_def)
qed

lemma delegate_ops_overlay:
  "DelegateState_register a n t ds = Inr (b, ds') \<Longrightarrow> ds_overlay ds \<Longrightarrow> ds_overlay ds'"
  "DelegateState_vote v d x ds = Inr (b, ds') \<Longrightarrow> ds_overlay ds \<Longrightarrow> ds_overlay ds'"
  "DelegateState_unvote v d x ds = Inr (b, ds') \<Longrightarrow> ds_overlay ds \<Longrightarrow> ds_overlay ds'"
  by (auto simp: DelegateState_register_def DelegateState_vote_def DelegateState_unvote_def ds_overlay_def rbind_eq_Inr
      Let_def store_put_overlay split: option.splits if_splits)

lemma charge_overlay: "charge from v f as = Inr as' \<Longrightarrow> store_overlay as \<Longrightarrow> store_overlay as'"
  by (auto simp: charge_def rbind_eq_Inr dest: account_ops_overlay)

lemma execute_one_overlay:
  assumes "execute_one C cfg latest tx as ds = Inr (r, as', ds')" "store_overlay as" "ds_overlay ds"
  shows "store_overlay as' \<and> ds_overlay ds'"
proof -
  have type: "store_overlay a \<and> ds_overlay d"
    if "execute_type cfg latest acc f tx as ds = Inr (r, a, d)" for acc f r a d
    using that assms(2,3)
    by (cases "tx_type tx")
      (auto simp: execute_type_def execute_transfer_def execute_delegate_def execute_vote_def execute_unvote_def
        DelegateState_registerAtNext_def rbind_eq_Inr split: if_splits
        dest!: charge_overlay account_ops_overlay delegate_ops_overlay)
  show ?thesis
    using assms by (auto simp: execute_one_def rbind_eq_Inr dest!: type account_ops_overlay(3) split: if_splits)
qed

lemma execute_overlay:
  "execute C cfg latest txs as ds = Inr (rs, as', ds') \<Longrightarrow> store_overlay as \<Longrightarrow> ds_overlay ds \<Longrightarrow>
   store_overlay as' \<and> ds_overlay ds'"
proof (induction txs arbitrary: as ds rs)
  case (Cons tx txs)
  then show ?case by (auto simp: rbind_eq_Inr dest: execute_one_overlay)
qed simp

end
