(* ===== verification/LedgerProps.thy ===== *)
theory LedgerProps
  imports SampleLedger ExecutorSpec
begin

text \<open>
  Properties of the execution of transactions: what a transaction does to the accounts and to the
  delegates, what a list of transactions keeps, and how a tracked copy relates to the state it was
  taken from. Each is followed by its application to the sample session.
\<close>

section \<open>The coins\<close>

text \<open>
  C2. Execution neither creates nor loses coins: whatever the results, the coins of all accounts
  before are the coins after, plus the fees and the burnt delegate deposits of the transactions that
  succeeded. No balance becomes negative, an account's locked coins stay the sum of the ballots it
  has cast, and a delegate's votes stay the sum of the ballots it has received.
\<close>

theorem execution_conserves_coins:
  assumes "ripemd_ok C" "books A as ds" "\<forall>tx \<in> set txs. tx_in C A tx"
    and "execute C cfg latest txs as ds = Inr (rs, as', ds')"
  shows "coin_supply A as = coin_supply A as' + (\<Sum>(tx, r) \<leftarrow> zip txs rs. spent tx r) \<and> books A as' ds'"
  using execute_books [OF assms] by simp

theorem execution_conserves_coins_witness:
  "\<exists>rs as' ds'. execute plain_crypto sample_config 0 sample_session sample_accounts sample_registry = Inr (rs, as', ds') \<and>
     coin_supply sample_people as' + (\<Sum>(tx, r) \<leftarrow> zip sample_session rs. spent tx r) = 5000 * 10 ^ 9"
proof -
  obtain rs as' ds' where r: "execute plain_crypto sample_config 0 sample_session sample_accounts sample_registry = Inr (rs, as', ds')"
    using sample_session_runs [of sample_session] by blast
  have "\<forall>tx \<in> set sample_session. tx_in plain_crypto sample_people tx" using sample_session_in by blast
  from execution_conserves_coins [OF plain_crypto_ok(2) sample_books(1) this r] r show ?thesis
    by (auto simp: sample_books(3))
qed

section \<open>One transaction\<close>

text \<open>
  C3. A transaction that succeeds moves exactly the coins its type says - the value and the fee leave
  the sender, a transfer reaches the recipient, a vote is locked and an unvote released -, raises the
  sender's nonce by one and no other, and records the vote or the delegate; it carried the next nonce
  of its sender, at least the minimum fee, and no more data than its type allows.
\<close>

theorem successful_transaction_effect:
  assumes "ripemd_ok C" "states_ok as ds" "length (tx_to tx) = ADDRESS_LENGTH"
    and "execute_one C cfg latest tx as ds = Inr (r, as', ds')" "tr_success r"
  shows "round_effect as as' tx (sender C tx) \<and> registry_effect latest tx (sender C tx) ds ds' \<and>
    tx_nonce tx = acc_nonce (account as (sender C tx)) \<and> am (tx_fee tx) \<ge> am (cf_minTransactionFee cfg) \<and>
    int (length (tx_data tx)) \<le> sint (maxTransactionDataSize (tx_type tx)) \<and>
    tx_type tx \<in> {TRANSFER, DELEGATE, VOTE, UNVOTE}"
  by (rule execute_one_result(5) [OF assms])

theorem successful_transaction_effect_witness:
  "\<exists>as' ds'. execute_one plain_crypto sample_config 0 sample_register sample_accounts sample_registry =
       Inr (tx_succeeded, as', ds') \<and>
     registry_effect 0 sample_register (sender plain_crypto sample_register) sample_registry ds'"
proof -
  obtain as' ds' where x: "execute_one plain_crypto sample_config 0 sample_register sample_accounts sample_registry =
      Inr (tx_succeeded, as', ds')"
    using sample_register_succeeds by blast
  have "length (tx_to sample_register) = ADDRESS_LENGTH" using sample_session_in by (simp add: sample_session_def)
  from successful_transaction_effect [OF plain_crypto_ok(2) sample_states this x] x show ?thesis by simp
qed



text \<open>
  C5. No list of well-formed transactions makes the executor throw, as long as the coins in play are
  fewer than \<open>2^62\<close> nano-SEM and no unvote has the value zero (C9 shows why that is needed).
\<close>

theorem execution_never_throws:
  assumes "ripemd_ok C" "books A as ds" "coin_supply A as < 2 ^ 62"
    and "\<forall>tx \<in> set txs. tx_in C A tx \<and> Transaction_getFrom C tx \<noteq> None \<and> (tx_type tx = UNVOTE \<longrightarrow> am (tx_value tx) > 0)"
  shows "\<exists>rs as' ds'. execute C cfg latest txs as ds = Inr (rs, as', ds') \<and> length rs = length txs"
proof -
  obtain rs as' ds' where x: "execute C cfg latest txs as ds = Inr (rs, as', ds')"
    using execute_total [OF assms, of cfg latest] by (cases "execute C cfg latest txs as ds") auto
  with execute_length [OF x] show ?thesis by blast
qed

theorem execution_never_throws_witness:
  "\<exists>rs as' ds'. execute plain_crypto sample_config 0 sample_session sample_accounts sample_registry = Inr (rs, as', ds') \<and>
     length rs = length sample_session"
  by (rule execution_never_throws [OF plain_crypto_ok(2) sample_books(1)])
    (use sample_session_in sample_books(3) in auto)

section \<open>Lists of transactions\<close>

text \<open>
  C6. A nonce is used once: when one transaction of a list has succeeded, no later transaction of the
  same sender with the same nonce succeeds, the same transaction again included.
\<close>

theorem transaction_succeeds_once:
  assumes "ripemd_ok C" "states_ok as ds" "\<forall>tx \<in> set txs. length (tx_to tx) = ADDRESS_LENGTH"
    and "execute C cfg latest txs as ds = Inr (rs, as', ds')" "length txs < 2 ^ 63"
    and "i < j" "j < length txs" "tr_success (rs ! i)"
    and "sender C (txs ! j) = sender C (txs ! i)" "tx_nonce (txs ! j) = tx_nonce (txs ! i)"
  shows "\<not> tr_success (rs ! j)"
proof -
  have len: "length rs = length txs" using execute_length [OF assms(4)] .
  let ?mid = "\<lambda>xs. take (j - Suc i) (drop (Suc i) xs)"
  have x0: "execute C cfg latest (take i txs @ txs ! i # ?mid txs @ txs ! j # drop (Suc j) txs) as ds = Inr (rs, as', ds')"
    using assms(4) unfolding split_two [OF assms(6,7)] .
  obtain r1 r2 a d where pre: "execute C cfg latest (take i txs) as ds = Inr (r1, a, d)"
    and x: "execute C cfg latest (txs ! i # ?mid txs @ txs ! j # drop (Suc j) txs) a d = Inr (r2, as', ds')"
    and r: "rs = r1 @ r2"
    by (rule execute_split [OF x0])
  have "length r1 = i" using execute_length [OF pre] assms(6,7) by simp
  then have "r2 = drop i rs" by (simp add: r)
  also have "\<dots> = rs ! i # ?mid rs @ rs ! j # drop (Suc j) rs"
    using arg_cong [where f = "drop i", OF split_two [of i j rs]] assms(6,7) len by simp
  finally have r2: "r2 = rs ! i # ?mid rs @ rs ! j # drop (Suc j) rs" .
  have ok: "states_ok a d"
    using execute_nonce [OF assms(1,2) _ pre] assms(3) by (blast dest: in_set_takeD)
  have tos: "\<forall>tx \<in> set (txs ! i # ?mid txs @ txs ! j # drop (Suc j) txs). length (tx_to tx) = ADDRESS_LENGTH"
    using assms(3,6,7) by (auto dest!: in_set_takeD in_set_dropD)
  show ?thesis
    by (rule used_nonce [OF assms(1) ok tos x [unfolded r2] _ assms(8) _ assms(9,10)])
      (use assms(5) len in auto)
qed

theorem transaction_succeeds_once_witness:
  "\<exists>r2 as' ds'. execute plain_crypto sample_config 0 [sample_register, sample_register] sample_accounts sample_registry =
     Inr ([tx_succeeded, r2], as', ds') \<and> \<not> tr_success r2"
proof -
  let ?txs = "[sample_register, sample_register]"
  obtain rs as' ds' where x: "execute plain_crypto sample_config 0 ?txs sample_accounts sample_registry = Inr (rs, as', ds')"
    using sample_session_runs [of ?txs] by (auto simp: sample_session_def)
  obtain a d where one: "execute_one plain_crypto sample_config 0 sample_register sample_accounts sample_registry =
      Inr (tx_succeeded, a, d)"
    using sample_register_succeeds by blast
  obtain r2 where rs: "rs = [tx_succeeded, r2]"
    using x by (auto simp: one rbind_eq_Inr)
  have "\<forall>tx \<in> set ?txs. length (tx_to tx) = ADDRESS_LENGTH" using sample_session_in by (simp add: sample_session_def)
  from transaction_succeeds_once [OF plain_crypto_ok(2) sample_states this x, of 0 1] x show ?thesis
    by (auto simp: rs)
qed

text \<open>
  C7. Validating a block on tracked copies of the states and committing them is executing it on the
  states themselves: the same results, and the same accounts, delegates and votes afterwards. Until the
  commit the states the copies were taken from are untouched, so discarding the copies undoes it.
\<close>

theorem tracked_execution_commits:
  assumes "ripemd_ok C" "states_ok as ds" "store_ok as" "\<forall>tx \<in> set txs. length (tx_to tx) = ADDRESS_LENGTH"
    and x: "execute C cfg latest txs (AccountState_track as) (DelegateState_track ds) = Inr (rs, as', ds')"
  shows "store_prev as' = as \<and> DelegateState_prev ds' = ds \<and>
    (\<exists>as2 ds2. execute C cfg latest txs as ds = Inr (rs, as2, ds2) \<and>
       same_view (store_prev (AccountState_commit as')) (DelegateState_prev (DelegateState_commit ds')) as2 ds2)"
proof -
  note tr = same_view_track [OF assms(2,3)]
  have d: "store_ok (ds_delegates ds)" "store_ok (ds_votes ds)"
    using assms(2) by (auto simp: states_ok_def ds_wf_def delegates_ok_def votes_ok_def)
  have prev: "store_prev as' = as" "DelegateState_prev ds' = ds"
    using execute_prev [OF x] assms(3) d
    by (simp_all add: AccountState_track_def layers.track_prev delegate_layers.track_prev ds_ok_def)
  obtain as2 ds2 where run: "execute C cfg latest txs as ds = Inr (rs, as2, ds2)" and same: "same_view as' ds' as2 ds2"
    using execute_cong [OF assms(1) tr(1,2) assms(2,4) x] by blast
  have "store_overlay as'" "ds_overlay ds'" using execute_overlay [OF x tr(3,4)] by blast+
  then have "same_view (store_prev (AccountState_commit as')) (DelegateState_prev (DelegateState_commit ds')) as' ds'"
    by (simp add: same_view_def AccountState_commit_def layers.commit_prev ds_overlay_def DelegateState_commit_def
        DelegateState_prev_def)
  with same run prev show ?thesis by (simp add: same_view_def)
qed

theorem tracked_execution_commits_witness:
  "\<exists>rs as' ds'. execute plain_crypto sample_config 0 sample_session (AccountState_track sample_accounts)
     (DelegateState_track sample_registry) = Inr (rs, as', ds') \<and> store_prev as' = sample_accounts"
proof -
  let ?a = "AccountState_track sample_accounts" and ?d = "DelegateState_track sample_registry"
  have tos: "\<forall>tx \<in> set sample_session. length (tx_to tx) = ADDRESS_LENGTH" using sample_session_in by blast
  have "store_get ?a = store_get sample_accounts"
    using same_view_track(1) [OF sample_states sample_books(2)] unfolding same_view_def by (rule conjunct1)
  from account_view [OF this] have "account ?a = account sample_accounts" by (rule conjunct1)
  then have "coin_supply sample_people ?a < 2 ^ 62" using sample_books(3) by (simp add: coin_supply_def)
  then have "is_ok (execute plain_crypto sample_config 0 sample_session ?a ?d)"
    using sample_session_in by (intro execute_total [OF plain_crypto_ok(2) books_track [OF sample_books(1,2)]]) auto
  then obtain rs as' ds' where x: "execute plain_crypto sample_config 0 sample_session ?a ?d = Inr (rs, as', ds')"
    by (cases "execute plain_crypto sample_config 0 sample_session ?a ?d") auto
  have "store_prev as' = sample_accounts"
    by (rule tracked_execution_commits [OF plain_crypto_ok(2) sample_states sample_books(2) tos x, THEN conjunct1])
  with x show ?thesis by blast
qed

section \<open>Delegates\<close>

text \<open>
  C8. Delegate names are unique: whatever transactions are executed, two registered delegates with the
  same name are the same address.
\<close>

theorem delegate_names_stay_unique:
  assumes "ripemd_ok C" "states_ok as ds" "\<forall>tx \<in> set txs. length (tx_to tx) = ADDRESS_LENGTH"
    and "execute C cfg latest txs as ds = Inr (rs, as', ds')"
    and "length a = ADDRESS_LENGTH" "length b = ADDRESS_LENGTH" "deleg ds' a = Some d" "deleg ds' b = Some e"
    and "del_name d = del_name e"
  shows "a = b"
proof -
  have "states_ok as' ds'" using execute_nonce [OF assms(1-4)] by blast
  then have "delegates_ok ds'" by (simp add: states_ok_def ds_wf_def)
  from delegates_names_unique [OF this assms(5-9)] show ?thesis .
qed

theorem delegate_names_stay_unique_witness:
  "\<exists>rs as' ds'. execute plain_crypto sample_config 0 [sample_register] sample_accounts sample_registry = Inr (rs, as', ds') \<and>
     (\<exists>d. deleg ds' alice = Some d \<and>
       (\<forall>b e. length b = ADDRESS_LENGTH \<and> deleg ds' b = Some e \<and> del_name e = del_name d \<longrightarrow> b = alice))"
proof -
  obtain a d where one: "execute_one plain_crypto sample_config 0 sample_register sample_accounts sample_registry =
      Inr (tx_succeeded, a, d)"
    using sample_register_succeeds by blast
  have x: "execute plain_crypto sample_config 0 [sample_register] sample_accounts sample_registry = Inr ([tx_succeeded], a, d)"
    by (simp add: one)
  have tos: "\<forall>tx \<in> set [sample_register]. length (tx_to tx) = ADDRESS_LENGTH"
    using sample_session_in by (simp add: sample_session_def)
  have al: "length alice = ADDRESS_LENGTH" by (simp add: alice_bytes ADDRESS_LENGTH_def)
  have ty: "tx_type sample_register = DELEGATE" "sender plain_crypto sample_register = alice" by code_simp+
  obtain e where e: "deleg d alice = Some e"
    using execute_one_result(5) [OF plain_crypto_ok(2) sample_states _ one] tos al by (auto simp: ty registry_effect_def)
  have uniq: "b = alice" if "length b = ADDRESS_LENGTH" "deleg d b = Some f" "del_name f = del_name e" for b f
    using delegate_names_stay_unique [OF plain_crypto_ok(2) sample_states tos x that(1) al that(2) e that(3)] .
  with x e show ?thesis by blast
qed

text \<open>
  An unvote of value zero for an address that is no delegate passes every check and then makes the
  executor throw a null pointer exception, although it is a valid transaction: with it in the queue or
  in a proposal the execution of the whole list is lost.
\<close>

theorem void_unvote_throws:
  assumes "states_ok as ds" "Transaction_getFrom C tx = Some from" "tx_type tx = UNVOTE" "am (tx_value tx) = 0"
    and "tx_nonce tx = acc_nonce (account as from)" "am (cf_minTransactionFee cfg) \<le> am (tx_fee tx)"
    and "int (length (tx_data tx)) \<le> sint (maxTransactionDataSize UNVOTE)"
    and "am (tx_fee tx) \<le> am (acc_available (account as from))" "0 \<le> am (acc_locked (account as from))"
    and "length (tx_to tx) = ADDRESS_LENGTH" "deleg ds (tx_to tx) = None" "am (ballot ds from (tx_to tx)) = 0"
  shows "execute C cfg latest (tx # txs) as ds = Inl NullPointer"
proof -
  have "void_unvote cfg tx from as ds" using assms(3-) by (simp add: void_unvote_def)
  then show ?thesis by (simp add: void_unvote_one [OF assms(1,2)])
qed

theorem void_unvote_throws_witness:
  "Transaction_validate plain_crypto DEVNET sample_void \<and>
   execute plain_crypto sample_config 0 [sample_void] sample_accounts sample_registry = Inl NullPointer"
proof -
  have b: "length bob = ADDRESS_LENGTH" and m: "sint (maxTransactionDataSize UNVOTE) \<ge> 0" by code_simp+
  show ?thesis
    using void_unvote_throws [OF sample_states sample_void_facts(1,2,4), of sample_config 0 "[]"] m
    by (simp add: sample_void_facts sample_alice sample_registry_empty b)
qed

end
