(* ===== verification/ChainProps.thy ===== *)
theory ChainProps
  imports Samples
begin

text \<open>
  Properties of the blockchain: what adding a block makes readable, which state every reachable chain
  is in, and how the validator set and the statistics follow. Each is applied to the sample chain.
\<close>

section \<open>Blocks\<close>

text \<open>
  C9. Adding a block appends it: if the database holds a list of blocks, then afterwards it holds that
  list with the new block at its end, every block of it is read back at its number with its header, the
  new block is the latest, and no other number has a block. (The reason of a failed transaction is not
  stored.)
\<close>

theorem addBlock_appends:
  assumes "blocks_of C ch bs" "addBlock env b ch = Inr ch'" "block_wf C b"
    and "bl_number b \<noteq> genesis_number env" "length bs < 2 ^ 63"
  shows "blocks_of C ch' (bs @ [b]) \<and> getLatestBlockNumber ch' = Inr (of_nat (length bs)) \<and>
    (\<forall>i \<le> length bs. getBlock C (of_nat i) ch' = Inr (Some (as_stored ((bs @ [b]) ! i))) \<and>
       getBlockHeader (of_nat i) ch' = Inr (Some (bl_header ((bs @ [b]) ! i)))) \<and>
    (\<forall>n. hasBlock n ch' \<longleftrightarrow> unat n \<le> length bs)"
proof -
  note bs' = addBlock_append [OF assms]
  have i: "i < length (bs @ [b])" if "i \<le> length bs" for i using that by simp
  show ?thesis
    using bs' blocks_of_latest(1) [OF bs'] blocks_of_get [OF bs' i] blocks_of_has [OF bs'] by (simp add: less_Suc_eq_le)
qed

theorem addBlock_appends_witness:
  "blocks_of plain_crypto sample_chain [sample_genesis_block, sample_block] \<and>
   getBlock plain_crypto 1 sample_chain = Inr (Some (as_stored sample_block))"
proof -
  have gen: "bl_number sample_block \<noteq> genesis_number sample_env" by (simp add: sample_numbers)
  note r = addBlock_appends [OF sample_reach0(2) sample_add sample_blocks_wf(3) gen]
  have "length [sample_genesis_block] < 2 ^ 63" by simp
  note r = r [OF this]
  then have "\<forall>i \<le> length [sample_genesis_block]. getBlock plain_crypto (of_nat i) sample_chain =
      Inr (Some (as_stored (([sample_genesis_block] @ [sample_block]) ! i)))"
    by blast
  from spec [OF this, of 1] r show ?thesis by simp
qed



section \<open>Transactions of a block\<close>

text \<open>
  C11. After a block is added, each of its transactions is found by its hash with its result and its
  block number, and a coinbase transaction is found that pays the forger the block reward plus all
  fees. (Premises: hashes of the block's transactions differ from each other and from the coinbase
  transaction's, as for a collision-free hash.)
\<close>

theorem block_transactions_found:
  assumes add: "addBlock env b ch = Inr ch'" and wf: "block_wf (env_crypto env) b" and gen: "bl_number b \<noteq> genesis_number env"
    and dist: "distinct (map tx_hash (bl_transactions b))" and C: "digest_ok (env_crypto env)"
    and coinbase: "length (bh_coinbase (bl_header b)) = 20" and num: "bl_number b \<noteq> 0"
  shows "\<exists>cb. getCoinbaseTransaction (env_crypto env) (bl_number b) ch' = Inr (Some cb) \<and> tx_type cb = COINBASE \<and>
    tx_to cb = bh_coinbase (bl_header b) \<and>
    am (tx_value cb) = am (getBlockReward (bl_number b)) + (\<Sum>tx \<leftarrow> bl_transactions b. am (tx_fee tx)) \<and>
    getTransactionBlockNumber (env_crypto env) (tx_hash cb) ch' = Inr (bl_number b) \<and>
    (\<forall>i < length (bl_transactions b). tx_hash (bl_transactions b ! i) \<noteq> tx_hash cb \<and>
         tx_type (bl_transactions b ! i) \<noteq> COINBASE \<longrightarrow>
       getTransaction (env_crypto env) (tx_hash (bl_transactions b ! i)) ch' = Inr (Some (bl_transactions b ! i)) \<and>
       getTransactionResult (tx_hash (bl_transactions b ! i)) ch' = Inr (Some (without_error (bl_results b ! i))) \<and>
       getTransactionBlockNumber (env_crypto env) (tx_hash (bl_transactions b ! i)) ch' = Inr (bl_number b))"
proof -
  let ?C = "env_crypto env"
  have new: "Block_new (bl_header b) (bl_transactions b) (bl_results b) (bl_view b) (bl_votes b) = Inr b"
    using wf by (simp add: block_wf_def)
  have len: "length (bl_indexes b) = length (bl_transactions b)"
    by (rule Block_new_parts [OF new]) (use wf in \<open>simp_all add: block_wf_def\<close>)
  obtain cb bs reward where cb: "coinbase_transaction env b reward = Inr cb" "Transaction_toBytes cb = Inr bs"
    and rew: "am reward = am (getBlockReward (bl_number b)) + (\<Sum>tx \<leftarrow> bl_transactions b. am (tx_fee tx))"
    and cn: "index_get ch' (TYPE_COINBASE_TRANSACTION_HASH # bytes_of_long (bl_number b)) = Some (tx_hash cb)"
    and ch: "index_get ch' (TYPE_TRANSACTION_HASH # tx_hash cb) = Some bs"
    and ix: "\<And>i. i < length (bl_transactions b) \<Longrightarrow> tx_hash (bl_transactions b ! i) \<noteq> tx_hash cb \<Longrightarrow>
       index_get ch' (TYPE_TRANSACTION_HASH # tx_hash (bl_transactions b ! i)) =
         Some (location (bl_number b) (bl_indexes b ! i))"
    by (rule addBlock_transactions [OF add gen len dist]) (rule that)
  note f = coinbase_transaction_fields [OF cb(1) refl C coinbase]
  have whole: "getTransaction ?C (tx_hash cb) ch' = Inr (Some cb)"
    by (rule whole_transaction [OF ch f(6) [OF cb(2)] f(1) cb(2)])
  note st = addBlock_stored(1) [OF add]
  have each: "getTransaction ?C (tx_hash (bl_transactions b ! i)) ch' = Inr (Some (bl_transactions b ! i)) \<and>
       getTransactionResult (tx_hash (bl_transactions b ! i)) ch' = Inr (Some (without_error (bl_results b ! i))) \<and>
       getTransactionBlockNumber ?C (tx_hash (bl_transactions b ! i)) ch' = Inr (bl_number b)"
    if i: "i < length (bl_transactions b)" "tx_hash (bl_transactions b ! i) \<noteq> tx_hash cb" "tx_type (bl_transactions b ! i) \<noteq> COINBASE" for i
  proof -
    note s = stored_transaction [OF st wf i(1) ix [OF i(1,2)]]
    then show ?thesis
      using i(3) by (simp add: getTransactionBlockNumber_def ix [OF i(1,2)] location_reads(1))
  qed
  have "getTransactionBlockNumber ?C (tx_hash cb) ch' = Inr (bl_number b)"
    using f(2,5) whole by (simp add: getTransactionBlockNumber_def)
  moreover have "getCoinbaseTransaction ?C (bl_number b) ch' = Inr (Some cb)"
    using cn whole num by (simp add: getCoinbaseTransaction_def)
  ultimately show ?thesis
    using each f(2-4) rew by (intro exI [of _ cb]) simp
qed

theorem block_transactions_found_witness:
  "\<exists>cb. getCoinbaseTransaction plain_crypto 1 sample_chain = Inr (Some cb) \<and> tx_to cb = carol \<and>
     am (tx_value cb) = am (getBlockReward 1) + 5 * 10 ^ 6"
proof -
  have gen: "bl_number sample_block \<noteq> genesis_number sample_env" "bl_number sample_block \<noteq> 0"
    by (simp_all add: sample_numbers)
  have wf: "block_wf (env_crypto sample_env) sample_block" using sample_blocks_wf(3) by (simp add: sample_numbers)
  have am: "am (Amount 5000000) = 5000000" by code_simp
  show ?thesis
    using block_transactions_found [OF sample_add wf gen(1) _ _ _ gen(2)] plain_crypto_ok(1)
    by (auto simp: sample_block_parts sample_numbers am)
qed

text \<open>
  C12. The history of an address grows by exactly the hashes of the block's transactions that it sends
  or receives, in the order of the block, each once even when an address pays itself, followed by the
  coinbase transaction when the address forged the block.
\<close>

theorem account_history_grows:
  assumes "addBlock env b ch = Inr ch'" "bl_number b \<noteq> genesis_number env"
    and "length (bl_indexes b) = length (bl_transactions b)" "ripemd_ok (env_crypto env)"
    and "length a = 20" "length (bh_coinbase (bl_header b)) = 20" "\<forall>tx \<in> set (bl_transactions b). length (tx_to tx) = 20"
    and "length (history ch a) + length (bl_transactions b) + 1 < 2 ^ 32"
  shows "\<exists>cb reward. coinbase_transaction env b reward = Inr cb \<and>
    am reward = am (getBlockReward (bl_number b)) + (\<Sum>tx \<leftarrow> bl_transactions b. am (tx_fee tx)) \<and>
    history ch' a = history ch a @
    map (\<lambda>tx. Some (tx_hash tx)) (filter (names (env_crypto env) a) (bl_transactions b)) @
    (if a = bh_coinbase (bl_header b) then [Some (tx_hash cb)] else [])"
  by (rule addBlock_history [OF assms(1-3) refl assms(4-8)]) (rule exI, rule exI, intro conjI)

theorem account_history_grows_witness:
  "history sample_chain bob = [Some (tx_hash sample_transfer)]"
proof -
  have new: "Block_new (bl_header sample_block) (bl_transactions sample_block) (bl_results sample_block)
      (bl_view sample_block) (bl_votes sample_block) = Inr sample_block"
    using sample_blocks_wf(3) by (simp add: block_wf_def)
  have idx: "length (bl_indexes sample_block) = length (bl_transactions sample_block)"
    by (rule Block_new_parts [OF new]) (simp_all add: sample_block_parts)
  have h: "history sample_chain0 bob = []" "bob \<noteq> carol" by code_simp+
  have gen: "bl_number sample_block \<noteq> genesis_number sample_env" by (simp add: sample_numbers)
  have n: "names plain_crypto bob sample_transfer" by (simp add: names_def sample_block_parts)
  show ?thesis
    using account_history_grows [OF sample_add gen idx _ sample_block_parts(5)] plain_crypto_ok(2) h n
    by (auto simp: sample_block_parts sample_numbers)
qed

section \<open>Validators\<close>



text \<open>
  C14. Every block but the first counts once: for the forger one more forged block, and for the primary
  validator of its height a hit when it forged the block itself and a miss otherwise. Nobody else's
  statistics move. (The primary is chosen among the validators before the block, by the rule that is in
  force when the uniform distribution fork has been recorded.)
\<close>

theorem block_counts_once:
  assumes "addBlock env b ch = Inr ch'" "bl_number b \<noteq> genesis_number env"
  shows "\<exists>vs primary p. getValidators ch = Inr vs \<and>
    primary_at_view0 env vs (bl_number b) (map_of (ch_activated ch') UNIFORM_DISTRIBUTION \<noteq> None) = Inr primary \<and>
    Hex_decode0x (Some primary) = Inr p \<and>
    (\<forall>a s. getValidatorStats a ch = Inr s \<longrightarrow> getValidatorStats a ch' = Inr
      \<lparr>st_blocksForged = st_blocksForged s + (if a = bh_coinbase (bl_header b) then 1 else 0),
       st_turnsHit = st_turnsHit s + (if a = p \<and> primary = Hex_encode (bh_coinbase (bl_header b)) then 1 else 0),
       st_turnsMissed = st_turnsMissed s + (if a = p \<and> primary \<noteq> Hex_encode (bh_coinbase (bl_header b)) then 1 else 0)\<rparr>)"
  by (rule addBlock_stats [OF assms]) blast

theorem block_counts_once_witness:
  "\<exists>s. getValidatorStats carol sample_chain = Inr s \<and> st_blocksForged s = 1"
proof -
  have gen: "bl_number sample_block \<noteq> genesis_number sample_env" by (simp add: sample_numbers)
  have s: "getValidatorStats carol sample_chain0 = Inr \<lparr>st_blocksForged = 0, st_turnsHit = 0, st_turnsMissed = 0\<rparr>"
    by code_simp
  show ?thesis using block_counts_once [OF sample_add gen] s by (auto simp: sample_block_parts)
qed

section \<open>Unknown hashes\<close>

text \<open>
  Asking for the block number of a transaction that is not indexed throws a null pointer exception;
  the method's answer -1 for such a hash is never reached. Asking whether it exists, or for the
  transaction or its result, answers normally.
\<close>

theorem unknown_transaction_number_throws:
  assumes "\<not> hasTransaction h ch"
  shows "getTransactionBlockNumber C h ch = Inl NullPointer \<and> getTransaction C h ch = Inr None \<and>
    getTransactionResult h ch = Inr None"
  using assms by (simp add: hasTransaction_def getTransactionBlockNumber_def getTransaction_def getTransactionResult_def)

theorem unknown_transaction_number_throws_witness:
  "getTransactionBlockNumber plain_crypto [] empty_chain = Inl NullPointer"
proof -
  have "\<not> hasTransaction [] empty_chain" by code_simp
  from unknown_transaction_number_throws [OF this] show ?thesis by blast
qed

end
