(* ===== verification/VoteCount.thy ===== *)
theory VoteCount
  imports Votes Protocol
begin

text \<open>
  What a vote set has counted after any list of votes, as sets of validators: the supporters of a block
  hash and the objectors of the view, read off the list itself. And the primary validator when there is
  only one.
\<close>

section \<open>Supporters and objectors\<close>

definition countable :: "crypto \<Rightarrow> VoteSet \<Rightarrow> string \<Rightarrow> Vote \<Rightarrow> bool" where
  "countable C s p v \<longleftrightarrow> vt_type v = Some (vs_type s) \<and> vt_height v = vs_height s \<and> vt_view v = vs_view s \<and>
     vote_check C v \<and> p \<in> set (vs_validators s) \<and> (\<exists>sg. vt_signature v = Some sg \<and> peer_of C sg = p)"

definition supporters :: "crypto \<Rightarrow> VoteSet \<Rightarrow> Vote list \<Rightarrow> bytes \<Rightarrow> string set" where
  "supporters C s vs h = {p. \<exists>v \<in> set vs. countable C s p v \<and> vt_value v \<and> vt_blockHash v = h}"

definition objectors :: "crypto \<Rightarrow> VoteSet \<Rightarrow> Vote list \<Rightarrow> string set" where
  "objectors C s vs = {p. \<exists>v \<in> set vs. countable C s p v \<and> \<not> vt_value v}"

definition same_set :: "VoteSet \<Rightarrow> VoteSet \<Rightarrow> bool" where
  "same_set s t \<longleftrightarrow> vs_type t = vs_type s \<and> vs_height t = vs_height s \<and> vs_view t = vs_view s \<and>
     vs_validators t = vs_validators s \<and> vs_twoThirds t = vs_twoThirds s"

lemma same_set_counts: "same_set s t \<Longrightarrow> countable C t p v = countable C s p v"
  by (simp add: same_set_def countable_def)

lemma memo_change:
  assumes "v = vote\<lparr>vt_validated := vt_validated v\<rparr>"
  shows "vt_type v = vt_type vote" "vt_height v = vt_height vote" "vt_view v = vt_view vote"
    "vt_signature v = vt_signature vote" "vote_check C v = vote_check C vote"
    "vt_value v = vt_value vote" "vt_blockHash v = vt_blockHash vote"
  by (subst assms, simp)+

lemma addVote_sets:
  assumes memo: "memo_ok C v"
  shows "same_set s (snd (addVote C v s))"
    "approvers (snd (addVote C v s)) h = approvers s h \<union> supporters C s [v] h"
    "rejecters (snd (addVote C v s)) = rejecters s \<union> objectors C s [v]"
proof -
  have "same_set s (snd (addVote C v s)) \<and> approvers (snd (addVote C v s)) h = approvers s h \<union> supporters C s [v] h \<and>
    rejecters (snd (addVote C v s)) = rejecters s \<union> objectors C s [v]"
    using memo
  proof (cases rule: addVote_cases [of C v s])
    case ignored
    then have "\<not> countable C s p v" for p by (auto simp: countable_def)
    then show ?thesis using ignored(1) by (simp add: supporters_def objectors_def same_set_def)
  next
    case (approve p w m)
    note mc = memo_change [OF approve(3)]
    have c: "countable C s q v \<longleftrightarrow> q = p" for q
      using approve(1) by (auto simp: countable_def counted_def mc)
    then show ?thesis
      using approve(2,4,5)
      by (auto simp: mc supporters_def objectors_def same_set_def approvers_def rejecters_def update_conv' split: option.splits)
  next
    case (reject p w)
    note mc = memo_change [OF reject(3)]
    have c: "countable C s q v \<longleftrightarrow> q = p" for q
      using reject(1) by (auto simp: countable_def counted_def mc)
    then show ?thesis
      using reject(2,4)
      by (auto simp: mc supporters_def objectors_def same_set_def approvers_def rejecters_def update_conv')
  qed
  then show "same_set s (snd (addVote C v s))"
    "approvers (snd (addVote C v s)) h = approvers s h \<union> supporters C s [v] h"
    "rejecters (snd (addVote C v s)) = rejecters s \<union> objectors C s [v]" by blast+
qed

lemma addVotes_sets:
  assumes "\<forall>v \<in> set vs. memo_ok C v" "voteset_ok C s"
  shows "voteset_ok C (snd (addVotes C vs s)) \<and> same_set s (snd (addVotes C vs s)) \<and>
    approvers (snd (addVotes C vs s)) h = approvers s h \<union> supporters C s vs h \<and>
    rejecters (snd (addVotes C vs s)) = rejecters s \<union> objectors C s vs"
  using assms
proof (induction vs arbitrary: s)
  case Nil
  then show ?case by (simp add: same_set_def supporters_def objectors_def)
next
  case (Cons v vs)
  obtain b t where t: "addVote C v s = (b, t)" by fastforce
  have memo: "memo_ok C v" using Cons.prems(1) by simp
  have a: "same_set s t" "approvers t h = approvers s h \<union> supporters C s [v] h" "rejecters t = rejecters s \<union> objectors C s [v]"
    "voteset_ok C t"
    using addVote_sets [OF memo, where s = s] voteset_ok_add [OF Cons.prems(2) memo] t by simp_all
  have "supporters C t vs h = supporters C s vs h" "objectors C t vs = objectors C s vs"
    using same_set_counts [OF a(1)] by (simp_all add: supporters_def objectors_def)
  moreover have "supporters C s (v # vs) h = supporters C s [v] h \<union> supporters C s vs h"
    "objectors C s (v # vs) = objectors C s [v] \<union> objectors C s vs"
    by (auto simp: supporters_def objectors_def)
  moreover have "snd (addVotes C (v # vs) s) = snd (addVotes C vs t)"
    by (simp add: t split: prod.split)
  ultimately show ?case
    using Cons.IH [OF _ a(4)] Cons.prems(1) a(1-3) by (auto simp: same_set_def)
qed

lemma new_sets: "approvers (VoteSet_new t h w vals) x = {}" "rejecters (VoteSet_new t h w vals) = {}"
  by (simp_all add: VoteSet_new_def approvers_def rejecters_def)

lemma two_thirds_le: "two_thirds n \<le> k \<longleftrightarrow> 2 * n \<le> 3 * k"
  unfolding two_thirds_def by linarith

lemma approvers_None: "voteset_ok C s \<Longrightarrow> map_of (vs_approvals s) h = None \<longleftrightarrow> approvers s h = {}"
  using voteset_okD(5) [of C s h] by (cases "map_of (vs_approvals s) h") (auto simp: approvers_def neq_Nil_conv)

lemma approved_iff:
  assumes "voteset_ok C s"
  shows "isApproved h s \<longleftrightarrow> approvers s h \<noteq> {} \<and> 2 * length (vs_validators s) \<le> 3 * card (approvers s h)"
  using approvers_card(1) [OF assms] approvers_None [OF assms] voteset_okD(1) [OF assms] by (auto simp: two_thirds_le)

lemma approver_vote:
  assumes "voteset_ok C s" "p \<in> approvers s h"
  obtains v where "counted C s p v" "vt_value v" "vt_blockHash v = h"
proof -
  obtain m v where "map_of (vs_approvals s) h = Some m" "map_of m p = Some v"
    using assms(2) by (auto simp: approvers_def split: option.splits)
  from voteset_okD(6) [OF assms(1) this] show thesis by (intro that) blast+
qed

section \<open>One validator\<close>

lemma retry_single: "primary_retry 1 height view 0 subView = None"
proof (cases "primary_retry 1 height view 0 subView")
  case (Some r)
  from primary_retry_result [OF Some] show ?thesis by auto
qed

lemma single_hangs: "getUniformDistPrimaryValidatorNumber 1 height (int (Suc n)) = None"
proof (induction n)
  case 0
  have "getUniformDistPrimaryValidatorNumber 1 height 0 = Some 0"
    by (subst getUniformDistPrimaryValidatorNumber.simps) (simp add: signed_modulo_int_def)
  then show ?case by (subst getUniformDistPrimaryValidatorNumber.simps) (simp add: retry_single)
next
  case (Suc n)
  have "int (Suc (Suc n)) - 1 = int (Suc n)" by simp
  then show ?case by (subst getUniformDistPrimaryValidatorNumber.simps) (simp only: Suc.IH, simp)
qed

lemma primary_rotates:
  assumes "sz \<ge> 2" "height \<ge> 0"
  shows "\<exists>p q. getUniformDistPrimaryValidatorNumber sz height (int n) = Some p \<and>
    getUniformDistPrimaryValidatorNumber sz height (int (Suc n)) = Some q \<and> 0 \<le> p \<and> p < sz \<and> 0 \<le> q \<and> q < sz \<and> p \<noteq> q"
proof -
  obtain p where p: "getUniformDistPrimaryValidatorNumber sz height (int n) = Some p" "0 \<le> p" "p < sz"
    using primary_number_ends [OF assms] by blast
  obtain q where q: "primary_retry sz height (int (Suc n)) p 0 = Some q" "0 \<le> q" "q < sz" "q \<noteq> p"
    using primary_retry_ends [OF assms(1)] by blast
  have "getUniformDistPrimaryValidatorNumber sz height (int (Suc n)) = Some q"
    using p(1) q(1) by (subst getUniformDistPrimaryValidatorNumber.simps) simp
  with p q show ?thesis by blast
qed

end
