(* ===== verification/ConsensusProps.thy ===== *)
theory ConsensusProps
  imports VoteCount Samples
begin

text \<open>
  Properties of the voting and of the choice of the primary validator, with sample votes of three
  validators of the plain cryptography.
\<close>

section \<open>Sample votes\<close>

definition sample_key :: "nat \<Rightarrow> Key" where
  "sample_key i = \<lparr>key_private = of_nat i # replicate 31 1\<rparr>"

definition sample_validators :: "string list" where
  "sample_validators = map (\<lambda>i. Key_toAddressString plain_crypto (sample_key i)) [1, 2, 3]"

definition approval :: "jlong \<Rightarrow> jint \<Rightarrow> bytes \<Rightarrow> nat \<Rightarrow> Vote" where
  "approval height view h i =
     the_ok (rbind (newApprove VT_PRECOMMIT height view h) (Vote_sign plain_crypto (sample_key i)))"

definition sample_set :: VoteSet where
  "sample_set = VoteSet_new VT_PRECOMMIT 5 0 sample_validators"

definition some_votes :: "bytes \<Rightarrow> Vote list" where
  "some_votes h = map (approval 5 0 h) [1, 2]"

definition other_votes :: "bytes \<Rightarrow> Vote list" where
  "other_votes h = map (approval 5 0 h) [2, 3]"

lemma sample_votes_memo:
  "\<forall>v \<in> set (some_votes (replicate 32 4)). memo_ok plain_crypto v"
  "\<forall>v \<in> set (other_votes (replicate 32 9)). memo_ok plain_crypto v"
proof -
  have "list_all (\<lambda>v. vt_validated v = None) (some_votes (replicate 32 4))"
    "list_all (\<lambda>v. vt_validated v = None) (other_votes (replicate 32 9))"
    by code_simp+
  then show "\<forall>v \<in> set (some_votes (replicate 32 4)). memo_ok plain_crypto v"
    "\<forall>v \<in> set (other_votes (replicate 32 9)). memo_ok plain_crypto v"
    by (auto simp: list_all_iff memo_ok_def)
qed

lemma sample_approved:
  "isApproved (replicate 32 4) (snd (addVotes plain_crypto (some_votes (replicate 32 4)) sample_set))"
  "isApproved (replicate 32 9) (snd (addVotes plain_crypto (other_votes (replicate 32 9)) sample_set))"
  by code_simp+

section \<open>Counting votes\<close>



text \<open>
  C20. Two approvals of the same type, height and view rest on common voters: whenever one node has
  approved a block and another node (or the same one) a block, at least a third of the validators have
  signed valid approvals of both. So with fewer than a third of them faulty, two different blocks are
  never both approved.
\<close>

theorem approvals_share_validators:
  assumes "voteset_ok C s" "voteset_ok C t" "same_set s t" "isApproved h s" "isApproved k t"
  shows "\<exists>F \<subseteq> set (vs_validators s). card (set (vs_validators s)) \<le> 3 * card F \<and>
    (\<forall>p \<in> F. \<exists>v w. counted C s p v \<and> vt_value v \<and> vt_blockHash v = h \<and> counted C t p w \<and> vt_value w \<and> vt_blockHash w = k)"
proof -
  have vals: "vs_validators t = vs_validators s" using assms(3) by (simp add: same_set_def)
  let ?A = "approvers s h" and ?B = "approvers t k"
  have sub: "?A \<subseteq> set (vs_validators s)" "?B \<subseteq> set (vs_validators s)"
    using approvers_subset(1) [OF assms(1)] approvers_subset(1) [OF assms(2)] by (simp_all add: vals)
  have "two_thirds (length (vs_validators s)) \<le> card ?A" "two_thirds (length (vs_validators s)) \<le> card ?B"
    using approved_iff [OF assms(1)] approved_iff [OF assms(2)] assms(4,5) by (simp_all add: two_thirds_le vals)
  note big = validators.quorums_intersect [OF sub this]
  have "\<exists>v w. counted C s p v \<and> vt_value v \<and> vt_blockHash v = h \<and> counted C t p w \<and> vt_value w \<and> vt_blockHash w = k"
    if "p \<in> ?A \<inter> ?B" for p
    using that approver_vote [OF assms(1), of p h] approver_vote [OF assms(2), of p k] by (metis IntD1 IntD2)
  with big sub show ?thesis by (intro exI [of _ "?A \<inter> ?B"]) blast
qed

theorem approvals_share_validators_witness:
  "\<exists>p \<in> set sample_validators. \<exists>v w. vote_check plain_crypto v \<and> vote_check plain_crypto w \<and>
     vt_blockHash v = replicate 32 4 \<and> vt_blockHash w = replicate 32 9 \<and>
     (\<exists>sg. vt_signature v = Some sg \<and> peer_of plain_crypto sg = p) \<and>
     (\<exists>sg. vt_signature w = Some sg \<and> peer_of plain_crypto sg = p)"
proof -
  let ?s = "snd (addVotes plain_crypto (some_votes (replicate 32 4)) sample_set)"
  let ?t = "snd (addVotes plain_crypto (other_votes (replicate 32 9)) sample_set)"
  have s: "voteset_ok plain_crypto ?s" "same_set sample_set ?s" and t: "voteset_ok plain_crypto ?t" "same_set sample_set ?t"
    using addVotes_sets [OF sample_votes_memo(1), of sample_set] addVotes_sets [OF sample_votes_memo(2), of sample_set]
    by (simp_all add: sample_set_def voteset_ok_new)
  have st: "same_set ?s ?t" using s(2) t(2) by (simp add: same_set_def)
  have vals: "vs_validators ?s = sample_validators" using s(2) by (simp add: same_set_def sample_set_def VoteSet_new_def)
  obtain F where F: "F \<subseteq> set sample_validators" "card (set sample_validators) \<le> 3 * card F"
    "\<forall>p \<in> F. \<exists>v w. counted plain_crypto ?s p v \<and> vt_value v \<and> vt_blockHash v = replicate 32 4 \<and>
       counted plain_crypto ?t p w \<and> vt_value w \<and> vt_blockHash w = replicate 32 9"
    using approvals_share_validators [OF s(1) t(1) st sample_approved] unfolding vals by blast
  have "card (set sample_validators) \<noteq> 0" by (simp add: sample_validators_def)
  with F(2) obtain p where "p \<in> F" by (cases "F = {}") auto
  with F show ?thesis unfolding counted_def by blast
qed

section \<open>The primary validator\<close>

text \<open>
  C21. With at least two validators the uniform choice always ends, at every height and view, with a
  position in the list, and the primary of the next view is always another one: changing the view
  changes the proposer.
\<close>

theorem primary_validator_rotates:
  fixes height :: jlong
  assumes "2 \<le> length vs" "0 \<le> sint height"
  shows "\<exists>p q. getUniformDistPrimaryValidatorNumber (int (length vs)) (sint height) (int view) = Some p \<and>
    getUniformDistPrimaryValidatorNumber (int (length vs)) (sint height) (int (Suc view)) = Some q \<and>
    0 \<le> p \<and> p < int (length vs) \<and> 0 \<le> q \<and> q < int (length vs) \<and> p \<noteq> q"
  by (rule primary_rotates) (use assms in simp_all)

theorem primary_validator_rotates_witness:
  "\<exists>p q. getUniformDistPrimaryValidatorNumber 2 7 0 = Some p \<and> getUniformDistPrimaryValidatorNumber 2 7 1 = Some q \<and> p \<noteq> q"
  using primary_validator_rotates [of "[''a'', ''b'']" 7 0] by auto

text \<open>
  With a single validator the uniform choice never ends in any view but the first: the retry loop
  looks for a position different from the previous one, and there is none. The caller of
  \<open>getPrimaryValidator\<close> hangs.
\<close>

theorem single_validator_never_chosen:
  assumes "0 < sint view"
  shows "getPrimaryValidator C [v] height view True = None"
proof -
  obtain n where "sint view = int (Suc n)" using assms gr0_implies_Suc zero_less_imp_eq_int by metis
  then show ?thesis using single_hangs [of "sint height" n] by (simp add: getPrimaryValidator_def)
qed

theorem single_validator_never_chosen_witness:
  "getPrimaryValidator plain_crypto [''v''] 5 1 True = None"
  using single_validator_never_chosen [of 1 plain_crypto "''v''" 5] by simp

section \<open>Messages\<close>

text \<open>
  C22. A signed vote and a signed proposal survive their encoding: what is decoded from the bytes of a
  proposal has the same proof, header, transactions and signature. Only the private memo of a vote's
  validation is not sent.
\<close>

theorem proposal_roundtrip:
  assumes "Proposal_new pf header txs = Inr p" "Proposal_sign C key p = Inr q" "bytes_ok (pp_encoded p)"
    and "\<forall>v \<in> set (pf_votes pf). vote_signed v" "length (pf_votes pf) < 2 ^ 31" "header_wf header"
      "\<forall>tx \<in> set txs. signed_wf C tx" "length txs < 2 ^ 31"
  shows "\<exists>bs. Proposal_toBytes q = Inr bs \<and> Proposal_fromBytes C bs =
    Inr (q\<lparr>pp_proof := pf\<lparr>pf_votes := map forget_memo (pf_votes pf)\<rparr>\<rparr>)"
proof -
  obtain sg where sg: "Key_sign C key (pp_encoded p) = Inr sg" and q: "q = p\<lparr>pp_signature := Some sg\<rparr>"
    using assms(2) by (auto simp: Proposal_sign_def rbind_eq_Inr)
  have wf: "Signature_wf sg" using Key_sign_Inr [OF sg] by blast
  show ?thesis by (rule Proposal_roundtrip [OF assms(1) _ wf q assms(3-8)]) (simp add: q)
qed

theorem proposal_roundtrip_witness:
  "\<exists>q bs. Proposal_toBytes q = Inr bs \<and> Proposal_fromBytes plain_crypto bs = Inr q \<and>
     pp_transactions q = [sample_transfer] \<and> pp_blockHeader q = bl_header sample_block"
proof -
  let ?pf = "Proof_empty 1 0"
  let ?m = "Proposal_new ?pf (bl_header sample_block) [sample_transfer]"
  have "is_ok ?m" "is_ok (rbind ?m (Proposal_sign plain_crypto alice_key))" "length (pp_encoded (the_ok ?m)) \<le> 1000"
    by code_simp+
  then obtain p q where p: "?m = Inr p" "Proposal_sign plain_crypto alice_key p = Inr q" "length (pp_encoded p) \<le> 1000"
    by (auto simp: is_ok_iff the_ok_def)
  have enc: "bytes_ok (pp_encoded p)" using p(3) by (simp add: bytes_ok_def)
  have wf: "header_wf (bl_header sample_block)" using sample_blocks_wf(3) by (simp add: block_wf_def)
  obtain bs where bs: "Proposal_toBytes q = Inr bs" "Proposal_fromBytes plain_crypto bs =
      Inr (q\<lparr>pp_proof := ?pf\<lparr>pf_votes := map forget_memo (pf_votes ?pf)\<rparr>\<rparr>)"
    using proposal_roundtrip [OF p(1,2) enc _ _ wf] sample_transfer_wf by (auto simp: Proof_empty_def)
  have "pp_proof q = ?pf" "pp_transactions q = [sample_transfer]" "pp_blockHeader q = bl_header sample_block"
    using p(1,2) by (auto simp: Proposal_new_def Proposal_sign_def rbind_eq_Inr)
  moreover from this have "q\<lparr>pp_proof := ?pf\<lparr>pf_votes := map forget_memo (pf_votes ?pf)\<rparr>\<rparr> = q"
    by (simp add: Proof_empty_def)
  ultimately show ?thesis using bs by auto
qed

end
