(* ===== verification/DataProps.thy ===== *)
theory DataProps
  imports Samples ConfigModel Merkle
begin

text \<open>
  Properties of the data: what a header commits to, the Merkle tree, amounts, the decoder and the
  configuration file.
\<close>

section \<open>Merkle trees\<close>

text \<open>
  C30. The root hash of a tree is the plain recursive hash of its leaves: neighbours are hashed in
  pairs until one value is left, an odd last one is carried up as it is, and no leaves give the empty
  hash.
\<close>

theorem merkle_tree_root: "getRootHash (MerkleTree_new C hashes) = merkle_root C hashes"
  by (rule getRootHash_spec)

text \<open>
  C31. A validated header determines its transactions: if two lists of the same length both validate
  against one header, they have the same transaction hashes in the same order, or else two different
  inputs with the same hash have been found among the ones hashed for the two roots.
\<close>

theorem header_binds_transactions:
  assumes "digest_ok C" "length txs = length txs'"
    and "validateTransactions C header txs txs net" "validateTransactions C header txs' txs' net"
  shows "map tx_hash txs = map tx_hash txs' \<or>
    collision C (root_inputs C (map tx_hash txs)) (root_inputs C (map tx_hash txs'))"
proof -
  have "\<forall>h \<in> set (map tx_hash txs) \<union> set (map tx_hash txs'). length h = 32"
    using assms(3,4) by (auto simp: validateTransactions_def list_all_iff Transaction_validate_def HASH_LEN_def)
  moreover have "merkle_root C (map tx_hash txs) = merkle_root C (map tx_hash txs')"
    using assms(3,4) by (simp add: validateTransactions_def computeTransactionsRoot_def getRootHash_spec)
  ultimately show ?thesis using assms(1,2) by (intro merkle_root_binding) simp_all
qed

theorem header_binds_transactions_witness:
  "\<exists>header. validateTransactions plain_crypto header [sample_transfer] [sample_transfer] DEVNET \<and>
     (map tx_hash [sample_transfer] = map tx_hash [sample_transfer] \<or>
      collision plain_crypto (root_inputs plain_crypto (map tx_hash [sample_transfer]))
        (root_inputs plain_crypto (map tx_hash [sample_transfer])))"
proof -
  let ?h = "(bl_header sample_block)\<lparr>bh_transactionsRoot := tx_hash sample_transfer\<rparr>"
  have "Transaction_validate plain_crypto DEVNET sample_transfer" by code_simp
  then have v: "validateTransactions plain_crypto ?h [sample_transfer] [sample_transfer] DEVNET"
    by (simp add: validateTransactions_def computeTransactionsRoot_def getRootHash_spec)
  with header_binds_transactions [OF plain_crypto_ok(1) refl v v] show ?thesis by blast
qed

text \<open>
  The proof of the second leaf of a tree with four leaves is the proof of the first one, and ends
  in the first leaf: after going left the index is lowered as if the walk had gone right.
\<close>

theorem merkle_proof_of_second_leaf:
  "getProof (MerkleTree_new C [a, b, c, d]) 1 = getProof (MerkleTree_new C [a, b, c, d]) 0 \<and>
   last (getProof (MerkleTree_new C [a, b, c, d]) 1) = a"
  by (simp add: getProof_def MerkleTree_new_def build_def build_loop.simps h256_two_def shl1_def)

section \<open>Amounts\<close>


text \<open>
  Showing an amount in a unit and reading it back gives the same amount, when at least as many
  fraction digits are kept as the unit has; with fewer the shown number is the amount rounded down.
\<close>

theorem amount_decimal_roundtrip:
  assumes "unit_exp u \<le> scale"
  shows "fromDecimal u (toDecimal u a scale) = Inr a \<and> toDecimal u a 0 = of_int \<lfloor>of_int (am a) / 10 ^ unit_exp u :: rat\<rfloor>"
  using fromDecimal_toDecimal [OF assms] by (simp add: toDecimal_def am_def)

theorem amount_decimal_roundtrip_witness:
  "fromDecimal SEM (toDecimal SEM (Amount 1234567891) 9) = Inr (Amount 1234567891)"
  using amount_decimal_roundtrip [of SEM 9 "Amount 1234567891"] by simp

section \<open>Reading untrusted bytes\<close>

text \<open>
  C33. Reading a byte array field stays inside the buffer: whatever the bytes are, a successful read
  returns a piece of the buffer that ends where the decoder now stands, moves the position forward, and
  changes nothing else of the decoder.
\<close>

theorem readBytes_in_bounds:
  assumes "readBytes d = Inr (bs, d')" "dec_index d \<le> dec_to d" "dec_to d \<le> length (dec_in d)"
  shows "dec_index d + length bs \<le> dec_index d' \<and> dec_index d' \<le> dec_to d \<and>
    bs = take (length bs) (drop (dec_index d' - length bs) (dec_in d)) \<and> d' = d\<lparr>dec_index := dec_index d'\<rparr>"
proof -
  have wf: "dec_wf d" using assms(2,3) by (simp add: dec_wf_def)
  note s = readBytes_slice [OF assms(1) wf]
  have "dec_to d' = dec_to d" by (subst s(5)) simp
  then have "dec_index d' \<le> dec_to d" using s(1) by (simp add: dec_wf_def)
  with s(2,4,5) show ?thesis by blast
qed

theorem readBytes_in_bounds_witness:
  "\<exists>bs d'. readBytes (SimpleDecoder_new [2, 7, 8, 9]) = Inr (bs, d') \<and> dec_index d' \<le> 4"
proof -
  have r: "readBytes (SimpleDecoder_new [2, 7, 8, 9]) = Inr ([7, 8], (SimpleDecoder_new [2, 7, 8, 9])\<lparr>dec_index := 3\<rparr>)"
    by code_simp
  have b: "dec_index (SimpleDecoder_new [2, 7, 8, 9]) \<le> dec_to (SimpleDecoder_new [2, 7, 8, 9])"
    "dec_to (SimpleDecoder_new [2, 7, 8, 9]) \<le> length (dec_in (SimpleDecoder_new [2, 7, 8, 9]))"
    "dec_to (SimpleDecoder_new [2, 7, 8, 9]) = 4"
    by code_simp+
  from readBytes_in_bounds [OF r b(1,2)] r b(3) show ?thesis by auto
qed

section \<open>Configuration\<close>

text \<open>
  Setting the number of outbound connections in the configuration file sets the number of inbound
  connections instead, and leaves the outbound number as it was.
\<close>

theorem outbound_option_sets_inbound:
  assumes "parseInt (trim v) = Inr n"
  shows "config_init (Some [(''net.maxOutboundConnections'', v)]) c = c\<lparr>cf_netMaxInboundConnections := n\<rparr> \<and>
    cf_netMaxOutboundConnections (config_init (Some [(''net.maxOutboundConnections'', v)]) c) = cf_netMaxOutboundConnections c"
  using assms by (simp add: config_init_def init_option_def with_int_def)

theorem outbound_option_sets_inbound_witness:
  "cf_netMaxInboundConnections (config_init (Some [(''net.maxOutboundConnections'', ''20'')]) sample_config) = 20"
proof -
  have "parseInt (trim ''20'') = Inr 20" by code_simp
  from outbound_option_sets_inbound [OF this, of sample_config] show ?thesis by simp
qed

end
