(* ===== verification/JsBase.thy ===== *)
theory JsBase
  imports Complex_Main Prelude
begin

text \<open>
  The part of JavaScript that the bundled API browser
  (\<open>src/main/resources/org/semux/api/v2_0_0/swagger-ui-bundle.js\<close>) relies on: strings as lists of
  16-bit code units, numbers as exact rationals with the special values, the conversion of
  a number to a 32-bit integer, exceptions, and the character classes of regular expressions.
  Letter case is that of ASCII; other code units have no case here.
\<close>

section \<open>Strings\<close>

type_synonym jschar = "16 word"
type_synonym jsstr = "jschar list"

definition ch :: "char \<Rightarrow> jschar" where
  "ch c = of_nat (of_char c)"

definition js :: "string \<Rightarrow> jsstr" where
  "js s = map ch s"

datatype jserror = TypeError | RangeError | URIError | PlainError

section \<open>Numbers\<close>

datatype jsnum = NaN | PosInf | NegInf | Fin rat

text \<open>\<open>ToInt32\<close>: the number without its fraction, modulo \<open>2 ^ 32\<close>.\<close>

definition toInt32 :: "rat \<Rightarrow> jint" where
  "toInt32 x = word_of_int (if x < 0 then \<lceil>x\<rceil> else \<lfloor>x\<rfloor>)"

text \<open>\<open>x >> 1\<close> and \<open>1 & x\<close>.\<close>

definition shr1 :: "rat \<Rightarrow> rat" where
  "shr1 x = of_int (sint (toInt32 x) div 2)"

definition and1 :: "rat \<Rightarrow> bool" where
  "and1 x = odd (sint (toInt32 x))"

text \<open>\<open>substr(0, n)\<close>, with the bound cut to an integer.\<close>

definition substr0 :: "rat \<Rightarrow> jsstr \<Rightarrow> jsstr" where
  "substr0 n s = take (nat \<lfloor>n\<rfloor>) s"

lemma toInt32_of_nat: "k < 2 ^ 31 \<Longrightarrow> sint (toInt32 (of_nat k)) = int k"
  using sint_of_int_jint [of "int k"] by (simp add: toInt32_def)

lemma shr1_of_nat: "k < 2 ^ 31 \<Longrightarrow> shr1 (of_nat k) = of_nat (k div 2)"
  unfolding shr1_def by (simp only: toInt32_of_nat) (metis of_int_of_nat_eq of_nat_numeral zdiv_int)

lemma and1_of_nat: "k < 2 ^ 31 \<Longrightarrow> and1 (of_nat k) \<longleftrightarrow> odd k"
  by (simp add: and1_def toInt32_of_nat)

lemma substr0_of_nat [simp]: "substr0 (of_nat n) s = take n s"
  by (simp add: substr0_def)

lemma shr1_less: "1 < t \<Longrightarrow> \<lfloor>shr1 t\<rfloor> < \<lfloor>t\<rfloor>"
proof -
  assume t: "1 < t"
  show ?thesis
  proof (cases "\<lfloor>t\<rfloor> < 2 ^ 31")
    case True
    have "sint (toInt32 t) = \<lfloor>t\<rfloor>" using t True by (simp add: toInt32_def sint_of_int_jint)
    with t show ?thesis by (simp add: shr1_def) linarith
  next
    case False
    then have "2 ^ 31 \<le> \<lfloor>t\<rfloor>" by linarith
    moreover have "sint (toInt32 t) div 2 < 2 ^ 31" using sint_range_jint(2) [of "toInt32 t"] by simp
    ultimately show ?thesis by (simp only: shr1_def floor_of_int)
  qed
qed

section \<open>Characters\<close>

definition is_upper :: "jschar \<Rightarrow> bool" where "is_upper u \<longleftrightarrow> 65 \<le> u \<and> u \<le> 90"
definition is_lower :: "jschar \<Rightarrow> bool" where "is_lower u \<longleftrightarrow> 97 \<le> u \<and> u \<le> 122"
definition digit_unit :: "jschar \<Rightarrow> bool" where "digit_unit u \<longleftrightarrow> 48 \<le> u \<and> u \<le> 57"

definition is_alnum :: "jschar \<Rightarrow> bool" where
  "is_alnum u \<longleftrightarrow> is_upper u \<or> is_lower u \<or> digit_unit u"

definition to_upper :: "jschar \<Rightarrow> jschar" where
  "to_upper u = (if is_lower u then u - 32 else u)"

definition to_lower :: "jschar \<Rightarrow> jschar" where
  "to_lower u = (if is_upper u then u + 32 else u)"

lemma case_nat:
  "is_upper u \<longleftrightarrow> unat u \<in> {65..90}" "is_lower u \<longleftrightarrow> unat u \<in> {97..122}" "digit_unit u \<longleftrightarrow> unat u \<in> {48..57}"
  by (auto simp: is_upper_def is_lower_def digit_unit_def word_le_nat_alt)

lemma unat_to_lower: "unat (to_lower u) = (if unat u \<in> {65..90} then unat u + 32 else unat u)"
  by (auto simp: to_lower_def case_nat unat_word_ariths)

lemma unat_to_upper: "unat (to_upper u) = (if unat u \<in> {97..122} then unat u - 32 else unat u)"
  by (auto simp: to_upper_def case_nat unat_sub word_le_nat_alt)

lemmas case_simps = case_nat unat_to_lower unat_to_upper

lemma case_facts [simp]:
  "is_upper u \<Longrightarrow> to_upper (to_lower u) = u"
  "is_lower u \<Longrightarrow> to_lower u = u"
  "\<not> is_upper u \<Longrightarrow> to_lower u = u"
  "\<not> is_lower u \<Longrightarrow> to_upper u = u"
  "\<not> is_upper (to_lower u)"
  "\<not> is_lower (to_upper u)"
  "is_alnum (to_lower u) = is_alnum u"
  "is_alnum (to_upper u) = is_alnum u"
  "is_upper u \<Longrightarrow> \<not> is_lower u"
  by (auto simp: is_alnum_def case_simps word_unat_eq_iff)

end
