(* ===== verification/JsStrings.thy ===== *)
theory JsStrings
  imports JsBase
begin

text \<open>
  The string functions bundled in \<open>swagger-ui-bundle.js\<close>: \<open>repeat-string\<close> with its cache, the
  polyfill of \<open>String.prototype.repeat\<close>, \<open>pascalcase\<close>, \<open>classnames\<close> and \<open>fromCodePoint\<close>. The loops are
  followed statement by statement; the lemmas show that repetition by doubling gives the copies
  asked for whatever the cache holds, and where the polyfill does not.
\<close>

text \<open>An argument that is or is not a string.\<close>

datatype jsarg = Str jsstr | NotString

definition copies :: "nat \<Rightarrow> jsstr \<Rightarrow> jsstr" where
  "copies k s = concat (replicate k s)"

lemma copies_simps [simp]: "copies 0 s = []" "copies (Suc k) s = s @ copies k s" "copies 1 s = s" "copies k [] = []"
  by (simp_all add: copies_def)

lemma copies_add: "copies (j + k) s = copies j s @ copies k s"
  by (simp add: copies_def replicate_add)

lemma length_copies [simp]: "length (copies k s) = length s * k"
  by (induction k) simp_all

lemma take_copies: "k \<le> m \<Longrightarrow> take (length s * k) (copies m s) = copies k s"
  by (metis copies_add le_add_diff_inverse length_copies append_eq_conv_conj)

section \<open>repeat-string\<close>

record repeat_cache =
  rc_str :: "jsstr option"
  rc_out :: jsstr

definition repeat_cache_new :: repeat_cache where
  "repeat_cache_new = \<lparr>rc_str = None, rc_out = []\<rparr>"

function repeat_loop :: "rat \<Rightarrow> rat \<Rightarrow> jsstr \<Rightarrow> jsstr \<Rightarrow> jsstr \<times> jsstr" where
  "repeat_loop n t e out =
     (if of_nat (length out) < n \<and> 1 < t
      then repeat_loop n (shr1 t) (e @ e) (if and1 t then out @ e else out)
      else (e, out))"
  by pat_completeness auto
termination
proof (relation "measure (\<lambda>(n, t, e, out). nat \<lfloor>t\<rfloor>)", goal_cases)
  case (2 n t e out)
  then have "\<lfloor>shr1 t\<rfloor> < \<lfloor>t\<rfloor>" "0 < \<lfloor>t\<rfloor>" by (auto intro: shr1_less)
  then show ?case by simp
qed simp

declare repeat_loop.simps [simp del]

definition repeat_string :: "jsarg \<Rightarrow> rat \<Rightarrow> repeat_cache \<Rightarrow> (jserror + jsstr) \<times> repeat_cache" where
  "repeat_string v t c =
     (case v of
        NotString \<Rightarrow> (Inl TypeError, c)
      | Str e \<Rightarrow>
          if t = 1 then (Inr e, c)
          else if t = 2 then (Inr (e @ e), c)
          else
            let n = of_nat (length e) * t;
                fill = (\<lambda>out. let (e', out) = repeat_loop n t e out; out = substr0 n (out @ e')
                              in (Inr out, \<lparr>rc_str = Some e, rc_out = out\<rparr>))
            in if rc_str c \<noteq> Some e then fill []
               else if of_nat (length (rc_out c)) \<ge> n then (Inr (substr0 n (rc_out c)), c)
               else fill (rc_out c))"

text \<open>What a cache filled by earlier calls holds: some number of copies of its string.\<close>

definition cache_ok :: "repeat_cache \<Rightarrow> bool" where
  "cache_ok c = (case rc_str c of None \<Rightarrow> rc_out c = [] | Some e \<Rightarrow> \<exists>k. rc_out c = copies k e)"

lemma double_half: "(j + j) * (k div 2) = j * (2 * (k div 2 :: nat))"
  by (simp only: distrib_right mult_2 distrib_left)

lemma odd_half: "odd k \<Longrightarrow> j * k = j + j * (2 * (k div 2 :: nat))"
  by (metis mult_Suc_right odd_two_times_div_two_succ Suc_eq_plus1)

lemma repeat_loop_copies:
  assumes "k < 2 ^ 31" "T \<le> m + j * k"
  shows "\<exists>j' m'. repeat_loop (of_nat (length s * T)) (of_nat k) (copies j s) (copies m s) = (copies j' s, copies m' s) \<and>
    (k = 0 \<or> s = [] \<or> T \<le> m' + j')"
  using assms
proof (induction k arbitrary: m j rule: less_induct)
  case (less k)
  show ?case
  proof (cases "length s * m < length s * T \<and> 1 < k")
    case True
    have k: "k < 2 ^ 31" "0 < k div 2" using True less.prems by simp_all
    have h: "k div 2 < k" "k div 2 < 2 ^ 31" using k by linarith+
    let ?m = "if odd k then m + j else m"
    have sum: "?m + (j + j) * (k div 2) = m + j * k"
      by (cases "odd k") (simp_all only: double_half odd_half even_two_times_div_two if_True if_False add.assoc not_not simp_thms)
    have le: "T \<le> ?m + (j + j) * (k div 2)" unfolding sum by (rule less.prems(2))
    have "repeat_loop (of_nat (length s * T)) (of_nat k) (copies j s) (copies m s) =
        repeat_loop (of_nat (length s * T)) (of_nat (k div 2)) (copies (j + j) s) (copies ?m s)"
      using True k by (subst repeat_loop.simps) (simp add: shr1_of_nat and1_of_nat copies_add del: of_nat_mult)
    moreover obtain j' m' where "repeat_loop (of_nat (length s * T)) (of_nat (k div 2)) (copies (j + j) s) (copies ?m s)
        = (copies j' s, copies m' s)" "k div 2 = 0 \<or> s = [] \<or> T \<le> m' + j'"
      using less.IH [OF h le] by (auto simp del: of_nat_mult)
    ultimately show ?thesis using k by auto
  next
    case False
    have "(copies j s, copies m s) = repeat_loop (of_nat (length s * T)) (of_nat k) (copies j s) (copies m s)"
      using False by (subst repeat_loop.simps) (auto simp del: of_nat_mult)
    moreover have "k = 0 \<or> s = [] \<or> T \<le> m + j"
      using False less.prems(2) by (cases "k = 1") auto
    ultimately show ?thesis by metis
  qed
qed

lemma repeat_fill:
  assumes "k < 2 ^ 31"
  shows "let (e', out) = repeat_loop (of_nat (length s * k)) (of_nat k) s (copies m s)
         in substr0 (of_nat (length s * k)) (out @ e') = copies k s"
proof -
  obtain j' m' where l: "repeat_loop (of_nat (length s * k)) (of_nat k) s (copies m s) = (copies j' s, copies m' s)"
    and le: "k = 0 \<or> s = [] \<or> k \<le> m' + j'"
    using repeat_loop_copies [of k k m 1 s] assms by auto
  have "take (length s * k) (copies m' s @ copies j' s) = copies k s"
    using le take_copies [of k "m' + j'" s] by (auto simp: copies_add)
  with l show ?thesis by (simp del: of_nat_mult)
qed

lemma repeat_string_copies:
  assumes "cache_ok c" "k < 2 ^ 31"
  shows "fst (repeat_string (Str s) (of_nat k) c) = Inr (copies k s) \<and> cache_ok (snd (repeat_string (Str s) (of_nat k) c))"
proof -
  consider "k = 1" | "k = 2" | "k \<noteq> 1" "k \<noteq> 2" by blast
  then show ?thesis
  proof cases
    case 3
    define fill where "fill = (\<lambda>out. let (e', out) = repeat_loop (of_nat (length s * k)) (of_nat k) s out;
        out = substr0 (of_nat (length s * k)) (out @ e')
      in (Inr out :: jserror + jsstr, \<lparr>rc_str = Some s, rc_out = out\<rparr>))"
    have fill: "fill (copies m s) = (Inr (copies k s), \<lparr>rc_str = Some s, rc_out = copies k s\<rparr>)" for m
      using repeat_fill [OF assms(2), of s m] by (simp add: fill_def split_def Let_def)
    have eq: "repeat_string (Str s) (of_nat k) c =
        (if rc_str c \<noteq> Some s then fill []
         else if of_nat (length (rc_out c)) \<ge> (of_nat (length s * k) :: rat)
         then (Inr (substr0 (of_nat (length s * k)) (rc_out c)), c)
         else fill (rc_out c))"
      using 3 of_nat_eq_iff [where 'a = rat, of k 1] of_nat_eq_iff [where 'a = rat, of k 2]
      by (simp add: repeat_string_def fill_def Let_def)
    show ?thesis
    proof (cases "rc_str c = Some s")
      case True
      then obtain m where m: "rc_out c = copies m s" using assms(1) by (auto simp: cache_ok_def)
      show ?thesis
      proof (cases "length s * k \<le> length s * m")
        case True
        then have "take (length s * k) (copies m s) = copies k s"
          by (cases "s = []") (auto intro: take_copies)
        with True \<open>rc_str c = Some s\<close> m assms(1) show ?thesis
          unfolding eq m substr0_of_nat length_copies of_nat_le_iff by simp
      next
        case False
        with \<open>rc_str c = Some s\<close> fill [of m] show ?thesis
          unfolding eq m length_copies of_nat_le_iff by (auto simp: cache_ok_def)
      qed
    next
      case False
      then show ?thesis using fill [of 0] unfolding eq by (auto simp: cache_ok_def)
    qed
  qed (use assms(1) in \<open>simp_all add: repeat_string_def numeral_2_eq_2\<close>)
qed

section \<open>The polyfill of \<open>String.prototype.repeat\<close>\<close>

definition rem2_is_1 :: "rat \<Rightarrow> bool" where
  "rem2_is_1 n \<longleftrightarrow> 0 \<le> n \<and> n - 2 * of_int \<lfloor>n / 2\<rfloor> = 1"

partial_function (option) polyfill_loop :: "rat \<Rightarrow> jsstr \<Rightarrow> jsstr \<Rightarrow> jsstr option" where
  "polyfill_loop n t r =
     (if n = 0 then Some r
      else polyfill_loop (shr1 n) (if 1 < n then t @ t else t) (if rem2_is_1 n then r @ t else r))"

text \<open>\<open>this\<close> is \<open>None\<close> for \<open>null\<close> and \<open>undefined\<close>; the argument is a number.\<close>

definition polyfill_repeat :: "jsstr option \<Rightarrow> jsnum \<Rightarrow> (jserror + jsstr) option" where
  "polyfill_repeat this e =
     (case this of
        None \<Rightarrow> Some (Inl TypeError)
      | Some t \<Rightarrow>
          (case e of
             NaN \<Rightarrow> map_option Inr (polyfill_loop 0 t [])
           | PosInf \<Rightarrow> Some (Inl RangeError)
           | NegInf \<Rightarrow> Some (Inl RangeError)
           | Fin n \<Rightarrow> if n < 0 then Some (Inl RangeError) else map_option Inr (polyfill_loop n t [])))"

lemma rem2_of_nat: "rem2_is_1 (of_nat k) \<longleftrightarrow> odd k"
proof -
  have "\<lfloor>of_nat k / (2 :: rat)\<rfloor> = int (k div 2)"
    by (metis floor_divide_of_nat_eq of_nat_numeral)
  moreover have "rat_of_nat k = 2 * of_nat (k div 2) + of_nat (k mod 2)"
    by (metis mult_div_mod_eq of_nat_add of_nat_mult of_nat_numeral)
  ultimately show ?thesis by (simp add: rem2_is_1_def odd_iff_mod_2_eq_one)
qed

lemma polyfill_loop_copies:
  assumes "k < 2 ^ 31"
  shows "polyfill_loop (of_nat k) (copies j s) r = Some (r @ copies (j * k) s)"
  using assms
proof (induction k arbitrary: j r rule: less_induct)
  case (less k)
  show ?case
  proof (cases "k = 0")
    case False
    consider "k = 1" | "1 < k" using False by linarith
    then show ?thesis
    proof cases
      case 1
      then show ?thesis
        using shr1_of_nat [of 1] rem2_of_nat [of 1] polyfill_loop.simps [of 0] by (subst polyfill_loop.simps) simp
    next
      case 2
      have half: "copies ((j + j) * (k div 2)) s = copies (j * (2 * (k div 2))) s" by (simp only: double_half)
      have "polyfill_loop (of_nat k) (copies j s) r =
          polyfill_loop (of_nat (k div 2)) (copies (j + j) s) (if odd k then r @ copies j s else r)"
        using 2 less.prems by (subst polyfill_loop.simps) (simp add: shr1_of_nat rem2_of_nat copies_add)
      also have "\<dots> = Some ((if odd k then r @ copies j s else r) @ copies (j * (2 * (k div 2))) s)"
        using less.IH [of "k div 2"] 2 less.prems unfolding half [symmetric] by simp
      also have "\<dots> = Some (r @ copies (j * k) s)"
      proof (cases "odd k")
        case True
        then show ?thesis using odd_half [OF True, of j] by (simp only: copies_add) simp
      qed simp
      finally show ?thesis .
    qed
  qed (simp add: polyfill_loop.simps)
qed

text \<open>A negative counter never reaches zero: the shift keeps the sign.\<close>

lemma shr1_negative: "- (2 ^ 31) \<le> i \<Longrightarrow> i < 0 \<Longrightarrow> shr1 (of_int i) = of_int (i div 2)"
  by (simp add: shr1_def toInt32_def sint_of_int_jint)

lemma polyfill_loop_stuck: "polyfill_loop (- 1) t r = None"
proof (rule ccontr)
  have "polyfill_loop n t r = Some y \<Longrightarrow> n \<noteq> - 1" for n y
  proof (induction rule: polyfill_loop.raw_induct [rotated, consumes 1])
    case (1 f n t r y)
    then show ?case using shr1_negative [of "- 1"] by (auto split: if_splits)
  qed
  moreover assume "polyfill_loop (- 1) t r \<noteq> None"
  ultimately show False by blast
qed

lemma polyfill_loop_negative:
  assumes "- (2 ^ 31) \<le> i" "i < 0"
  shows "polyfill_loop (of_int i) t r = None"
  using assms
proof (induction "nat (- i)" arbitrary: i t r rule: less_induct)
  case less
  show ?case
  proof (cases "i = - 1")
    case True
    then show ?thesis using polyfill_loop_stuck by simp
  next
    case False
    then have "nat (- (i div 2)) < nat (- i)" "i div 2 < 0" "- (2 ^ 31) \<le> i div 2"
      using less.prems by linarith+
    with less.hyps [of "i div 2"] less.prems show ?thesis
      by (subst polyfill_loop.simps) (simp add: shr1_negative)
  qed
qed

lemma polyfill_overflow: "polyfill_loop (2 ^ 31) t r = None"
  using polyfill_loop_negative [of "- (2 ^ 30)"]
  by (subst polyfill_loop.simps) (simp add: shr1_def toInt32_def)

end
