(* ===== verification/JsNames.thy ===== *)
theory JsNames
  imports JsStrings
begin

text \<open>
  \<open>pascalcase\<close>, \<open>classnames\<close> and \<open>fromCodePoint\<close> of \<open>swagger-ui-bundle.js\<close>. Regular expressions are
  written out as the scans they stand for. The lemmas give the alphabet and idempotence of the
  first, the list of class names the second joins, and the decoding that inverts the third.
\<close>

section \<open>pascalcase\<close>

text \<open>\<open>e.replace(/([A-Z])/g, " $1")\<close>.\<close>

fun space_upper :: "jsstr \<Rightarrow> jsstr" where
  "space_upper [] = []"
| "space_upper (u # us) = (if is_upper u then 32 # u # space_upper us else u # space_upper us)"

text \<open>\<open>e.replace(/^[\W_]+|[\W_]+$/g, "")\<close>.\<close>

definition strip_separators :: "jsstr \<Rightarrow> jsstr" where
  "strip_separators s = rev (dropWhile (\<lambda>u. \<not> is_alnum u) (rev (dropWhile (\<lambda>u. \<not> is_alnum u) s)))"

text \<open>\<open>e.replace(/[\W_]+(\w|$)/g, (e, t) => t.toUpperCase())\<close>.\<close>

function camel :: "jsstr \<Rightarrow> jsstr" where
  "camel [] = []"
| "camel (u # us) =
     (if is_alnum u then u # camel us
      else (case dropWhile (\<lambda>u. \<not> is_alnum u) us of
              [] \<Rightarrow> []
            | v # vs \<Rightarrow> to_upper v # camel vs))"
  by pat_completeness auto
termination
proof (relation "measure length", goal_cases)
  case (3 u us v vs)
  then show ?case using length_dropWhile_le [of "\<lambda>u. \<not> is_alnum u" us] by simp
qed simp_all

definition capitalise :: "jsstr \<Rightarrow> jsstr" where
  "capitalise s = (case s of [] \<Rightarrow> [] | u # us \<Rightarrow> to_upper u # us)"

definition pascalcase :: "jsarg \<Rightarrow> jserror + jsstr" where
  "pascalcase v =
     (case v of
        NotString \<Rightarrow> Inl TypeError
      | Str e \<Rightarrow>
          let e = space_upper e in
          if length e = 1 then Inr (map to_upper e)
          else Inr (camel (capitalise (map to_lower (strip_separators e)))))"

text \<open>The words that result: letters and digits only, not starting with a small letter.\<close>

definition pascal_form :: "jsstr \<Rightarrow> bool" where
  "pascal_form s \<longleftrightarrow> list_all is_alnum s \<and> (s \<noteq> [] \<longrightarrow> \<not> is_lower (hd s))"

lemma space_upper_Nil [simp]: "space_upper s = [] \<longleftrightarrow> s = []"
  by (cases s) simp_all

lemma camel_alnum: "list_all is_alnum (camel s)"
proof (induction s rule: camel.induct)
  case (2 u us)
  then show ?case
    by (auto split: list.split) (metis dropWhile_eq_Cons_conv)
qed simp

lemma hd_camel: "s \<noteq> [] \<Longrightarrow> is_alnum (hd s) \<Longrightarrow> camel s \<noteq> [] \<and> hd (camel s) = hd s"
  by (cases s) auto

lemma strip_alnum: "strip_separators s = [] \<or> is_alnum (hd (strip_separators s))"
proof (cases "dropWhile (\<lambda>u. \<not> is_alnum u) s")
  case (Cons v vs)
  then have v: "is_alnum v" by (auto simp: dropWhile_eq_Cons_conv)
  then have "strip_separators s = v # rev (dropWhile (\<lambda>u. \<not> is_alnum u) (rev vs))"
    unfolding strip_separators_def Cons by (auto simp: dropWhile_append)
  with v show ?thesis by simp
next
  case Nil
  show ?thesis unfolding strip_separators_def Nil by simp
qed

lemma pascalcase_form:
  assumes "pascalcase (Str s) = Inr r" "length (space_upper s) \<noteq> 1"
  shows "pascal_form r"
proof -
  let ?w = "capitalise (map to_lower (strip_separators (space_upper s)))"
  have r: "r = camel ?w" using assms by (simp add: pascalcase_def Let_def)
  have "?w = [] \<or> is_alnum (hd ?w) \<and> \<not> is_lower (hd ?w)"
    using strip_alnum [of "space_upper s"] by (cases "strip_separators (space_upper s)") (simp_all add: capitalise_def)
  then show ?thesis
    unfolding pascal_form_def r using camel_alnum hd_camel [of ?w] by (cases "?w = []") auto
qed

text \<open>Splitting such a word at its capitals and joining it again changes nothing.\<close>

lemma camel_split: "list_all is_alnum s \<Longrightarrow> camel (map to_lower (space_upper s)) = s"
proof (induction s)
  case (Cons u us)
  have "\<not> is_alnum 32" by (simp add: is_alnum_def is_upper_def is_lower_def digit_unit_def)
  moreover have "to_lower 32 = 32" by (simp add: to_lower_def is_upper_def)
  ultimately show ?case using Cons by auto
qed simp

lemma strip_split:
  assumes "list_all is_alnum (u # us)"
  shows "strip_separators (space_upper (u # us)) = u # space_upper us"
proof -
  have blank: "\<not> is_alnum 32" by (simp add: is_alnum_def is_upper_def is_lower_def digit_unit_def)
  have front: "dropWhile (\<lambda>u. \<not> is_alnum u) (space_upper (u # us)) = u # space_upper us"
    using assms blank by auto
  have "is_alnum (last (space_upper s))" if "list_all is_alnum s" "s \<noteq> []" for s
    using that by (induction s rule: space_upper.induct) auto
  then have "is_alnum (last (u # space_upper us))"
    using assms by (cases us) auto
  then have "is_alnum (hd (rev (u # space_upper us)))" by (simp only: hd_rev)
  then have "dropWhile (\<lambda>u. \<not> is_alnum u) (rev (u # space_upper us)) = rev (u # space_upper us)"
    by (metis dropWhile_eq_self_iff)
  then show ?thesis unfolding strip_separators_def front by simp
qed

lemma pascalcase_stable:
  assumes "pascal_form s"
  shows "pascalcase (Str s) = Inr s"
proof (cases s)
  case (Cons u us)
  have u: "is_alnum u" "\<not> is_lower u" "list_all is_alnum us" using assms Cons by (auto simp: pascal_form_def)
  then have up: "to_upper (to_lower u) = u" by (cases "is_upper u") simp_all
  show ?thesis
  proof (cases "length (space_upper s) = 1")
    case True
    then show ?thesis using u by (auto simp: pascalcase_def Cons split: if_splits)
  next
    case False
    have "camel (u # map to_lower (space_upper us)) = u # us" using u camel_split by simp
    with False show ?thesis
      using u strip_split [of u us] by (simp add: pascalcase_def Let_def Cons capitalise_def up del: space_upper.simps)
  qed
qed (simp add: pascalcase_def strip_separators_def capitalise_def)

section \<open>classnames\<close>

datatype cn =
    CUndefined
  | CNull
  | CBool bool
  | CNum int
  | CStr jsstr
  | CArray "cn list"
  | CObject "(jsstr \<times> cn) list"
  | CFunction

fun truthy :: "cn \<Rightarrow> bool" where
  "truthy CUndefined = False"
| "truthy CNull = False"
| "truthy (CBool b) = b"
| "truthy (CNum n) = (n \<noteq> 0)"
| "truthy (CStr s) = (s \<noteq> [])"
| "truthy _ = True"

fun decimal :: "nat \<Rightarrow> jsstr" where
  "decimal n = (if n < 10 then [48 + of_nat n] else decimal (n div 10) @ [48 + of_nat (n mod 10)])"

declare decimal.simps [simp del]

definition num_string :: "int \<Rightarrow> jsstr" where
  "num_string n = (if n < 0 then 45 # decimal (nat (- n)) else decimal (nat n))"

fun join :: "jsstr list \<Rightarrow> jsstr" where
  "join [] = []"
| "join [s] = s"
| "join (s # ss) = s @ 32 # join ss"

fun class_parts :: "cn list \<Rightarrow> jsstr list" where
  "class_parts [] = []"
| "class_parts (r # rs) =
     (if truthy r then
        (case r of
           CStr s \<Rightarrow> [s]
         | CNum n \<Rightarrow> [num_string n]
         | CArray xs \<Rightarrow> [join (class_parts xs)]
         | CObject ps \<Rightarrow> map fst (filter (\<lambda>(k, v). truthy v) ps)
         | _ \<Rightarrow> [])
      else []) @ class_parts rs"

definition classNames :: "cn list \<Rightarrow> jsstr" where
  "classNames args = join (class_parts args)"

text \<open>What the result should list: the words of the truthy strings, numbers and keys, in order.\<close>

function words :: "jsstr \<Rightarrow> jsstr list" where
  "words s = (case dropWhile (\<lambda>u. u = 32) s of
      [] \<Rightarrow> []
    | u # us \<Rightarrow> (u # takeWhile (\<lambda>u. u \<noteq> 32) us) # words (dropWhile (\<lambda>u. u \<noteq> 32) us))"
  by pat_completeness auto
termination
proof (relation "measure length", goal_cases)
  case (2 s u us)
  have "length (dropWhile (\<lambda>u. u \<noteq> 32) us) < length (dropWhile (\<lambda>u. u = 32) s)"
    using length_dropWhile_le [of "\<lambda>u. u \<noteq> 32" us] 2 by simp
  also have "\<dots> \<le> length s" by (rule length_dropWhile_le)
  finally show ?case by simp
qed simp

declare words.simps [simp del]

fun class_tokens :: "cn \<Rightarrow> jsstr list" where
  "class_tokens (CStr s) = words s"
| "class_tokens (CNum n) = (if n = 0 then [] else words (num_string n))"
| "class_tokens (CArray xs) = concat (map class_tokens xs)"
| "class_tokens (CObject ps) = concat (map (\<lambda>(k, v). if truthy v then words k else []) ps)"
| "class_tokens _ = []"

lemma words_Nil [simp]: "words [] = []"
  by (simp add: words.simps)

lemma words_blank [simp]: "words (32 # s) = words s"
  by (simp add: words.simps [of "32 # s"] words.simps [of s])

lemma words_append: "words (a @ 32 # b) = words a @ words b"
proof (induction a rule: words.induct)
  case (1 a)
  show ?case
  proof (cases "dropWhile (\<lambda>u. u = 32) a")
    case Nil
    then have "a = replicate (length a) 32" by (simp add: dropWhile_eq_Nil_conv replicate_eqI)
    then obtain n where a: "a = replicate n 32" by blast
    have "words (replicate n 32 @ 32 # b) = words b" by (induction n) simp_all
    moreover have "words (replicate n 32) = []" by (induction n) simp_all
    ultimately show ?thesis using a by simp
  next
    case (Cons u us)
    have front: "dropWhile (\<lambda>u. u = 32) (a @ 32 # b) = u # us @ 32 # b"
      using Cons by (metis append_Cons dropWhile_append dropWhile_eq_Nil_conv list.distinct(1))
    show ?thesis
      using 1 [OF Cons] unfolding words.simps [of "a @ 32 # b"] words.simps [of a] front Cons
      by (cases "32 \<in> set us") (auto simp: dropWhile_append takeWhile_append takeWhile_eq_all_conv [THEN iffD2]
        dropWhile_eq_Nil_conv [THEN iffD2])
  qed
qed

lemma words_join: "words (join ss) = concat (map words ss)"
  by (induction ss rule: join.induct) (simp_all add: words_append)

lemma class_parts_tokens: "concat (map words (class_parts rs)) = concat (map class_tokens rs)"
proof (induction rs rule: class_parts.induct)
  case (2 r rs)
  have obj: "concat (map words (map fst (filter (\<lambda>(k, v). truthy v) ps))) =
      concat (map (\<lambda>(k, v). if truthy v then words k else []) ps)" for ps
    by (induction ps) auto
  show ?case using 2 obj by (cases r) (auto simp: words_join)
qed simp

section \<open>fromCodePoint\<close>

text \<open>The polyfill: code units are collected in \<open>n\<close> and appended to the result in batches.\<close>

definition units_of_point :: "nat \<Rightarrow> jsstr" where
  "units_of_point u =
     (if u \<le> 65535 then [of_nat u]
      else let u = u - 65536 in [of_nat (55296 + u div 1024), of_nat (u mod 1024 + 56320)])"

fun from_code_points :: "jsnum list \<Rightarrow> jsstr \<Rightarrow> jsstr \<Rightarrow> jsstr" where
  "from_code_points [] n s = s"
| "from_code_points (u # us) n s =
     (case u of
        Fin x \<Rightarrow>
          if x < 0 \<or> x > 1114111 \<or> of_int \<lfloor>x\<rfloor> \<noteq> x then [65533]
          else
            let n = n @ units_of_point (nat \<lfloor>x\<rfloor>)
            in if us = [] \<or> length n > 16384 then from_code_points us [] (s @ n)
               else from_code_points us n s
      | _ \<Rightarrow> [65533])"

definition fromCodePoint :: "jsnum list \<Rightarrow> jsstr" where
  "fromCodePoint args = from_code_points args [] []"

text \<open>Reading the code points back.\<close>

fun code_points :: "jsstr \<Rightarrow> nat list" where
  "code_points [] = []"
| "code_points [u] = [unat u]"
| "code_points (u # v # us) =
     (if unat u \<in> {55296..56319} \<and> unat v \<in> {56320..57343}
      then (65536 + (unat u - 55296) * 1024 + (unat v - 56320)) # code_points us
      else unat u # code_points (v # us))"

definition scalar_value :: "nat \<Rightarrow> bool" where
  "scalar_value p \<longleftrightarrow> p \<le> 1114111 \<and> p \<notin> {55296..57343}"

lemma unit_unat: "n < 65536 \<Longrightarrow> unat (of_nat n :: jschar) = n"
  by (simp add: unat_of_nat take_bit_nat_eq_self)

lemma from_code_points_batches:
  assumes "\<forall>p \<in> set ps. p \<le> 1114111" "ps = [] \<longrightarrow> n = []"
  shows "from_code_points (map (\<lambda>p. Fin (of_nat p)) ps) n s = s @ n @ concat (map units_of_point ps)"
  using assms
proof (induction ps arbitrary: n s)
  case (Cons p ps)
  have p: "rat_of_nat p \<le> 1114111" using Cons.prems(1) of_nat_le_iff [where 'a = rat, of p 1114111] by simp
  then have "from_code_points (map (\<lambda>p. Fin (of_nat p)) (p # ps)) n s =
      (if ps = [] \<or> length (n @ units_of_point p) > 16384
       then from_code_points (map (\<lambda>p. Fin (of_nat p)) ps) [] (s @ n @ units_of_point p)
       else from_code_points (map (\<lambda>p. Fin (of_nat p)) ps) (n @ units_of_point p) s)"
    by (simp add: Let_def)
  then show ?case using Cons by simp
qed simp

lemma code_points_unit:
  assumes "scalar_value p"
  shows "code_points (units_of_point p @ s) = p # code_points s"
proof (cases "p \<le> 65535")
  case True
  then have "unat (of_nat p :: jschar) = p" by (simp add: unit_unat)
  with True assms show ?thesis by (cases s) (auto simp: units_of_point_def scalar_value_def)
next
  case False
  let ?q = "p - 65536"
  have q: "?q < 1024 * 1024" using assms by (auto simp: scalar_value_def)
  then have d: "?q div 1024 < 1024" by (simp add: div_less_iff_less_mult)
  have hi: "unat (of_nat (55296 + ?q div 1024) :: jschar) = 55296 + ?q div 1024"
    using d by (intro unit_unat) simp
  have "?q mod 1024 < 1024" by simp
  then have lo: "unat (of_nat (?q mod 1024 + 56320) :: jschar) = ?q mod 1024 + 56320"
    by (intro unit_unat) simp
  have "65536 + (?q div 1024 * 1024 + ?q mod 1024) = p"
    using False unfolding div_mult_mod_eq by simp
  moreover have "?q mod 1024 \<le> 1023" using \<open>?q mod 1024 < 1024\<close> by linarith
  ultimately show ?thesis using False d hi lo
    by (simp add: units_of_point_def Let_def del: of_nat_add)
qed

lemma fromCodePoint_concat:
  "\<forall>p \<in> set ps. p \<le> 1114111 \<Longrightarrow> fromCodePoint (map (\<lambda>p. Fin (of_nat p)) ps) = concat (map units_of_point ps)"
  using from_code_points_batches [of ps "[]" "[]"] by (simp add: fromCodePoint_def)

end
