(* ===== verification/JsUri.thy ===== *)
theory JsUri
  imports JsNames
begin

text \<open>
  \<open>encodeURIComponent\<close> and \<open>decodeURIComponent\<close> of the standard library, the default encoder and
  decoder of the cookie module: UTF-8 with percent escapes. Decoding inverts encoding.
\<close>

definition uri_unreserved :: "jschar \<Rightarrow> bool" where
  "uri_unreserved u \<longleftrightarrow> is_alnum u \<or> u \<in> set (js ''-_.!~*()'') \<or> u = 39"

fun utf8_of_point :: "nat \<Rightarrow> nat list" where
  "utf8_of_point p =
     (if p < 0x80 then [p]
      else if p < 0x800 then [0xC0 + p div 64, 0x80 + p mod 64]
      else if p < 0x10000 then [0xE0 + p div 4096, 0x80 + p div 64 mod 64, 0x80 + p mod 64]
      else [0xF0 + p div 262144, 0x80 + p div 4096 mod 64, 0x80 + p div 64 mod 64, 0x80 + p mod 64])"

definition hex_unit :: "nat \<Rightarrow> jschar" where
  "hex_unit d = (if d < 10 then of_nat (48 + d) else of_nat (55 + d))"

definition escape :: "nat \<Rightarrow> jsstr" where
  "escape b = [37, hex_unit (b div 16), hex_unit (b mod 16)]"

definition high_surrogate :: "jschar \<Rightarrow> bool" where
  "high_surrogate u \<longleftrightarrow> unat u \<in> {55296..56319}"

definition low_surrogate :: "jschar \<Rightarrow> bool" where
  "low_surrogate u \<longleftrightarrow> unat u \<in> {56320..57343}"

definition escapes :: "nat \<Rightarrow> jsstr" where
  "escapes p = concat (map escape (utf8_of_point p))"

fun encodeURIComponent :: "jsstr \<Rightarrow> jserror + jsstr" where
  "encodeURIComponent [] = Inr []"
| "encodeURIComponent (u # us) =
     (if uri_unreserved u then map_sum id ((#) u) (encodeURIComponent us)
      else if low_surrogate u then Inl URIError
      else if high_surrogate u then
        (case us of
           [] \<Rightarrow> Inl URIError
         | v # vs \<Rightarrow>
             if low_surrogate v
             then map_sum id ((@) (escapes (65536 + (unat u - 55296) * 1024 + (unat v - 56320)))) (encodeURIComponent vs)
             else Inl URIError)
      else map_sum id ((@) (escapes (unat u))) (encodeURIComponent us))"

definition hex_value :: "jschar \<Rightarrow> nat option" where
  "hex_value u =
     (if digit_unit u then Some (unat u - 48)
      else if 65 \<le> u \<and> u \<le> 70 then Some (unat u - 55)
      else if 97 \<le> u \<and> u \<le> 102 then Some (unat u - 87) else None)"

text \<open>One escaped byte at the front.\<close>

definition take_octet :: "jsstr \<Rightarrow> (nat \<times> jsstr) option" where
  "take_octet s =
     (case s of
        p # x # y # us \<Rightarrow>
          if p \<noteq> 37 then None
          else (case (hex_value x, hex_value y) of
                  (Some a, Some b) \<Rightarrow> Some (16 * a + b, us)
                | _ \<Rightarrow> None)
      | _ \<Rightarrow> None)"

fun take_tail :: "nat \<Rightarrow> nat \<Rightarrow> jsstr \<Rightarrow> (nat \<times> jsstr) option" where
  "take_tail 0 acc s = Some (acc, s)"
| "take_tail (Suc k) acc s =
     (case take_octet s of
        Some (b, us) \<Rightarrow> if 0x80 \<le> b \<and> b < 0xC0 then take_tail k (acc * 64 + (b - 0x80)) us else None
      | None \<Rightarrow> None)"

text \<open>One escaped code point at the front: the shortest form of a scalar value only.\<close>

definition take_point :: "jsstr \<Rightarrow> (nat \<times> jsstr) option" where
  "take_point s =
     (case take_octet s of
        None \<Rightarrow> None
      | Some (b, us) \<Rightarrow>
          let check = (\<lambda>low r. case r of Some (p, us) \<Rightarrow> if low \<le> p \<and> scalar_value p then Some (p, us) else None | None \<Rightarrow> None)
          in if b < 0x80 then Some (b, us)
             else if b < 0xC0 then None
             else if b < 0xE0 then check 0x80 (take_tail 1 (b - 0xC0) us)
             else if b < 0xF0 then check 0x800 (take_tail 2 (b - 0xE0) us)
             else if b < 0xF8 then check 0x10000 (take_tail 3 (b - 0xF0) us)
             else None)"

lemma take_octet_length: "take_octet s = Some (b, us) \<Longrightarrow> length us < length s"
  by (auto simp: take_octet_def split: list.splits if_splits option.splits)

lemma take_tail_length: "take_tail k a s = Some (p, us) \<Longrightarrow> length us \<le> length s"
  by (induction k arbitrary: a s) (force split: option.splits if_splits dest: take_octet_length)+

lemma take_point_length: "take_point s = Some (p, us) \<Longrightarrow> length us < length s"
  by (fastforce simp: take_point_def Let_def split: option.splits if_splits
      dest: take_octet_length take_tail_length)

function decodeURIComponent :: "jsstr \<Rightarrow> jserror + jsstr" where
  "decodeURIComponent [] = Inr []"
| "decodeURIComponent (u # us) =
     (if u \<noteq> 37 then map_sum id ((#) u) (decodeURIComponent us)
      else (case take_point (u # us) of
              None \<Rightarrow> Inl URIError
            | Some (p, vs) \<Rightarrow> map_sum id ((@) (units_of_point p)) (decodeURIComponent vs)))"
  by pat_completeness auto
termination
  by (relation "measure length") (auto dest: take_point_length)

lemma unat_unit: "unat (u :: jschar) < 65536"
  by (rule order_less_le_trans [OF unsigned_less]) simp

lemma unat_hex_unit: "d < 16 \<Longrightarrow> unat (hex_unit d) = (if d < 10 then 48 + d else 55 + d)"
  by (simp add: hex_unit_def unit_unat del: of_nat_add)

lemma hex_value_unit: "d < 16 \<Longrightarrow> hex_value (hex_unit d) = Some d"
  by (auto simp: hex_value_def case_nat word_le_nat_alt unat_hex_unit)

lemma take_octet_escape: "b < 256 \<Longrightarrow> take_octet (escape b @ s) = Some (b, s)"
  by (simp add: escape_def take_octet_def hex_value_unit)

lemma take_point_escapes:
  assumes "scalar_value p"
  shows "take_point (escapes p @ s) = Some (p, s)"
proof -
  have p: "p \<le> 1114111" using assms by (simp add: scalar_value_def)
  consider "p < 0x80" | "0x80 \<le> p" "p < 0x800" | "0x800 \<le> p" "p < 0x10000" | "0x10000 \<le> p" by linarith
  then show ?thesis
  proof cases
    case 1
    then show ?thesis by (simp add: escapes_def take_octet_escape take_point_def)
  next
    case 2
    then have "p div 64 < 32" by (simp add: div_less_iff_less_mult)
    with 2 assms show ?thesis
      by (simp add: escapes_def take_octet_escape take_point_def eval_nat_numeral(3) [of Num.One] numeral_2_eq_2)
  next
    case 3
    have "p div 4096 < 16" using 3 by (simp add: div_less_iff_less_mult)
    moreover have "(p div 4096 * 64 + p div 64 mod 64) * 64 + p mod 64 = p"
      using div_mult_mod_eq [of "p div 64" 64] div_mult_mod_eq [of p 64] by (simp add: div_mult2_eq [symmetric])
    ultimately show ?thesis using 3 assms
      by (simp add: escapes_def take_octet_escape take_point_def numeral_2_eq_2)
  next
    case 4
    have "p div 262144 < 8" using p by (simp add: div_less_iff_less_mult)
    moreover have "((p div 262144 * 64 + p div 4096 mod 64) * 64 + p div 64 mod 64) * 64 + p mod 64 = p"
      using div_mult_mod_eq [of "p div 4096" 64] div_mult_mod_eq [of "p div 64" 64] div_mult_mod_eq [of p 64]
      by (simp add: div_mult2_eq [symmetric])
    ultimately show ?thesis using 4 assms
      by (simp add: escapes_def take_octet_escape take_point_def numeral_3_eq_3)
  qed
qed

lemma decode_escapes:
  "scalar_value p \<Longrightarrow> decodeURIComponent (escapes p @ s) = map_sum id ((@) (units_of_point p)) (decodeURIComponent s)"
proof -
  assume p: "scalar_value p"
  have "\<exists>us. escapes p = 37 # us" by (simp add: escapes_def escape_def)
  then obtain us where "escapes p = 37 # us" by blast
  then show ?thesis using take_point_escapes [OF p, of s] by simp
qed

lemma units_of_unit: "units_of_point (unat (u :: jschar)) = [u]"
  using unat_unit [of u] by (simp add: units_of_point_def)

lemma surrogate_pair:
  assumes "high_surrogate u" "low_surrogate v"
  shows "scalar_value (65536 + (unat u - 55296) * 1024 + (unat v - 56320))"
    "units_of_point (65536 + (unat u - 55296) * 1024 + (unat v - 56320)) = [u, v]"
proof -
  obtain a b where a: "unat u = 55296 + a" "a < 1024" and b: "unat v = 56320 + b" "b < 1024"
    using assms that [of "unat u - 55296" "unat v - 56320"] by (auto simp: high_surrogate_def low_surrogate_def)
  then have u: "u = of_nat (55296 + a)" and v: "v = of_nat (56320 + b)" 
    by (simp_all add: word_unat_eq_iff unit_unat del: of_nat_add)
  show "scalar_value (65536 + (unat u - 55296) * 1024 + (unat v - 56320))"
    using a b by (simp add: scalar_value_def)
  have "(a * 1024 + b) div 1024 = a" "(a * 1024 + b) mod 1024 = b" using b(2) by simp_all
  then show "units_of_point (65536 + (unat u - 55296) * 1024 + (unat v - 56320)) = [u, v]"
    unfolding units_of_point_def a(1) b(1) by (simp add: u v add.commute)
qed

lemma decode_encode: "encodeURIComponent s = Inr t \<Longrightarrow> decodeURIComponent t = Inr s"
proof (induction s arbitrary: t rule: encodeURIComponent.induct)
  case (2 u us)
  consider "uri_unreserved u" | v vs where "\<not> uri_unreserved u" "high_surrogate u" "us = v # vs" "low_surrogate v"
    | "\<not> uri_unreserved u" "\<not> high_surrogate u" "\<not> low_surrogate u"
    using "2.prems" by (auto split: if_splits list.splits)
  then show ?case
  proof cases
    case 1
    then obtain t' where t': "encodeURIComponent us = Inr t'" "t = u # t'"
      using "2.prems" by (cases "encodeURIComponent us") auto
    have "u \<noteq> 37" using 1 by (auto simp: uri_unreserved_def is_alnum_def case_nat js_def ch_def)
    with t' "2.IH"(1) [OF 1] show ?thesis by simp
  next
    case 2
    have ns: "\<not> low_surrogate u" using 2(2) by (auto simp: high_surrogate_def low_surrogate_def)
    let ?p = "65536 + (unat u - 55296) * 1024 + (unat v - 56320)"
    obtain t' where t': "encodeURIComponent vs = Inr t'" "t = escapes ?p @ t'"
      using "2.prems" 2 ns by (cases "encodeURIComponent vs") auto
    with "2.IH"(2) [OF 2(1) ns 2(2,3,4)] show ?thesis
      using surrogate_pair [OF 2(2,4)] 2(3) by (simp add: decode_escapes)
  next
    case 3
    then obtain t' where t': "encodeURIComponent us = Inr t'" "t = escapes (unat u) @ t'"
      using "2.prems" by (cases "encodeURIComponent us") auto
    have "scalar_value (unat u)"
      using 3 unat_unit [of u] by (auto simp: scalar_value_def high_surrogate_def low_surrogate_def)
    with t' "2.IH"(3) 3 show ?thesis by (simp add: decode_escapes units_of_unit)
  qed
qed simp

text \<open>The alphabet of an encoded string.\<close>

definition uri_unit :: "jschar \<Rightarrow> bool" where
  "uri_unit u \<longleftrightarrow> uri_unreserved u \<or> u = 37"

lemma escapes_units: "p \<le> 1114111 \<Longrightarrow> list_all uri_unit (escapes p)"
proof -
  have hex: "uri_unit (hex_unit d)" if "d < 16" for d
    using that by (auto simp: uri_unit_def uri_unreserved_def is_alnum_def case_nat unat_hex_unit)
  have esc: "list_all uri_unit (escape b)" if "b < 256" for b
    using hex [of "b div 16"] hex [of "b mod 16"] that by (simp add: escape_def) (simp add: uri_unit_def)
  assume "p \<le> 1114111"
  then have "list_all (\<lambda>b. b < 256) (utf8_of_point p)"
    by (auto simp: div_less_iff_less_mult)
  then show ?thesis unfolding escapes_def by (induction "utf8_of_point p") (auto simp: list_all_iff dest!: esc [unfolded list_all_iff])
qed

lemma encode_units: "encodeURIComponent s = Inr t \<Longrightarrow> list_all uri_unit t"
proof (induction s arbitrary: t rule: encodeURIComponent.induct)
  case (2 u us)
  have pair: "list_all uri_unit (escapes (65536 + (unat u - 55296) * 1024 + (unat v - 56320)))"
    if "high_surrogate u" "low_surrogate v" for v
    using surrogate_pair(1) [OF that] by (intro escapes_units) (simp add: scalar_value_def)
  have one: "list_all uri_unit (escapes (unat u))" using unat_unit [of u] by (intro escapes_units) simp
  have ok: "list_all uri_unit t" if "map_sum id ((@) p) m = Inr t" "list_all uri_unit p"
      "\<And>t. m = Inr t \<Longrightarrow> list_all uri_unit t" for p m t
    using that by (cases m) auto
  show ?case
  proof (cases "uri_unreserved u")
    case True
    then show ?thesis using 2 by (cases "encodeURIComponent us") (auto simp: uri_unit_def)
  next
    case False
    then show ?thesis using 2 ok pair one by (auto split: if_splits list.splits)
  qed
qed simp

end
