(* ===== verification/JsCookie.thy ===== *)
theory JsCookie
  imports JsUri
begin

text \<open>
  The \<open>cookie\<close> module of \<open>swagger-ui-bundle.js\<close>: \<open>parse\<close> reads a \<open>Cookie\<close> header into an object and
  \<open>serialize\<close> writes a \<open>Set-Cookie\<close> header with its attributes. An object is the list of its own
  properties in the order they were created; a lookup also finds the properties inherited from
  \<open>Object.prototype\<close>.
\<close>

type_synonym decoder = "jsstr \<Rightarrow> jserror + jsstr"

section \<open>parse\<close>

text \<open>\<open>e.split(/; */)\<close>.\<close>

function cookie_split :: "jsstr \<Rightarrow> jsstr list" where
  "cookie_split s =
     takeWhile (\<lambda>u. u \<noteq> 59) s #
     (case dropWhile (\<lambda>u. u \<noteq> 59) s of
        [] \<Rightarrow> []
      | _ # us \<Rightarrow> cookie_split (dropWhile (\<lambda>u. u = 32) us))"
  by pat_completeness auto
termination
proof (relation "measure length", goal_cases)
  case (2 s u us)
  have "length (dropWhile (\<lambda>u. u = 32) us) \<le> length us" by (rule length_dropWhile_le)
  also have "\<dots> < length (dropWhile (\<lambda>u. u \<noteq> 59) s)" using 2 by simp
  also have "\<dots> \<le> length s" by (rule length_dropWhile_le)
  finally show ?case by simp
qed simp

declare cookie_split.simps [simp del]

definition js_blank :: "jschar \<Rightarrow> bool" where
  "js_blank u \<longleftrightarrow> unat u \<in> {9..13} \<union> {32, 160, 5760} \<union> {8192..8202} \<union> {8232, 8233, 8239, 8287, 12288, 65279}"

definition js_trim :: "jsstr \<Rightarrow> jsstr" where
  "js_trim s = rev (dropWhile js_blank (rev (dropWhile js_blank s)))"

text \<open>The names every object inherits.\<close>

definition object_prototype_names :: "jsstr list" where
  "object_prototype_names = map js [''constructor'', ''toString'', ''toLocaleString'', ''valueOf'',
     ''hasOwnProperty'', ''isPrototypeOf'', ''propertyIsEnumerable'', ''__proto__'',
     ''__defineGetter__'', ''__defineSetter__'', ''__lookupGetter__'', ''__lookupSetter__'']"

definition undefined_in :: "jsstr \<Rightarrow> (jsstr \<times> jsstr) list \<Rightarrow> bool" where
  "undefined_in f n \<longleftrightarrow> map_of n f = None \<and> f \<notin> set object_prototype_names"

definition tryDecode :: "jsstr \<Rightarrow> decoder \<Rightarrow> jsstr" where
  "tryDecode e t = (case t e of Inr s \<Rightarrow> s | Inl _ \<Rightarrow> e)"

definition unquote :: "jsstr \<Rightarrow> jsstr" where
  "unquote h = (if h \<noteq> [] \<and> hd h = 34 then butlast (tl h) else h)"

text \<open>One round of the loop: a part without \<open>=\<close> is skipped, the first value of a name stays.\<close>

definition parse_part :: "decoder \<Rightarrow> jsstr \<Rightarrow> (jsstr \<times> jsstr) list \<Rightarrow> (jsstr \<times> jsstr) list" where
  "parse_part s c n =
     (if 61 \<notin> set c then n
      else
        let f = js_trim (takeWhile (\<lambda>u. u \<noteq> 61) c);
            h = unquote (js_trim (tl (dropWhile (\<lambda>u. u \<noteq> 61) c)))
        in if undefined_in f n then n @ [(f, tryDecode h s)] else n)"

text \<open>The option \<open>decode\<close> is \<open>None\<close> when absent.\<close>

definition cookie_parse :: "jsarg \<Rightarrow> decoder option \<Rightarrow> jserror + (jsstr \<times> jsstr) list" where
  "cookie_parse e t =
     (case e of
        NotString \<Rightarrow> Inl TypeError
      | Str e \<Rightarrow>
          let s = (case t of None \<Rightarrow> decodeURIComponent | Some d \<Rightarrow> d)
          in Inr (fold (parse_part s) (cookie_split e) []))"

section \<open>serialize\<close>

datatype cookie_encoder = DefaultEncoder | CustomEncoder "jsstr \<Rightarrow> jserror + jsstr" | NotFunction

datatype cookie_expires = NoExpires | ExpiresAt jsstr | NotDate

datatype cookie_sameSite = NoSameSite | SameSiteTrue | SameSiteString jsstr | SameSiteOther

record cookie_options =
  co_encode :: cookie_encoder
  co_maxAge :: "jsnum option"
  co_domain :: jsstr
  co_path :: jsstr
  co_expires :: cookie_expires
  co_httpOnly :: bool
  co_secure :: bool
  co_sameSite :: cookie_sameSite

definition no_options :: cookie_options where
  "no_options = \<lparr>co_encode = DefaultEncoder, co_maxAge = None, co_domain = [], co_path = [],
     co_expires = NoExpires, co_httpOnly = False, co_secure = False, co_sameSite = NoSameSite\<rparr>"

text \<open>The regular expression for the content of a field.\<close>

definition field_unit :: "jschar \<Rightarrow> bool" where
  "field_unit u \<longleftrightarrow> unat u = 9 \<or> unat u \<in> {32..126} \<or> unat u \<in> {128..255}"

definition field_content :: "jsstr \<Rightarrow> bool" where
  "field_content s \<longleftrightarrow> s \<noteq> [] \<and> list_all field_unit s"

definition checked :: "bool \<Rightarrow> jserror \<Rightarrow> (jserror + 'a) \<Rightarrow> jserror + 'a" where
  "checked b e m = (if b then m else Inl e)"

definition floor_string :: "jsnum \<Rightarrow> jsstr" where
  "floor_string x =
     (case x of NaN \<Rightarrow> js ''NaN'' | PosInf \<Rightarrow> js ''Infinity'' | NegInf \<Rightarrow> js ''-Infinity''
      | Fin q \<Rightarrow> num_string \<lfloor>q\<rfloor>)"

text \<open>The attributes in their order; each takes the header built so far.\<close>

definition add_maxAge :: "cookie_options \<Rightarrow> jsstr \<Rightarrow> jserror + jsstr" where
  "add_maxAge r a =
     (case co_maxAge r of
        None \<Rightarrow> Inr a
      | Some u \<Rightarrow> checked (u \<noteq> NaN) PlainError (Inr (a @ js ''; Max-Age='' @ floor_string u)))"

definition add_field :: "string \<Rightarrow> jsstr \<Rightarrow> jsstr \<Rightarrow> jserror + jsstr" where
  "add_field key v a =
     (if v = [] then Inr a else checked (field_content v) TypeError (Inr (a @ js key @ v)))"

definition add_expires :: "cookie_options \<Rightarrow> jsstr \<Rightarrow> jserror + jsstr" where
  "add_expires r a =
     (case co_expires r of
        NoExpires \<Rightarrow> Inr a
      | NotDate \<Rightarrow> Inl TypeError
      | ExpiresAt t \<Rightarrow> Inr (a @ js ''; Expires='' @ t))"

definition add_flags :: "cookie_options \<Rightarrow> jsstr \<Rightarrow> jsstr" where
  "add_flags r a =
     (let a = (if co_httpOnly r then a @ js ''; HttpOnly'' else a)
      in if co_secure r then a @ js ''; Secure'' else a)"

definition add_sameSite :: "cookie_options \<Rightarrow> jsstr \<Rightarrow> jserror + jsstr" where
  "add_sameSite r a =
     (case co_sameSite r of
        NoSameSite \<Rightarrow> Inr a
      | SameSiteTrue \<Rightarrow> Inr (a @ js ''; SameSite=Strict'')
      | SameSiteOther \<Rightarrow> Inl TypeError
      | SameSiteString s \<Rightarrow>
          if s = [] then Inr a
          else if map to_lower s = js ''lax'' then Inr (a @ js ''; SameSite=Lax'')
          else if map to_lower s = js ''strict'' then Inr (a @ js ''; SameSite=Strict'')
          else Inl TypeError)"

definition bind :: "(jserror + 'a) \<Rightarrow> ('a \<Rightarrow> jserror + 'b) \<Rightarrow> jserror + 'b" where
  "bind m f = (case m of Inl e \<Rightarrow> Inl e | Inr x \<Rightarrow> f x)"

lemma bind_simps [simp]: "bind (Inl e) f = Inl e" "bind (Inr x) f = f x"
  by (simp_all add: bind_def)

lemma bind_eq_Inr: "bind m f = Inr y \<longleftrightarrow> (\<exists>x. m = Inr x \<and> f x = Inr y)"
  by (cases m) simp_all

lemma checked_eq_Inr: "checked b e m = Inr x \<longleftrightarrow> b \<and> m = Inr x"
  by (simp add: checked_def)

definition cookie_serialize :: "jsstr \<Rightarrow> jsstr \<Rightarrow> cookie_options \<Rightarrow> jserror + jsstr" where
  "cookie_serialize e t r =
     bind (case co_encode r of
             DefaultEncoder \<Rightarrow> Inr encodeURIComponent | CustomEncoder f \<Rightarrow> Inr f | NotFunction \<Rightarrow> Inl TypeError) (\<lambda>i.
     checked (field_content e) TypeError (
     bind (i t) (\<lambda>out.
     checked (out = [] \<or> field_content out) TypeError (
     bind (add_maxAge r (e @ [61] @ out)) (\<lambda>a.
     bind (add_field ''; Domain='' (co_domain r) a) (\<lambda>a.
     bind (add_field ''; Path='' (co_path r) a) (\<lambda>a.
     bind (add_expires r a) (\<lambda>a.
     add_sameSite r (add_flags r a)))))))))"

section \<open>What is serialised can be sent\<close>

lemma field_js: "list_all (\<lambda>c. of_char c = (9::nat) \<or> of_char c \<in> {32..126::nat}) s \<Longrightarrow> list_all field_unit (js s)"
  by (induction s) (auto simp: js_def ch_def field_unit_def unit_unat)

lemma decimal_units: "list_all field_unit (decimal n)"
proof (induction n rule: decimal.induct)
  case (1 n)
  have "field_unit (48 + of_nat d)" if "d < 10" for d
    using that unit_unat [of "48 + d"] by (simp add: field_unit_def)
  with 1 show ?case by (subst decimal.simps) auto
qed

lemma floor_string_units: "list_all field_unit (floor_string x)"
proof -
  have "field_unit 45" by (simp add: field_unit_def)
  then show ?thesis
    by (cases x) (simp_all add: floor_string_def num_string_def decimal_units field_js del: decimal.simps)
qed

lemma serialize_units:
  assumes "cookie_serialize e t r = Inr s"
    and "\<And>d. co_expires r = ExpiresAt d \<Longrightarrow> list_all field_unit d"
  shows "list_all field_unit s"
proof -
  define ok where "ok = list_all field_unit"
  have lit: "ok (js k)" if "list_all (\<lambda>c. of_char c = (9::nat) \<or> of_char c \<in> {32..126::nat}) k" for k
    unfolding ok_def by (rule field_js [OF that])
  have app: "ok (a @ b) \<longleftrightarrow> ok a \<and> ok b" for a b by (simp add: ok_def)
  have age: "ok a'" if "add_maxAge r a = Inr a'" "ok a" for a a'
    using that floor_string_units by (auto simp: add_maxAge_def checked_def app lit ok_def [symmetric] split: option.splits if_splits)
  have field: "ok a'" if "add_field k v a = Inr a'" "ok a" "ok (js k)" for k v a a'
    using that by (auto simp: add_field_def checked_def field_content_def app ok_def [symmetric] split: if_splits)
  have expires: "ok a'" if "add_expires r a = Inr a'" "ok a" for a a'
    using that assms(2) by (auto simp: add_expires_def app lit ok_def [symmetric] split: cookie_expires.splits)
  have flags: "ok (add_flags r a)" if "ok a" for a
    using that by (simp add: add_flags_def Let_def app lit)
  have same: "ok a'" if "add_sameSite r a = Inr a'" "ok a" for a a'
    using that by (auto simp: add_sameSite_def app lit split: cookie_sameSite.splits if_splits)
  have "\<exists>out a1 a2 a3 a4. field_content e \<and> (out = [] \<or> field_content out) \<and> add_maxAge r (e @ [61] @ out) = Inr a1 \<and>
      add_field ''; Domain='' (co_domain r) a1 = Inr a2 \<and> add_field ''; Path='' (co_path r) a2 = Inr a3 \<and>
      add_expires r a3 = Inr a4 \<and> add_sameSite r (add_flags r a4) = Inr s"
    using assms(1) unfolding cookie_serialize_def bind_eq_Inr checked_eq_Inr by blast
  then obtain out a1 a2 a3 a4 where "field_content e" "out = [] \<or> field_content out"
    and steps: "add_maxAge r (e @ [61] @ out) = Inr a1" "add_field ''; Domain='' (co_domain r) a1 = Inr a2"
      "add_field ''; Path='' (co_path r) a2 = Inr a3" "add_expires r a3 = Inr a4" "add_sameSite r (add_flags r a4) = Inr s"
    by blast
  then have "ok (e @ [61] @ out)" by (auto simp: ok_def field_content_def field_unit_def)
  with steps show ?thesis
    using age field [of "''; Domain=''", OF _ _ lit] field [of "''; Path=''", OF _ _ lit] expires flags same
    unfolding ok_def [symmetric] by simp
qed

section \<open>What is serialised can be read\<close>

text \<open>A name that survives the trip: the parser splits at \<open>;\<close> and at the first \<open>=\<close> and trims.\<close>

definition plain_name :: "jsstr \<Rightarrow> bool" where
  "plain_name f \<longleftrightarrow> field_content f \<and> 59 \<notin> set f \<and> 61 \<notin> set f \<and> \<not> js_blank (hd f) \<and> \<not> js_blank (last f) \<and>
     f \<notin> set object_prototype_names"

fun cookie_header :: "jsstr list \<Rightarrow> jsstr" where
  "cookie_header [] = []"
| "cookie_header [c] = c"
| "cookie_header (c # cs) = c @ [59, 32] @ cookie_header cs"

lemma js_trim_plain: "s = [] \<or> \<not> js_blank (hd s) \<and> \<not> js_blank (last s) \<Longrightarrow> js_trim s = s"
proof (cases "s = []")
  case False
  moreover assume "s = [] \<or> \<not> js_blank (hd s) \<and> \<not> js_blank (last s)"
  ultimately have "dropWhile js_blank s = s" "dropWhile js_blank (rev s) = rev s"
    by (simp_all add: dropWhile_eq_self_iff hd_rev)
  then show ?thesis by (simp add: js_trim_def)
qed (simp add: js_trim_def)

lemma uri_unit_plain: "uri_unit u \<Longrightarrow> u \<noteq> 59 \<and> u \<noteq> 34 \<and> \<not> js_blank u"
proof -
  assume "uri_unit u"
  then have "unat u \<in> {65..90} \<union> {97..122} \<union> {48..57} \<union> {45, 95, 46, 33, 126, 42, 40, 41, 39, 37}"
    by (auto simp: uri_unit_def uri_unreserved_def is_alnum_def case_nat js_def ch_def)
  moreover have "unat (59 :: jschar) = 59" "unat (34 :: jschar) = 34" by simp_all
  ultimately show ?thesis by (auto simp: js_blank_def)
qed

lemma parse_part_pair:
  assumes "plain_name f" "encodeURIComponent v = Inr w" "map_of n f = None"
  shows "parse_part decodeURIComponent (f @ [61] @ w) n = n @ [(f, v)]"
proof -
  have f: "takeWhile (\<lambda>u. u \<noteq> 61) (f @ [61] @ w) = f" "dropWhile (\<lambda>u. u \<noteq> 61) (f @ [61] @ w) = 61 # w"
    using assms(1) by (auto simp: plain_name_def takeWhile_append dropWhile_append takeWhile_eq_all_conv
        intro: takeWhile_eq_all_conv [THEN iffD2])
  have units: "list_all uri_unit w" by (rule encode_units [OF assms(2)])
  then have "js_trim w = w" by (intro js_trim_plain) (auto simp: list_all_iff uri_unit_plain)
  moreover have "unquote w = w" using units uri_unit_plain [of 34] by (cases w) (auto simp: unquote_def)
  moreover have "js_trim f = f" using assms(1) by (intro js_trim_plain) (simp add: plain_name_def)
  moreover have "tryDecode w decodeURIComponent = v" by (simp add: tryDecode_def decode_encode [OF assms(2)])
  ultimately show ?thesis
    using f assms(1,3) by (simp add: parse_part_def undefined_in_def plain_name_def)
qed

lemma cookie_split_single: "59 \<notin> set c \<Longrightarrow> cookie_split c = [c]"
proof -
  assume "59 \<notin> set c"
  then have "takeWhile (\<lambda>u. u \<noteq> 59) c = c" "dropWhile (\<lambda>u. u \<noteq> 59) c = []"
    by (auto simp: takeWhile_eq_all_conv dropWhile_eq_Nil_conv)
  then show ?thesis unfolding cookie_split.simps [of c] by (simp only: list.case)
qed

lemma cookie_split_header:
  assumes "cs \<noteq> []" "\<forall>c \<in> set cs. 59 \<notin> set c \<and> c \<noteq> [] \<and> hd c \<noteq> 32"
  shows "cookie_split (cookie_header cs) = cs"
  using assms
proof (induction cs rule: cookie_header.induct)
  case (3 c d ds)
  obtain h where h: "cookie_header (d # ds) = h" "h \<noteq> []" "hd h \<noteq> 32"
    using "3.prems"(2) by (cases ds) (auto simp: hd_append)
  have "takeWhile (\<lambda>u. u \<noteq> 59) (c @ 59 # 32 # h) = c" "dropWhile (\<lambda>u. u \<noteq> 59) (c @ 59 # 32 # h) = 59 # 32 # h"
    using "3.prems"(2) by (auto simp: takeWhile_append dropWhile_append)
  moreover have "dropWhile (\<lambda>u. u = 32) (32 # h) = h" using h by (cases h) auto
  ultimately have "cookie_split (c @ 59 # 32 # h) = c # cookie_split h" by (subst cookie_split.simps) simp
  with 3 h(1) show ?case by simp
qed (auto simp: cookie_split_single)

lemma no_options_simps [simp]:
  "add_maxAge no_options a = Inr a" "add_field k (co_domain no_options) a = Inr a"
  "add_field k (co_path no_options) a = Inr a" "add_expires no_options a = Inr a"
  "add_flags no_options a = a" "add_sameSite no_options a = Inr a" "co_encode no_options = DefaultEncoder"
  by (simp_all add: no_options_def add_maxAge_def add_field_def add_expires_def add_flags_def add_sameSite_def)

lemma serialize_plain:
  "cookie_serialize f v no_options = Inr c \<longleftrightarrow>
   field_content f \<and> (\<exists>w. encodeURIComponent v = Inr w \<and> (w = [] \<or> field_content w) \<and> c = f @ [61] @ w)"
  unfolding cookie_serialize_def by (cases "encodeURIComponent v") (auto simp: checked_eq_Inr)

lemma parse_pairs:
  assumes "list_all2 (\<lambda>(f, v) c. \<exists>w. encodeURIComponent v = Inr w \<and> c = f @ [61] @ w) ps cs"
    and "\<forall>(f, v) \<in> set ps. plain_name f" "distinct (map fst (n @ ps))"
  shows "fold (parse_part decodeURIComponent) cs n = n @ ps"
  using assms
proof (induction ps cs arbitrary: n rule: list_all2_induct)
  case (Cons p ps c cs)
  obtain f v w where p: "p = (f, v)" "encodeURIComponent v = Inr w" "c = f @ [61] @ w" using Cons.hyps(1) by (cases p) auto
  have "map_of n f = None" using Cons.prems(2) p by (auto simp: map_of_eq_None_iff)
  then have "parse_part decodeURIComponent c n = n @ [p]"
    using parse_part_pair [of f v w n] Cons.prems(1) p by simp
  with Cons.IH [of "n @ [p]"] Cons.prems show ?case by simp
qed simp

lemma parse_serialized:
  assumes "list_all2 (\<lambda>(f, v) c. cookie_serialize f v no_options = Inr c) ps cs"
    and "\<forall>(f, v) \<in> set ps. plain_name f" "distinct (map fst ps)" "ps \<noteq> []"
  shows "cookie_parse (Str (cookie_header cs)) None = Inr ps"
proof -
  have pairs: "list_all2 (\<lambda>(f, v) c. \<exists>w. encodeURIComponent v = Inr w \<and> c = f @ [61] @ w) ps cs"
    using assms(1) by (rule list_all2_mono) (auto simp: serialize_plain)
  have "59 \<notin> set c \<and> c \<noteq> [] \<and> hd c \<noteq> 32" if mem: "c \<in> set cs" for c
  proof -
    obtain i where i: "i < length cs" "c = cs ! i" using mem by (auto simp: in_set_conv_nth)
    obtain f v where p: "ps ! i = (f, v)" by (cases "ps ! i")
    obtain w where "encodeURIComponent v = Inr w" "c = f @ [61] @ w"
      using list_all2_nthD2 [OF pairs i(1)] i(2) p by auto
    moreover have "(f, v) \<in> set ps" using i(1) p list_all2_lengthD [OF pairs] nth_mem [of i ps] by simp
    ultimately have fvw: "(f, v) \<in> set ps" "encodeURIComponent v = Inr w" "c = f @ [61] @ w" by blast+
    have "59 \<notin> set w" using encode_units [OF fvw(2)] uri_unit_plain [of 59] by (auto simp: list_all_iff)
    moreover have "plain_name f" using assms(2) fvw(1) by auto
    moreover have "js_blank 32" by (simp add: js_blank_def)
    ultimately show ?thesis
      using fvw(3) by (cases f) (auto simp: plain_name_def field_content_def)
  qed
  then have "cookie_split (cookie_header cs) = cs"
    using assms(4) pairs by (intro cookie_split_header) auto
  with parse_pairs [OF pairs assms(2), of "[]"] assms(3) show ?thesis by (simp add: cookie_parse_def)
qed

end
