(* ===== verification/JsObjects.thy ===== *)
theory JsObjects
  imports JsNames
begin

text \<open>
  The object model behind the \<open>object-assign\<close> and \<open>deep-extend\<close> modules of
  \<open>swagger-ui-bundle.js\<close>: a heap of objects with prototypes, the inherited accessor
  \<open>__proto__\<close>, arrays that grow when an index is written, and the two modules on it. Accessor
  properties other than \<open>__proto__\<close> and non-writable properties are left out.
\<close>

section \<open>Objects\<close>

type_synonym addr = nat

datatype jskey = KStr jsstr | KSym nat

datatype jsval = VUndefined | VNull | VBool bool | VNum int | VStr jsstr | VRef addr

datatype okind = KPlain | KArray nat | KFunction | KBuffer bytes | KDate int | KRegExp jsstr | KBoxed jsval

text \<open>A property carries its value and whether it is enumerable.\<close>

record obj =
  ob_kind :: okind
  ob_proto :: "addr option"
  ob_props :: "(jskey \<times> jsval \<times> bool) list"

type_synonym heap = "obj list"

text \<open>\<open>Object.prototype\<close> is the first object of the heap and the other built-in prototypes follow.\<close>

definition OBJECT_PROTO :: addr where "OBJECT_PROTO = 0"

definition proto_of_kind :: "okind \<Rightarrow> addr" where
  "proto_of_kind k =
     (case k of KPlain \<Rightarrow> OBJECT_PROTO | KArray _ \<Rightarrow> 1 | KFunction \<Rightarrow> 2 | KBuffer _ \<Rightarrow> 3 | KDate _ \<Rightarrow> 4
      | KRegExp _ \<Rightarrow> 5 | KBoxed _ \<Rightarrow> 6)"

definition PROTO_KEY :: jskey where "PROTO_KEY = KStr (js ''__proto__'')"

definition alloc :: "okind \<Rightarrow> heap \<Rightarrow> addr \<times> heap" where
  "alloc k h = (length h, h @ [\<lparr>ob_kind = k, ob_proto = Some (proto_of_kind k), ob_props = []\<rparr>])"

definition own :: "heap \<Rightarrow> addr \<Rightarrow> jskey \<rightharpoonup> jsval" where
  "own h a k = map_option fst (map_of (ob_props (h ! a)) k)"

text \<open>The own enumerable properties, by which \<open>for in\<close> with \<open>hasOwnProperty\<close> and \<open>Object.keys\<close> go.\<close>

definition enumerable :: "heap \<Rightarrow> addr \<Rightarrow> jskey \<rightharpoonup> jsval" where
  "enumerable h a k = (case map_of (ob_props (h ! a)) k of Some (v, True) \<Rightarrow> Some v | _ \<Rightarrow> None)"

definition string_keys :: "heap \<Rightarrow> addr \<Rightarrow> jskey list" where
  "string_keys h a = map fst (filter (\<lambda>(k, v, e). e \<and> (case k of KStr _ \<Rightarrow> True | KSym _ \<Rightarrow> False)) (ob_props (h ! a)))"

definition symbol_keys :: "heap \<Rightarrow> addr \<Rightarrow> jskey list" where
  "symbol_keys h a = map fst (filter (\<lambda>(k, v, e). e \<and> (case k of KStr _ \<Rightarrow> False | KSym _ \<Rightarrow> True)) (ob_props (h ! a)))"

lemma key_cases [simp]:
  "(case k of KStr _ \<Rightarrow> True | KSym _ \<Rightarrow> False) \<longleftrightarrow> (\<exists>s. k = KStr s)"
  "(case k of KStr _ \<Rightarrow> False | KSym _ \<Rightarrow> True) \<longleftrightarrow> (\<exists>s. k = KSym s)"
  by (cases k; simp)+

text \<open>Does the prototype chain of \<open>b\<close>, followed for \<open>n\<close> links, contain \<open>a\<close>?\<close>

fun in_chain :: "nat \<Rightarrow> heap \<Rightarrow> addr \<Rightarrow> addr \<Rightarrow> bool" where
  "in_chain 0 h a b = (a = b)"
| "in_chain (Suc n) h a b = (a = b \<or> (case ob_proto (h ! b) of None \<Rightarrow> False | Some p \<Rightarrow> in_chain n h a p))"

fun lookup :: "nat \<Rightarrow> heap \<Rightarrow> addr \<Rightarrow> addr \<Rightarrow> jskey \<Rightarrow> jsval" where
  "lookup n h r a k =
     (case own h a k of
        Some v \<Rightarrow> v
      | None \<Rightarrow>
          if a = OBJECT_PROTO \<and> k = PROTO_KEY
          then (case ob_proto (h ! r) of None \<Rightarrow> VNull | Some p \<Rightarrow> VRef p)
          else (case (n, ob_proto (h ! a)) of (Suc m, Some p) \<Rightarrow> lookup m h r p k | _ \<Rightarrow> VUndefined))"

declare lookup.simps [simp del]

definition js_get :: "heap \<Rightarrow> addr \<Rightarrow> jskey \<Rightarrow> jsval" where
  "js_get h a k = lookup (length h) h a a k"

definition array_index :: "jskey \<Rightarrow> nat option" where
  "array_index k =
     (case k of
        KSym _ \<Rightarrow> None
      | KStr s \<Rightarrow>
          let i = foldl (\<lambda>n u. 10 * n + (unat u - 48)) 0 s
          in if decimal i = s then Some i else None)"

definition grown :: "jskey \<Rightarrow> okind \<Rightarrow> okind" where
  "grown k kind =
     (case (kind, array_index k) of (KArray n, Some i) \<Rightarrow> KArray (max n (i + 1)) | _ \<Rightarrow> kind)"

definition js_put :: "heap \<Rightarrow> addr \<Rightarrow> jskey \<Rightarrow> jsval \<Rightarrow> jserror + heap" where
  "js_put h a k v =
     (case map_of (ob_props (h ! a)) k of
        Some (_, e) \<Rightarrow> Inr (h[a := (h ! a)\<lparr>ob_props := AList.update k (v, e) (ob_props (h ! a))\<rparr>])
      | None \<Rightarrow>
          if k = PROTO_KEY \<and> in_chain (length h) h OBJECT_PROTO a then
            (case v of
               VRef b \<Rightarrow> if in_chain (length h) h a b then Inl TypeError else Inr (h[a := (h ! a)\<lparr>ob_proto := Some b\<rparr>])
             | VNull \<Rightarrow> Inr (h[a := (h ! a)\<lparr>ob_proto := None\<rparr>])
             | _ \<Rightarrow> Inr h)
          else Inr (h[a := (h ! a)\<lparr>ob_props := ob_props (h ! a) @ [(k, v, True)],
                                  ob_kind := grown k (ob_kind (h ! a))\<rparr>]))"

section \<open>object-assign\<close>

definition boxed :: "jsval \<Rightarrow> heap \<Rightarrow> addr \<times> heap" where
  "boxed v h =
     (let (a, h) = alloc (KBoxed v) h
      in (a, case v of
               VStr s \<Rightarrow> h[a := (h ! a)\<lparr>ob_props := map (\<lambda>i. (KStr (decimal i), VStr [s ! i], True)) [0..<length s]\<rparr>]
             | _ \<Rightarrow> h))"

text \<open>\<open>toObject\<close>, and \<open>Object\<close> on a source.\<close>

definition toObject :: "jsval \<Rightarrow> heap \<Rightarrow> jserror + addr \<times> heap" where
  "toObject e h =
     (case e of VNull \<Rightarrow> Inl TypeError | VUndefined \<Rightarrow> Inl TypeError | VRef a \<Rightarrow> Inr (a, h) | _ \<Rightarrow> Inr (boxed e h))"

definition source_object :: "jsval \<Rightarrow> heap \<Rightarrow> addr \<times> heap" where
  "source_object e h =
     (case e of VNull \<Rightarrow> alloc KPlain h | VUndefined \<Rightarrow> alloc KPlain h | VRef a \<Rightarrow> (a, h) | _ \<Rightarrow> boxed e h)"

fun copy_keys :: "addr \<Rightarrow> addr \<Rightarrow> jskey list \<Rightarrow> heap \<Rightarrow> (jserror + unit) \<times> heap" where
  "copy_keys u n [] h = (Inr (), h)"
| "copy_keys u n (c # cs) h =
     (case js_put h u c (js_get h n c) of
        Inl e \<Rightarrow> (Inl e, h)
      | Inr h \<Rightarrow> copy_keys u n cs h)"

fun assign_sources :: "addr \<Rightarrow> jsval list \<Rightarrow> heap \<Rightarrow> (jserror + unit) \<times> heap" where
  "assign_sources u [] h = (Inr (), h)"
| "assign_sources u (s # ss) h =
     (let (n, h) = source_object s h
      in case copy_keys u n (string_keys h n) h of
           (Inl e, h) \<Rightarrow> (Inl e, h)
         | (Inr _, h) \<Rightarrow>
             (case copy_keys u n (symbol_keys h n) h of
                (Inl e, h) \<Rightarrow> (Inl e, h)
              | (Inr _, h) \<Rightarrow> assign_sources u ss h))"

definition object_assign :: "jsval list \<Rightarrow> heap \<Rightarrow> (jserror + jsval) \<times> heap" where
  "object_assign args h =
     (case toObject (case args of [] \<Rightarrow> VUndefined | e # _ \<Rightarrow> e) h of
        Inl e \<Rightarrow> (Inl e, h)
      | Inr (u, h) \<Rightarrow>
          (case assign_sources u (tl args) h of
             (Inl e, h) \<Rightarrow> (Inl e, h)
           | (Inr _, h) \<Rightarrow> (Inr (VRef u), h)))"

section \<open>The effect of an assignment\<close>

lemma lookup_own: "own h a k = Some v \<Longrightarrow> lookup n h r a k = v"
  by (simp add: lookup.simps)

lemma js_put_own:
  assumes "a < length h" "k \<noteq> PROTO_KEY"
  obtains h' where "js_put h a k v = Inr h'" "length h' = length h" "own h' a = (own h a)(k \<mapsto> v)"
    "\<And>b. b \<noteq> a \<Longrightarrow> h' ! b = h ! b" "ob_proto (h' ! a) = ob_proto (h ! a)"
proof (cases "map_of (ob_props (h ! a)) k")
  case None
  show thesis
    by (rule that [of "h[a := (h ! a)\<lparr>ob_props := ob_props (h ! a) @ [(k, v, True)], ob_kind := grown k (ob_kind (h ! a))\<rparr>]"])
      (use assms None in \<open>auto simp: js_put_def own_def fun_eq_iff map_add_def split: option.split\<close>)
next
  case (Some p)
  then show thesis
    by (intro that [of "h[a := (h ! a)\<lparr>ob_props := AList.update k (v, snd p) (ob_props (h ! a))\<rparr>]"])
      (use assms in \<open>auto simp: js_put_def own_def fun_eq_iff split: prod.split\<close>)
qed

lemma copy_keys_own:
  assumes "u < length h" "n \<noteq> u" "\<forall>c \<in> set cs. c \<noteq> PROTO_KEY \<and> own h n c \<noteq> None"
  shows "\<exists>h'. copy_keys u n cs h = (Inr (), h') \<and> length h' = length h \<and> (\<forall>b. b \<noteq> u \<longrightarrow> h' ! b = h ! b) \<and>
    own h' u = own h u ++ (own h n |` set cs)"
  using assms
proof (induction cs arbitrary: h)
  case Nil
  then show ?case by auto
next
  case (Cons c cs)
  obtain v where v: "own h n c = Some v" using Cons.prems(3) by auto
  obtain h1 where h1: "js_put h u c v = Inr h1" "length h1 = length h" "own h1 u = (own h u)(c \<mapsto> v)"
      "\<And>b. b \<noteq> u \<Longrightarrow> h1 ! b = h ! b"
    using js_put_own [of u h c v] Cons.prems by (metis list.set_intros(1))
  have same: "own h1 n = own h n" using h1(4) [OF Cons.prems(2)] by (simp add: own_def fun_eq_iff)
  obtain h' where h': "copy_keys u n cs h1 = (Inr (), h')" "length h' = length h1" "\<forall>b. b \<noteq> u \<longrightarrow> h' ! b = h1 ! b"
      "own h' u = own h1 u ++ (own h n |` set cs)"
    using Cons.IH [of h1] Cons.prems h1(2) same by auto
  have "own h u ++ (own h n |` set (c # cs)) = (own h u)(c \<mapsto> v) ++ (own h n |` set cs)"
    using v by (auto simp: fun_eq_iff map_add_def restrict_map_def split: option.splits)
  with h' h1 v show ?case by (auto simp: js_get_def lookup_own)
qed

lemma keys_facts:
  assumes "distinct (map fst (ob_props (h ! n)))"
  shows "own h n |` set (string_keys h n) ++ own h n |` set (symbol_keys h n) = enumerable h n"
    "c \<in> set (string_keys h n) \<Longrightarrow> enumerable h n c \<noteq> None" "c \<in> set (symbol_keys h n) \<Longrightarrow> enumerable h n c \<noteq> None"
    "enumerable h n c \<noteq> None \<Longrightarrow> own h n c \<noteq> None"
proof -
  have mem: "(k, v, e) \<in> set (ob_props (h ! n)) \<longleftrightarrow> map_of (ob_props (h ! n)) k = Some (v, e)" for k v e
    using assms by simp
  have s: "k \<in> set (string_keys h n) \<longleftrightarrow> enumerable h n k \<noteq> None \<and> (\<exists>s. k = KStr s)" for k
    by (force simp: string_keys_def enumerable_def mem image_iff split: option.splits bool.splits)
  have y: "k \<in> set (symbol_keys h n) \<longleftrightarrow> enumerable h n k \<noteq> None \<and> (\<exists>s. k = KSym s)" for k
    by (force simp: symbol_keys_def enumerable_def mem image_iff split: option.splits bool.splits)
  show "c \<in> set (string_keys h n) \<Longrightarrow> enumerable h n c \<noteq> None" "c \<in> set (symbol_keys h n) \<Longrightarrow> enumerable h n c \<noteq> None"
    by (simp_all add: s y)
  show "enumerable h n c \<noteq> None \<Longrightarrow> own h n c \<noteq> None"
    by (auto simp: enumerable_def own_def split: option.splits)
  have eo: "enumerable h n k = Some v \<Longrightarrow> own h n k = Some v" for k v
    by (auto simp: enumerable_def own_def split: option.splits bool.splits)
  show "own h n |` set (string_keys h n) ++ own h n |` set (symbol_keys h n) = enumerable h n"
  proof
    fix k
    show "(own h n |` set (string_keys h n) ++ own h n |` set (symbol_keys h n)) k = enumerable h n k"
      using eo [of k] by (cases k; cases "enumerable h n k") (auto simp: map_add_def restrict_map_def s y split: option.split)
  qed
qed

definition good_source :: "heap \<Rightarrow> addr \<Rightarrow> addr \<Rightarrow> bool" where
  "good_source h u n \<longleftrightarrow> n \<noteq> u \<and> distinct (map fst (ob_props (h ! n))) \<and> enumerable h n PROTO_KEY = None"

lemma assign_sources_own:
  assumes "u < length h" "\<forall>n \<in> set ns. good_source h u n"
  shows "\<exists>h'. assign_sources u (map VRef ns) h = (Inr (), h') \<and> length h' = length h \<and> (\<forall>b. b \<noteq> u \<longrightarrow> h' ! b = h ! b) \<and>
    own h' u = foldl (\<lambda>m n. m ++ enumerable h n) (own h u) ns"
  using assms
proof (induction ns arbitrary: h)
  case Nil
  then show ?case by auto
next
  case (Cons n ns)
  have n: "n \<noteq> u" "distinct (map fst (ob_props (h ! n)))" "enumerable h n PROTO_KEY = None"
    using Cons.prems(2) by (simp_all add: good_source_def)
  note keys = keys_facts [OF n(2)]
  obtain h1 where h1: "copy_keys u n (string_keys h n) h = (Inr (), h1)" "length h1 = length h" "\<forall>b. b \<noteq> u \<longrightarrow> h1 ! b = h ! b"
      "own h1 u = own h u ++ (own h n |` set (string_keys h n))"
    using copy_keys_own [OF Cons.prems(1) n(1), of "string_keys h n"] keys(2,4) n(3) by metis
  have same: "own h1 n = own h n" "symbol_keys h1 n = symbol_keys h n"
    using h1(3) n(1) by (simp_all add: own_def fun_eq_iff symbol_keys_def)
  obtain h2 where h2: "copy_keys u n (symbol_keys h n) h1 = (Inr (), h2)" "length h2 = length h" "\<forall>b. b \<noteq> u \<longrightarrow> h2 ! b = h ! b"
      "own h2 u = own h1 u ++ (own h n |` set (symbol_keys h n))"
    using copy_keys_own [of u h1 n "symbol_keys h n"] Cons.prems(1) n keys(3,4) h1(2,3) same by metis
  have own2: "own h2 u = own h u ++ enumerable h n"
    unfolding h2(4) h1(4) keys(1) [symmetric] by (simp add: map_add_assoc)
  have frame: "enumerable h2 m = enumerable h m" "good_source h2 u m" if "m \<in> set ns" for m
    using Cons.prems(2) that h2(3) by (auto simp: good_source_def enumerable_def fun_eq_iff)
  obtain h' where h': "assign_sources u (map VRef ns) h2 = (Inr (), h')" "length h' = length h2" "\<forall>b. b \<noteq> u \<longrightarrow> h' ! b = h2 ! b"
      "own h' u = foldl (\<lambda>m n. m ++ enumerable h2 n) (own h2 u) ns"
    using Cons.IH [of h2] Cons.prems(1) frame(2) h2(2) by auto
  have "foldl (\<lambda>m n. m ++ enumerable h2 n) (own h2 u) ns = foldl (\<lambda>m n. m ++ enumerable h n) (own h2 u) ns"
    using frame(1) by (intro foldl_cong) auto
  with h' h2 h1 same own2 show ?case by (simp add: source_object_def)
qed

lemma object_assign_own:
  assumes "u < length h" "\<forall>n \<in> set ns. good_source h u n"
  shows "\<exists>h'. object_assign (VRef u # map VRef ns) h = (Inr (VRef u), h') \<and> (\<forall>b. b \<noteq> u \<longrightarrow> h' ! b = h ! b) \<and>
    own h' u = foldl (\<lambda>m n. m ++ enumerable h n) (own h u) ns"
  using assign_sources_own [OF assms] by (auto simp: object_assign_def toObject_def)

end
