(* ===== verification/JsDeepExtend.thy ===== *)
theory JsDeepExtend
  imports JsObjects
begin

text \<open>
  The \<open>deep-extend\<close> module of \<open>swagger-ui-bundle.js\<close>: recursive merging of objects into the first
  argument. Calls run on the heap of \<open>JsObjects\<close>, may throw, and may not return on cyclic data:
  \<open>deep n\<close> allows \<open>n\<close> nested calls and \<open>None\<close> means they were not enough. The class of an object
  tested with \<open>instanceof\<close> is read off its kind.
\<close>

section \<open>Actions on the heap\<close>

type_synonym 'a jsm = "heap \<Rightarrow> ((jserror + 'a) \<times> heap) option"

definition m_ret :: "'a \<Rightarrow> 'a jsm" where
  "m_ret x h = Some (Inr x, h)"

definition m_throw :: "jserror \<Rightarrow> 'a jsm" where
  "m_throw e h = Some (Inl e, h)"

definition m_then :: "'a jsm \<Rightarrow> ('a \<Rightarrow> 'b jsm) \<Rightarrow> 'b jsm" where
  "m_then m f h = (case m h of None \<Rightarrow> None | Some (Inl e, h) \<Rightarrow> Some (Inl e, h) | Some (Inr x, h) \<Rightarrow> f x h)"

definition m_read :: "(heap \<Rightarrow> 'a) \<Rightarrow> 'a jsm" where
  "m_read f h = Some (Inr (f h), h)"

definition m_alloc :: "okind \<Rightarrow> addr jsm" where
  "m_alloc k h = (let (a, h) = alloc k h in Some (Inr a, h))"

definition m_put :: "addr \<Rightarrow> jskey \<Rightarrow> jsval \<Rightarrow> unit jsm" where
  "m_put a k v h = (case js_put h a k v of Inl e \<Rightarrow> Some (Inl e, h) | Inr h \<Rightarrow> Some (Inr (), h))"

fun m_each :: "('x \<Rightarrow> unit jsm) \<Rightarrow> 'x list \<Rightarrow> unit jsm" where
  "m_each f [] = m_ret ()"
| "m_each f (x # xs) = m_then (f x) (\<lambda>_. m_each f xs)"

lemma m_simps:
  "m_ret x h = Some (Inr x, h)" "m_throw e h = Some (Inl e, h)" "m_read f h = Some (Inr (f h), h)"
  "m h = Some (Inr x, h') \<Longrightarrow> m_then m f h = f x h'"
  "m h = Some (Inl e, h') \<Longrightarrow> m_then m f h = Some (Inl e, h')"
  by (simp_all add: m_ret_def m_throw_def m_read_def m_then_def)

section \<open>The module\<close>

definition is_object :: "heap \<Rightarrow> jsval \<Rightarrow> bool" where
  "is_object h v = (case v of VNull \<Rightarrow> True | VRef a \<Rightarrow> ob_kind (h ! a) \<noteq> KFunction | _ \<Rightarrow> False)"

definition is_array :: "heap \<Rightarrow> jsval \<Rightarrow> bool" where
  "is_array h v = (case v of VRef a \<Rightarrow> (case ob_kind (h ! a) of KArray _ \<Rightarrow> True | _ \<Rightarrow> False) | _ \<Rightarrow> False)"

definition isSpecificValue :: "heap \<Rightarrow> jsval \<Rightarrow> bool" where
  "isSpecificValue h v =
     (case v of
        VRef a \<Rightarrow> (case ob_kind (h ! a) of KBuffer _ \<Rightarrow> True | KDate _ \<Rightarrow> True | KRegExp _ \<Rightarrow> True | _ \<Rightarrow> False)
      | _ \<Rightarrow> False)"

text \<open>A new object of the same class with the same content.\<close>

definition cloneSpecificValue :: "jsval \<Rightarrow> jsval jsm" where
  "cloneSpecificValue v h =
     (if isSpecificValue h v
      then (case v of VRef a \<Rightarrow> m_then (m_alloc (ob_kind (h ! a))) (\<lambda>b. m_ret (VRef b)) h | _ \<Rightarrow> m_throw PlainError h)
      else m_throw PlainError h)"

datatype job = CloneArray jsval | Extend "jsval list"

definition index_key :: "nat \<Rightarrow> jskey" where
  "index_key i = KStr (decimal i)"

definition array_length :: "heap \<Rightarrow> jsval \<Rightarrow> nat" where
  "array_length h v = (case v of VRef a \<Rightarrow> (case ob_kind (h ! a) of KArray n \<Rightarrow> n | _ \<Rightarrow> 0) | _ \<Rightarrow> 0)"

text \<open>The value stored for an element: a copy of an object, any other value itself.\<close>

definition fresh_copy :: "(job \<Rightarrow> jsval jsm) \<Rightarrow> jsval \<Rightarrow> jsval jsm" where
  "fresh_copy run e h =
     (if is_object h e \<and> e \<noteq> VNull then
        if is_array h e then run (CloneArray e) h
        else if isSpecificValue h e then cloneSpecificValue e h
        else m_then (m_alloc KPlain) (\<lambda>b. run (Extend [VRef b, e])) h
      else m_ret e h)"

definition clone_element :: "(job \<Rightarrow> jsval jsm) \<Rightarrow> jsval \<Rightarrow> addr \<Rightarrow> nat \<Rightarrow> unit jsm" where
  "clone_element run e t i h =
     (case e of
        VRef a \<Rightarrow>
          (case own h a (index_key i) of
             None \<Rightarrow> m_ret () h
           | Some v \<Rightarrow> m_then (fresh_copy run v) (m_put t (index_key i)) h)
      | _ \<Rightarrow> m_throw TypeError h)"

definition deepCloneArray :: "(job \<Rightarrow> jsval jsm) \<Rightarrow> jsval \<Rightarrow> jsval jsm" where
  "deepCloneArray run e =
     m_then (m_alloc (KArray 0)) (\<lambda>t.
     m_then (m_read (\<lambda>h. array_length h e)) (\<lambda>n.
     m_then (m_each (clone_element run e t) [0..<n]) (\<lambda>_.
     m_ret (VRef t))))"

text \<open>One key of a source: \<open>a\<close> is the target, \<open>s\<close> the source.\<close>

definition extend_key :: "(job \<Rightarrow> jsval jsm) \<Rightarrow> jsval \<Rightarrow> addr \<Rightarrow> jskey \<Rightarrow> unit jsm" where
  "extend_key run target s u h =
     (case target of
        VRef a \<Rightarrow>
          let t = js_get h a u; e = js_get h s u
          in if e = target then m_ret () h
             else if \<not> is_object h e \<or> e = VNull then m_put a u e h
             else if is_array h e then m_then (run (CloneArray e)) (m_put a u) h
             else if isSpecificValue h e then m_then (cloneSpecificValue e) (m_put a u) h
             else if \<not> is_object h t \<or> t = VNull \<or> is_array h t
             then m_then (m_alloc KPlain) (\<lambda>b. m_then (run (Extend [VRef b, e])) (m_put a u)) h
             else m_then (run (Extend [t, e])) (m_put a u) h
      | _ \<Rightarrow> m_throw TypeError h)"

definition extend_source :: "(job \<Rightarrow> jsval jsm) \<Rightarrow> jsval \<Rightarrow> jsval \<Rightarrow> unit jsm" where
  "extend_source run target s h =
     (if \<not> is_object h s \<or> is_array h s then m_ret () h
      else (case s of
              VRef b \<Rightarrow> m_each (extend_key run target b) (string_keys h b) h
            | _ \<Rightarrow> m_throw TypeError h))"

definition extend_args :: "(job \<Rightarrow> jsval jsm) \<Rightarrow> jsval list \<Rightarrow> jsval jsm" where
  "extend_args run args h =
     (case args of
        [] \<Rightarrow> m_ret (VBool False) h
      | a # rest \<Rightarrow>
          if \<not> is_object h a then m_ret (VBool False) h
          else if rest = [] then m_ret a h
          else m_then (m_each (extend_source run a) rest) (\<lambda>_. m_ret a) h)"

fun deep :: "nat \<Rightarrow> job \<Rightarrow> jsval jsm" where
  "deep 0 job h = None"
| "deep (Suc n) (CloneArray e) h = deepCloneArray (deep n) e h"
| "deep (Suc n) (Extend args) h = extend_args (deep n) args h"

definition deepExtend :: "nat \<Rightarrow> jsval list \<Rightarrow> jsval jsm" where
  "deepExtend n args = deep n (Extend args)"

end
