(* ===== verification/JsDeepMerge.thy ===== *)
theory JsDeepMerge
  imports JsDeepExtend
begin

text \<open>
  What \<open>deep-extend\<close> computes, on trees: a heap value represents a tree when its objects are
  distinct and carry the tree's properties, and merging is then a function on trees. The lemmas
  show that the module terminates, merges, leaves the sources as they are, and shares no object
  with them.
\<close>

section \<open>Trees and what represents them\<close>

datatype jtree = TVal jsval | TObj okind "(jskey \<times> jtree) list"

text \<open>The first address that is not a built-in prototype.\<close>

definition FIRST :: addr where "FIRST = 7"

definition plain_val :: "heap \<Rightarrow> jsval \<Rightarrow> bool" where
  "plain_val h p = (case p of VRef a \<Rightarrow> a < length h \<and> ob_kind (h ! a) = KFunction | _ \<Rightarrow> True)"

fun repr :: "heap \<Rightarrow> jtree \<Rightarrow> jsval \<Rightarrow> addr set \<Rightarrow> bool"
  and repr_props :: "heap \<Rightarrow> (jskey \<times> jtree) list \<Rightarrow> (jskey \<times> jsval \<times> bool) list \<Rightarrow> addr set \<Rightarrow> bool" where
  "repr h (TVal p) v F \<longleftrightarrow> v = p \<and> F = {} \<and> plain_val h p"
| "repr h (TObj kd ps) v F \<longleftrightarrow> (\<exists>a G. v = VRef a \<and> FIRST \<le> a \<and> a < length h \<and> a \<notin> G \<and> F = insert a G \<and>
     ob_kind (h ! a) = kd \<and> ob_proto (h ! a) = Some (proto_of_kind kd) \<and> repr_props h ps (ob_props (h ! a)) G)"
| "repr_props h [] rs F \<longleftrightarrow> rs = [] \<and> F = {}"
| "repr_props h ((k, t) # ps) rs F \<longleftrightarrow> (\<exists>v rs' F1 F2. rs = (k, v, True) # rs' \<and> F = F1 \<union> F2 \<and> F1 \<inter> F2 = {} \<and>
     repr h t v F1 \<and> repr_props h ps rs' F2)"

definition key_ok :: "jskey \<Rightarrow> bool" where
  "key_ok k \<longleftrightarrow> k \<noteq> PROTO_KEY \<and> (\<exists>s. k = KStr s)"

definition kind_ok :: "okind \<Rightarrow> bool" where
  "kind_ok kd \<longleftrightarrow> (case kd of KPlain \<Rightarrow> True | KArray _ \<Rightarrow> True | KBuffer _ \<Rightarrow> True | KDate _ \<Rightarrow> True | KRegExp _ \<Rightarrow> True
     | _ \<Rightarrow> False)"

definition record_kind :: "okind \<Rightarrow> bool" where
  "record_kind kd \<longleftrightarrow> kind_ok kd \<and> (\<forall>n. kd \<noteq> KArray n)"

definition shape_ok :: "okind \<Rightarrow> jskey list \<Rightarrow> bool" where
  "shape_ok kd ks \<longleftrightarrow> (case kd of KPlain \<Rightarrow> True | KArray n \<Rightarrow> ks = map index_key [0..<n] | _ \<Rightarrow> ks = [])"

text \<open>The trees a source may be: dense arrays, no extra properties on dates and the like.\<close>

fun tree_ok :: "jtree \<Rightarrow> bool" and props_ok :: "(jskey \<times> jtree) list \<Rightarrow> bool" where
  "tree_ok (TVal p) = True"
| "tree_ok (TObj kd ps) = (kind_ok kd \<and> distinct (map fst ps) \<and> shape_ok kd (map fst ps) \<and> props_ok ps)"
| "props_ok [] = True"
| "props_ok ((k, t) # ps) = (key_ok k \<and> tree_ok t \<and> props_ok ps)"

fun depth :: "jtree \<Rightarrow> nat" and props_depth :: "(jskey \<times> jtree) list \<Rightarrow> nat" where
  "depth (TVal p) = 0"
| "depth (TObj kd ps) = Suc (props_depth ps)"
| "props_depth [] = 0"
| "props_depth ((k, t) # ps) = max (depth t) (props_depth ps)"

text \<open>The merge: a plain object meets an object that is no array; anything else replaces.\<close>

fun merge :: "(jskey \<times> jtree) list \<Rightarrow> (jskey \<times> jtree) list \<Rightarrow> (jskey \<times> jtree) list" where
  "merge m [] = m"
| "merge m ((k, e) # ps) =
     merge (AList.update k
       (case e of
          TObj KPlain n \<Rightarrow>
            (case map_of m k of Some (TObj kd m') \<Rightarrow> if record_kind kd then TObj kd (merge m' n) else e | _ \<Rightarrow> e)
        | _ \<Rightarrow> e) m) ps"

definition merge_value :: "jtree option \<Rightarrow> jtree \<Rightarrow> jtree" where
  "merge_value t e =
     (case e of
        TObj KPlain n \<Rightarrow> (case t of Some (TObj kd m') \<Rightarrow> if record_kind kd then TObj kd (merge m' n) else e | _ \<Rightarrow> e)
      | _ \<Rightarrow> e)"

lemma merge_Cons: "merge m ((k, e) # ps) = merge (AList.update k (merge_value (map_of m k) e) m) ps"
  by (simp add: merge_value_def)

lemma merge_append: "merge m (ps @ qs) = merge (merge m ps) qs"
  by (induction m ps rule: merge.induct) (simp_all only: append_Nil append_Cons merge.simps)

lemma update_new: "k \<notin> fst ` set m \<Longrightarrow> AList.update k v m = m @ [(k, v)]"
  by (induction m) auto

lemma merge_new: "distinct (map fst (m @ ps)) \<Longrightarrow> merge m ps = m @ ps"
proof (induction ps arbitrary: m)
  case (Cons p ps)
  obtain k e where p: "p = (k, e)" by (cases p)
  have k: "k \<notin> fst ` set m" using Cons.prems p by auto
  then have "map_of m k = None" by (simp add: map_of_eq_None_iff)
  then have "merge_value (map_of m k) e = e" by (simp add: merge_value_def split: jtree.split okind.split)
  then have "merge m (p # ps) = merge (m @ [(k, e)]) ps" unfolding p merge_Cons by (simp add: update_new [OF k])
  also have "\<dots> = m @ p # ps" using Cons.IH [of "m @ [(k, e)]"] Cons.prems p by simp
  finally show ?case .
qed simp

section \<open>Changes of the heap\<close>

definition stable :: "heap \<Rightarrow> heap \<Rightarrow> bool" where
  "stable h h' \<longleftrightarrow> length h \<le> length h' \<and> (\<forall>x < length h. (ob_kind (h' ! x) = KFunction) = (ob_kind (h ! x) = KFunction))"

text \<open>Only objects in \<open>A\<close> and new objects change.\<close>

definition ext :: "addr set \<Rightarrow> heap \<Rightarrow> heap \<Rightarrow> bool" where
  "ext A h h' \<longleftrightarrow> stable h h' \<and> (\<forall>x < length h. x \<notin> A \<longrightarrow> h' ! x = h ! x)"

lemma ext_refl [simp]: "ext A h h"
  by (simp add: ext_def stable_def)

lemma ext_length: "ext A h h' \<Longrightarrow> length h \<le> length h'"
  by (simp add: ext_def stable_def)

lemma ext_same: "ext A h h' \<Longrightarrow> x < length h \<Longrightarrow> x \<notin> A \<Longrightarrow> h' ! x = h ! x"
  by (simp add: ext_def)

lemma ext_trans: "ext A h h1 \<Longrightarrow> ext B h1 h2 \<Longrightarrow> B \<subseteq> A \<union> {length h..} \<Longrightarrow> ext A h h2"
  unfolding ext_def stable_def
  by (intro conjI allI impI) (auto dest!: subsetD dest: order_less_le_trans)

lemma ext_mono: "ext A h h' \<Longrightarrow> A \<subseteq> B \<Longrightarrow> ext B h h'"
  by (auto simp: ext_def)

lemma alloc_ext: "alloc k h = (a, h') \<Longrightarrow> ext A h h' \<and> a = length h \<and> length h' = Suc (length h) \<and>
    h' ! a = \<lparr>ob_kind = k, ob_proto = Some (proto_of_kind k), ob_props = []\<rparr>"
  by (auto simp: alloc_def ext_def stable_def nth_append)

lemma repr_bound:
  "repr h t v F \<Longrightarrow> F \<subseteq> {FIRST..<length h}"
  "repr_props h ps rs F \<Longrightarrow> F \<subseteq> {FIRST..<length h}"
proof (induction h t v F and h ps rs F rule: repr_repr_props.induct)
  case (4 h k t ps rs F)
  then show ?case by (simp del: atLeastLessThan_iff) blast
qed auto

lemma repr_frame:
  "repr h t v F \<Longrightarrow> ext A h h' \<Longrightarrow> F \<inter> A = {} \<Longrightarrow> repr h' t v F"
  "repr_props h ps rs F \<Longrightarrow> ext A h h' \<Longrightarrow> F \<inter> A = {} \<Longrightarrow> repr_props h' ps rs F"
proof (induction h t v F and h ps rs F arbitrary: and rule: repr_repr_props.induct)
  case (1 h p v F)
  then show ?case by (auto simp: plain_val_def ext_def stable_def split: jsval.splits)
next
  case (2 h kd ps v F)
  from "2.prems"(1) obtain a G where a: "v = VRef a" "FIRST \<le> a" "a < length h" "a \<notin> G" "F = insert a G"
    "ob_kind (h ! a) = kd" "ob_proto (h ! a) = Some (proto_of_kind kd)" "repr_props h ps (ob_props (h ! a)) G" by auto
  have "h' ! a = h ! a" using "2.prems"(2,3) a(3,5) by (auto intro: ext_same)
  moreover have "repr_props h' ps (ob_props (h ! a)) G" using "2.IH" [OF a(8) "2.prems"(2)] a(5) "2.prems"(3) by auto
  ultimately show ?case using a ext_length [OF "2.prems"(2)] by auto
next
  case (4 h k t ps rs F)
  from "4.prems"(1) obtain v rs' F1 F2 where r: "rs = (k, v, True) # rs'" "F = F1 \<union> F2" "F1 \<inter> F2 = {}"
    "repr h t v F1" "repr_props h ps rs' F2" by auto
  have "repr h' t v F1" "repr_props h' ps rs' F2"
    using "4.IH"(1) [OF r(4) "4.prems"(2)] "4.IH"(2) [OF r(5) "4.prems"(2)] "4.prems"(3) r(2) by blast+
  then show ?case using r(1-3) by auto
qed simp

lemma repr_props_keys: "repr_props h ps rs F \<Longrightarrow> map fst rs = map fst ps \<and> list_all (\<lambda>r. snd (snd r)) rs"
  by (induction ps arbitrary: rs F) auto

text \<open>A child of an object, and what replacing it does.\<close>

lemma repr_props_child:
  assumes "repr_props h m rs F" "map_of m k = Some t" "distinct (map fst m)"
  shows "\<exists>v F1 F2. map_of rs k = Some (v, True) \<and> repr h t v F1 \<and> F = F1 \<union> F2 \<and> F1 \<inter> F2 = {} \<and>
    (\<forall>A h' t' v' F1'. ext A h h' \<longrightarrow> F2 \<inter> A = {} \<longrightarrow> repr h' t' v' F1' \<longrightarrow> F1' \<inter> F2 = {} \<longrightarrow>
       repr_props h' (AList.update k t' m) (AList.update k (v', True) rs) (F1' \<union> F2))"
  using assms
proof (induction m arbitrary: rs F)
  case (Cons p m)
  obtain j s where p: "p = (j, s)" by (cases p)
  obtain w rs' G1 G2 where rs: "rs = (j, w, True) # rs'" "F = G1 \<union> G2" "G1 \<inter> G2 = {}" "repr h s w G1" "repr_props h m rs' G2"
    using Cons.prems(1) p by auto
  show ?case
  proof (cases "j = k")
    case True
    then have "s = t" using Cons.prems(2) p by simp
    have "repr_props h' (AList.update k t' (p # m)) (AList.update k (v', True) rs) (F1' \<union> G2)"
      if "ext A h h'" "G2 \<inter> A = {}" "repr h' t' v' F1'" "F1' \<inter> G2 = {}" for A h' t' v' F1'
      using repr_frame(2) [OF rs(5) that(1,2)] that(3,4) unfolding p rs(1) True by auto
    moreover have "map_of rs k = Some (w, True)" "repr h t w G1" using rs(1,4) True \<open>s = t\<close> by simp_all
    ultimately show ?thesis using rs(2,3) by blast
  next
    case False
    then have k: "map_of m k = Some t" using Cons.prems(2) p by simp
    obtain v F1 F2 where ih: "map_of rs' k = Some (v, True)" "repr h t v F1" "G2 = F1 \<union> F2" "F1 \<inter> F2 = {}"
      "\<And>A h' t' v' F1'. ext A h h' \<Longrightarrow> F2 \<inter> A = {} \<Longrightarrow> repr h' t' v' F1' \<Longrightarrow> F1' \<inter> F2 = {} \<Longrightarrow>
       repr_props h' (AList.update k t' m) (AList.update k (v', True) rs') (F1' \<union> F2)"
      using Cons.IH [OF rs(5) k] Cons.prems(3) by auto
    have "repr_props h' (AList.update k t' (p # m)) (AList.update k (v', True) rs) (F1' \<union> (G1 \<union> F2))"
      if "ext A h h'" "(G1 \<union> F2) \<inter> A = {}" "repr h' t' v' F1'" "F1' \<inter> (G1 \<union> F2) = {}" for A h' t' v' F1'
    proof -
      have "repr h' s w G1" using repr_frame(1) [OF rs(4) that(1)] that(2) by blast
      moreover have "repr_props h' (AList.update k t' m) (AList.update k (v', True) rs') (F1' \<union> F2)"
        using that by (intro ih(5)) auto
      moreover have "F1' \<union> (G1 \<union> F2) = G1 \<union> (F1' \<union> F2)" "G1 \<inter> (F1' \<union> F2) = {}"
        using that(4) rs(3) ih(3) by auto
      ultimately show ?thesis using False unfolding p rs(1) by auto
    qed
    moreover have "F = F1 \<union> (G1 \<union> F2)" "F1 \<inter> (G1 \<union> F2) = {}" using rs(2,3) ih(3,4) by auto
    moreover have "map_of rs k = Some (v, True)" using ih(1) rs(1) False by simp
    ultimately show ?thesis using ih(2) by blast
  qed
qed simp

text \<open>The objects of a representation are determined by the value.\<close>

lemma repr_unique:
  "repr h t v F \<Longrightarrow> repr h t v F' \<Longrightarrow> F = F'"
  "repr_props h ps rs F \<Longrightarrow> repr_props h ps rs F' \<Longrightarrow> F = F'"
proof (induction h t v F and h ps rs F arbitrary: F' and F' rule: repr_repr_props.induct)
  case (2 h kd ps v F)
  then show ?case by auto
next
  case (4 h k t ps rs F)
  then show ?case by (metis list.inject old.prod.inject repr_props.simps(2))
qed auto

lemma repr_props_append:
  "repr_props h m rs F \<Longrightarrow> repr h t v F' \<Longrightarrow> F \<inter> F' = {} \<Longrightarrow> repr_props h (m @ [(k, t)]) (rs @ [(k, v, True)]) (F \<union> F')"
proof (induction m arbitrary: rs F)
  case (Cons p m)
  then obtain j s w rs' G1 G2 where p: "p = (j, s)" and rs: "rs = (j, w, True) # rs'" "F = G1 \<union> G2" "G1 \<inter> G2 = {}"
      "repr h s w G1" "repr_props h m rs' G2"
    by (cases p) auto
  have "repr_props h (m @ [(k, t)]) (rs' @ [(k, v, True)]) (G2 \<union> F')"
    using Cons.IH [OF rs(5) Cons.prems(2)] Cons.prems(3) rs(2) by blast
  moreover have "F \<union> F' = G1 \<union> (G2 \<union> F')" "G1 \<inter> (G2 \<union> F') = {}" using rs(2,3) Cons.prems(3) by auto
  ultimately show ?case using rs p by auto
qed auto

section \<open>Reading and writing\<close>

definition protos_ok :: "heap \<Rightarrow> bool" where
  "protos_ok h \<longleftrightarrow> FIRST \<le> length h \<and> ob_proto (h ! 0) = None \<and> (\<forall>p \<in> {1..<FIRST}. ob_proto (h ! p) = Some 0) \<and>
     (\<forall>p < FIRST. \<forall>k v. own h p k = Some v \<longrightarrow>
        \<not> is_object h v \<and> (case v of VRef a \<Rightarrow> a < length h | _ \<Rightarrow> True))"

lemma is_object_ext:
  "stable h h' \<Longrightarrow> (case v of VRef a \<Rightarrow> a < length h | _ \<Rightarrow> True) \<Longrightarrow> is_object h' v = is_object h v"
  by (auto simp: is_object_def stable_def split: jsval.splits)

lemma protos_ext:
  assumes "protos_ok h" "ext A h h'" "A \<subseteq> {FIRST..}"
  shows "protos_ok h'"
proof -
  have same: "h' ! p = h ! p" if "p < FIRST" for p
  proof (rule ext_same [OF assms(2)])
    show "p \<notin> A" using assms(3) that by (meson atLeast_iff linorder_not_less subsetD)
  qed (use assms(1) that in \<open>simp add: protos_ok_def\<close>)
  have st: "stable h h'" using assms(2) by (simp add: ext_def)
  have own: "\<not> is_object h' v \<and> (case v of VRef a \<Rightarrow> a < length h' | _ \<Rightarrow> True)" if "p < FIRST" "own h' p k = Some v" for p k v
  proof -
    have "own h p k = Some v" using that same by (simp add: own_def)
    then have "\<not> is_object h v \<and> (case v of VRef a \<Rightarrow> a < length h | _ \<Rightarrow> True)"
      using assms(1) that(1) unfolding protos_ok_def by blast
    then show ?thesis using is_object_ext [OF st] ext_length [OF assms(2)] by (auto split: jsval.splits)
  qed
  have "ob_proto (h' ! 0) = None" "\<forall>p \<in> {1..<FIRST}. ob_proto (h' ! p) = Some 0"
    using assms(1) same by (auto simp: protos_ok_def FIRST_def)
  then show ?thesis using own assms(1) ext_length [OF assms(2)] by (auto simp: protos_ok_def)
qed

lemma get_own: "own h a k = Some v \<Longrightarrow> js_get h a k = v"
  by (simp add: js_get_def lookup_own)

lemma proto_of_kind_bound: "proto_of_kind k < FIRST"
  by (simp add: proto_of_kind_def OBJECT_PROTO_def FIRST_def split: okind.split)

lemma get_missing:
  assumes "protos_ok h" "FIRST \<le> a" "ob_proto (h ! a) = Some p" "p < FIRST" "own h a k = None" "k \<noteq> PROTO_KEY"
  shows "\<not> is_object h (js_get h a k)"
proof -
  obtain m where m: "length h = Suc (Suc m)" using assms(1) by (cases "length h"; cases "length h - 1") (auto simp: protos_ok_def FIRST_def)
  have "a \<noteq> OBJECT_PROTO" using assms(2) by (simp add: OBJECT_PROTO_def FIRST_def)
  then have one: "js_get h a k = lookup (Suc m) h a p k"
    using assms(3,5) by (simp add: js_get_def m lookup.simps [of _ h a a])
  have undef: "\<not> is_object h VUndefined" by (simp add: is_object_def)
  have own: "\<not> is_object h v" if "q < FIRST" "own h q k = Some v" for q v
    using assms(1) that unfolding protos_ok_def by blast
  have zero: "\<not> is_object h (lookup j h a 0 k)" for j
    using own [of 0] assms(1,6) undef
    by (auto simp: lookup.simps [of _ h a 0] protos_ok_def FIRST_def split: option.split nat.split)
  show ?thesis
  proof (cases "p = 0")
    case False
    then have "ob_proto (h ! p) = Some 0" using assms(1,4) by (auto simp: protos_ok_def)
    then show ?thesis
      using own [OF assms(4)] zero [of m] False assms(6)
      by (auto simp: one lookup.simps [of _ h a p] split: option.split)
  qed (simp add: one zero)
qed

lemma update_same: "map_of m k = Some v \<Longrightarrow> AList.update k v m = m"
  by (induction m) auto

lemma reprE:
  assumes "repr h (TObj kd m) (VRef a) A"
  obtains G where "FIRST \<le> a" "a < length h" "a \<notin> G" "A = insert a G" "ob_kind (h ! a) = kd"
    "ob_proto (h ! a) = Some (proto_of_kind kd)" "repr_props h m (ob_props (h ! a)) G"
  using assms by auto

lemma reprI:
  "FIRST \<le> a \<Longrightarrow> a < length h \<Longrightarrow> a \<notin> G \<Longrightarrow> ob_kind (h ! a) = kd \<Longrightarrow> ob_proto (h ! a) = Some (proto_of_kind kd) \<Longrightarrow>
   repr_props h m (ob_props (h ! a)) G \<Longrightarrow> repr h (TObj kd m) (VRef a) (insert a G)"
  by auto

declare repr.simps(2) [simp del]

lemma own_child:
  assumes "repr h (TObj kd m) (VRef a) A" "distinct (map fst m)"
  shows "map_of m k = None \<Longrightarrow> map_of (ob_props (h ! a)) k = None"
    "map_of m k = Some t \<Longrightarrow> \<exists>v F. map_of (ob_props (h ! a)) k = Some (v, True) \<and> repr h t v F \<and> F \<subseteq> A - {a}"
proof -
  obtain G where G: "repr_props h m (ob_props (h ! a)) G" "a \<notin> G" "A = insert a G" using assms(1) by (rule reprE)
  show "map_of m k = None \<Longrightarrow> map_of (ob_props (h ! a)) k = None"
    using repr_props_keys [OF G(1)] by (metis map_of_eq_None_iff list.set_map)
  show "map_of m k = Some t \<Longrightarrow> \<exists>v F. map_of (ob_props (h ! a)) k = Some (v, True) \<and> repr h t v F \<and> F \<subseteq> A - {a}"
    using repr_props_child [OF G(1) _ assms(2)] G(2,3) by blast
qed

lemma grown_proto: "proto_of_kind (grown k kd) = proto_of_kind kd" "grown k kd = KFunction \<longleftrightarrow> kd = KFunction"
  by (auto simp: grown_def proto_of_kind_def split: okind.splits option.splits)

text \<open>Writing a property whose value represents a tree apart from the target.\<close>

lemma put_tree:
  assumes a: "repr h (TObj kd m) (VRef a) A" and d: "distinct (map fst m)" "kd \<noteq> KFunction"
    and v: "repr h t v F" and sep: "F \<inter> A = {}" and k: "k \<noteq> PROTO_KEY"
  shows "\<exists>h' A'. js_put h a k v = Inr h' \<and> ext {a} h h' \<and> A' \<subseteq> A \<union> F \<and>
    repr h' (TObj (if map_of m k = None then grown k kd else kd) (AList.update k t m)) (VRef a) A'"
proof -
  obtain G where G: "FIRST \<le> a" "a < length h" "a \<notin> G" "A = insert a G" "ob_kind (h ! a) = kd"
    "ob_proto (h ! a) = Some (proto_of_kind kd)" "repr_props h m (ob_props (h ! a)) G" using a by (rule reprE)
  have aF: "a \<notin> F" "F \<inter> G = {}" "G \<inter> F = {}" using sep G(4) by auto
  show ?thesis
  proof (cases "map_of m k")
    case None
    let ?h = "h[a := (h ! a)\<lparr>ob_props := ob_props (h ! a) @ [(k, v, True)], ob_kind := grown k kd\<rparr>]"
    have ext: "ext {a} h ?h"
      using d(2) G(2,5) grown_proto(2) by (auto simp: ext_def stable_def nth_list_update)
    have "repr_props ?h (m @ [(k, t)]) (ob_props (h ! a) @ [(k, v, True)]) (G \<union> F)"
      using repr_frame(2) [OF G(7) ext] repr_frame(1) [OF v ext] G(3) aF by (intro repr_props_append) simp_all
    then have "repr ?h (TObj (grown k kd) (m @ [(k, t)])) (VRef a) (insert a (G \<union> F))"
      by (intro reprI) (use G aF in \<open>simp_all add: grown_proto\<close>)
    moreover have "js_put h a k v = Inr ?h"
      using own_child(1) [OF a d(1) None] k G(5) by (simp add: js_put_def)
    moreover have "k \<notin> fst ` set m" using None by (simp add: map_of_eq_None_iff)
    ultimately show ?thesis
      using ext None G(4) by (intro exI [of _ ?h] exI [of _ "insert a (G \<union> F)"] conjI) (simp_all add: update_new subset_iff)
  next
    case (Some s)
    obtain w F1 F2 where c: "map_of (ob_props (h ! a)) k = Some (w, True)" "G = F1 \<union> F2"
      "\<And>A h' t' v' F1'. ext A h h' \<Longrightarrow> F2 \<inter> A = {} \<Longrightarrow> repr h' t' v' F1' \<Longrightarrow> F1' \<inter> F2 = {} \<Longrightarrow>
       repr_props h' (AList.update k t' m) (AList.update k (v', True) (ob_props (h ! a))) (F1' \<union> F2)"
      using repr_props_child [OF G(7) Some d(1)] by metis
    let ?h = "h[a := (h ! a)\<lparr>ob_props := AList.update k (v, True) (ob_props (h ! a))\<rparr>]"
    have ext: "ext {a} h ?h" using G(2) by (auto simp: ext_def stable_def nth_list_update)
    have "repr_props ?h (AList.update k t m) (AList.update k (v, True) (ob_props (h ! a))) (F \<union> F2)"
      using repr_frame(1) [OF v ext] aF G(3) c(2) by (intro c(3) [OF ext]) auto
    then have "repr ?h (TObj kd (AList.update k t m)) (VRef a) (insert a (F \<union> F2))"
      by (intro reprI) (use G aF c(2) in simp_all)
    moreover have "js_put h a k v = Inr ?h" using c(1) by (simp add: js_put_def)
    ultimately show ?thesis
      using ext Some G(4) c(2) by (intro exI [of _ ?h] exI [of _ "insert a (F \<union> F2)"] conjI) (simp_all add: subset_iff)
  qed
qed

text \<open>Writing back a child that has itself been changed.\<close>

lemma put_back:
  assumes a: "repr h (TObj kd m) (VRef a) A" and d: "distinct (map fst m)" and k: "map_of m k = Some t"
    and c: "map_of (ob_props (h ! a)) k = Some (v, True)" "repr h t v F"
    and h1: "ext F h h1" "repr h1 t' v F'" "F' \<subseteq> F \<union> {length h..}"
  shows "\<exists>A'. js_put h1 a k v = Inr h1 \<and> A' \<subseteq> A \<union> F' \<and> repr h1 (TObj kd (AList.update k t' m)) (VRef a) A'"
proof -
  obtain G where G: "FIRST \<le> a" "a < length h" "a \<notin> G" "A = insert a G" "ob_kind (h ! a) = kd"
    "ob_proto (h ! a) = Some (proto_of_kind kd)" "repr_props h m (ob_props (h ! a)) G" using a by (rule reprE)
  obtain w F1 F2 where ch: "map_of (ob_props (h ! a)) k = Some (w, True)" "repr h t w F1" "G = F1 \<union> F2" "F1 \<inter> F2 = {}"
    "\<And>A h' t' v' F1'. ext A h h' \<Longrightarrow> F2 \<inter> A = {} \<Longrightarrow> repr h' t' v' F1' \<Longrightarrow> F1' \<inter> F2 = {} \<Longrightarrow>
     repr_props h' (AList.update k t' m) (AList.update k (v', True) (ob_props (h ! a))) (F1' \<union> F2)"
    using repr_props_child [OF G(7) k d] by metis
  have FF: "F = F1" using repr_unique(1) [OF c(2)] ch(1,2) c(1) by auto
  have bound: "G \<subseteq> {FIRST..<length h}" by (rule repr_bound(2) [OF G(7)])
  have same: "h1 ! a = h ! a" using ext_same [OF h1(1) G(2)] FF ch(3) G(3) by blast
  have "F' \<inter> F2 = {}" using h1(3) FF ch(3,4) bound by fastforce
  then have "repr_props h1 (AList.update k t' m) (AList.update k (v, True) (ob_props (h ! a))) (F' \<union> F2)"
    using ch(4) FF by (intro ch(5) [OF h1(1) _ h1(2)]) auto
  then have "repr_props h1 (AList.update k t' m) (ob_props (h1 ! a)) (F' \<union> F2)"
    by (simp add: update_same [OF c(1)] same)
  moreover have "a \<notin> F' \<union> F2" using h1(3) FF ch(3) G(2,3) by auto
  ultimately have "repr h1 (TObj kd (AList.update k t' m)) (VRef a) (insert a (F' \<union> F2))"
    by (intro reprI) (use G same ext_length [OF h1(1)] in simp_all)
  moreover have "js_put h1 a k v = Inr h1" using c(1) same list_update_id [of h1 a] by (simp add: js_put_def update_same)
  ultimately show ?thesis using G(4) ch(3) by (intro exI [of _ "insert a (F' \<union> F2)"]) auto
qed

end
