(* ===== verification/JsDeepCorrect.thy ===== *)
theory JsDeepCorrect
  imports JsDeepMerge
begin

text \<open>
  The correctness of \<open>deep-extend\<close>: every call with enough fuel returns, and its effect on the heap
  is the merge of trees. The proof goes by the fuel; \<open>clones\<close> and \<open>extends\<close> are the contracts of the
  two kinds of nested call.
\<close>

fun tdist :: "jtree \<Rightarrow> bool" and tdists :: "(jskey \<times> jtree) list \<Rightarrow> bool" where
  "tdist (TVal p) = True"
| "tdist (TObj kd ps) = (kind_ok kd \<and> distinct (map fst ps) \<and> tdists ps)"
| "tdists [] = True"
| "tdists ((k, t) # ps) = (tdist t \<and> tdists ps)"

lemma tree_ok_tdist: "tree_ok t \<Longrightarrow> tdist t" "props_ok ps \<Longrightarrow> tdists ps"
  by (induction t and ps rule: tree_ok_props_ok.induct) simp_all

lemma tdists_iff: "tdists ps \<longleftrightarrow> (\<forall>(k, t) \<in> set ps. tdist t)"
  by (induction ps) auto

lemma tdists_update: "tdists m \<Longrightarrow> tdist t \<Longrightarrow> tdists (AList.update k t m)"
  by (induction m) auto

lemma tdists_get: "tdists m \<Longrightarrow> map_of m k = Some t \<Longrightarrow> tdist t"
  by (induction m) (auto split: if_splits)

lemma merge_tdist:
  "tdists m \<Longrightarrow> distinct (map fst m) \<Longrightarrow> tdists ps \<Longrightarrow> distinct (map fst (merge m ps)) \<and> tdists (merge m ps)"
proof (induction m ps rule: merge.induct)
  case (2 m k e ps)
  have "tdist (merge_value (map_of m k) e)"
  proof (cases "\<exists>n kd m'. e = TObj KPlain n \<and> map_of m k = Some (TObj kd m') \<and> record_kind kd")
    case True
    then obtain n kd m' where e: "e = TObj KPlain n" "map_of m k = Some (TObj kd m')" "record_kind kd" by blast
    have "tdist (TObj kd m')" by (rule tdists_get [OF "2.prems"(1) e(2)])
    then show ?thesis using "2.IH"(1) [OF e(1) refl e(2) refl e(3)] "2.prems"(3) e by (auto simp: merge_value_def)
  next
    case False
    then have "merge_value (map_of m k) e = e"
      by (auto simp: merge_value_def split: jtree.split okind.split option.split)
    with "2.prems"(3) show ?thesis by simp
  qed
  then have "tdists (AList.update k (merge_value (map_of m k) e) m)" by (rule tdists_update [OF "2.prems"(1)])
  then show ?case
    using "2.IH"(2) "2.prems" unfolding merge_Cons by (auto simp: merge_value_def intro: distinct_keys_update)
qed simp

section \<open>The contracts of nested calls\<close>

definition result_tree :: "heap \<Rightarrow> addr set \<Rightarrow> jtree \<Rightarrow> jsval \<Rightarrow> ((jserror + jsval) \<times> heap) option \<Rightarrow> bool" where
  "result_tree h A t v r \<longleftrightarrow>
     (\<exists>h' w F. r = Some (Inr w, h') \<and> (A \<noteq> {} \<longrightarrow> w = v) \<and> ext A h h' \<and> repr h' t w F \<and> F \<subseteq> A \<union> {length h..})"

definition clones :: "nat \<Rightarrow> bool" where
  "clones f \<longleftrightarrow> (\<forall>h v S n ps. protos_ok h \<longrightarrow> repr h (TObj (KArray n) ps) v S \<longrightarrow> tree_ok (TObj (KArray n) ps) \<longrightarrow>
     depth (TObj (KArray n) ps) \<le> f \<longrightarrow> result_tree h {} (TObj (KArray n) ps) v (deep f (CloneArray v) h))"

definition extends :: "nat \<Rightarrow> bool" where
  "extends f \<longleftrightarrow> (\<forall>h a A kd m s S ps. protos_ok h \<longrightarrow> repr h (TObj kd m) (VRef a) A \<longrightarrow> record_kind kd \<longrightarrow>
     tdist (TObj kd m) \<longrightarrow> repr h (TObj KPlain ps) s S \<longrightarrow> A \<inter> S = {} \<longrightarrow> tree_ok (TObj KPlain ps) \<longrightarrow>
     depth (TObj KPlain ps) \<le> f \<longrightarrow>
     result_tree h A (TObj kd (merge m ps)) (VRef a) (deep f (Extend [VRef a, s]) h))"

lemma repr_kind:
  assumes "repr h (TObj kd m) v A" "kd \<noteq> KFunction"
  shows "is_object h v" "v \<noteq> VNull" "is_array h v = (\<exists>n. kd = KArray n)"
    "isSpecificValue h v = (kd \<noteq> KPlain \<and> kind_ok kd \<and> (\<forall>n. kd \<noteq> KArray n))"
  using assms by (cases kd; auto simp: repr.simps is_object_def is_array_def isSpecificValue_def kind_ok_def)+

lemma kind_okD: "kind_ok kd \<Longrightarrow> kd \<noteq> KFunction"
  by (auto simp: kind_ok_def)

lemma result_treeI:
  "r = Some (Inr w, h') \<Longrightarrow> (A \<noteq> {} \<Longrightarrow> w = v) \<Longrightarrow> ext A h h' \<Longrightarrow> repr h' t w F \<Longrightarrow> F \<subseteq> A \<union> {length h..} \<Longrightarrow>
   result_tree h A t v r"
  unfolding result_tree_def by blast

lemma copy_tree:
  assumes J: "clones f" "extends f" and h: "protos_ok h"
    and e: "repr h e v S" "tree_ok e" "depth e \<le> f"
  shows "result_tree h {} e v (fresh_copy (deep f) v h)"
proof (cases e)
  case (TVal p)
  then have v: "v = p" "plain_val h p" using e(1) by auto
  then have "\<not> (is_object h v \<and> v \<noteq> VNull)" by (auto simp: plain_val_def is_object_def split: jsval.splits)
  then have "fresh_copy (deep f) v h = Some (Inr v, h)" unfolding fresh_copy_def m_ret_def by (rule if_not_P)
  then show ?thesis using TVal v by (intro result_treeI [where F = "{}"]) auto
next
  case (TObj kd ps)
  note kd = kind_okD [of kd]
  have ok: "kind_ok kd" using e(2) TObj by simp
  note obj = repr_kind [OF e(1) [unfolded TObj] kd [OF ok]]
  consider n where "kd = KArray n" | "kd = KPlain" | "record_kind kd" "kd \<noteq> KPlain"
    using ok by (cases kd) (auto simp: kind_ok_def record_kind_def)
  then show ?thesis
  proof cases
    case (1 n)
    then have "fresh_copy (deep f) v h = deep f (CloneArray v) h" using obj by (simp add: fresh_copy_def)
    with 1 J(1) h e TObj show ?thesis unfolding clones_def by metis
  next
    case 2
    obtain b h1 where al: "alloc KPlain h = (b, h1)" by (cases "alloc KPlain h")
    note al' = alloc_ext [OF al, of "{}"]
    have "fresh_copy (deep f) v h = deep f (Extend [VRef b, v]) h1"
      using 2 obj by (simp add: fresh_copy_def m_then_def m_alloc_def al)
    moreover have "result_tree h1 {b} (TObj KPlain (merge [] ps)) (VRef b) (deep f (Extend [VRef b, v]) h1)"
    proof -
      have p: "protos_ok h1" using al' by (intro protos_ext [OF h, of "{}"]) simp_all
      have "repr h1 (TObj KPlain []) (VRef b) {b}"
        using al' h by (intro reprI [of b h1 "{}" KPlain "[]"]) (auto simp: protos_ok_def)
      moreover have "repr h1 (TObj KPlain ps) v S"
        using repr_frame(1) [OF e(1) conjunct1 [OF alloc_ext [OF al]], of] TObj 2 by auto
      moreover have "{b} \<inter> S = {}" using repr_bound(1) [OF e(1)] al' by auto
      ultimately show ?thesis
        using J(2) p e(2,3) TObj 2 unfolding extends_def by (auto simp: record_kind_def kind_ok_def)
    qed
    moreover have "merge [] ps = ps" using merge_new [of "[]" ps] e(2) TObj by simp
    ultimately obtain h' F where r: "fresh_copy (deep f) v h = Some (Inr (VRef b), h')" "ext {b} h1 h'"
      "repr h' e (VRef b) F" "F \<subseteq> {b} \<union> {length h1..}"
      using TObj 2 by (auto simp: result_tree_def)
    have "ext {} h h'"
      using al' by (intro ext_trans [OF _ r(2)]) (auto intro: ext_mono)
    then show ?thesis using r al' by (intro result_treeI [where F = F]) auto
  next
    case 3
    then have nil: "ps = []" using e(2) TObj by (auto simp: shape_ok_def record_kind_def kind_ok_def split: okind.splits)
    obtain a where a: "v = VRef a" "ob_kind (h ! a) = kd" using e(1) TObj by (auto simp: repr.simps)
    obtain b h1 where al: "alloc kd h = (b, h1)" by (cases "alloc kd h")
    note al' = alloc_ext [OF al, of "{}"]
    have "fresh_copy (deep f) v h = Some (Inr (VRef b), h1)"
      using 3 obj a ok by (auto simp: fresh_copy_def cloneSpecificValue_def record_kind_def m_then_def m_alloc_def m_ret_def al)
    moreover have "repr h1 e (VRef b) {b}" unfolding TObj nil using al' h
      by (intro reprI [of b h1 "{}" kd "[]"]) (auto simp: protos_ok_def)
    moreover have "ext {} h h1" using al' by (simp add: ext_def)
    ultimately show ?thesis using al' by (intro result_treeI [where F = "{b}"]) auto
  qed
qed

section \<open>One key\<close>

lemma extend_key_copy:
  assumes "js_get h s k = e" "e \<noteq> VRef a"
    and "\<not> is_object h e \<or> e = VNull \<or> is_array h e \<or> isSpecificValue h e \<or>
      \<not> is_object h (js_get h a k) \<or> js_get h a k = VNull \<or> is_array h (js_get h a k)"
  shows "extend_key run (VRef a) s k h = m_then (fresh_copy run e) (m_put a k) h"
proof (cases "is_object h e \<and> e \<noteq> VNull")
  case True
  then show ?thesis using assms
    by (auto simp: extend_key_def fresh_copy_def m_then_def m_alloc_def Let_def split: option.split prod.split sum.split)
next
  case False
  then show ?thesis using assms
    by (auto simp: extend_key_def fresh_copy_def m_then_def m_ret_def Let_def)
qed

text \<open>The result of a step on the target at \<open>a\<close>.\<close>

definition target_step :: "heap \<Rightarrow> addr set \<Rightarrow> jtree \<Rightarrow> addr \<Rightarrow> ((jserror + unit) \<times> heap) option \<Rightarrow> bool" where
  "target_step h A t a r \<longleftrightarrow>
     (\<exists>h' F. r = Some (Inr (), h') \<and> ext A h h' \<and> repr h' t (VRef a) F \<and> F \<subseteq> A \<union> {length h..})"

lemma put_copy:
  assumes a: "repr h (TObj kd m) (VRef a) A" and d: "distinct (map fst m)" "kd \<noteq> KFunction" and k: "k \<noteq> PROTO_KEY"
    and r: "result_tree h {} e v (run h)"
  shows "target_step h A (TObj (if map_of m k = None then grown k kd else kd) (AList.update k e m)) a (m_then run (m_put a k) h)"
proof -
  obtain h1 w F where h1: "run h = Some (Inr w, h1)" "ext {} h h1" "repr h1 e w F" "F \<subseteq> {length h..}"
    using r by (auto simp: result_tree_def)
  have a1: "repr h1 (TObj kd m) (VRef a) A" using repr_frame(1) [OF a h1(2)] by simp
  have "F \<inter> A = {}" using repr_bound(1) [OF a] h1(4) by fastforce
  from put_tree [OF a1 d h1(3) this k] obtain h2 B where h2: "js_put h1 a k w = Inr h2" "ext {a} h1 h2" "B \<subseteq> A \<union> F"
    "repr h2 (TObj (if map_of m k = None then grown k kd else kd) (AList.update k e m)) (VRef a) B" by blast
  have "a \<in> A" using a by (auto simp: repr.simps)
  then have "ext A h h2" using ext_mono [OF h1(2), of A] by (intro ext_trans [OF _ h2(2)]) auto
  moreover have "B \<subseteq> A \<union> {length h..}" using h2(3) h1(4) by auto
  ultimately show ?thesis using h1(1) h2 by (auto simp: target_step_def m_then_def m_put_def)
qed

lemma merge_key:
  assumes J: "clones f" "extends f" and h: "protos_ok h"
    and a: "repr h (TObj kd m) (VRef a) A" "record_kind kd" "tdist (TObj kd m)"
    and e: "repr h e v S" "S \<inter> A = {}" "tree_ok e" "depth e \<le> f"
    and k: "js_get h s k = v" "k \<noteq> PROTO_KEY"
  shows "target_step h A (TObj kd (AList.update k (merge_value (map_of m k) e) m)) a (extend_key (deep f) (VRef a) s k h)"
proof -
  obtain G where G: "FIRST \<le> a" "a < length h" "a \<notin> G" "A = insert a G" "ob_kind (h ! a) = kd"
    "ob_proto (h ! a) = Some (proto_of_kind kd)" "repr_props h m (ob_props (h ! a)) G" using a(1) by (rule reprE)
  have kd: "kd \<noteq> KFunction" "kind_ok kd" "\<And>n. kd \<noteq> KArray n" using a(2) by (auto simp: record_kind_def kind_ok_def)
  have d: "distinct (map fst m)" using a(3) by simp
  have grow: "grown k kd = kd" using kd(3) by (auto simp: grown_def split: okind.split)
  have va: "v \<noteq> VRef a"
  proof (cases e)
    case (TVal p)
    then show ?thesis using e(1) G(5) kd(1) by (auto simp: plain_val_def)
  next
    case (TObj kd' n)
    then show ?thesis using e(1,2) G(4) by (auto simp: repr.simps)
  qed
  note copy = put_copy [where run = "fresh_copy (deep f) v", OF a(1) d kd(1) k(2) copy_tree [OF J h e(1,3,4)],
      unfolded grow if_cancel]
  show ?thesis
  proof (cases "\<exists>n kd' m'. e = TObj KPlain n \<and> map_of m k = Some (TObj kd' m') \<and> record_kind kd'")
    case False
    have mv: "merge_value (map_of m k) e = e"
      using False by (auto simp: merge_value_def split: jtree.split okind.split option.split)
    have "\<not> is_object h v \<or> v = VNull \<or> is_array h v \<or> isSpecificValue h v \<or>
      \<not> is_object h (js_get h a k) \<or> js_get h a k = VNull \<or> is_array h (js_get h a k)"
    proof (cases e)
      case (TVal p)
      then show ?thesis using e(1) by (auto simp: plain_val_def is_object_def split: jsval.splits)
    next
      case (TObj kd' n)
      have ok': "kind_ok kd'" using e(3) TObj by simp
      note kind' = repr_kind [OF e(1) [unfolded TObj] kind_okD [OF ok']]
      show ?thesis
      proof (cases "kd' = KPlain")
        case False
        then show ?thesis using kind'(3,4) ok' by blast
      next
        case True
        show ?thesis
        proof (cases "map_of m k")
          case None
          then have "own h a k = None" using own_child(1) [OF a(1) d] by (simp add: own_def)
          then show ?thesis using get_missing [OF h G(1,6) proto_of_kind_bound _ k(2)] by blast
        next
          case (Some t)
          obtain w F where w: "map_of (ob_props (h ! a)) k = Some (w, True)" "repr h t w F"
            using own_child(2) [OF a(1) d Some] by blast
          have get: "js_get h a k = w" using w(1) by (intro get_own) (simp add: own_def)
          show ?thesis
          proof (cases t)
            case (TVal p)
            then show ?thesis using w(2) get by (auto simp: plain_val_def is_object_def split: jsval.splits)
          next
            case (TObj kd'' m'')
            then have ok'': "kind_ok kd''" using tdists_get [of m k t] a(3) Some by simp
            moreover have "\<not> record_kind kd''" using \<open>\<not> (\<exists>n kd' m'. _)\<close> Some TObj True \<open>e = TObj kd' n\<close> by blast
            ultimately have "\<exists>n. kd'' = KArray n" by (auto simp: record_kind_def)
            then show ?thesis using repr_kind(3) [OF w(2) [unfolded TObj] kind_okD [OF ok'']] get by blast
          qed
        qed
      qed
    qed
    from extend_key_copy [OF k(1) va this] copy show ?thesis by (simp add: mv)
  next
    case True
    then obtain n kd' m' where t: "e = TObj KPlain n" "map_of m k = Some (TObj kd' m')" "record_kind kd'" by blast
    have mv: "merge_value (map_of m k) e = TObj kd' (merge m' n)" using t by (simp add: merge_value_def)
    obtain w F where w: "map_of (ob_props (h ! a)) k = Some (w, True)" "repr h (TObj kd' m') w F" "F \<subseteq> A - {a}"
      using own_child(2) [OF a(1) d t(2)] by blast
    have get: "js_get h a k = w" using w(1) by (intro get_own) (simp add: own_def)
    obtain b where b: "w = VRef b" "b \<in> F" using w(2) by (auto simp: repr.simps)
    have td: "tdist (TObj kd' m')" using tdists_get [OF _ t(2)] a(3) by simp
    have kd': "kd' \<noteq> KFunction" "\<And>n. kd' \<noteq> KArray n" using t(3) by (auto simp: record_kind_def kind_ok_def)
    have "result_tree h F (TObj kd' (merge m' n)) w (deep f (Extend [w, v]) h)"
      using J(2) h w(2,3) t td e b unfolding extends_def by blast
    then obtain h1 F' where h1: "deep f (Extend [w, v]) h = Some (Inr w, h1)" "ext F h h1"
      "repr h1 (TObj kd' (merge m' n)) w F'" "F' \<subseteq> F \<union> {length h..}"
      using b(2) by (auto simp: result_tree_def)
    obtain B where B: "js_put h1 a k w = Inr h1" "B \<subseteq> A \<union> F'"
      "repr h1 (TObj kd (AList.update k (TObj kd' (merge m' n)) m)) (VRef a) B"
      using put_back [OF a(1) d t(2) w(1,2) h1(2,3,4)] by blast
    have "extend_key (deep f) (VRef a) s k h = m_then (deep f (Extend [w, v])) (m_put a k) h"
      using repr_kind [OF e(1) [unfolded t(1)]] repr_kind [OF w(2) kd'(1)] kd'(2) va get k(1)
      by (simp add: extend_key_def Let_def)
    then have "extend_key (deep f) (VRef a) s k h = Some (Inr (), h1)"
      using h1(1) B(1) by (simp add: m_then_def m_put_def)
    moreover have "ext A h h1" using w(3) by (intro ext_mono [OF h1(2)]) auto
    moreover have "B \<subseteq> A \<union> {length h..}" using B(2) h1(4) w(3) by blast
    ultimately show ?thesis using B(3) mv unfolding target_step_def by auto
  qed
qed

section \<open>All keys of a source\<close>

lemma protos_step: "protos_ok h \<Longrightarrow> repr h t v A \<Longrightarrow> ext A h h' \<Longrightarrow> protos_ok h'"
  using repr_bound(1) [of h t v A] by (intro protos_ext [of h A h']) auto

lemma target_step_then:
  assumes "target_step h A t a (m h)"
    and "\<And>h1 B. ext A h h1 \<Longrightarrow> repr h1 t (VRef a) B \<Longrightarrow> B \<subseteq> A \<union> {length h..} \<Longrightarrow> target_step h1 B t' a (f () h1)"
  shows "target_step h A t' a (m_then m f h)"
proof -
  obtain h1 B where h1: "m h = Some (Inr (), h1)" "ext A h h1" "repr h1 t (VRef a) B" "B \<subseteq> A \<union> {length h..}"
    using assms(1) by (auto simp: target_step_def)
  obtain h2 B' where h2: "f () h1 = Some (Inr (), h2)" "ext B h1 h2" "repr h2 t' (VRef a) B'" "B' \<subseteq> B \<union> {length h1..}"
    using assms(2) [OF h1(2-4)] by (auto simp: target_step_def)
  have "ext A h h2" by (rule ext_trans [OF h1(2) h2(2) h1(4)])
  moreover have "B' \<subseteq> A \<union> {length h..}" using h2(4) h1(4) ext_length [OF h1(2)] by fastforce
  ultimately show ?thesis using h1(1) h2(1,3) by (auto simp: target_step_def m_then_def)
qed

lemma target_step_ret: "repr h t (VRef a) A \<Longrightarrow> target_step h A t a (m_ret () h)"
  unfolding target_step_def m_ret_def by (intro exI conjI) auto

lemma source_separate:
  assumes "repr h t v S" "S \<inter> A = {}" "B \<subseteq> A \<union> {length h..}"
  shows "S \<inter> B = {}"
  using repr_bound(1) [OF assms(1)] assms(2,3) by fastforce

lemma source_child:
  assumes "repr h (TObj kd ps) v S" "(k, e) \<in> set ps" "distinct (map fst ps)"
  obtains s w F where "v = VRef s" "own h s k = Some w" "repr h e w F" "F \<subseteq> S"
proof -
  obtain s where s: "v = VRef s" using assms(1) by (auto simp: repr.simps)
  have "map_of ps k = Some e" using assms(2,3) by simp
  from own_child(2) [OF assms(1) [unfolded s] assms(3) this] s that show thesis by (auto simp: own_def)
qed

lemma props_okD: "props_ok ps \<Longrightarrow> (k, e) \<in> set ps \<Longrightarrow> key_ok k \<and> tree_ok e"
  by (induction ps) auto

lemma props_depthD: "(k, e) \<in> set ps \<Longrightarrow> depth e \<le> props_depth ps"
  by (induction ps) (auto simp: le_max_iff_disj)

lemma merge_keys:
  assumes J: "clones f" "extends f"
    and s: "distinct (map fst ps)" "props_ok ps" "props_depth ps \<le> f" and kd: "record_kind kd"
  shows "protos_ok h \<Longrightarrow> repr h (TObj kd m) (VRef a) A \<Longrightarrow> tdist (TObj kd m) \<Longrightarrow>
    repr h (TObj KPlain ps) (VRef s) S \<Longrightarrow> S \<inter> A = {} \<Longrightarrow> set qs \<subseteq> set ps \<Longrightarrow>
    target_step h A (TObj kd (merge m qs)) a (m_each (extend_key (deep f) (VRef a) s) (map fst qs) h)"
proof (induction qs arbitrary: h A m)
  case Nil
  then show ?case by (simp add: target_step_ret)
next
  case (Cons q qs)
  obtain k e where q: "q = (k, e)" by (cases q)
  have mem: "(k, e) \<in> set ps" using Cons.prems(6) q by simp
  obtain w F where c: "own h s k = Some w" "repr h e w F" "F \<subseteq> S"
    using source_child [OF Cons.prems(4) mem s(1)] by (metis jsval.inject(4))
  have e: "key_ok k" "tree_ok e" "depth e \<le> f"
    using props_okD [OF s(2) mem] props_depthD [OF mem] s(3) by auto
  have step: "target_step h A (TObj kd (AList.update k (merge_value (map_of m k) e) m)) a (extend_key (deep f) (VRef a) s k h)"
    using c(3) Cons.prems(5) e(1)
    by (intro merge_key [OF J Cons.prems(1,2) kd Cons.prems(3) c(2) _ e(2,3) get_own [OF c(1)]]) (auto simp: key_ok_def)
  have "tdist (TObj kd (merge m [(k, e)]))"
    using merge_tdist [of m "[(k, e)]"] Cons.prems(3) tree_ok_tdist(1) [OF e(2)] by simp
  then have td: "tdist (TObj kd (AList.update k (merge_value (map_of m k) e) m))"
    unfolding merge_Cons by simp
  show ?case
    unfolding q merge_Cons list.map(2) m_each.simps fst_conv
  proof (rule target_step_then, rule step)
    fix h1 B
    assume h1: "ext A h h1" "repr h1 (TObj kd (AList.update k (merge_value (map_of m k) e) m)) (VRef a) B" "B \<subseteq> A \<union> {length h..}"
    have "protos_ok h1"
      by (rule protos_step [OF Cons.prems(1,2) h1(1)])
    moreover have "repr h1 (TObj KPlain ps) (VRef s) S" by (rule repr_frame(1) [OF Cons.prems(4) h1(1) Cons.prems(5)])
    moreover have "S \<inter> B = {}" by (rule source_separate [OF Cons.prems(4,5) h1(3)])
    ultimately show "target_step h1 B (TObj kd (merge (AList.update k (merge_value (map_of m k) e) m) qs)) a
        (m_each (extend_key (deep f) (VRef a) s) (map fst qs) h1)"
      using Cons.prems(6) by (intro Cons.IH [OF _ h1(2) td]) auto
  qed
qed

lemma string_keys_repr:
  assumes "repr h (TObj kd ps) (VRef s) S" "props_ok ps"
  shows "string_keys h s = map fst ps"
proof -
  obtain G where G: "repr_props h ps (ob_props (h ! s)) G" using assms(1) by (rule reprE)
  have "map fst (filter (\<lambda>(k, v, e). e \<and> (\<exists>s. k = KStr s)) rs) = map fst ps" if "repr_props h ps rs F" for rs F
    using that assms(2) by (induction ps arbitrary: rs F) (auto simp: key_ok_def)
  with G show ?thesis by (simp add: string_keys_def)
qed

lemma merge_source:
  assumes J: "clones f" "extends f" and h: "protos_ok h"
    and a: "repr h (TObj kd m) (VRef a) A" "record_kind kd" "tdist (TObj kd m)"
    and s: "repr h (TObj KPlain ps) v S" "S \<inter> A = {}" "tree_ok (TObj KPlain ps)" "depth (TObj KPlain ps) \<le> Suc f"
  shows "target_step h A (TObj kd (merge m ps)) a (extend_source (deep f) (VRef a) v h)"
proof -
  obtain b where b: "v = VRef b" using s(1) by (auto simp: repr.simps)
  have "extend_source (deep f) (VRef a) v h = m_each (extend_key (deep f) (VRef a) b) (map fst ps) h"
    using repr_kind [OF s(1)] string_keys_repr [OF s(1) [unfolded b]] s(3) b by (simp add: extend_source_def)
  moreover have "target_step h A (TObj kd (merge m ps)) a (m_each (extend_key (deep f) (VRef a) b) (map fst ps) h)"
    using s(3,4) by (intro merge_keys [OF J _ _ _ a(2) h a(1,3) s(1) [unfolded b] s(2)]) auto
  ultimately show ?thesis by simp
qed

lemma target_step_result:
  assumes "target_step h A t a (m h)" "A \<noteq> {}"
  shows "result_tree h A t (VRef a) (m_then m (\<lambda>_. m_ret (VRef a)) h)"
  using assms by (auto simp: target_step_def result_tree_def m_then_def m_ret_def)

lemma extends_Suc:
  assumes "clones f" "extends f"
  shows "extends (Suc f)"
  unfolding extends_def
proof (intro allI impI)
  fix h a A kd m s S ps
  assume h: "protos_ok h" and a: "repr h (TObj kd m) (VRef a) A" "record_kind kd" "tdist (TObj kd m)"
    and s: "repr h (TObj KPlain ps) s S" "A \<inter> S = {}" "tree_ok (TObj KPlain ps)" "depth (TObj KPlain ps) \<le> Suc f"
  have kd: "kd \<noteq> KFunction" using a(2) by (auto simp: record_kind_def kind_ok_def)
  have step: "target_step h A (TObj kd (merge m ps)) a (m_each (extend_source (deep f) (VRef a)) [s] h)"
    unfolding m_each.simps
    by (rule target_step_then, rule merge_source [OF assms h a s(1) _ s(3,4)]) (use s(2) in \<open>auto intro: target_step_ret\<close>)
  have "A \<noteq> {}" using a(1) by (auto simp: repr.simps)
  from target_step_result [where m = "m_each (extend_source (deep f) (VRef a)) [s]", OF step this]
  show "result_tree h A (TObj kd (merge m ps)) (VRef a) (deep (Suc f) (Extend [VRef a, s]) h)"
    using repr_kind(1) [OF a(1) kd] by (simp add: extend_args_def)
qed

section \<open>Arrays\<close>

lemma decimal_value: "foldl (\<lambda>n u. 10 * n + (unat u - 48)) 0 (decimal i) = i"
proof (induction i rule: decimal.induct)
  case (1 n)
  have d: "unat (48 + of_nat d :: jschar) = 48 + d" if "d < 10" for d
    using that unit_unat [of "48 + d"] by simp
  show ?case
  proof (cases "n < 10")
    case True
    then show ?thesis using d [of n] by (subst decimal.simps) simp
  next
    case False
    then show ?thesis using 1 d [of "n mod 10"] by (subst decimal.simps) simp
  qed
qed

lemma array_index_key: "array_index (index_key i) = Some i"
  by (simp add: array_index_def index_key_def decimal_value Let_def)

lemma index_key_inj: "index_key i = index_key j \<Longrightarrow> i = j"
  by (metis array_index_key option.inject)

lemma index_key_proto: "index_key i \<noteq> PROTO_KEY"
proof -
  have "foldl (\<lambda>n u. 10 * n + (unat u - 48)) (0 :: nat) (js ''__proto__'') \<noteq> i \<or> decimal i \<noteq> js ''__proto__''"
  proof (rule disjI2)
    have "digit_unit u" if "u \<in> set (decimal i)" for u
      using that
    proof (induction i rule: decimal.induct)
      case (1 n)
      have d: "digit_unit (48 + of_nat d)" if "d < 10" for d
        using that unit_unat [of "48 + d"] by (simp add: case_nat)
      show ?case using 1 d [of n] d [of "n mod 10"] by (subst (asm) (2) decimal.simps) (auto split: if_splits)
    qed
    moreover have "95 \<in> set (js ''__proto__'')" by (simp add: js_def ch_def)
    moreover have "\<not> digit_unit 95" by (simp add: digit_unit_def)
    ultimately show "decimal i \<noteq> js ''__proto__''" by metis
  qed
  then show ?thesis using decimal_value [of i] by (auto simp: index_key_def PROTO_KEY_def)
qed

lemma clone_elements:
  assumes J: "clones f" "extends f" and ps: "distinct (map fst ps)" "props_ok ps" "props_depth ps \<le> f"
    and ks: "map fst ps = map index_key [0..<n]"
  shows "i \<le> n \<Longrightarrow> protos_ok h \<Longrightarrow> repr h (TObj (KArray i) (take i ps)) (VRef t) T \<Longrightarrow>
    repr h (TObj (KArray n) ps) v S \<Longrightarrow> S \<inter> T = {} \<Longrightarrow>
    target_step h T (TObj (KArray n) ps) t (m_each (clone_element (deep f) v t) [i..<n] h)"
proof (induction "n - i" arbitrary: i h T)
  case 0
  then have "i = n" "length ps = n" using ks by (auto dest: arg_cong [of _ _ length])
  with 0 show ?case by (simp add: target_step_ret)
next
  case (Suc j)
  have i: "i < n" and len: "length ps = n" using Suc.hyps(2) ks by (auto dest: arg_cong [of _ _ length])
  obtain e where e: "ps ! i = (index_key i, e)"
    using ks i len by (metis add_0 nth_map nth_upt length_map length_upt minus_nat.diff_0 prod.collapse)
  have mem: "(index_key i, e) \<in> set ps" using nth_mem [of i ps] i len e by simp
  obtain s w F where c: "v = VRef s" "own h s (index_key i) = Some w" "repr h e w F" "F \<subseteq> S"
    by (rule source_child [OF Suc.prems(4) mem ps(1)])
  have e': "tree_ok e" "depth e \<le> f" using props_okD [OF ps(2) mem] props_depthD [OF mem] ps(3) by auto
  have new: "map_of (take i ps) (index_key i) = None"
  proof -
    have "index_key i \<notin> set (map fst (take i ps))"
      using i by (simp add: ks flip: take_map) (auto simp: take_map dest!: index_key_inj)
    then show ?thesis by (simp add: map_of_eq_None_iff)
  qed
  have next_ps: "AList.update (index_key i) e (take i ps) = take (Suc i) ps"
    using new i len e by (subst update_new) (auto simp: map_of_eq_None_iff take_Suc_conv_app_nth)
  have grow: "grown (index_key i) (KArray i) = KArray (Suc i)" by (simp add: grown_def array_index_key)
  have step: "target_step h T (TObj (KArray (Suc i)) (take (Suc i) ps)) t (clone_element (deep f) v t i h)"
  proof -
    have d: "distinct (map fst (take i ps))" using ps(1) by (simp add: distinct_take flip: take_map)
    have "target_step h T (TObj (KArray (Suc i)) (take (Suc i) ps)) t (m_then (fresh_copy (deep f) w) (m_put t (index_key i)) h)"
      using put_copy [where run = "fresh_copy (deep f) w", OF Suc.prems(3) d okind.distinct(13) index_key_proto
        copy_tree [OF J Suc.prems(2) c(3) e'], of i] unfolding new next_ps grow if_True simp_thms(6) .
    then show ?thesis by (simp add: clone_element_def c(1,2))
  qed
  have up: "[i..<n] = i # [Suc i..<n]" using i by (rule upt_conv_Cons)
  show ?case
    unfolding up m_each.simps
  proof (rule target_step_then, rule step)
    fix h1 B
    assume h1: "ext T h h1" "repr h1 (TObj (KArray (Suc i)) (take (Suc i) ps)) (VRef t) B" "B \<subseteq> T \<union> {length h..}"
    have "protos_ok h1"
      by (rule protos_step [OF Suc.prems(2,3) h1(1)])
    moreover have "repr h1 (TObj (KArray n) ps) v S" by (rule repr_frame(1) [OF Suc.prems(4) h1(1) Suc.prems(5)])
    moreover have "S \<inter> B = {}" by (rule source_separate [OF Suc.prems(4,5) h1(3)])
    ultimately show "target_step h1 B (TObj (KArray n) ps) t (m_each (clone_element (deep f) v t) [Suc i..<n] h1)"
      using Suc.hyps(2) i h1(2) by (intro Suc.hyps(1)) auto
  qed
qed

lemma clones_Suc:
  assumes "clones f" "extends f"
  shows "clones (Suc f)"
  unfolding clones_def
proof (intro allI impI)
  fix h v S n ps
  assume h: "protos_ok h" and v: "repr h (TObj (KArray n) ps) v S" "tree_ok (TObj (KArray n) ps)"
    "depth (TObj (KArray n) ps) \<le> Suc f"
  obtain s where s: "v = VRef s" "ob_kind (h ! s) = KArray n" "s < length h" using v(1) by (auto simp: repr.simps)
  obtain t h1 where al: "alloc (KArray 0) h = (t, h1)" by (cases "alloc (KArray 0) h")
  note al' = alloc_ext [OF al, of "{}"]
  have p1: "protos_ok h1" using al' by (intro protos_ext [OF h, of "{}"]) auto
  have v1: "repr h1 (TObj (KArray n) ps) v S" using al' by (intro repr_frame(1) [OF v(1), of "{}"]) auto
  have t1: "repr h1 (TObj (KArray 0) []) (VRef t) {t}"
    using al' h by (intro reprI) (auto simp: protos_ok_def)
  have sep: "S \<inter> {t} = {}" using repr_bound(1) [OF v(1)] al' by auto
  have len: "array_length h1 v = n"
    using ext_same [of "{}" h h1 s] al' s by (simp add: array_length_def)
  have "target_step h1 {t} (TObj (KArray n) ps) t (m_each (clone_element (deep f) v t) [0..<n] h1)"
    using v(2,3) t1 by (intro clone_elements [OF assms _ _ _ _ _ p1 _ v1 sep]) (auto simp: shape_ok_def)
  then obtain h' F where r: "m_each (clone_element (deep f) v t) [0..<n] h1 = Some (Inr (), h')" "ext {t} h1 h'"
    "repr h' (TObj (KArray n) ps) (VRef t) F" "F \<subseteq> {t} \<union> {length h1..}"
    by (auto simp: target_step_def)
  have "deep (Suc f) (CloneArray v) h = Some (Inr (VRef t), h')"
    using r(1) len by (simp add: deepCloneArray_def m_then_def m_alloc_def m_read_def m_ret_def al)
  moreover have "ext {} h h'" using al' by (intro ext_trans [OF _ r(2)]) auto
  ultimately show "result_tree h {} (TObj (KArray n) ps) v (deep (Suc f) (CloneArray v) h)"
    using r(3,4) al' by (intro result_treeI [where F = F]) auto
qed

lemma calls_correct: "clones f \<and> extends f"
proof (induction f)
  case 0
  then show ?case by (simp add: clones_def extends_def)
next
  case (Suc f)
  then show ?case using clones_Suc extends_Suc by blast
qed

section \<open>The whole call\<close>

lemma merge_sources:
  assumes J: "clones f" "extends f" and kd: "record_kind kd"
  shows "protos_ok h \<Longrightarrow> repr h (TObj kd m) (VRef a) A \<Longrightarrow> tdist (TObj kd m) \<Longrightarrow>
    list_all2 (\<lambda>v ps. tree_ok (TObj KPlain ps) \<and> depth (TObj KPlain ps) \<le> Suc f \<and>
      (\<exists>S. repr h (TObj KPlain ps) v S \<and> S \<inter> A = {})) vs pss \<Longrightarrow>
    target_step h A (TObj kd (foldl merge m pss)) a (m_each (extend_source (deep f) (VRef a)) vs h)"
proof (induction vs arbitrary: pss h A m)
  case Nil
  then show ?case by (simp add: target_step_ret)
next
  case (Cons v vs)
  obtain ps qss where pss: "pss = ps # qss" using Cons.prems(4) by (cases pss) auto
  obtain S where s: "repr h (TObj KPlain ps) v S" "S \<inter> A = {}" "tree_ok (TObj KPlain ps)" "depth (TObj KPlain ps) \<le> Suc f"
    using Cons.prems(4) pss by auto
  note step = merge_source [OF J Cons.prems(1,2) kd Cons.prems(3) s]
  have td: "tdist (TObj kd (merge m ps))"
    using merge_tdist [of m ps] Cons.prems(3) tree_ok_tdist(1) [OF s(3)] by simp
  show ?case
    unfolding pss foldl.simps m_each.simps
  proof (rule target_step_then, rule step)
    fix h1 B
    assume h1: "ext A h h1" "repr h1 (TObj kd (merge m ps)) (VRef a) B" "B \<subseteq> A \<union> {length h..}"
    have p1: "protos_ok h1" by (rule protos_step [OF Cons.prems(1,2) h1(1)])
    have "list_all2 (\<lambda>v ps. tree_ok (TObj KPlain ps) \<and> depth (TObj KPlain ps) \<le> Suc f \<and>
        (\<exists>S. repr h1 (TObj KPlain ps) v S \<and> S \<inter> B = {})) vs qss"
      using Cons.prems(4) unfolding pss
      by (auto elim!: list_all2_mono) (metis repr_frame(1) h1(1) source_separate h1(3))
    then show "target_step h1 B (TObj kd (foldl merge (merge m ps) qss)) a (m_each (extend_source (deep f) (VRef a)) vs h1)"
      by (rule Cons.IH [OF p1 h1(2) td])
  qed
qed

lemma deepExtend_merges:
  assumes "protos_ok h" "repr h (TObj kd m) (VRef a) A" "record_kind kd" "tdist (TObj kd m)" "vs \<noteq> []"
    and "list_all2 (\<lambda>v ps. tree_ok (TObj KPlain ps) \<and> depth (TObj KPlain ps) \<le> f \<and>
      (\<exists>S. repr h (TObj KPlain ps) v S \<and> S \<inter> A = {})) vs pss"
  shows "result_tree h A (TObj kd (foldl merge m pss)) (VRef a) (deepExtend f (VRef a # vs) h)"
proof -
  obtain g where g: "f = Suc g" using assms(5,6) by (cases vs; cases pss; cases f) auto
  have J: "clones g" "extends g" using calls_correct [of g] by simp_all
  have kd: "kd \<noteq> KFunction" using assms(3) by (auto simp: record_kind_def kind_ok_def)
  have "A \<noteq> {}" using assms(2) by (auto simp: repr.simps)
  from target_step_result [where m = "m_each (extend_source (deep g) (VRef a)) vs",
      OF merge_sources [OF J assms(3,1,2,4) assms(6) [unfolded g]] this]
  show ?thesis
    using repr_kind(1) [OF assms(2) kd] assms(5) by (simp add: deepExtend_def g extend_args_def)
qed

end
