(* ===== verification/JsEvents.thy ===== *)
theory JsEvents
  imports JsBase
begin

text \<open>
  \<open>isEventSupported\<close> of \<open>swagger-ui-bundle.js\<close>: whether the browser has an event. What it asks of the
  document is a parameter, for the document belongs to the browser.
\<close>

text \<open>
  Whether there is a document (\<open>canUseDOM\<close>), the properties it has, the properties that are functions on a
  new \<open>div\<close> after its attribute of that name is set, and \<open>implementation.hasFeature\<close>, which is missing
  in some browsers.
\<close>

record Document =
  doc_canUse :: bool
  doc_in :: "jsstr \<Rightarrow> bool"
  doc_handler :: "jsstr \<Rightarrow> bool"
  doc_hasFeature :: "(jsstr \<Rightarrow> jsstr \<Rightarrow> bool) option"

text \<open>\<open>document.implementation && document.implementation.hasFeature && !0 !== document.implementation.hasFeature("", "")\<close>\<close>

definition useHasFeature :: "Document \<Rightarrow> bool" where
  "useHasFeature doc \<longleftrightarrow> doc_canUse doc \<and>
     (case doc_hasFeature doc of None \<Rightarrow> False | Some has \<Rightarrow> \<not> has [] [])"

definition hasFeature :: "Document \<Rightarrow> jsstr \<Rightarrow> jsstr \<Rightarrow> bool" where
  "hasFeature doc feature version = (case doc_hasFeature doc of None \<Rightarrow> False | Some has \<Rightarrow> has feature version)"

definition isEventSupported :: "Document \<Rightarrow> jsstr \<Rightarrow> bool \<Rightarrow> bool" where
  "isEventSupported doc eventNameSuffix capture =
     (if \<not> doc_canUse doc \<or> capture \<and> \<not> doc_in doc (js ''addEventListener'') then False
      else let eventName = js ''on'' @ eventNameSuffix;
               isSupported = doc_in doc eventName;
               isSupported = (if \<not> isSupported then doc_handler doc eventName else isSupported)
           in if \<not> isSupported \<and> useHasFeature doc \<and> eventNameSuffix = js ''wheel''
              then hasFeature doc (js ''Events.wheel'') (js ''3.0'') else isSupported)"

text \<open>
  There are two ways to have an event, by the document or by a handler on an element, and a third one
  for the wheel; a browser that says it has the empty feature is not asked for it.
\<close>

lemma isEventSupported_iff:
  "isEventSupported doc e capture \<longleftrightarrow> doc_canUse doc \<and> (capture \<longrightarrow> doc_in doc (js ''addEventListener'')) \<and>
     (doc_in doc (js ''on'' @ e) \<or> doc_handler doc (js ''on'' @ e) \<or>
      e = js ''wheel'' \<and> (\<exists>has. doc_hasFeature doc = Some has \<and> \<not> has [] [] \<and> has (js ''Events.wheel'') (js ''3.0'')))"
  by (auto simp: isEventSupported_def useHasFeature_def hasFeature_def Let_def split: option.splits)

lemma capture_restricts: "isEventSupported doc e True \<Longrightarrow> isEventSupported doc e capture"
  by (simp add: isEventSupported_iff)

end
