(* ===== verification/JsBase64.thy ===== *)
theory JsBase64
  imports JsBuffer
begin

text \<open>
  The base 64 of the buffer module, with the \<open>base64-js\<close> it uses, as bundled in
  \<open>swagger-ui-standalone-preset.js\<close>: bytes that are written are read back, also after the text was
  stripped of everything that is not of the alphabet.
\<close>

unbundle bit_operations_syntax

section \<open>The alphabet\<close>

definition code :: jsstr where
  "code = js ''ABCDEFGHIJKLMNOPQRSTUVWXYZabcdefghijklmnopqrstuvwxyz0123456789+/''"

text \<open>A character that is not of the alphabet has no entry, and the shifts take that for 0.\<close>

definition lookup_entries :: "(jschar \<times> nat) list" where
  "lookup_entries = (ch CHR ''-'', 62) # (ch CHR ''_'', 63) # zip code [0..<length code]"

definition revLookup :: "jschar \<Rightarrow> nat" where
  "revLookup u = (case map_of lookup_entries u of None \<Rightarrow> 0 | Some k \<Rightarrow> k)"

section \<open>Writing\<close>

definition tripletToBase64 :: "nat \<Rightarrow> jsstr" where
  "tripletToBase64 num =
     [code ! (drop_bit 18 num AND 63), code ! (drop_bit 12 num AND 63), code ! (drop_bit 6 num AND 63), code ! (63 AND num)]"

fun encodeChunk :: "nat list \<Rightarrow> jsstr" where
  "encodeChunk (a # b # c # bs) =
     tripletToBase64 ((push_bit 16 a AND 16711680) + (push_bit 8 b AND 65280) + (255 AND c)) @ encodeChunk bs"
| "encodeChunk _ = []"

definition maxChunkLength :: nat where "maxChunkLength = 16383"

function encode_chunks :: "nat list \<Rightarrow> jsstr" where
  "encode_chunks bs =
     (if bs = [] then [] else encodeChunk (take maxChunkLength bs) @ encode_chunks (drop maxChunkLength bs))"
  by pat_completeness auto
termination
  by (relation "measure length") (auto simp: maxChunkLength_def)

declare encode_chunks.simps [simp del]

definition encode_rest :: "nat list \<Rightarrow> jsstr" where
  "encode_rest r =
     (case r of
        [a] \<Rightarrow> [code ! drop_bit 2 a, code ! (push_bit 4 a AND 63)] @ js ''==''
      | [a, b] \<Rightarrow>
          let tmp = push_bit 8 a + b
          in [code ! drop_bit 10 tmp, code ! (drop_bit 4 tmp AND 63), code ! (push_bit 2 tmp AND 63)] @ js ''=''
      | _ \<Rightarrow> [])"

definition fromByteArray :: "nat list \<Rightarrow> jsstr" where
  "fromByteArray bs =
     (let n = length bs; u = n - n mod 3 in encode_chunks (take u bs) @ encode_rest (drop u bs))"

definition base64Slice :: "nat list \<Rightarrow> nat \<Rightarrow> nat \<Rightarrow> jsstr" where
  "base64Slice buf start stop =
     (if start = 0 \<and> stop = length buf then fromByteArray buf else fromByteArray (drop start (take stop buf)))"

section \<open>Reading\<close>

definition placeHoldersCount :: "jsstr \<Rightarrow> nat option" where
  "placeHoldersCount t =
     (let n = length t
      in if n mod 4 > 0 then None
         else if n > 0 \<and> t ! (n - 2) = ch CHR ''='' then Some 2
         else if n > 0 \<and> t ! (n - 1) = ch CHR ''='' then Some 1
         else Some 0)"

fun decode_groups :: "jsstr \<Rightarrow> nat list" where
  "decode_groups (p # q # r # s # t) =
     (let i = push_bit 18 (revLookup p) OR push_bit 12 (revLookup q) OR push_bit 6 (revLookup r) OR revLookup s
      in [drop_bit 16 i AND 255, drop_bit 8 i AND 255, 255 AND i] @ decode_groups t)"
| "decode_groups _ = []"

definition decode_rest :: "nat \<Rightarrow> jsstr \<Rightarrow> nat list" where
  "decode_rest holders t =
     (if holders = 2 then [255 AND (push_bit 2 (revLookup (t ! 0)) OR drop_bit 4 (revLookup (t ! 1)))]
      else if holders = 1 then
        let i = push_bit 10 (revLookup (t ! 0)) OR push_bit 4 (revLookup (t ! 1)) OR drop_bit 2 (revLookup (t ! 2))
        in [drop_bit 8 i AND 255, 255 AND i]
      else [])"

text \<open>A text whose length is not a multiple of four is an error.\<close>

definition toByteArray :: "jsstr \<Rightarrow> jserror + nat list" where
  "toByteArray t =
     (case placeHoldersCount t of
        None \<Rightarrow> Inl PlainError
      | Some holders \<Rightarrow>
          let n = if holders > 0 then length t - 4 else length t
          in Inr (decode_groups (take n t) @ decode_rest holders (drop n t)))"

definition alphabet_unit :: "jschar \<Rightarrow> bool" where
  "alphabet_unit u \<longleftrightarrow>
     u = ch CHR ''+'' \<or> u = ch CHR ''/'' \<or> ch CHR ''0'' \<le> u \<and> u \<le> ch CHR ''9'' \<or> ch CHR ''A'' \<le> u \<and> u \<le> ch CHR ''Z'' \<or>
     ch CHR ''a'' \<le> u \<and> u \<le> ch CHR ''z'' \<or> u = ch CHR ''-'' \<or> u = ch CHR ''_''"

text \<open>
  What \<open>trim\<close> takes off, the replacement removes as well. Appending until the length is a multiple of four
  is written as one repetition.
\<close>

definition base64clean :: "jsstr \<Rightarrow> jsstr" where
  "base64clean s =
     (let t = filter alphabet_unit s
      in if length t < 2 then [] else t @ replicate ((4 - length t mod 4) mod 4) (ch CHR ''=''))"

definition base64ToBytes :: "jsstr \<Rightarrow> jserror + nat list" where
  "base64ToBytes s = toByteArray (base64clean s)"

section \<open>Every entry of the alphabet is read back\<close>

lemma code_units: "code = map of_nat ([65..<91] @ [97..<123] @ [48..<58] @ [43, 47])"
  by (simp add: code_def js_def ch_def upt_rec)

lemma code_length [simp]: "length code = 64"
  by (simp add: code_units)

lemma code_distinct: "distinct code"
  by (simp add: code_units upt_rec)

lemma code_set: "u \<in> set code \<Longrightarrow> alphabet_unit u \<and> u \<noteq> ch CHR ''='' \<and> u \<noteq> ch CHR ''-'' \<and> u \<noteq> ch CHR ''_''"
  by (simp add: code_units upt_rec) (elim disjE; simp add: alphabet_unit_def ch_def)

lemma code_entry [simp]:
  assumes "k < 64"
  shows "revLookup (code ! k) = k" "alphabet_unit (code ! k)" "code ! k \<noteq> ch CHR ''=''"
proof -
  have k: "code ! k \<in> set code" using assms by simp
  show "alphabet_unit (code ! k)" "code ! k \<noteq> ch CHR ''=''" using code_set [OF k] by simp_all
  have "map_of (zip code [0..<64]) (code ! k) = Some k"
    using map_of_zip_nth [of code "[0..<64]" k] code_distinct assms by simp
  then show "revLookup (code ! k) = k" using code_set [OF k] by (simp add: revLookup_def lookup_entries_def)
qed

lemma no_padding [simp]: "\<not> alphabet_unit (ch CHR ''='')"
  by (simp add: alphabet_unit_def ch_def)

section \<open>What was written is read back\<close>

lemma rev_code:
  "revLookup (code ! (x AND 63)) = x mod 64" "revLookup (code ! (63 AND x)) = x mod 64" "alphabet_unit (code ! (x AND 63))"
  "alphabet_unit (code ! (63 AND x))" "code ! (x AND 63) \<noteq> ch CHR ''=''" "code ! (63 AND x) \<noteq> ch CHR ''=''"
  by (simp_all add: masks masks_right)

lemma more_shifts:
  "drop_bit 16 x = x div (65536 :: nat)" "drop_bit 8 x = x div (256 :: nat)" "drop_bit 4 x = x div (16 :: nat)"
  "drop_bit 2 x = x div (4 :: nat)" "push_bit 8 x = x * (256 :: nat)" "push_bit 4 x = x * (16 :: nat)" "push_bit 2 x = x * (4 :: nat)"
  by (simp_all add: drop_bit_eq_div push_bit_eq_mult)

lemma masked_shift: "a < 256 \<Longrightarrow> push_bit k a AND push_bit k 255 = a * (2 ^ k :: nat)"
  unfolding push_bit_and [symmetric] by (simp add: masks_right push_bit_eq_mult)

lemma triplet_number:
  assumes "a < 256" "b < 256" "c < (256 :: nat)"
  shows "(push_bit 16 a AND 16711680) + (push_bit 8 b AND 65280) + (255 AND c) = a * 65536 + b * 256 + c"
  using masked_shift [of a 16] masked_shift [of b 8] assms by (simp add: masks push_bit_eq_mult)

lemma triplet_reads:
  assumes "a < 256" "b < 256" "c < 256"
  shows "decode_groups (tripletToBase64 (a * 65536 + b * 256 + c) @ t) = [a, b, c] @ decode_groups t"
proof -
  let ?n = "a * 65536 + b * 256 + c"
  have "?n div 262144 < 64" using assms by (simp add: div_less_iff_less_mult)
  then have n: "push_bit 18 (?n div 262144 mod 64) OR push_bit 12 (?n div 4096 mod 64) OR push_bit 6 (?n div 64 mod 64) OR ?n mod 64 = ?n"
    using digits(2) [of ?n] by (simp add: shifts)
  have "?n div 65536 = a" "?n div 256 = a * 256 + b" using assms by (auto intro!: div_nat_eqI)
  moreover have "?n mod 256 = c" using assms(3) mod_mult_self2 [of c 256 "a * 256 + b"] by (simp add: algebra_simps)
  moreover have "(a * 256 + b) mod 256 = b" using assms(2) mod_mult_self2 [of b 256 a] by (simp add: algebra_simps)
  ultimately have "?n div 65536 mod 256 = a" "?n div 256 mod 256 = b" "?n mod 256 = c" using assms(1) by simp_all
  then have "[drop_bit 16 ?n AND 255, drop_bit 8 ?n AND 255, 255 AND ?n] = [a, b, c]" by (simp only: masks masks_right more_shifts)
  moreover have "decode_groups (tripletToBase64 ?n @ t) = [drop_bit 16 ?n AND 255, drop_bit 8 ?n AND 255, 255 AND ?n] @ decode_groups t"
    by (simp only: tripletToBase64_def append.simps decode_groups.simps rev_code shifts(1,2,3) Let_def n)
  ultimately show ?thesis by simp
qed

lemma encodeChunk_append: "length xs mod 3 = 0 \<Longrightarrow> encodeChunk (xs @ ys) = encodeChunk xs @ encodeChunk ys"
  by (induction xs rule: encodeChunk.induct) auto

lemma encode_chunks_one: "encode_chunks bs = encodeChunk bs"
proof (induction bs rule: encode_chunks.induct)
  case (1 bs)
  let ?m = maxChunkLength
  have "encodeChunk (take ?m bs) @ encodeChunk (drop ?m bs) = encodeChunk bs"
  proof (cases "length bs \<le> ?m")
    case False
    then have "length (take ?m bs) mod 3 = 0" by (simp add: maxChunkLength_def)
    then show ?thesis by (simp flip: encodeChunk_append)
  qed simp
  with 1 show ?case by (subst encode_chunks.simps) simp
qed

lemma encodeChunk_reads:
  "length xs mod 3 = 0 \<Longrightarrow> \<forall>b \<in> set xs. b < 256 \<Longrightarrow> decode_groups (encodeChunk xs @ t) = xs @ decode_groups t"
  by (induction xs rule: encodeChunk.induct) (auto simp: triplet_number triplet_reads simp del: decode_groups.simps)

lemma encodeChunk_shape:
  "length (encodeChunk xs) = 4 * (length xs div 3)" "filter alphabet_unit (encodeChunk xs) = encodeChunk xs"
  "ch CHR ''='' \<notin> set (encodeChunk xs)"
  by (induction xs rule: encodeChunk.induct) (auto simp: tripletToBase64_def rev_code dest: sym)

lemma single_reads:
  assumes "a < 256"
  shows "encode_rest [a] = [code ! (a div 4), code ! (a * 16 mod 64)] @ js ''==''"
    "decode_rest 2 (encode_rest [a]) = [a]"
proof -
  show e: "encode_rest [a] = [code ! (a div 4), code ! (a * 16 mod 64)] @ js ''==''"
    by (simp add: encode_rest_def more_shifts masks_right)
  have "a div 4 < 64" using assms by (simp add: div_less_iff_less_mult)
  moreover have "a * 16 mod 64 div 16 = a mod 4" using mod_mult_mult2 [of a 16 4] by simp
  moreover have "a div 4 * 4 OR a mod 4 = a" using sum_is_or [of "a mod 4" 2 "a div 4"] by simp
  ultimately show "decode_rest 2 (encode_rest [a]) = [a]"
    unfolding e using assms by (simp add: decode_rest_def more_shifts masks)
qed

lemma pair_reads:
  assumes "a < 256" "b < 256"
  shows "encode_rest [a, b] = [code ! ((a * 256 + b) div 1024), code ! ((a * 256 + b) div 16 mod 64), code ! ((a * 256 + b) * 4 mod 64)] @ js ''=''"
    "decode_rest 1 (encode_rest [a, b]) = [a, b]"
proof -
  define n where "n = a * 256 + b"
  show e: "encode_rest [a, b] = [code ! ((a * 256 + b) div 1024), code ! ((a * 256 + b) div 16 mod 64), code ! ((a * 256 + b) * 4 mod 64)] @ js ''=''"
    by (simp add: encode_rest_def more_shifts shifts masks_right Let_def)
  have "n < 65536" using assms by (simp add: n_def)
  then have hi: "n div 1024 < 64" by (simp add: div_less_iff_less_mult)
  have low: "n * 4 mod 64 div 4 = n mod 16" using mod_mult_mult2 [of n 4 16] by simp
  have "n div 16 mod 64 * 16 OR n mod 16 = n mod 16 + n div 16 mod 64 * 16" using sum_is_or [of "n mod 16" 4] by simp
  moreover have "n mod 16 + n div 16 mod 64 * 16 < 1024"
    using mod_less_divisor [of 16 n] mod_less_divisor [of 64 "n div 16"] by linarith
  moreover have "n div 16 div 64 = n div 1024" by (simp flip: div_mult2_eq)
  then have "n mod 16 + n div 16 mod 64 * 16 + n div 1024 * 1024 = n"
    using div_mult_mod_eq [of n 16] div_mult_mod_eq [of "n div 16" 64] by linarith
  ultimately have i: "n div 1024 * 1024 OR n div 16 mod 64 * 16 OR n mod 16 = n" by (simp add: ors)
  have "n div 256 = a" "n mod 256 = b" using assms by (simp_all add: n_def)
  then show "decode_rest 1 (encode_rest [a, b]) = [a, b]"
    unfolding e n_def [symmetric] using assms hi i
    by (simp add: decode_rest_def more_shifts shifts masks masks_right low Let_def)
qed

definition rest_holders :: "nat list \<Rightarrow> nat" where
  "rest_holders r = (3 - length r) mod 3"

lemma rest_shape:
  assumes "length r < 3" "\<forall>b \<in> set r. b < 256"
  shows "length (encode_rest r) = (if r = [] then 0 else 4)"
    "filter alphabet_unit (encode_rest r) @ replicate (rest_holders r) (ch CHR ''='') = encode_rest r"
    "r \<noteq> [] \<Longrightarrow> (encode_rest r ! 2 = ch CHR ''='') = (length r = 1)" "r \<noteq> [] \<Longrightarrow> encode_rest r ! 3 = ch CHR ''=''"
    "decode_rest (rest_holders r) (encode_rest r) = r"
proof -
  have shape: "length (encode_rest r) = (if r = [] then 0 else 4) \<and>
    filter alphabet_unit (encode_rest r) @ replicate (rest_holders r) (ch CHR ''='') = encode_rest r \<and>
    (r \<noteq> [] \<longrightarrow> (encode_rest r ! 2 = ch CHR ''='') = (length r = 1) \<and> encode_rest r ! 3 = ch CHR ''='') \<and>
    decode_rest (rest_holders r) (encode_rest r) = r"
  proof -
    consider (none) "r = []" | (one) a where "r = [a]" | (two) a b where "r = [a, b]"
      using assms(1) by (cases r; cases "tl r"; cases "tl (tl r)") auto
    then show ?thesis
    proof cases
      case none
      then show ?thesis by (simp add: encode_rest_def decode_rest_def rest_holders_def)
    next
      case (one a)
      then have a: "a < 256" using assms(2) by simp
      then have "a div 4 < 64" by (simp add: div_less_iff_less_mult)
      with one single_reads [OF a] show ?thesis by (simp add: rest_holders_def js_def numeral_2_eq_2)
    next
      case (two a b)
      then have ab: "a < 256" "b < 256" using assms(2) by simp_all
      then have "(a * 256 + b) div 1024 < 64" by (simp add: div_less_iff_less_mult)
      with two pair_reads [OF ab] show ?thesis by (simp add: rest_holders_def js_def)
    qed
  qed
  then show "length (encode_rest r) = (if r = [] then 0 else 4)"
    "filter alphabet_unit (encode_rest r) @ replicate (rest_holders r) (ch CHR ''='') = encode_rest r"
    "r \<noteq> [] \<Longrightarrow> (encode_rest r ! 2 = ch CHR ''='') = (length r = 1)" "r \<noteq> [] \<Longrightarrow> encode_rest r ! 3 = ch CHR ''=''"
    "decode_rest (rest_holders r) (encode_rest r) = r" by blast+
qed

text \<open>The groups of three and the one to two bytes that are left.\<close>

lemma base64_parts:
  assumes "\<forall>b \<in> set bs. b < 256"
  obtains xs r where "fromByteArray bs = encodeChunk xs @ encode_rest r" "bs = xs @ r" "length xs mod 3 = 0" "length r < 3"
    "\<forall>b \<in> set xs. b < 256" "\<forall>b \<in> set r. b < 256"
proof -
  let ?u = "length bs - length bs mod 3"
  have "fromByteArray bs = encodeChunk (take ?u bs) @ encode_rest (drop ?u bs)"
    by (simp add: fromByteArray_def encode_chunks_one Let_def)
  moreover have "length (take ?u bs) mod 3 = 0" by (simp add: minus_mod_eq_mult_div)
  ultimately show thesis using that [of "take ?u bs" "drop ?u bs"] assms by (auto dest: in_set_takeD in_set_dropD)
qed

lemma pad_count:
  assumes "h < 4" "(l + h) mod 4 = (0 :: nat)"
  shows "(4 - l mod 4) mod 4 = h"
proof -
  have "4 dvd l mod 4 + h" using assms(2) by (simp only: dvd_eq_mod_eq_0 mod_add_left_eq)
  then obtain k where k: "l mod 4 + h = 4 * k" by (rule dvdE)
  moreover have "l mod 4 < 4" by simp
  ultimately have "k = 0 \<or> k = 1" using assms(1) by linarith
  then show ?thesis
  proof
    assume "k = 0"
    with k show ?thesis by simp
  next
    assume "k = 1"
    with k have "4 - l mod 4 = h" by linarith
    with assms(1) show ?thesis by (simp only: mod_less)
  qed
qed

lemma holders_positive: "length r < 3 \<Longrightarrow> 0 < rest_holders r \<longleftrightarrow> r \<noteq> []"
  by (cases r) (auto simp: rest_holders_def)

lemma decode_groups_Nil [simp]: "decode_groups [] = []"
  by simp

lemma holders_of:
  assumes "length xs mod 3 = 0" "length r < 3" "\<forall>b \<in> set r. b < 256"
  shows "placeHoldersCount (encodeChunk xs @ encode_rest r) = Some (rest_holders r)"
proof (cases "r = []")
  case True
  let ?t = "encodeChunk xs"
  have "?t ! k \<noteq> ch CHR ''=''" if "k < length ?t" for k using that encodeChunk_shape(3) [of xs] by (metis nth_mem)
  then show ?thesis using True by (cases "length xs div 3 = 0") (simp_all add: placeHoldersCount_def rest_holders_def encode_rest_def encodeChunk_shape(1) Let_def)
next
  case False
  note r = rest_shape [OF assms(2,3)]
  let ?t = "encodeChunk xs @ encode_rest r"
  have len: "length (encode_rest r) = 4" using r(1) False by simp
  then have "?t ! (length ?t - 2) = encode_rest r ! 2" "?t ! (length ?t - 1) = encode_rest r ! 3" by (simp_all add: nth_append)
  moreover have "length ?t mod 4 = 0" "length ?t > 0" using len by (simp_all add: encodeChunk_shape(1))
  moreover have "length r = 1 \<or> length r = 2" using False assms(2) by (cases "length r") auto
  ultimately show ?thesis using r(3,4) False by (auto simp: placeHoldersCount_def rest_holders_def Let_def)
qed

lemma base64_reads_back:
  assumes "\<forall>b \<in> set bs. b < 256"
  shows "toByteArray (fromByteArray bs) = Inr bs" "base64clean (fromByteArray bs) = fromByteArray bs"
proof -
  obtain xs r where p: "fromByteArray bs = encodeChunk xs @ encode_rest r" "bs = xs @ r" "length xs mod 3 = 0" "length r < 3"
    "\<forall>b \<in> set xs. b < 256" "\<forall>b \<in> set r. b < 256" by (rule base64_parts [OF assms])
  note r = rest_shape [OF p(4,6)]
  let ?t = "encodeChunk xs @ encode_rest r"
  have n: "(if rest_holders r > 0 then length ?t - 4 else length ?t) = length (encodeChunk xs)"
    using r(1) holders_positive [OF p(4)] by (simp add: encode_rest_def)
  have "decode_groups (encodeChunk xs) = xs" using encodeChunk_reads [OF p(3,5), of "[]"] by simp
  then show "toByteArray (fromByteArray bs) = Inr bs"
    unfolding toByteArray_def p(1) holders_of [OF p(3,4,6)] option.case Let_def n using r(5) p(2) by simp
  let ?f = "filter alphabet_unit ?t"
  have f: "?f @ replicate (rest_holders r) (ch CHR ''='') = ?t" using r(2) by (simp add: encodeChunk_shape(2))
  have len: "length ?f + rest_holders r = length ?t" using arg_cong [OF f, of length] by (simp only: length_append length_replicate)
  have four: "length ?t mod 4 = 0" using r(1) by (simp add: encodeChunk_shape(1))
  have le: "rest_holders r < 3" by (simp add: rest_holders_def)
  have "(4 - length ?f mod 4) mod 4 = rest_holders r"
    by (rule pad_count) (use le in simp, simp only: len four)
  moreover have "length ?f < 2 \<Longrightarrow> ?t = []"
  proof -
    assume "length ?f < 2"
    with le len have "length ?t < 4" by linarith
    with four have "length ?t = 0" by (simp only: mod_less)
    then show "?t = []" by (simp only: length_0_conv)
  qed
  ultimately show "base64clean (fromByteArray bs) = fromByteArray bs"
    unfolding p(1) base64clean_def Let_def using f by (cases "length ?f < 2") (simp_all only: if_True if_False)
qed

end
