(* ===== verification/BrowserProps.thy ===== *)
theory BrowserProps
  imports JsCookie JsDeepCorrect JsEvents JsBase64
begin

text \<open>
  The properties of the modules bundled in \<open>swagger-ui-bundle.js\<close>: merging and copying objects,
  repeating strings, class names, code points and cookies. The sample heaps hold the seven built-in
  prototypes and a few objects.
\<close>

section \<open>Objects\<close>

definition object_of :: "(jskey \<times> jsval) list \<Rightarrow> obj" where
  "object_of ps = \<lparr>ob_kind = KPlain, ob_proto = Some OBJECT_PROTO, ob_props = map (\<lambda>(k, v). (k, v, True)) ps\<rparr>"

definition built_ins :: heap where
  "built_ins = \<lparr>ob_kind = KPlain, ob_proto = None, ob_props = []\<rparr> # replicate 6 (object_of [])"

lemma built_ins_length [simp]: "length built_ins = 7"
  by (simp add: built_ins_def)

lemma built_ins_nth:
  "(built_ins @ xs) ! 0 = \<lparr>ob_kind = KPlain, ob_proto = None, ob_props = []\<rparr>" "7 \<le> a \<Longrightarrow> (built_ins @ xs) ! a = xs ! (a - 7)"
   "1 \<le> p \<Longrightarrow> p < 7 \<Longrightarrow> (built_ins @ xs) ! p = object_of []"
  by (auto simp: nth_append built_ins_def nth_Cons' )

text \<open>\<open>7 = {a: {b: 1}}\<close> and \<open>8 = {a: {c: true}, d: 2}\<close>.\<close>

definition sample_heap :: heap where
  "sample_heap = built_ins @
     [object_of [(KStr [97], VRef 9)], object_of [(KStr [97], VRef 10), (KStr [100], VNum 2)],
      object_of [(KStr [98], VNum 1)], object_of [(KStr [99], VBool True)]]"

lemma sample_heap_nth:
  "length sample_heap = Suc (Suc 9)" "sample_heap ! 0 = \<lparr>ob_kind = KPlain, ob_proto = None, ob_props = []\<rparr>"
  "1 \<le> p \<Longrightarrow> p < 7 \<Longrightarrow> sample_heap ! p = object_of []"
  "sample_heap ! 7 = object_of [(KStr [97], VRef 9)]" "sample_heap ! 8 = object_of [(KStr [97], VRef 10), (KStr [100], VNum 2)]"
  "sample_heap ! 9 = object_of [(KStr [98], VNum 1)]" "sample_heap ! 10 = object_of [(KStr [99], VBool True)]"
  by (simp_all add: sample_heap_def built_ins_nth)

lemma sample_heap_ok: "protos_ok sample_heap"
proof -
  have "ob_props (sample_heap ! p) = []" if "p < 7" for p
    using that sample_heap_nth(2,3) by (cases p) (auto simp: object_of_def)
  then show ?thesis
    using sample_heap_nth(1-3) by (auto simp: protos_ok_def FIRST_def own_def object_of_def OBJECT_PROTO_def)
qed

lemma sample_trees:
  "repr sample_heap (TObj KPlain [(KStr [97], TObj KPlain [(KStr [98], TVal (VNum 1))])]) (VRef 7) {7, 9}"
  "repr sample_heap (TObj KPlain [(KStr [97], TObj KPlain [(KStr [99], TVal (VBool True))]), (KStr [100], TVal (VNum 2))]) (VRef 8) {8, 10}"
  by (auto simp: repr.simps sample_heap_nth object_of_def FIRST_def proto_of_kind_def plain_val_def)

text \<open>
  C34. \<open>deep-extend\<close> returns when the objects it is given are trees, and then does what its
  documentation says: the target holds the sources merged into it one after the other, and no object
  outside the target has changed, so that source and result share nothing that is written later.
\<close>

theorem deep_extend_merges:
  assumes "protos_ok h" "repr h (TObj kd m) (VRef a) A" "record_kind kd" "tdist (TObj kd m)" "vs \<noteq> []"
    and "list_all2 (\<lambda>v ps. tree_ok (TObj KPlain ps) \<and> depth (TObj KPlain ps) \<le> f \<and>
      (\<exists>S. repr h (TObj KPlain ps) v S \<and> S \<inter> A = {})) vs pss"
  shows "\<exists>h' B. deepExtend f (VRef a # vs) h = Some (Inr (VRef a), h') \<and>
    repr h' (TObj kd (foldl merge m pss)) (VRef a) B \<and> B \<subseteq> A \<union> {length h..} \<and>
    (\<forall>x < length h. x \<notin> A \<longrightarrow> h' ! x = h ! x)"
proof -
  have "A \<noteq> {}" using assms(2) by (auto elim: reprE)
  then show ?thesis
    using deepExtend_merges [OF assms] by (auto simp: result_tree_def ext_def)
qed

theorem deep_extend_merges_witness:
  "\<exists>h' B. deepExtend 2 [VRef 7, VRef 8] sample_heap = Some (Inr (VRef 7), h') \<and>
    repr h' (TObj KPlain [(KStr [97], TObj KPlain [(KStr [98], TVal (VNum 1)), (KStr [99], TVal (VBool True))]),
      (KStr [100], TVal (VNum 2))]) (VRef 7) B \<and> h' ! 8 = sample_heap ! 8"
proof -
  let ?m = "[(KStr [97], TObj KPlain [(KStr [98], TVal (VNum 1))])]"
  let ?ps = "[(KStr [97], TObj KPlain [(KStr [99], TVal (VBool True))]), (KStr [100], TVal (VNum 2))]"
  have [simp]: "record_kind KPlain" by (simp add: record_kind_def kind_ok_def)
  have "tree_ok (TObj KPlain ?ps)" "tdist (TObj KPlain ?m)"
    by (simp_all add: kind_ok_def shape_ok_def key_ok_def PROTO_KEY_def js_def)
  moreover have m: "merge ?m ?ps = [(KStr [97], TObj KPlain [(KStr [98], TVal (VNum 1)), (KStr [99], TVal (VBool True))]),
      (KStr [100], TVal (VNum 2))]" by simp
  moreover have "\<exists>S. repr sample_heap (TObj KPlain ?ps) (VRef 8) S \<and> S \<inter> {7, 9} = {}"
    using sample_trees(2) by (intro exI [of _ "{8, 10}"]) simp
  ultimately have "\<exists>h' B. deepExtend 2 [VRef 7, VRef 8] sample_heap = Some (Inr (VRef 7), h') \<and>
      repr h' (TObj KPlain (merge ?m ?ps)) (VRef 7) B \<and> B \<subseteq> {7, 9} \<union> {length sample_heap..} \<and>
      (\<forall>x < length sample_heap. x \<notin> {7, 9} \<longrightarrow> h' ! x = sample_heap ! x)"
    using deep_extend_merges [OF sample_heap_ok sample_trees(1), of "[VRef 8]" 2 "[?ps]"] by simp
  then show ?thesis unfolding m using sample_heap_nth(1) by fastforce
qed

text \<open>An empty target, a source with \<open>__proto__\<close>, what that holds, and a bystander.\<close>

definition polluting :: "jskey \<Rightarrow> jsval \<Rightarrow> heap" where
  "polluting k v = built_ins @ [object_of [], object_of [(PROTO_KEY, VRef 9)], object_of [(k, v)], object_of []]"

lemma polluting_nth:
  "length (polluting k v) = Suc (Suc 9)"
  "polluting k v ! 0 = \<lparr>ob_kind = KPlain, ob_proto = None, ob_props = []\<rparr>"
  "polluting k v ! 7 = object_of []" "polluting k v ! 8 = object_of [(PROTO_KEY, VRef 9)]"
  "polluting k v ! 9 = object_of [(k, v)]" "polluting k v ! 10 = object_of []"
  by (simp_all add: polluting_def built_ins_nth)

text \<open>
  C35. Prototype pollution: when a source has an own property named \<open>__proto__\<close>, as \<open>JSON.parse\<close>
  creates, the merge writes what it holds, here one property of any name, into \<open>Object.prototype\<close>,
  and an unrelated object, which did not have the property, now shows it.
\<close>

theorem deep_extend_pollutes_prototype:
  assumes "s \<noteq> js ''__proto__''"
  shows "js_get (polluting (KStr s) (VStr t)) 10 (KStr s) = VUndefined \<and>
    (\<exists>h. deepExtend 2 [VRef 7, VRef 8] (polluting (KStr s) (VStr t)) = Some (Inr (VRef 7), h) \<and>
      own h OBJECT_PROTO (KStr s) = Some (VStr t) \<and> js_get h 10 (KStr s) = VStr t)"
proof
  have k: "KStr s \<noteq> PROTO_KEY" "PROTO_KEY \<noteq> KStr s" using assms by (auto simp: PROTO_KEY_def)
  have string: "\<exists>x. PROTO_KEY = KStr x" by (simp add: PROTO_KEY_def)
  let ?h = "polluting (KStr s) (VStr t)"
  let ?h1 = "?h[0 := \<lparr>ob_kind = KPlain, ob_proto = None, ob_props = [(KStr s, VStr t, True)]\<rparr>]"
  note heap = polluting_nth object_of_def own_def js_get_def lookup.simps OBJECT_PROTO_def grown_def
  note merge = extend_args_def extend_source_def extend_key_def m_ret_def m_then_def m_put_def js_put_def
    is_object_def is_array_def isSpecificValue_def string_keys_def Let_def
  show "js_get ?h 10 (KStr s) = VUndefined" using k by (simp add: heap)
  have inner: "deep (Suc 0) (Extend [VRef 0, VRef 9]) ?h = Some (Inr (VRef 0), ?h1)"
    using k by (simp add: heap merge)
  have "in_chain (Suc (Suc n)) ?h1 7 0 = False" "in_chain (Suc (Suc n)) ?h1 0 7" for n
    by (simp_all add: polluting_nth object_of_def OBJECT_PROTO_def)
  from this [of 9] have chain: "in_chain 11 ?h1 7 0 = False" "in_chain 11 ?h1 0 7" by simp_all
  have same: "?h1[7 := \<lparr>ob_kind = KPlain, ob_proto = Some 0, ob_props = []\<rparr>] = ?h1"
    using list_update_id [of ?h1 7] by (simp add: polluting_nth object_of_def OBJECT_PROTO_def)
  have "deepExtend 2 [VRef 7, VRef 8] ?h = Some (Inr (VRef 7), ?h1)"
    using k inner by (simp add: deepExtend_def numeral_2_eq_2 heap merge string chain same)
  moreover have "own ?h1 OBJECT_PROTO (KStr s) = Some (VStr t) \<and> js_get ?h1 10 (KStr s) = VStr t"
    by (simp add: heap)
  ultimately show "\<exists>h. deepExtend 2 [VRef 7, VRef 8] ?h = Some (Inr (VRef 7), h) \<and>
      own h OBJECT_PROTO (KStr s) = Some (VStr t) \<and> js_get h 10 (KStr s) = VStr t" by blast
qed

theorem deep_extend_pollutes_prototype_witness:
  "\<exists>h. deepExtend 2 [VRef 7, VRef 8] (polluting (KStr (js ''admin'')) (VStr [49])) = Some (Inr (VRef 7), h) \<and>
    js_get h 10 (KStr (js ''admin'')) = VStr [49]"
proof -
  have "js ''admin'' \<noteq> js ''__proto__''" by (simp add: js_def)
  then show ?thesis using deep_extend_pollutes_prototype by blast
qed



section \<open>Strings\<close>





text \<open>
  The polyfill of \<open>String.prototype.repeat\<close> gives the copies asked for below \<open>2 ^ 31\<close>. At \<open>2 ^ 31\<close> its
  shift turns the counter negative and the loop never ends, even on the empty string, where the
  standard answers at once; and \<open>3.5\<close> gives two copies where the standard gives three.
\<close>

theorem polyfill_repeat_range:
  "(\<forall>k < 2 ^ 31. polyfill_repeat (Some t) (Fin (of_nat k)) = Some (Inr (concat (replicate k t)))) \<and>
   polyfill_repeat (Some t) (Fin (2 ^ 31)) = None \<and>
   polyfill_repeat (Some t) (Fin (7 / 2)) = Some (Inr (t @ t))"
proof (intro conjI allI impI)
  show "polyfill_repeat (Some t) (Fin (of_nat k)) = Some (Inr (concat (replicate k t)))" if "k < 2 ^ 31" for k :: nat
    using polyfill_loop_copies [OF that, of 1 t "[]"] by (simp add: polyfill_repeat_def copies_def)
  show "polyfill_repeat (Some t) (Fin (2 ^ 31)) = None"
    using polyfill_overflow [of t "[]"] by (simp add: polyfill_repeat_def)
  show "polyfill_repeat (Some t) (Fin (7 / 2)) = Some (Inr (t @ t))"
  proof -
    have fl: "\<lfloor>7 / 2 :: rat\<rfloor> = 3" "\<lfloor>7 / 4 :: rat\<rfloor> = 1" by (simp_all add: floor_eq_iff)
    have "shr1 (7 / 2) = 1" "\<not> rem2_is_1 (7 / 2)" by (simp_all add: shr1_def toInt32_def rem2_is_1_def fl)
    moreover have "polyfill_loop 1 u [] = Some u" for u
      using polyfill_loop_copies [of 1 1 u "[]"] by simp
    ultimately show ?thesis by (simp add: polyfill_repeat_def polyfill_loop.simps [of "7 / 2"])
  qed
qed

theorem polyfill_repeat_range_witness:
  "polyfill_repeat (Some (js ''ab'')) (Fin 3) = Some (Inr (js ''ababab''))"
  using conjunct1 [OF polyfill_repeat_range [of "js ''ab''"], rule_format, of 3] by (simp add: js_def numeral_3_eq_3)

text \<open>
  \<open>classNames\<close> lists the words of its arguments in order: those of the truthy strings and numbers, those of
  the keys with truthy values, and, through arrays, those of their elements.
\<close>

theorem class_names_words:
  "words (classNames args) = concat (map class_tokens args)"
  by (simp add: classNames_def words_join class_parts_tokens)

text \<open>
  Pascal case is idempotent: what the conversion returns, it leaves alone.
\<close>

theorem pascalcase_idempotent:
  assumes "pascalcase (Str s) = Inr r"
  shows "pascalcase (Str r) = Inr r"
proof (cases "length (space_upper s) = 1")
  case False
  then show ?thesis using pascalcase_stable pascalcase_form [OF assms] by simp
next
  case True
  then obtain u us where s: "s = u # us" by (cases s) auto
  with True have u: "\<not> is_upper u" "us = []" by (auto split: if_splits)
  with True have r: "r = [to_upper u]" using assms s by (simp add: pascalcase_def)
  show ?thesis
  proof (cases "is_lower u")
    case low: True
    then have "pascal_form r" using case_facts(8) [of u] by (simp add: pascal_form_def r is_alnum_def del: case_facts(8))
    then show ?thesis by (rule pascalcase_stable)
  qed (use u in \<open>simp add: r pascalcase_def\<close>)
qed

theorem pascalcase_idempotent_witness:
  "pascalcase (Str (js ''fooBar-baz'')) = Inr (js ''FooBarBaz'') \<and> pascalcase (Str (js ''FooBarBaz'')) = Inr (js ''FooBarBaz'')"
proof -
  have "pascalcase (Str (js ''fooBar-baz'')) = Inr (js ''FooBarBaz'')" by code_simp
  then show ?thesis using pascalcase_idempotent by blast
qed

text \<open>
  \<open>fromCodePoint\<close> encodes any sequence of Unicode scalar values so that reading the code units back gives the
  sequence, across the batches in which it appends them.
\<close>

theorem fromCodePoint_roundtrip:
  assumes "\<forall>p \<in> set ps. scalar_value p"
  shows "code_points (fromCodePoint (map (\<lambda>p. Fin (of_nat p)) ps)) = ps"
proof -
  have "fromCodePoint (map (\<lambda>p. Fin (of_nat p)) ps) = concat (map units_of_point ps)"
    using assms by (intro fromCodePoint_concat) (auto simp: scalar_value_def)
  moreover have "code_points (concat (map units_of_point ps)) = ps"
    using assms by (induction ps) (simp_all add: code_points_unit)
  ultimately show ?thesis by simp
qed

theorem fromCodePoint_roundtrip_witness:
  "code_points (fromCodePoint (map (\<lambda>p. Fin (of_nat p)) [65, 8364, 128512])) = [65, 8364, 128512]"
  by (rule fromCodePoint_roundtrip) (simp add: scalar_value_def)

section \<open>Cookies\<close>

text \<open>
  C38. Cookies serialised with the default encoder and sent in one header are parsed back to the same names and
  values, for names that are distinct, free of the separators and not inherited from \<open>Object.prototype\<close>.
\<close>

theorem cookie_roundtrip:
  assumes "list_all2 (\<lambda>(f, v) c. cookie_serialize f v no_options = Inr c) ps cs"
    and "\<forall>(f, v) \<in> set ps. plain_name f" "distinct (map fst ps)" "ps \<noteq> []"
  shows "cookie_parse (Str (cookie_header cs)) None = Inr ps"
  by (rule parse_serialized [OF assms])

theorem cookie_roundtrip_witness:
  "cookie_parse (Str (js ''id=a%3B%20b; t=1'')) None = Inr [(js ''id'', js ''a; b''), (js ''t'', js ''1'')]"
proof -
  note units = field_content_def field_unit_def js_def ch_def
  note encoding = uri_unreserved_def is_alnum_def is_upper_def is_lower_def digit_unit_def low_surrogate_def
    high_surrogate_def escapes_def escape_def hex_unit_def
  have s: "cookie_serialize (js ''id'') (js ''a; b'') no_options = Inr (js ''id=a%3B%20b'')"
    "cookie_serialize (js ''t'') (js ''1'') no_options = Inr (js ''t=1'')"
    by (simp_all add: serialize_plain units encoding)
  have "plain_name (js ''id'')" "plain_name (js ''t'')" "js ''id'' \<noteq> js ''t''"
    by (simp_all add: plain_name_def js_blank_def object_prototype_names_def units)
  moreover have "cookie_header [js ''id=a%3B%20b'', js ''t=1''] = js ''id=a%3B%20b; t=1''"
    by (simp add: js_def ch_def)
  ultimately show ?thesis
    using cookie_roundtrip [of "[(js ''id'', js ''a; b''), (js ''t'', js ''1'')]" "[js ''id=a%3B%20b'', js ''t=1'']"] s
    by (simp del: cookie_header.simps)
qed



section \<open>Buffers\<close>

text \<open>
  C40. A text written into a buffer as UTF-8, read out as base 64, cleaned and decoded gives the bytes of the
  text again, and reading them as UTF-8 gives the text with each lone surrogate replaced, unless the text ends
  in two lead surrogates; a text of whole code points comes back as it was. A buffer with room for
  \<open>k\<close> bytes receives no more than \<open>k\<close>.
\<close>

theorem buffer_text_survives:
  assumes "\<not> two_leads_last s"
  shows "base64ToBytes (fromByteArray (utf8ToBytes s None)) = Inr (utf8ToBytes s None) \<and>
    utf8Slice (utf8ToBytes s None) 0 (length (utf8ToBytes s None)) = repaired s \<and>
    (\<forall>ps. list_all scalar_value ps \<and> s = concat (map units_of_point ps) \<longrightarrow> repaired s = s) \<and>
    (0 < k \<longrightarrow> int (length (utf8ToBytes s (Some k))) \<le> k)"
proof -
  have "\<forall>b \<in> set (utf8ToBytes s None). b < 256" by (auto simp: utf8ToBytes_def intro: utf8_loop_range)
  from base64_reads_back [OF this]
  have "base64ToBytes (fromByteArray (utf8ToBytes s None)) = Inr (utf8ToBytes s None)" by (simp add: base64ToBytes_def)
  moreover have "0 < k \<Longrightarrow> int (length (utf8ToBytes s (Some k))) \<le> k"
    using utf8_budget [of k None s] by (simp add: utf8ToBytes_def)
  ultimately show ?thesis using utf8_reads_back [OF assms] repaired_well_formed by blast
qed

text \<open>A lone lead surrogate between two letters.\<close>

theorem buffer_text_survives_witness:
  "utf8Slice (utf8ToBytes [97, 55296, 98] None) 0 (length (utf8ToBytes [97, 55296, 98] None)) = [97, 65533, 98]"
proof -
  have r: "repaired [97, 55296, 98] = [97, 65533, 98]" by (simp add: high_surrogate_def low_surrogate_def)
  have "\<not> two_leads_last [97, 55296, 98]" by (auto simp: two_leads_last_def high_surrogate_def append_eq_Cons_conv)
  from buffer_text_survives [OF this, of 1] r show ?thesis by metis
qed

end
