(* ===== verification/Pending.thy ===== *)
theory Pending
  imports Conservation
begin

text \<open>
  \<open>PendingManager\<close>: the queue of received transactions, the pool of those that executed on the
  pending state, and the two caches. The pending state objects are tracked from the chain's state
  objects and share them, so only their own update maps are kept here. Time, the eviction of the
  caches and the network are arguments; a relayed transaction is recorded.
\<close>

section \<open>State\<close>

record PendingTransaction =
  pt_transaction :: Transaction
  pt_transactionResult :: TransactionResult

record ProcessTransactionResult =
  pr_accepted :: nat
  pr_error :: "TxError option"

type_synonym tx_cache = "(bytes \<times> Transaction) list"

record PendingManager =
  pm_AS :: updates
  pm_DS :: "updates \<times> updates"
  pm_queue :: "Transaction list"
  pm_transactions :: "PendingTransaction list"
  pm_delayed :: tx_cache
  pm_processed :: tx_cache
  pm_isRunning :: bool
  pm_relayed :: "Transaction list"

record PendingEnv =
  pe_crypto :: crypto
  pe_config :: Config
  pe_evict :: "tx_cache \<Rightarrow> tx_cache"

definition QUEUE_MAX_SIZE :: nat where "QUEUE_MAX_SIZE = 128 * 1024"
definition TRANSACTIONS_MAX_SIZE :: nat where "TRANSACTIONS_MAX_SIZE = 16 * 1024"

definition PendingManager_new :: PendingManager where
  "PendingManager_new = \<lparr>pm_AS = [], pm_DS = ([], []), pm_queue = [], pm_transactions = [], pm_delayed = [],
     pm_processed = [], pm_isRunning = False, pm_relayed = []\<rparr>"

text \<open>\<open>pendingAS\<close> and \<open>pendingDS\<close>: the own update maps over the state objects of the chain.\<close>

definition pendingAS :: "Chain \<Rightarrow> PendingManager \<Rightarrow> AccountState" where
  "pendingAS ch pm = (ch_accounts ch)\<lparr>st_layers := pm_AS pm # st_layers (ch_accounts ch)\<rparr>"

definition over_layer :: "updates \<Rightarrow> store \<Rightarrow> store" where
  "over_layer u s = s\<lparr>st_layers := u # st_layers s\<rparr>"

definition pendingDS :: "Chain \<Rightarrow> PendingManager \<Rightarrow> DelegateState" where
  "pendingDS ch pm =
     \<lparr>ds_delegates = over_layer (fst (pm_DS pm)) (ds_delegates (ch_delegates ch)),
      ds_votes = over_layer (snd (pm_DS pm)) (ds_votes (ch_delegates ch))\<rparr>"

text \<open>The own update maps after \<open>as.commit()\<close> and \<open>ds.commit()\<close>.\<close>

definition own_layer :: "store \<Rightarrow> updates" where
  "own_layer s = (case st_layers s of [] \<Rightarrow> [] | u # _ \<Rightarrow> u)"

definition commit_pending :: "AccountState \<Rightarrow> DelegateState \<Rightarrow> PendingManager \<Rightarrow> PendingManager" where
  "commit_pending as ds pm =
     (let pas = store_prev (AccountState_commit as); pds = DelegateState_prev (DelegateState_commit ds)
      in pm\<lparr>pm_AS := own_layer pas, pm_DS := (own_layer (ds_delegates pds), own_layer (ds_votes pds))\<rparr>)"

section \<open>Operations\<close>

definition pm_getNonce :: "Chain \<Rightarrow> bytes \<Rightarrow> PendingManager \<Rightarrow> jlong res" where
  "pm_getNonce ch address pm = rmap acc_nonce (getAccount address (pendingAS ch pm))"

definition createKey :: "bytes \<Rightarrow> jlong \<Rightarrow> bytes" where
  "createKey acc nonce = merge2 acc (bytes_of_long nonce)"

definition accepted_result :: "nat \<Rightarrow> ProcessTransactionResult" where
  "accepted_result cnt = \<lparr>pr_accepted = cnt, pr_error = None\<rparr>"

definition rejected_result :: "nat \<Rightarrow> TxError option \<Rightarrow> ProcessTransactionResult" where
  "rejected_result cnt e = \<lparr>pr_accepted = cnt, pr_error = e\<rparr>"

text \<open>The end of the loop: a transaction ahead of its nonce is delayed.\<close>

definition process_end ::
  "PendingEnv \<Rightarrow> Chain \<Rightarrow> Transaction option \<Rightarrow> nat \<Rightarrow> PendingManager \<Rightarrow>
   ProcessTransactionResult res \<times> PendingManager" where
  "process_end env ch tx cnt pm =
     (case tx of
        None \<Rightarrow> (Inr (accepted_result cnt), pm)
      | Some tx \<Rightarrow>
          (case rbind (non_null (Transaction_getFrom (pe_crypto env) tx)) (\<lambda>from.
                rmap (\<lambda>nonce. (from, nonce)) (pm_getNonce ch from pm)) of
             Inl e \<Rightarrow> (Inl e, pm)
           | Inr (from, nonce) \<Rightarrow>
               (Inr (accepted_result cnt),
                if sint (tx_nonce tx) > sint nonce
                then pm\<lparr>pm_delayed := pe_evict env (AList.update (createKey from (tx_nonce tx)) tx (pm_delayed pm))\<rparr>
                else pm)))"

text \<open>
  One pass of the loop on a transaction whose nonce is due: it is executed on a tracked copy of the
  pending state, and the next one of its sender is looked up.
\<close>

definition process_due ::
  "PendingEnv \<Rightarrow> Chain \<Rightarrow> Transaction \<Rightarrow> bytes \<Rightarrow> bool \<Rightarrow> PendingManager \<Rightarrow>
   (TransactionResult \<times> Transaction option \<times> PendingManager) res" where
  "process_due env ch tx from relay pm =
     rbind (getLatestBlockNumber ch) (\<lambda>latest.
     rbind (execute (pe_crypto env) (pe_config env) latest [tx]
              (AccountState_track (pendingAS ch pm)) (DelegateState_track (pendingDS ch pm))) (\<lambda>(results, as, ds).
     let result = hd results in
     if tr_success result then
       let pm = commit_pending as ds pm;
           pm = pm\<lparr>pm_transactions := pm_transactions pm @ [\<lparr>pt_transaction = tx, pt_transactionResult = result\<rparr>],
                   pm_relayed := (if relay then pm_relayed pm @ [tx] else pm_relayed pm)\<rparr>
       in rbind (pm_getNonce ch from pm) (\<lambda>nonce.
            Inr (result, map_of (pm_delayed pm) (createKey from nonce), pm))
     else Inr (result, None, pm)))"

text \<open>The \<open>while\<close> loop; \<open>None\<close> means it never ends.\<close>

partial_function (option) process_loop ::
  "PendingEnv \<Rightarrow> Chain \<Rightarrow> Transaction option \<Rightarrow> bool \<Rightarrow> nat \<Rightarrow> PendingManager \<Rightarrow>
   (ProcessTransactionResult res \<times> PendingManager) option" where
  "process_loop env ch tx relay cnt pm =
     (case tx of
        None \<Rightarrow> Some (process_end env ch None cnt pm)
      | Some t \<Rightarrow>
          (case rbind (non_null (Transaction_getFrom (pe_crypto env) t)) (\<lambda>from.
                rmap (\<lambda>nonce. (from, nonce)) (pm_getNonce ch from pm)) of
             Inl e \<Rightarrow> Some (Inl e, pm)
           | Inr (from, nonce) \<Rightarrow>
               if tx_nonce t \<noteq> nonce then Some (process_end env ch tx cnt pm)
               else (case process_due env ch t from relay pm of
                 Inl e \<Rightarrow> Some (Inl e, pm)
               | Inr (result, tx', pm') \<Rightarrow>
                   if tr_success result then process_loop env ch tx' relay (cnt + 1) pm'
                   else Some (Inr (rejected_result cnt (tr_error result)), pm'))))"

declare process_loop.simps [code]

definition processTransaction ::
  "PendingEnv \<Rightarrow> jlong \<Rightarrow> Chain \<Rightarrow> Transaction \<Rightarrow> bool \<Rightarrow> PendingManager \<Rightarrow>
   (ProcessTransactionResult res \<times> PendingManager) option" where
  "processTransaction env now ch tx relay pm =
     (if hasTransaction (tx_hash tx) ch then Some (Inr (rejected_result 0 (Some DUPLICATED_HASH)), pm)
      else if sint (tx_timestamp tx) < sint (now - cf_maxTransactionTimeDrift (pe_config env))
            \<or> sint (tx_timestamp tx) > sint (now + cf_maxTransactionTimeDrift (pe_config env))
      then Some (Inr (rejected_result 0 (Some INVALID_TIMESTAMP)), pm)
      else process_loop env ch (Some tx) relay 0 pm)"

definition pm_addTransaction :: "PendingEnv \<Rightarrow> Transaction \<Rightarrow> PendingManager \<Rightarrow> PendingManager" where
  "pm_addTransaction env tx pm =
     (if length (pm_queue pm) < QUEUE_MAX_SIZE \<and> Transaction_validate (pe_crypto env) (cf_network (pe_config env)) tx
      then pm\<lparr>pm_queue := pm_queue pm @ [tx]\<rparr> else pm)"

definition addTransactionSync ::
  "PendingEnv \<Rightarrow> jlong \<Rightarrow> Chain \<Rightarrow> Transaction \<Rightarrow> PendingManager \<Rightarrow>
   (ProcessTransactionResult res \<times> PendingManager) option" where
  "addTransactionSync env now ch tx pm =
     (if Transaction_validate (pe_crypto env) (cf_network (pe_config env)) tx
      then processTransaction env now ch tx True pm
      else Some (Inr (rejected_result 0 (Some INVALID_FORMAT)), pm))"

text \<open>The sizes are added in an \<open>int\<close>.\<close>

fun take_pending :: "PendingTransaction list \<Rightarrow> jint \<Rightarrow> jint \<Rightarrow> PendingTransaction list res" where
  "take_pending [] sz byteLimit = Inr []"
| "take_pending (tx # txs) sz byteLimit =
     rbind (Transaction_size (pt_transaction tx)) (\<lambda>n.
     let sz = sz + of_nat n in
     if sint sz > sint byteLimit then Inr []
     else rmap (\<lambda>rest. tx # rest) (take_pending txs sz byteLimit))"

definition getPendingTransactions :: "jint \<Rightarrow> PendingManager \<Rightarrow> PendingTransaction list res" where
  "getPendingTransactions byteLimit pm =
     (if sint byteLimit < 0 then Inl IllegalArgument else take_pending (pm_transactions pm) 0 byteLimit)"

definition pm_reset :: "PendingManager \<Rightarrow> PendingTransaction list \<times> PendingManager" where
  "pm_reset pm = (pm_transactions pm, pm\<lparr>pm_AS := [], pm_DS := ([], []), pm_transactions := []\<rparr>)"

text \<open>After a block: the pool is executed again on the new state; an exception ends the loop.\<close>

fun reprocess ::
  "PendingEnv \<Rightarrow> jlong \<Rightarrow> Chain \<Rightarrow> PendingTransaction list \<Rightarrow> PendingManager \<Rightarrow> (unit res \<times> PendingManager) option" where
  "reprocess env now ch [] pm = Some (Inr (), pm)"
| "reprocess env now ch (tx # txs) pm =
     (case processTransaction env now ch (pt_transaction tx) False pm of
        None \<Rightarrow> None
      | Some (Inl e, pm) \<Rightarrow> Some (Inl e, pm)
      | Some (Inr _, pm) \<Rightarrow> reprocess env now ch txs pm)"

definition pm_onBlockAdded ::
  "PendingEnv \<Rightarrow> jlong \<Rightarrow> Chain \<Rightarrow> PendingManager \<Rightarrow> (unit res \<times> PendingManager) option" where
  "pm_onBlockAdded env now ch pm =
     (if pm_isRunning pm then (let (txs, pm) = pm_reset pm in reprocess env now ch txs pm)
      else Some (Inr (), pm))"

text \<open>One run of the background task: up to the first transaction that is accepted.\<close>

fun run_queue ::
  "PendingEnv \<Rightarrow> jlong \<Rightarrow> Chain \<Rightarrow> Transaction list \<Rightarrow> PendingManager \<Rightarrow> (unit res \<times> PendingManager) option" where
  "run_queue env now ch [] pm = Some (Inr (), pm\<lparr>pm_queue := []\<rparr>)"
| "run_queue env now ch (tx # q) pm =
     (if length (pm_transactions pm) \<ge> TRANSACTIONS_MAX_SIZE then Some (Inr (), pm\<lparr>pm_queue := tx # q\<rparr>)
      else if map_of (pm_processed pm) (tx_hash tx) \<noteq> None then run_queue env now ch q pm
      else (case processTransaction env now ch tx True (pm\<lparr>pm_queue := q\<rparr>) of
              None \<Rightarrow> None
            | Some (Inl e, pm) \<Rightarrow> Some (Inl e, pm)
            | Some (Inr r, pm) \<Rightarrow>
                let pm = pm\<lparr>pm_processed := pe_evict env (AList.update (tx_hash tx) tx (pm_processed pm))\<rparr>
                in if pr_accepted r \<ge> 1 then Some (Inr (), pm) else run_queue env now ch q pm))"

definition pm_run :: "PendingEnv \<Rightarrow> jlong \<Rightarrow> Chain \<Rightarrow> PendingManager \<Rightarrow> (unit res \<times> PendingManager) option" where
  "pm_run env now ch pm = run_queue env now ch (pm_queue pm) pm"

end
