(* ===== verification/Pool.thy ===== *)
theory Pool
  imports Pending ExecutorSpec
begin

text \<open>
  The correctness of the pending manager: the pool is always a list of transactions that, run in order
  on the state objects of the chain, succeed with the results recorded, and the pending state is where
  that run ends. The loop that picks up delayed transactions returns.
\<close>

section \<open>The pending state\<close>

definition chain_states_ok :: "Chain \<Rightarrow> bool" where
  "chain_states_ok ch \<longleftrightarrow> states_ok (ch_accounts ch) (ch_delegates ch) \<and> store_ok (ch_accounts ch)"

definition pending_states_ok :: "Chain \<Rightarrow> PendingManager \<Rightarrow> bool" where
  "pending_states_ok ch pm \<longleftrightarrow> states_ok (pendingAS ch pm) (pendingDS ch pm) \<and> store_ok (pendingAS ch pm)"

text \<open>With empty update maps the pending state is a tracked copy.\<close>

lemma pending_empty:
  "pm_AS pm = [] \<Longrightarrow> pendingAS ch pm = AccountState_track (ch_accounts ch)"
  "pm_DS pm = ([], []) \<Longrightarrow> pendingDS ch pm = DelegateState_track (ch_delegates ch)"
  by (simp_all add: pendingAS_def pendingDS_def AccountState_track_def DelegateState_track_def store_track_def over_layer_def)

lemma pending_cong:
  "pm_AS pm' = pm_AS pm \<Longrightarrow> pendingAS ch pm' = pendingAS ch pm"
  "pm_DS pm' = pm_DS pm \<Longrightarrow> pendingDS ch pm' = pendingDS ch pm"
  by (simp_all add: pendingAS_def pendingDS_def)

lemma own_layer_commit:
  assumes "store_overlay s" "store_prev s = t\<lparr>st_layers := u # st_layers t\<rparr>"
  shows "t\<lparr>st_layers := own_layer (store_prev (store_commit s)) # st_layers t\<rparr> = store_prev (store_commit s)"
proof -
  obtain v vs where s: "st_layers s = v # vs" "vs \<noteq> []"
    using assms(1) by (cases "st_layers s"; cases "tl (st_layers s)") (auto simp: store_overlay_def)
  have "vs = u # st_layers t" "st_db s = st_db t"
    using arg_cong [OF assms(2), of st_layers] arg_cong [OF assms(2), of st_db] s by (simp_all add: store_prev_def)
  then show ?thesis
    using s by (cases s; cases t) (simp add: own_layer_def store_prev_def store_commit_def)
qed

text \<open>After the commits the pending state is what the tracked copies published.\<close>

lemma commit_pending_states:
  assumes "store_overlay as" "store_prev as = pendingAS ch pm"
    and "ds_overlay ds" "DelegateState_prev ds = pendingDS ch pm"
  shows "pendingAS ch (commit_pending as ds pm) = store_prev (AccountState_commit as)"
    "pendingDS ch (commit_pending as ds pm) = DelegateState_prev (DelegateState_commit ds)"
proof -
  show "pendingAS ch (commit_pending as ds pm) = store_prev (AccountState_commit as)"
    using own_layer_commit [where s = as and t = "ch_accounts ch" and u = "pm_AS pm"] assms(1,2)
    by (simp add: pendingAS_def commit_pending_def AccountState_commit_def Let_def)
  show "pendingDS ch (commit_pending as ds pm) = DelegateState_prev (DelegateState_commit ds)"
    using own_layer_commit [where s = "ds_delegates ds" and t = "ds_delegates (ch_delegates ch)" and u = "fst (pm_DS pm)"]
      own_layer_commit [where s = "ds_votes ds" and t = "ds_votes (ch_delegates ch)" and u = "snd (pm_DS pm)"] assms(3,4)
    by (simp add: pendingDS_def commit_pending_def DelegateState_commit_def DelegateState_prev_def ds_overlay_def
        over_layer_def Let_def)
qed

lemma published:
  assumes "states_ok as ds" "store_overlay as" "ds_overlay ds"
  defines "as' \<equiv> store_prev (AccountState_commit as)" and "ds' \<equiv> DelegateState_prev (DelegateState_commit ds)"
  shows "same_view as ds as' ds'" "states_ok as' ds'" "store_ok as'"
proof -
  have d: "store_overlay (ds_delegates ds)" "store_overlay (ds_votes ds)" "ds_wf ds"
    using assms(1,3) by (simp_all add: states_ok_def ds_overlay_def)
  show v: "same_view as ds as' ds'"
    using assms(2) d unfolding as'_def ds'_def
    by (simp add: same_view_def AccountState_commit_def DelegateState_commit_def DelegateState_prev_def layers.commit_prev)
  show ok: "store_ok as'"
    unfolding as'_def AccountState_commit_def using assms(2) by (simp add: layers.commit_overlay layers.wf_prev)
  have "ds_wf ds'"
    unfolding ds'_def using d
    by (simp add: ds_wf_def delegates_ok_def votes_ok_def DelegateState_prev_def DelegateState_commit_def
        layers.commit_overlay layers.commit_prev layers.wf_prev layers.wf_overlay store_all_prev store_all_commit)
  then show "states_ok as' ds'"
    using assms(1) account_view [of as as'] v by (simp add: states_ok_def same_view_def)
qed

section \<open>The invariant\<close>

definition sound_tx :: "Transaction \<Rightarrow> bool" where
  "sound_tx tx \<longleftrightarrow> length (tx_to tx) = ADDRESS_LENGTH"

text \<open>The run that the pool stands for.\<close>

definition replays :: "PendingEnv \<Rightarrow> Chain \<Rightarrow> PendingTransaction list \<Rightarrow> AccountState \<Rightarrow> DelegateState \<Rightarrow> bool" where
  "replays env ch txs as ds \<longleftrightarrow>
     (\<exists>latest bs es. (txs \<noteq> [] \<longrightarrow> getLatestBlockNumber ch = Inr latest) \<and>
        execute (pe_crypto env) (pe_config env) latest (map pt_transaction txs)
          (AccountState_track (ch_accounts ch)) (DelegateState_track (ch_delegates ch)) =
        Inr (map pt_transactionResult txs, bs, es) \<and> same_view bs es as ds \<and> states_ok bs es)"

definition delayed_ok :: "crypto \<Rightarrow> tx_cache \<Rightarrow> bool" where
  "delayed_ok C c \<longleftrightarrow> (\<forall>(k, tx) \<in> set c. sound_tx tx \<and> Transaction_getFrom C tx \<noteq> None \<and>
     k = createKey (sender C tx) (tx_nonce tx))"

definition pool_inv :: "PendingEnv \<Rightarrow> Chain \<Rightarrow> PendingManager \<Rightarrow> bool" where
  "pool_inv env ch pm \<longleftrightarrow> chain_states_ok ch \<and> pending_states_ok ch pm \<and>
     (\<forall>p \<in> set (pm_transactions pm). sound_tx (pt_transaction p) \<and> tr_success (pt_transactionResult p)) \<and>
     (\<forall>tx \<in> set (pm_queue pm). sound_tx tx) \<and>
     delayed_ok (pe_crypto env) (pm_delayed pm) \<and> length (pm_delayed pm) < 2 ^ 63 \<and>
     replays env ch (pm_transactions pm) (pendingAS ch pm) (pendingDS ch pm)"

text \<open>A cache keeps no entry it was not given, and no more than fit in memory.\<close>

definition evicts_only :: "PendingEnv \<Rightarrow> bool" where
  "evicts_only env \<longleftrightarrow> (\<forall>c. set (pe_evict env c) \<subseteq> set c \<and> length (pe_evict env c) < 2 ^ 63)"

lemma replays_empty:
  assumes "chain_states_ok ch"
  shows "replays env ch [] (AccountState_track (ch_accounts ch)) (DelegateState_track (ch_delegates ch))"
  using assms same_view_track(2) [of "ch_accounts ch" "ch_delegates ch"]
  by (simp add: replays_def chain_states_ok_def same_view_def)

section \<open>One round\<close>

lemma replays_extend:
  assumes C: "ripemd_ok (pe_crypto env)" and r: "replays env ch txs as ds"
    and tos: "\<forall>p \<in> set (txs @ [p]). sound_tx (pt_transaction p)" and latest: "getLatestBlockNumber ch = Inr latest"
    and as: "states_ok as ds" "store_ok as"
    and x: "execute (pe_crypto env) (pe_config env) latest [pt_transaction p] (AccountState_track as) (DelegateState_track ds) =
      Inr ([pt_transactionResult p], as1, ds1)"
    and v: "same_view as1 ds1 as2 ds2"
  shows "replays env ch (txs @ [p]) as2 ds2"
proof -
  obtain l bs es where l: "txs \<noteq> [] \<longrightarrow> getLatestBlockNumber ch = Inr l"
    and run: "execute (pe_crypto env) (pe_config env) l (map pt_transaction txs)
      (AccountState_track (ch_accounts ch)) (DelegateState_track (ch_delegates ch)) = Inr (map pt_transactionResult txs, bs, es)"
    and bv: "same_view bs es as ds" "states_ok bs es"
    using r by (auto simp: replays_def)
  have run': "execute (pe_crypto env) (pe_config env) latest (map pt_transaction txs)
      (AccountState_track (ch_accounts ch)) (DelegateState_track (ch_delegates ch)) = Inr (map pt_transactionResult txs, bs, es)"
    using run l latest by (cases txs) auto
  note tr = same_view_track [OF as]
  have "same_view (AccountState_track as) (DelegateState_track ds) bs es"
    using tr(1) bv(1) by (simp add: same_view_def)
  then obtain bs' es' where "execute (pe_crypto env) (pe_config env) latest [pt_transaction p] bs es =
      Inr ([pt_transactionResult p], bs', es')" "same_view as1 ds1 bs' es'" "states_ok bs' es'"
    using execute_cong [OF C _ tr(2) bv(2) _ x] tos by (auto simp: sound_tx_def)
  then show ?thesis
    using run' latest v unfolding replays_def
    by (intro exI [of _ latest] exI [of _ bs'] exI [of _ es']) (simp add: execute_append same_view_def del: execute.simps)
qed

lemma execute_single:
  "execute C cfg latest [tx] as ds = Inr (rs, as', ds') \<longleftrightarrow> (\<exists>r. rs = [r] \<and> execute_one C cfg latest tx as ds = Inr (r, as', ds'))"
  by (auto simp: rbind_eq_Inr)

lemma execution_committed:
  assumes C: "ripemd_ok (pe_crypto env)" and ps: "states_ok (pendingAS ch pm) (pendingDS ch pm)" "store_ok (pendingAS ch pm)"
    and tx: "sound_tx tx"
    and one: "execute_one (pe_crypto env) cfg latest tx (AccountState_track (pendingAS ch pm))
      (DelegateState_track (pendingDS ch pm)) = Inr (r, as, ds)"
  defines "pas \<equiv> pendingAS ch (commit_pending as ds pm)" and "pds \<equiv> pendingDS ch (commit_pending as ds pm)"
  shows "same_view as ds pas pds" "states_ok pas pds" "store_ok pas"
proof -
  note tr = same_view_track [OF ps]
  have to: "length (tx_to tx) = ADDRESS_LENGTH" using tx by (simp add: sound_tx_def)
  have ov: "store_overlay as" "ds_overlay ds"
    using execute_one_overlay [OF one tr(3,4)] by blast+
  have prev: "store_prev as = pendingAS ch pm" "DelegateState_prev ds = pendingDS ch pm"
    using execute_one_prev [OF one] ps
    by (simp_all add: AccountState_track_def DelegateState_track_def DelegateState_prev_def layers.track_prev
        states_ok_def ds_wf_def delegates_ok_def votes_ok_def)
  show "same_view as ds pas pds" "states_ok pas pds" "store_ok pas"
    unfolding pas_def pds_def commit_pending_states [OF ov(1) prev(1) ov(2) prev(2)]
    using published [OF execute_one_result(3) [OF C tr(2) to one] ov] by blast+
qed

lemma process_due_pool:
  assumes C: "ripemd_ok (pe_crypto env)" and inv: "pool_inv env ch pm" and tx: "sound_tx tx"
    and f: "Transaction_getFrom (pe_crypto env) tx = Some from"
    and x: "process_due env ch tx from relay pm = Inr (r, next, pm')"
  shows "pool_inv env ch pm'" "pm_delayed pm' = pm_delayed pm" "pm_queue pm' = pm_queue pm"
    "tr_success r \<Longrightarrow> pm_getNonce ch from pm' = Inr (tx_nonce tx + 1) \<and>
       next = map_of (pm_delayed pm) (createKey from (tx_nonce tx + 1))"
    "\<not> tr_success r \<Longrightarrow> pm' = pm"
proof -
  have ps: "states_ok (pendingAS ch pm) (pendingDS ch pm)" "store_ok (pendingAS ch pm)"
    using inv by (simp_all add: pool_inv_def pending_states_ok_def)
  note tr = same_view_track [OF ps]
  obtain latest as ds where latest: "getLatestBlockNumber ch = Inr latest"
    and one: "execute_one (pe_crypto env) (pe_config env) latest tx (AccountState_track (pendingAS ch pm))
      (DelegateState_track (pendingDS ch pm)) = Inr (r, as, ds)"
    using x by (auto simp: process_due_def rbind_eq_Inr execute_single Let_def split: if_splits simp del: execute.simps)
  have exec: "execute (pe_crypto env) (pe_config env) latest [tx] (AccountState_track (pendingAS ch pm))
      (DelegateState_track (pendingDS ch pm)) = Inr ([r], as, ds)"
    using one by (simp add: execute_single del: execute.simps)
  have to: "length (tx_to tx) = ADDRESS_LENGTH" using tx by (simp add: sound_tx_def)
  note res = execute_one_result [OF C tr(2) to one]
  have sf: "sender (pe_crypto env) tx = from" using f by (simp add: sender_def)
  let ?pm = "commit_pending as ds pm"
  let ?done = "\<lambda>pm. pm\<lparr>pm_transactions := pm_transactions pm @ [\<lparr>pt_transaction = tx, pt_transactionResult = r\<rparr>],
    pm_relayed := (if relay then pm_relayed pm @ [tx] else pm_relayed pm)\<rparr>"
  have fields: "pm_transactions ?pm = pm_transactions pm" "pm_delayed ?pm = pm_delayed pm" "pm_queue ?pm = pm_queue pm"
    by (simp_all add: commit_pending_def Let_def)
  show failed: "\<not> tr_success r \<Longrightarrow> pm' = pm"
    using x latest exec by (simp add: process_due_def Let_def del: execute.simps)
  have main: "pool_inv env ch pm' \<and> pm_delayed pm' = pm_delayed pm \<and> pm_queue pm' = pm_queue pm \<and>
      pm_getNonce ch from pm' = Inr (tx_nonce tx + 1) \<and> next = map_of (pm_delayed pm) (createKey from (tx_nonce tx + 1))"
    if s: "tr_success r"
  proof -
    note pub = execution_committed [OF C ps tx one]
    define q where "q = ?done ?pm"
    have fq: "pm_transactions q = pm_transactions pm @ [\<lparr>pt_transaction = tx, pt_transactionResult = r\<rparr>]"
      "pm_delayed q = pm_delayed pm" "pm_queue q = pm_queue pm" using fields by (simp_all add: q_def)
    have pd: "pendingAS ch q = pendingAS ch ?pm" "pendingDS ch q = pendingDS ch ?pm"
      using pending_cong [of q ?pm] by (simp_all add: q_def)
    obtain nonce where n: "pm_getNonce ch from q = Inr nonce" "pm' = q"
      "next = map_of (pm_delayed pm) (createKey from nonce)"
      using x latest exec s fields unfolding q_def by (auto simp: process_due_def rbind_eq_Inr Let_def simp del: execute.simps)
    have "acc_nonce (account as from) = tx_nonce tx + 1"
      using nonce_moved [OF C tr(2) to one s] sf by simp
    then have "pm_getNonce ch from q = Inr (tx_nonce tx + 1)"
      using account_view [of as "pendingAS ch ?pm"] pub(1,2) pd(1)
      by (simp add: pm_getNonce_def same_view_def states_ok_def getAccount_ok)
    with n have n': "nonce = tx_nonce tx + 1" "pm_getNonce ch from pm' = Inr (tx_nonce tx + 1)" by simp_all
    have old: "replays env ch (pm_transactions pm) (pendingAS ch pm) (pendingDS ch pm)"
      "\<forall>p \<in> set (pm_transactions pm). sound_tx (pt_transaction p)" using inv by (simp_all add: pool_inv_def)
    have "replays env ch (pm_transactions pm @ [\<lparr>pt_transaction = tx, pt_transactionResult = r\<rparr>])
        (pendingAS ch q) (pendingDS ch q)"
      unfolding pd by (rule replays_extend [OF C old(1) _ latest ps _ pub(1)]) (use old(2) tx exec in auto)
    then have "pool_inv env ch pm'"
      using inv s tx pub(2,3) unfolding n(2) by (auto simp: pool_inv_def pending_states_ok_def pd fq)
    then show ?thesis using n n' fq by simp
  qed
  show "pool_inv env ch pm'" "pm_delayed pm' = pm_delayed pm" "pm_queue pm' = pm_queue pm"
    using main failed inv by (cases "tr_success r"; simp)+
  show "tr_success r \<Longrightarrow> pm_getNonce ch from pm' = Inr (tx_nonce tx + 1) \<and>
       next = map_of (pm_delayed pm) (createKey from (tx_nonce tx + 1))" using main by blast
qed

section \<open>The loop\<close>

lemma createKey_inject:
  "length a = length b \<Longrightarrow> createKey a m = createKey b n \<longleftrightarrow> a = b \<and> m = n"
  by (simp add: createKey_def merge2_def)

text \<open>Some nonce ahead has no delayed transaction: there are too few of them.\<close>

lemma delayed_gap:
  assumes "length c < 2 ^ 63"
  shows "\<exists>k \<le> length c. map_of c (createKey a (n + of_nat (Suc k))) = None"
proof (rule ccontr)
  let ?key = "\<lambda>k. createKey a (n + of_nat (Suc k))"
  assume "\<not> ?thesis"
  then have "?key ` {..length c} \<subseteq> fst ` set c"
    by (auto simp: map_of_eq_None_iff)
  then have "card (?key ` {..length c}) \<le> card (fst ` set c)" by (intro card_mono) simp_all
  also have "\<dots> \<le> length c" using card_image_le [of "set c" fst] card_length [of c] by simp
  finally have "card (?key ` {..length c}) \<le> length c" .
  moreover have "inj_on ?key {..length c}"
  proof (rule inj_onI)
    fix i j
    assume ij: "i \<in> {..length c}" "j \<in> {..length c}" "?key i = ?key j"
    then have "(of_nat (Suc i) :: jlong) = of_nat (Suc j)" by (simp add: createKey_inject del: of_nat_Suc)
    then have "unat (of_nat (Suc i) :: jlong) = unat (of_nat (Suc j) :: jlong)" by simp
    then have "Suc i mod 2 ^ 64 = Suc j mod 2 ^ 64" unfolding unat_of_nat by (simp add: take_bit_eq_mod)
    moreover have "Suc i < 2 ^ 64" "Suc j < 2 ^ 64" using ij(1,2) assms by auto
    ultimately show "i = j" by simp
  qed
  ultimately show False by (simp add: card_image)
qed

lemma process_end_pool:
  assumes "pool_inv env ch pm" "evicts_only env" "\<And>t. tx = Some t \<Longrightarrow> sound_tx t"
    and x: "process_end env ch tx cnt pm = (r, pm')"
  shows "pool_inv env ch pm' \<and> pm_queue pm' = pm_queue pm"
proof (cases "pm' = pm")
  case False
  then obtain t f where t: "tx = Some t" "Transaction_getFrom (pe_crypto env) t = Some f"
    "pm' = pm\<lparr>pm_delayed := pe_evict env (AList.update (createKey f (tx_nonce t)) t (pm_delayed pm))\<rparr>"
    using x by (auto simp: process_end_def rmap_eq_Inr rbind_eq_Inr split: option.splits sum.splits if_splits)
  let ?new = "AList.update (createKey f (tx_nonce t)) t (pm_delayed pm)"
  have old: "delayed_ok (pe_crypto env) (pm_delayed pm)" using assms(1) by (simp add: pool_inv_def)
  have new: "set ?new \<subseteq> insert (createKey f (tx_nonce t), t) (set (pm_delayed pm))"
    by (rule set_update_subset)
  have "sender (pe_crypto env) t = f" using t(2) by (simp add: sender_def)
  then have "\<forall>(k, tx) \<in> set ?new. sound_tx tx \<and> Transaction_getFrom (pe_crypto env) tx \<noteq> None \<and>
      k = createKey (sender (pe_crypto env) tx) (tx_nonce tx)"
    using old new assms(3) [OF t(1)] t(2) unfolding delayed_ok_def by blast
  moreover have "set (pe_evict env ?new) \<subseteq> set ?new" "length (pe_evict env ?new) < 2 ^ 63"
    using assms(2) by (simp_all add: evicts_only_def)
  ultimately have "delayed_ok (pe_crypto env) (pm_delayed pm') \<and> length (pm_delayed pm') < 2 ^ 63"
    unfolding t(3) delayed_ok_def by auto
  then show ?thesis
    using assms(1) pending_cong [of pm' pm] t(3) by (simp add: pool_inv_def pending_states_ok_def)
qed (use assms(1) in simp)

lemma loop_round:
  assumes C: "ripemd_ok (pe_crypto env)" and ev: "evicts_only env" and inv: "pool_inv env ch pm" and t: "sound_tx t"
    and rest: "\<And>t' pm' cnt'. Transaction_getFrom (pe_crypto env) t \<noteq> None \<Longrightarrow>
      map_of (pm_delayed pm) (createKey (sender (pe_crypto env) t) (tx_nonce t + 1)) = Some t' \<Longrightarrow>
      pool_inv env ch pm' \<Longrightarrow> pm_delayed pm' = pm_delayed pm \<Longrightarrow> pm_queue pm' = pm_queue pm \<Longrightarrow>
      \<exists>r q. process_loop env ch (Some t') relay cnt' pm' = Some (r, q) \<and> pool_inv env ch q \<and> pm_queue q = pm_queue pm"
  shows "\<exists>r q. process_loop env ch (Some t) relay cnt pm = Some (r, q) \<and> pool_inv env ch q \<and> pm_queue q = pm_queue pm"
proof -
  have fin: "\<exists>r q. Some (process_end env ch tx n q0) = Some (r, q) \<and> pool_inv env ch q \<and> pm_queue q = pm_queue pm"
    if "pool_inv env ch q0" "pm_queue q0 = pm_queue pm" "\<And>u. tx = Some u \<Longrightarrow> sound_tx u" for tx n q0
    using process_end_pool [OF that(1) ev that(3)] that(2) by (cases "process_end env ch tx n q0") fastforce
  show ?thesis
  proof (cases "Transaction_getFrom (pe_crypto env) t")
    case None
    then show ?thesis using inv by (subst process_loop.simps) simp
  next
    case (Some f)
    then have sf: "sender (pe_crypto env) t = f" by (simp add: sender_def)
    show ?thesis
    proof (cases "pm_getNonce ch f pm")
      case (Inl e)
      then show ?thesis using inv Some by (subst process_loop.simps) simp
    next
      case (Inr nonce)
      show ?thesis
      proof (cases "tx_nonce t = nonce")
        case False
        then show ?thesis using fin [OF inv refl, of "Some t" cnt] t Some Inr by (subst process_loop.simps) simp
      next
        case due: True
        show ?thesis
        proof (cases "process_due env ch t f relay pm")
          case (Inl e)
          then show ?thesis using inv Some Inr due by (subst process_loop.simps) simp
        next
          case (Inr res)
          obtain r u q where res: "process_due env ch t f relay pm = Inr (r, u, q)" using Inr by (cases res) auto
          note step = process_due_pool [OF C inv t Some res]
          have loop: "process_loop env ch (Some t) relay cnt pm =
              (if tr_success r then process_loop env ch u relay (cnt + 1) q
               else Some (Inr (rejected_result cnt (tr_error r)), q))"
            using Some \<open>pm_getNonce ch f pm = Inr nonce\<close> due res by (subst process_loop.simps) simp
          show ?thesis
          proof (cases "tr_success r \<and> u \<noteq> None")
            case True
            then obtain t' where "u = Some t'" by auto
            then show ?thesis using rest [OF _ _ step(1-3)] Some step(4) True sf unfolding loop by simp
          next
            case False
            then show ?thesis
              using step(1,3) fin [OF step(1,3), of None "cnt + 1"] unfolding loop
              by (cases u) (simp_all add: process_loop.simps [of _ _ None])
          qed
        qed
      qed
    qed
  qed
qed

lemma process_loop_pool:
  assumes C: "ripemd_ok (pe_crypto env)" and ev: "evicts_only env"
    and "pool_inv env ch pm" "sound_tx t"
    and "map_of (pm_delayed pm) (createKey (sender (pe_crypto env) t) (tx_nonce t + of_nat (Suc k))) = None"
  shows "\<exists>r q. process_loop env ch (Some t) relay cnt pm = Some (r, q) \<and> pool_inv env ch q \<and> pm_queue q = pm_queue pm"
  using assms(3-)
proof (induction k arbitrary: t cnt pm)
  case 0
  show ?case by (rule loop_round [OF C ev 0(1,2)]) (use 0(3) in simp)
next
  case (Suc k)
  show ?case
  proof (rule loop_round [OF C ev Suc.prems(1,2)])
    fix t' q cnt'
    assume f: "Transaction_getFrom (pe_crypto env) t \<noteq> None"
      and t': "map_of (pm_delayed pm) (createKey (sender (pe_crypto env) t) (tx_nonce t + 1)) = Some t'"
      and q: "pool_inv env ch q" "pm_delayed q = pm_delayed pm" "pm_queue q = pm_queue pm"
    have d: "sound_tx t'" "Transaction_getFrom (pe_crypto env) t' \<noteq> None"
      "createKey (sender (pe_crypto env) t) (tx_nonce t + 1) = createKey (sender (pe_crypto env) t') (tx_nonce t')"
      using map_of_SomeD [OF t'] Suc.prems(1) by (auto simp: pool_inv_def delayed_ok_def)
    show "\<exists>r p. process_loop env ch (Some t') relay cnt' q = Some (r, p) \<and> pool_inv env ch p \<and> pm_queue p = pm_queue pm"
    proof -
      have "length (sender (pe_crypto env) t) = length (sender (pe_crypto env) t')"
        using f d(2) sender_length [OF C] by (auto simp: sender_def)
      then have n: "sender (pe_crypto env) t' = sender (pe_crypto env) t" "tx_nonce t' = tx_nonce t + 1"
        using d(3) createKey_inject by metis+
      then show ?thesis
        using Suc.IH [OF q(1) d(1), of cnt'] Suc.prems(3) q(2,3) by (simp add: add.assoc)
    qed
  qed
qed

section \<open>An unvote of nothing\<close>

text \<open>It makes the executor throw on a tracked copy as well.\<close>

lemma void_unvote_tracked:
  assumes ok: "states_ok as ds" "store_ok as" and f: "Transaction_getFrom C tx = Some from" and v: "void_unvote cfg tx from as ds"
  shows "execute_one C cfg latest tx (AccountState_track as) (DelegateState_track ds) = Inl NullPointer"
proof -
  note tr = same_view_track [OF ok]
  have "void_unvote cfg tx from (AccountState_track as) (DelegateState_track ds)"
    using v account_view [of "AccountState_track as" as] ds_view_facts [of "DelegateState_track ds" ds] tr(1)
    by (simp add: void_unvote_def same_view_def)
  from void_unvote_one [OF tr(2) f this] show ?thesis .
qed

section \<open>A transaction that is due\<close>

lemma validate_sound: "Transaction_validate C network tx \<Longrightarrow> sound_tx tx"
  by (simp add: Transaction_validate_def sound_tx_def ADDRESS_LEN_def ADDRESS_LENGTH_def)

definition timely :: "PendingEnv \<Rightarrow> jlong \<Rightarrow> Transaction \<Rightarrow> bool" where
  "timely env now tx \<longleftrightarrow>
     sint (now - cf_maxTransactionTimeDrift (pe_config env)) \<le> sint (tx_timestamp tx) \<and>
     sint (tx_timestamp tx) \<le> sint (now + cf_maxTransactionTimeDrift (pe_config env))"

lemma due_accepted:
  assumes C: "ripemd_ok (pe_crypto env)" and inv: "pool_inv env ch pm"
    and valid: "Transaction_validate (pe_crypto env) (cf_network (pe_config env)) tx"
    and new: "\<not> hasTransaction (tx_hash tx) ch" "timely env now tx"
    and f: "Transaction_getFrom (pe_crypto env) tx = Some f" and due: "acc_nonce (account (pendingAS ch pm) f) = tx_nonce tx"
    and latest: "getLatestBlockNumber ch = Inr latest"
    and x: "execute_one (pe_crypto env) (pe_config env) latest tx (pendingAS ch pm) (pendingDS ch pm) = Inr (r, as, ds)"
    and s: "tr_success r" and free: "map_of (pm_delayed pm) (createKey f (tx_nonce tx + 1)) = None"
  shows "\<exists>pm'. addTransactionSync env now ch tx pm = Some (Inr (accepted_result 1), pm') \<and>
    pm_transactions pm' = pm_transactions pm @ [\<lparr>pt_transaction = tx, pt_transactionResult = r\<rparr>]"
proof -
  have tx: "sound_tx tx" using valid by (rule validate_sound)
  have ps: "states_ok (pendingAS ch pm) (pendingDS ch pm)" "store_ok (pendingAS ch pm)"
    using inv by (simp_all add: pool_inv_def pending_states_ok_def)
  note tr = same_view_track [OF ps]
  have wf: "ds_wf (pendingDS ch pm)" "ds_wf (DelegateState_track (pendingDS ch pm))"
    using ps(1) tr(2) by (simp_all add: states_ok_def)
  have nonce: "pm_getNonce ch f pm = Inr (tx_nonce tx)"
    using ps(1) due by (simp add: pm_getNonce_def states_ok_def getAccount_ok)
  have "same_view (pendingAS ch pm) (pendingDS ch pm) (AccountState_track (pendingAS ch pm)) (DelegateState_track (pendingDS ch pm))"
    using tr(1) by (simp add: same_view_def)
  from execute_one_cong [OF this wf C, of "pe_config env" latest tx] x
  obtain as1 ds1 where one: "execute_one (pe_crypto env) (pe_config env) latest tx (AccountState_track (pendingAS ch pm))
      (DelegateState_track (pendingDS ch pm)) = Inr (r, as1, ds1)"
    by (auto simp: rel_sum.simps)
  let ?pm = "commit_pending as1 ds1 pm"
  let ?q = "?pm\<lparr>pm_transactions := pm_transactions ?pm @ [\<lparr>pt_transaction = tx, pt_transactionResult = r\<rparr>],
    pm_relayed := pm_relayed ?pm @ [tx]\<rparr>"
  note com = execution_committed [OF C ps tx one]
  have "pendingAS ch ?q = pendingAS ch ?pm" by (rule pending_cong) simp
  then have "pm_getNonce ch f ?q = Inr (acc_nonce (account (pendingAS ch ?pm) f))"
    using com(2) by (simp add: pm_getNonce_def states_ok_def getAccount_ok)
  then obtain u q where due': "process_due env ch tx f True pm = Inr (r, u, q)" "q = ?q"
    using one s latest by (simp add: process_due_def Let_def)
  have "u = None" using process_due_pool(4) [OF C inv tx f due'(1) s] free by simp
  then have "process_loop env ch (Some tx) True 0 pm = Some (Inr (accepted_result 1), q)"
    using f nonce due'(1) s by (subst process_loop.simps) (simp add: process_loop.simps [of _ _ None] process_end_def)
  moreover have "pm_transactions q = pm_transactions pm @ [\<lparr>pt_transaction = tx, pt_transactionResult = r\<rparr>]"
    unfolding due'(2) by (simp add: commit_pending_def Let_def)
  ultimately show ?thesis
    using valid new by (simp add: addTransactionSync_def processTransaction_def timely_def not_less)
qed

section \<open>The operations\<close>

text \<open>An operation on the pool returns, and keeps the invariant.\<close>

definition pool_returns :: "PendingEnv \<Rightarrow> Chain \<Rightarrow> ('a res \<times> PendingManager) option \<Rightarrow> bool" where
  "pool_returns env ch m \<longleftrightarrow> (\<exists>r pm. m = Some (r, pm) \<and> pool_inv env ch pm)"

lemma processTransaction_pool:
  assumes C: "ripemd_ok (pe_crypto env)" and ev: "evicts_only env" and inv: "pool_inv env ch pm" and tx: "sound_tx tx"
  shows "\<exists>r q. processTransaction env now ch tx relay pm = Some (r, q) \<and> pool_inv env ch q \<and> pm_queue q = pm_queue pm"
proof -
  have "length (pm_delayed pm) < 2 ^ 63" using inv by (simp add: pool_inv_def)
  from delayed_gap [OF this] obtain k where
    "map_of (pm_delayed pm) (createKey (sender (pe_crypto env) tx) (tx_nonce tx + of_nat (Suc k))) = None" by blast
  from process_loop_pool [OF C ev inv tx this] show ?thesis using inv by (simp add: processTransaction_def)
qed

lemma addTransaction_pool: "pool_inv env ch pm \<Longrightarrow> pool_inv env ch (pm_addTransaction env tx pm)"
  using pending_cong [of "pm_addTransaction env tx pm" pm]
  by (auto simp: pool_inv_def pending_states_ok_def pm_addTransaction_def dest: validate_sound)

lemma addTransactionSync_pool:
  assumes "ripemd_ok (pe_crypto env)" "evicts_only env" "pool_inv env ch pm"
  shows "pool_returns env ch (addTransactionSync env now ch tx pm)"
  using processTransaction_pool [OF assms validate_sound] assms(3)
  by (fastforce simp: addTransactionSync_def pool_returns_def)

lemma reprocess_pool:
  assumes "ripemd_ok (pe_crypto env)" "evicts_only env"
  shows "pool_inv env ch pm \<Longrightarrow> \<forall>p \<in> set txs. sound_tx (pt_transaction p) \<Longrightarrow> pool_returns env ch (reprocess env now ch txs pm)"
proof (induction txs arbitrary: pm)
  case (Cons p txs)
  obtain r q where "processTransaction env now ch (pt_transaction p) False pm = Some (r, q)" "pool_inv env ch q"
    using processTransaction_pool [OF assms Cons.prems(1)] Cons.prems(2) by fastforce
  then show ?case using Cons by (cases r) (auto simp: pool_returns_def)
qed (simp add: pool_returns_def)

lemma empty_pool:
  assumes "chain_states_ok ch" "pm_AS pm = []" "pm_DS pm = ([], [])" "pm_transactions pm = []"
    and "\<forall>tx \<in> set (pm_queue pm). sound_tx tx" "delayed_ok (pe_crypto env) (pm_delayed pm)" "length (pm_delayed pm) < 2 ^ 63"
  shows "pool_inv env ch pm"
proof -
  have ch: "states_ok (ch_accounts ch) (ch_delegates ch)" "store_ok (ch_accounts ch)"
    using assms(1) by (simp_all add: chain_states_ok_def)
  note pend = pending_empty(1) [OF assms(2), of ch] pending_empty(2) [OF assms(3), of ch]
  have "pending_states_ok ch pm"
    unfolding pending_states_ok_def pend using same_view_track [OF ch] by (simp add: layers.wf_overlay)
  then show ?thesis
    using assms(1,4-) replays_empty [OF assms(1)] unfolding pool_inv_def pend by simp
qed

lemma reset_pool:
  "pool_inv env ch pm \<Longrightarrow> chain_states_ok ch' \<Longrightarrow> pool_inv env ch' (snd (pm_reset pm))"
  by (rule empty_pool) (simp_all add: pm_reset_def pool_inv_def)

lemma onBlockAdded_pool:
  assumes "ripemd_ok (pe_crypto env)" "evicts_only env" "pool_inv env ch pm" "chain_states_ok ch'" "pm_isRunning pm"
  shows "pool_returns env ch' (pm_onBlockAdded env now ch' pm)"
proof -
  obtain txs q where r: "pm_reset pm = (txs, q)" by force
  have "\<forall>p \<in> set txs. sound_tx (pt_transaction p)" using assms(3) r by (auto simp: pm_reset_def pool_inv_def)
  moreover have "pool_inv env ch' q" using reset_pool [OF assms(3,4)] r by simp
  ultimately show ?thesis
    using reprocess_pool [OF assms(1,2)] r assms(5) by (simp add: pm_onBlockAdded_def)
qed

lemma queue_pool: "pool_inv env ch pm \<Longrightarrow> \<forall>tx \<in> set q. sound_tx tx \<Longrightarrow> pool_inv env ch (pm\<lparr>pm_queue := q\<rparr>)"
  using pending_cong [of "pm\<lparr>pm_queue := q\<rparr>" pm] by (simp add: pool_inv_def pending_states_ok_def)

lemma run_queue_pool:
  assumes "ripemd_ok (pe_crypto env)" "evicts_only env"
  shows "pool_inv env ch pm \<Longrightarrow> \<forall>tx \<in> set q. sound_tx tx \<Longrightarrow> pool_returns env ch (run_queue env now ch q pm)"
proof (induction q arbitrary: pm)
  case Nil
  then show ?case using queue_pool [of env ch pm "[]"] by (simp add: pool_returns_def)
next
  case (Cons tx q)
  obtain r p where p: "processTransaction env now ch tx True (pm\<lparr>pm_queue := q\<rparr>) = Some (r, p)" "pool_inv env ch p"
    using processTransaction_pool [OF assms queue_pool [OF Cons.prems(1)]] Cons.prems(2) by fastforce
  have "pool_inv env ch (p\<lparr>pm_processed := c\<rparr>)" for c
    using p(2) pending_cong [of "p\<lparr>pm_processed := c\<rparr>" p] by (simp add: pool_inv_def pending_states_ok_def)
  then show ?case
    using Cons.IH Cons.prems p queue_pool [OF Cons.prems(1), of "tx # q"]
    by (cases r) (auto simp: pool_returns_def Let_def)
qed

lemma run_pool:
  "ripemd_ok (pe_crypto env) \<Longrightarrow> evicts_only env \<Longrightarrow> pool_inv env ch pm \<Longrightarrow> pool_returns env ch (pm_run env now ch pm)"
  unfolding pm_run_def by (rule run_queue_pool) (auto simp: pool_inv_def)

section \<open>Reachable pools\<close>

text \<open>
  A manager that is started on a chain and then receives transactions, runs its worker, and hears of new blocks; a new
  block may leave the chain in any state whose objects are well formed.
\<close>

definition pool_init :: "Chain \<times> PendingManager \<Rightarrow> bool" where
  "pool_init s \<longleftrightarrow> chain_states_ok (fst s) \<and> snd s = PendingManager_new\<lparr>pm_isRunning := True\<rparr>"

inductive pool_step :: "PendingEnv \<Rightarrow> Chain \<times> PendingManager \<Rightarrow> Chain \<times> PendingManager \<Rightarrow> bool" for env :: PendingEnv where
  pool_add: "pool_step env (ch, pm) (ch, pm_addTransaction env tx pm)"
| pool_sync: "addTransactionSync env now ch tx pm = Some (r, pm') \<Longrightarrow> pool_step env (ch, pm) (ch, pm')"
| pool_run: "pm_run env now ch pm = Some (r, pm') \<Longrightarrow> pool_step env (ch, pm) (ch, pm')"
| pool_block: "pm_isRunning pm \<Longrightarrow> chain_states_ok ch' \<Longrightarrow> pm_onBlockAdded env now ch' pm = Some (r, pm') \<Longrightarrow>
    pool_step env (ch, pm) (ch', pm')"

definition pool_env_ok :: "PendingEnv \<Rightarrow> bool" where
  "pool_env_ok env \<longleftrightarrow> ripemd_ok (pe_crypto env) \<and> evicts_only env"

interpretation pools: inductive_invariant "\<lambda>s. pool_env_ok env \<and> pool_init s" "pool_step env"
  "\<lambda>s. pool_env_ok env \<and> pool_inv env (fst s) (snd s)" for env
proof (unfold_locales, goal_cases)
  case (1 s)
  then show ?case
    using empty_pool [of "fst s" "snd s" env] by (simp add: pool_init_def PendingManager_new_def delayed_ok_def)
next
  case (2 s t)
  then have env: "ripemd_ok (pe_crypto env)" "evicts_only env" "pool_inv env (fst s) (snd s)"
    by (simp_all add: pool_env_ok_def)
  note ops = addTransactionSync_pool [OF env] run_pool [OF env] onBlockAdded_pool [OF env]
  from 2(2) have "pool_inv env (fst t) (snd t)"
  proof cases
    case (pool_add ch pm tx)
    then show ?thesis using addTransaction_pool env(3) by simp
  next
    case (pool_sync now ch tx pm r pm')
    then show ?thesis using ops(1) [of now tx] by (simp add: pool_returns_def)
  next
    case (pool_run now ch pm r pm')
    then show ?thesis using ops(2) [of now] by (simp add: pool_returns_def)
  next
    case (pool_block pm ch' now r pm' ch)
    then show ?thesis using ops(3) [of ch' now] by (simp add: pool_returns_def)
  qed
  with 2 show ?case by simp
qed

end
