(* ===== verification/PoolProps.thy ===== *)
theory PoolProps
  imports Pool SampleLedger
begin

text \<open>
  The properties of the pending manager: the pool replays, its operations return, and the transaction that
  makes the executor throw stops the worker. The sample chain has the accounts of \<open>SampleLedger\<close>.
\<close>

section \<open>A sample pool\<close>

definition sample_pool_env :: PendingEnv where
  "sample_pool_env = \<lparr>pe_crypto = plain_crypto, pe_config = sample_config, pe_evict = take (32 * 1024)\<rparr>"

definition sample_pool_chain :: Chain where
  "sample_pool_chain = empty_chain\<lparr>ch_accounts := sample_accounts, ch_delegates := sample_registry,
     ch_latest := Some sample_genesis_block\<rparr>"

definition sample_pool0 :: PendingManager where
  "sample_pool0 = PendingManager_new\<lparr>pm_isRunning := True\<rparr>"

lemma sample_pool_env_ok: "pool_env_ok sample_pool_env"
  using plain_crypto_ok by (auto simp: pool_env_ok_def sample_pool_env_def evicts_only_def dest: in_set_takeD)

lemma sample_pool_init: "pool_init (sample_pool_chain, sample_pool0)"
  using sample_states sample_books(2)
  by (simp add: pool_init_def chain_states_ok_def sample_pool_chain_def sample_pool0_def)

abbreviation pool_reach :: "PendingEnv \<Rightarrow> Chain \<times> PendingManager \<Rightarrow> bool" where
  "pool_reach env \<equiv> reach (\<lambda>s. pool_env_ok env \<and> pool_init s) (pool_step env)"

lemma sample_pool_reach0: "pool_reach sample_pool_env (sample_pool_chain, sample_pool0)"
  by (intro reach_init conjI sample_pool_env_ok sample_pool_init)

lemmas pool_reach_inv = pools.inv_reach [simplified fst_conv snd_conv]

lemma sample_pool_pending:
  "pendingAS sample_pool_chain sample_pool0 = AccountState_track sample_accounts"
  "pendingDS sample_pool_chain sample_pool0 = DelegateState_track sample_registry"
  by (simp_all add: pending_empty sample_pool0_def PendingManager_new_def sample_pool_chain_def)

lemma sample_pool_view:
  "same_view sample_accounts sample_registry (AccountState_track sample_accounts) (DelegateState_track sample_registry)"
  "states_ok (AccountState_track sample_accounts) (DelegateState_track sample_registry)"
  using same_view_track [OF sample_states sample_books(2)] by (simp_all add: same_view_def)

lemma sample_pool_selectors:
  "pe_crypto sample_pool_env = plain_crypto" "pe_config sample_pool_env = sample_config"
  "ch_accounts sample_pool_chain = sample_accounts" "ch_delegates sample_pool_chain = sample_registry"
  by (simp_all add: sample_pool_env_def sample_pool_chain_def)

lemma sample_pool_config: "cf_network sample_config = DEVNET" "cf_maxTransactionTimeDrift sample_config = 7200000"
  by code_simp+

lemma sample_pool_latest: "getLatestBlockNumber sample_pool_chain = Inr 0"
  by (simp add: sample_pool_chain_def getLatestBlockNumber_def) code_simp

lemma sample_timely: "tx_timestamp tx = 9 \<Longrightarrow> timely sample_pool_env 9 tx"
  by (simp add: timely_def sample_pool_selectors sample_pool_config)

lemma sample_register_valid: "Transaction_validate plain_crypto DEVNET sample_register"
  by code_simp

lemma sample_register_facts:
  "Transaction_getFrom plain_crypto sample_register = Some alice" "tx_nonce sample_register = 0"
  "tx_timestamp sample_register = 9" "tx_timestamp sample_void = 9"
  by code_simp+

lemma sample_pool_new:
  "\<not> hasTransaction (tx_hash sample_register) sample_pool_chain" "\<not> hasTransaction (tx_hash sample_void) sample_pool_chain"
  by code_simp+

text \<open>The registration of alice enters the pool.\<close>

lemma sample_pool_accepts:
  "\<exists>pm. addTransactionSync sample_pool_env 9 sample_pool_chain sample_register sample_pool0 = Some (Inr (accepted_result 1), pm) \<and>
     map pt_transaction (pm_transactions pm) = [sample_register]"
proof -
  have inv: "pool_inv sample_pool_env sample_pool_chain sample_pool0"
    using pool_reach_inv [OF sample_pool_reach0] by simp
  have "account (AccountState_track sample_accounts) = account sample_accounts"
    using account_view [of "AccountState_track sample_accounts" sample_accounts] sample_pool_view(1) by (simp add: same_view_def)
  then have due: "acc_nonce (account (pendingAS sample_pool_chain sample_pool0) alice) = tx_nonce sample_register"
    using sample_alice(1) sample_register_facts(2) by (simp add: sample_pool_pending)
  obtain as ds where one: "execute_one plain_crypto sample_config 0 sample_register sample_accounts sample_registry =
      Inr (tx_succeeded, as, ds)" using sample_register_succeeds by blast
  have wf: "ds_wf sample_registry" "ds_wf (DelegateState_track sample_registry)"
    using sample_states sample_pool_view(2) by (simp_all add: states_ok_def)
  obtain as' ds' where "execute_one plain_crypto sample_config 0 sample_register
      (pendingAS sample_pool_chain sample_pool0) (pendingDS sample_pool_chain sample_pool0) = Inr (tx_succeeded, as', ds')"
    using execute_one_cong [OF sample_pool_view(1) wf plain_crypto_ok(2), of sample_config 0 sample_register] one
    unfolding sample_pool_pending by (auto simp: rel_sum.simps)
  from due_accepted [OF _ inv, unfolded sample_pool_selectors sample_pool_config, OF plain_crypto_ok(2) sample_register_valid
      sample_pool_new(1) sample_timely [OF sample_register_facts(3)] sample_register_facts(1) due sample_pool_latest this]
  show ?thesis
    by (auto simp: tx_succeeded_def TransactionResult_new_def sample_pool0_def PendingManager_new_def)
qed

section \<open>The pool\<close>

lemma take_pending_prefix: "take_pending txs sz limit = Inr ps \<Longrightarrow> \<exists>rest. txs = ps @ rest"
  by (induction txs sz limit arbitrary: ps rule: take_pending.induct)
    (auto simp: rbind_eq_Inr rmap_eq_Inr Let_def split: if_splits)

lemma replays_prefix:
  assumes "replays env ch (ps @ rest) as ds" "getLatestBlockNumber ch = Inr latest" 
  shows "\<exists>as ds. execute (pe_crypto env) (pe_config env) latest (map pt_transaction ps)
     (AccountState_track (ch_accounts ch)) (DelegateState_track (ch_delegates ch)) =
     Inr (map pt_transactionResult ps, as, ds)"
proof (cases ps)
  case (Cons p qs)
  then obtain bs es where x: "execute (pe_crypto env) (pe_config env) latest (map pt_transaction ps @ map pt_transaction rest)
      (AccountState_track (ch_accounts ch)) (DelegateState_track (ch_delegates ch)) =
      Inr (map pt_transactionResult ps @ map pt_transactionResult rest, bs, es)"
    using assms by (auto simp: replays_def simp del: execute.simps)
  obtain r1 r2 a d where s: "execute (pe_crypto env) (pe_config env) latest (map pt_transaction ps)
      (AccountState_track (ch_accounts ch)) (DelegateState_track (ch_delegates ch)) = Inr (r1, a, d)"
    "map pt_transactionResult ps @ map pt_transactionResult rest = r1 @ r2"
    by (rule execute_split [OF x])
  then have "r1 = map pt_transactionResult ps" using execute_length [OF s(1)] by simp
  with s show ?thesis by blast
qed simp

text \<open>
  C23. What the pool hands out for a block is right: in every reachable state of a running manager the
  pending transactions, run in order on tracked copies of the chain's state objects, all succeed, with
  exactly the results recorded in the pool. So a block proposed from them passes its own validation.
\<close>

theorem pending_pool_replays:
  assumes "pool_reach env (ch, pm)" "getPendingTransactions limit pm = Inr ps" "getLatestBlockNumber ch = Inr latest"
  shows "\<exists>as ds. execute (pe_crypto env) (pe_config env) latest (map pt_transaction ps)
     (AccountState_track (ch_accounts ch)) (DelegateState_track (ch_delegates ch)) =
     Inr (map pt_transactionResult ps, as, ds) \<and> (\<forall>p \<in> set ps. tr_success (pt_transactionResult p))"
proof -
  have inv: "pool_inv env ch pm" using pool_reach_inv [OF assms(1)] by simp
  have "take_pending (pm_transactions pm) 0 limit = Inr ps"
    using assms(2) by (simp add: getPendingTransactions_def split: if_splits)
  from take_pending_prefix [OF this] obtain rest where p: "pm_transactions pm = ps @ rest" by blast
  show ?thesis using inv replays_prefix [OF _ assms(3)] p by (auto simp: pool_inv_def)
qed

theorem pending_pool_replays_witness:
  "\<exists>(pm :: PendingManager) as ds r. map pt_transaction (pm_transactions pm) = [sample_register] \<and>
     execute plain_crypto sample_config 0 [sample_register] (AccountState_track sample_accounts)
       (DelegateState_track sample_registry) = Inr ([r], as, ds) \<and> tr_success r"
proof -
  obtain pm where pm: "addTransactionSync sample_pool_env 9 sample_pool_chain sample_register sample_pool0 =
      Some (Inr (accepted_result 1), pm)" "map pt_transaction (pm_transactions pm) = [sample_register]"
    by (rule exE [OF sample_pool_accepts], elim conjE, rule that)
  obtain p where p: "pm_transactions pm = [p]" "pt_transaction p = sample_register" using pm(2) by auto
  have "(case Transaction_size sample_register of Inr n \<Rightarrow> n < 1000 | Inl _ \<Rightarrow> False)" by code_simp
  then obtain n where n: "Transaction_size sample_register = Inr n" "n < 1000" by (auto split: sum.splits)
  then have "sint (of_nat n :: jint) = int n" by (intro sint_of_nat_jint) simp
  then have got: "getPendingTransactions 1000 pm = Inr [p]" using n p by (simp add: getPendingTransactions_def)
  note step = reach_step [OF sample_pool_reach0 pool_sync [OF pm(1)]]
  obtain as ds where "execute (pe_crypto sample_pool_env) (pe_config sample_pool_env) 0 (map pt_transaction [p])
      (AccountState_track (ch_accounts sample_pool_chain)) (DelegateState_track (ch_delegates sample_pool_chain)) =
      Inr (map pt_transactionResult [p], as, ds)" "\<forall>p \<in> set [p]. tr_success (pt_transactionResult p)"
    using pending_pool_replays [OF step got sample_pool_latest] by (elim exE conjE)
  then have "execute plain_crypto sample_config 0 [sample_register] (AccountState_track sample_accounts)
       (DelegateState_track sample_registry) = Inr ([pt_transactionResult p], as, ds)" "tr_success (pt_transactionResult p)"
    using p(2) by (simp_all add: sample_pool_env_def sample_pool_chain_def del: execute.simps)
  with pm(2) show ?thesis by (intro exI conjI)
qed

text \<open>
  C24. Every operation of a running manager returns, although a transaction that is accepted makes the
  loop look for the next one of its sender among the delayed ones: adding a transaction, the worker,
  and the evaluation of the pool after a block.
\<close>

theorem pending_operations_return:
  assumes "pool_reach env (ch, pm)"
  shows "addTransactionSync env now ch tx pm \<noteq> None \<and> pm_run env now ch pm \<noteq> None \<and>
    (pm_isRunning pm \<longrightarrow> chain_states_ok ch' \<longrightarrow> pm_onBlockAdded env now ch' pm \<noteq> None)"
proof -
  have inv: "ripemd_ok (pe_crypto env)" "evicts_only env" "pool_inv env ch pm"
    using pool_reach_inv [OF assms] by (simp_all add: pool_env_ok_def)
  show ?thesis
    using addTransactionSync_pool [OF inv, of now tx] run_pool [OF inv, of now] onBlockAdded_pool [OF inv, of ch' now]
    by (auto simp: pool_returns_def)
qed

theorem pending_operations_return_witness:
  "\<exists>r pm. addTransactionSync sample_pool_env 9 sample_pool_chain sample_send sample_pool0 = Some (r, pm)"
  using pending_operations_return [OF sample_pool_reach0, of 9 sample_send] by auto

text \<open>
  C25. A valid unvote of nothing for an address that is no delegate, once it is at the head of the queue,
  makes the worker end with a null pointer exception. The worker is scheduled at a fixed rate, and the
  scheduler of the standard library runs a task that has thrown no more.
\<close>

theorem void_unvote_stops_worker:
  assumes "pool_reach env (ch, pm)" "pm_queue pm = tx # q" "length (pm_transactions pm) < TRANSACTIONS_MAX_SIZE"
    and "map_of (pm_processed pm) (tx_hash tx) = None" "\<not> hasTransaction (tx_hash tx) ch" "timely env now tx"
    and "Transaction_getFrom (pe_crypto env) tx = Some from" "getLatestBlockNumber ch = Inr latest"
    and "void_unvote (pe_config env) tx from (pendingAS ch pm) (pendingDS ch pm)"
  shows "\<exists>pm'. pm_run env now ch pm = Some (Inl NullPointer, pm')"
proof -
  let ?pm = "pm\<lparr>pm_queue := q\<rparr>"
  have ps: "states_ok (pendingAS ch pm) (pendingDS ch pm)" "store_ok (pendingAS ch pm)"
    using pool_reach_inv [OF assms(1)] by (simp_all add: pool_inv_def pending_states_ok_def)
  have same: "pendingAS ch ?pm = pendingAS ch pm" "pendingDS ch ?pm = pendingDS ch pm"
    by (rule pending_cong; simp)+
  from void_unvote_tracked [OF ps assms(7,9)]
  have "process_due env ch tx from True ?pm = Inl NullPointer"
    using assms(8) same by (simp add: process_due_def)
  moreover have "pm_getNonce ch from ?pm = Inr (tx_nonce tx)"
    using ps(1) assms(9) same by (simp add: pm_getNonce_def states_ok_def getAccount_ok void_unvote_def)
  ultimately have "process_loop env ch (Some tx) True 0 ?pm = Some (Inl NullPointer, ?pm)"
    using assms(7) by (subst process_loop.simps) simp
  then show ?thesis
    using assms(2-6) by (simp add: pm_run_def processTransaction_def timely_def not_less)
qed

theorem void_unvote_stops_worker_witness:
  "Transaction_validate plain_crypto DEVNET sample_void \<and>
   (\<exists>pm'. pm_run sample_pool_env 9 sample_pool_chain (pm_addTransaction sample_pool_env sample_void sample_pool0) =
     Some (Inl NullPointer, pm'))"
proof -
  let ?pm = "pm_addTransaction sample_pool_env sample_void sample_pool0"
  have pm: "?pm = sample_pool0\<lparr>pm_queue := [sample_void]\<rparr>"
    using sample_void_facts(8)
    by (simp add: pm_addTransaction_def sample_pool_selectors sample_pool_config sample_pool0_def PendingManager_new_def
        QUEUE_MAX_SIZE_def)
  have facts: "length bob = ADDRESS_LENGTH" "sint (maxTransactionDataSize UNVOTE) \<ge> 0" by code_simp+
  have pend: "pendingAS sample_pool_chain ?pm = AccountState_track sample_accounts"
    "pendingDS sample_pool_chain ?pm = DelegateState_track sample_registry"
    using pending_cong [of ?pm sample_pool0] sample_pool_pending pm by simp_all
  have "void_unvote sample_config sample_void alice (AccountState_track sample_accounts) (DelegateState_track sample_registry)"
    using account_view [of "AccountState_track sample_accounts" sample_accounts]
      ds_view_facts [of "DelegateState_track sample_registry" sample_registry] sample_pool_view(1) facts
    by (simp add: void_unvote_def same_view_def sample_void_facts sample_alice sample_registry_empty)
  from void_unvote_stops_worker [OF reach_step [OF sample_pool_reach0 pool_add], of sample_void sample_void "[]" 9 alice 0,
      unfolded sample_pool_selectors pend, OF _ _ _ sample_pool_new(2) sample_timely [OF sample_register_facts(4)]
      sample_void_facts(1) sample_pool_latest this]
  show ?thesis using sample_void_facts(8) by (simp add: pm) (simp add: sample_pool0_def PendingManager_new_def TRANSACTIONS_MAX_SIZE_def)
qed

end
