(* ===== verification/Effects.thy ===== *)
theory Effects
  imports Prelude
begin

text \<open>
  Code that changes an object, may throw halfway and may never return: an action gives \<open>None\<close> when it
  does not return, and otherwise its result or exception together with the state it leaves, so the
  changes made before an exception remain. \<open>ensures\<close> is the Hoare triple of such an action, with one
  postcondition for each way out.
\<close>

type_synonym ('s, 'a) act = "'s \<Rightarrow> ('a res \<times> 's) option"

definition a_ok :: "'a \<Rightarrow> ('s, 'a) act" where
  "a_ok x s = Some (Inr x, s)"

definition a_throw :: "jerror \<Rightarrow> ('s, 'a) act" where
  "a_throw e s = Some (Inl e, s)"

definition a_then :: "('s, 'a) act \<Rightarrow> ('a \<Rightarrow> ('s, 'b) act) \<Rightarrow> ('s, 'b) act" where
  "a_then m f s = (case m s of None \<Rightarrow> None | Some (Inl e, t) \<Rightarrow> Some (Inl e, t) | Some (Inr x, t) \<Rightarrow> f x t)"

text \<open>Reading a field or an expression over the state, and assigning.\<close>

definition a_get :: "('s \<Rightarrow> 'a) \<Rightarrow> ('s, 'a) act" where
  "a_get f s = Some (Inr (f s), s)"

definition a_mod :: "('s \<Rightarrow> 's) \<Rightarrow> ('s, unit) act" where
  "a_mod f s = Some (Inr (), f s)"

text \<open>A call without effects that may throw, and one that also may not return.\<close>

definition a_res :: "('s \<Rightarrow> 'a res) \<Rightarrow> ('s, 'a) act" where
  "a_res f s = Some (f s, s)"

definition a_call :: "('s \<Rightarrow> 'a res option) \<Rightarrow> ('s, 'a) act" where
  "a_call f s = map_option (\<lambda>r. (r, s)) (f s)"

definition a_when :: "bool \<Rightarrow> ('s, unit) act \<Rightarrow> ('s, unit) act" where
  "a_when b m = (if b then m else a_ok ())"

fun a_each :: "('x \<Rightarrow> ('s, unit) act) \<Rightarrow> 'x list \<Rightarrow> ('s, unit) act" where
  "a_each f [] = a_ok ()"
| "a_each f (x # xs) = a_then (f x) (\<lambda>_. a_each f xs)"

text \<open>Running an action whose exception is caught and logged.\<close>

definition a_caught :: "('s, unit) act \<Rightarrow> ('s, unit) act" where
  "a_caught m s = map_option (\<lambda>(_, t). (Inr (), t)) (m s)"

lemmas act_defs = a_ok_def a_throw_def a_then_def a_get_def a_mod_def a_res_def a_call_def a_when_def

lemma a_then_simps [simp]:
  "a_then (a_ok x) f = f x"
  "a_then (a_throw e) f = a_throw e"
  "a_then (a_then m f) g = a_then m (\<lambda>x. a_then (f x) g)"
  by (auto simp: fun_eq_iff act_defs split: sum.splits prod.splits option.splits)

text \<open>Symbolic execution: an action applied to a state.\<close>

named_theorems run_simps \<open>actions applied to a state\<close>

lemma run_act [run_simps]:
  "a_ok x s = Some (Inr x, s)"
  "a_throw e s = Some (Inl e, s)"
  "a_get f s = Some (Inr (f s), s)"
  "a_mod g s = Some (Inr (), g s)"
  "a_res h s = Some (h s, s)"
  by (simp_all add: act_defs)

lemma run_then [run_simps]:
  "m s = None \<Longrightarrow> a_then m f s = None"
  "m s = Some (Inl e, t) \<Longrightarrow> a_then m f s = Some (Inl e, t)"
  "m s = Some (Inr x, t) \<Longrightarrow> a_then m f s = f x t"
  by (simp_all add: a_then_def)

lemma run_then_get [run_simps]: "a_then (a_get g) f s = f (g s) s"
  by (simp add: act_defs)

lemma run_then_mod [run_simps]: "a_then (a_mod g) f s = f () (g s)"
  by (simp add: act_defs)

lemma run_then_res [run_simps]:
  "a_then (a_res h) f s = (case h s of Inl e \<Rightarrow> Some (Inl e, s) | Inr x \<Rightarrow> f x s)"
  by (simp add: act_defs split: sum.split)

lemma run_then_call [run_simps]:
  "a_then (a_call h) f s = (case h s of None \<Rightarrow> None | Some (Inl e) \<Rightarrow> Some (Inl e, s) | Some (Inr x) \<Rightarrow> f x s)"
  by (simp add: act_defs split: sum.split option.split)

lemma run_when [run_simps]: "a_when b m s = (if b then m s else Some (Inr (), s))"
  by (simp add: act_defs)

text \<open>The results of a sequence, from the results of its parts.\<close>

lemma a_then_Inr:
  "a_then m f s = Some (Inr y, u) \<longleftrightarrow> (\<exists>x t. m s = Some (Inr x, t) \<and> f x t = Some (Inr y, u))"
  by (auto simp: a_then_def split: option.splits prod.splits sum.splits)

lemma a_then_Inl:
  "a_then m f s = Some (Inl e, u) \<longleftrightarrow>
     m s = Some (Inl e, u) \<or> (\<exists>x t. m s = Some (Inr x, t) \<and> f x t = Some (Inl e, u))"
  by (auto simp: a_then_def split: option.splits prod.splits sum.splits)

section \<open>Triples\<close>

definition ensures :: "('s \<Rightarrow> bool) \<Rightarrow> ('s, 'a) act \<Rightarrow> ('a \<Rightarrow> 's \<Rightarrow> bool) \<Rightarrow> ('s \<Rightarrow> bool) \<Rightarrow> bool" where
  "ensures P m Q E \<longleftrightarrow> (\<forall>s. P s \<longrightarrow>
     (\<forall>x t. m s = Some (Inr x, t) \<longrightarrow> Q x t) \<and> (\<forall>e t. m s = Some (Inl e, t) \<longrightarrow> E t))"

named_theorems ensures_intros \<open>triples of the actions\<close>

lemma ensuresI:
  "(\<And>s x t. P s \<Longrightarrow> m s = Some (Inr x, t) \<Longrightarrow> Q x t) \<Longrightarrow> (\<And>s e t. P s \<Longrightarrow> m s = Some (Inl e, t) \<Longrightarrow> E t) \<Longrightarrow>
   ensures P m Q E"
  by (simp add: ensures_def)

lemma ensures_ok [ensures_intros]: "(\<And>s. P s \<Longrightarrow> Q x s) \<Longrightarrow> ensures P (a_ok x) Q E"
  by (simp add: ensures_def a_ok_def)

lemma ensures_throw [ensures_intros]: "(\<And>s. P s \<Longrightarrow> E s) \<Longrightarrow> ensures P (a_throw e) Q E"
  by (simp add: ensures_def a_throw_def)

lemma ensures_then: "ensures P m R E \<Longrightarrow> (\<And>x. ensures (R x) (f x) Q E) \<Longrightarrow> ensures P (a_then m f) Q E"
  unfolding ensures_def a_then_Inr a_then_Inl by blast

lemma ensures_mod [ensures_intros]: "(\<And>s. P s \<Longrightarrow> Q () (f s)) \<Longrightarrow> ensures P (a_mod f) Q E"
  by (simp add: ensures_def a_mod_def)

lemma ensures_get [ensures_intros]: "(\<And>s. P s \<Longrightarrow> Q (f s) s) \<Longrightarrow> ensures P (a_get f) Q E"
  by (simp add: ensures_def a_get_def)

lemma ensures_res [ensures_intros]:
  "(\<And>s x. P s \<Longrightarrow> f s = Inr x \<Longrightarrow> Q x s) \<Longrightarrow> (\<And>s e. P s \<Longrightarrow> f s = Inl e \<Longrightarrow> E s) \<Longrightarrow> ensures P (a_res f) Q E"
  by (simp add: ensures_def a_res_def)

lemma ensures_call [ensures_intros]:
  "(\<And>s x. P s \<Longrightarrow> f s = Some (Inr x) \<Longrightarrow> Q x s) \<Longrightarrow> (\<And>s e. P s \<Longrightarrow> f s = Some (Inl e) \<Longrightarrow> E s) \<Longrightarrow>
   ensures P (a_call f) Q E"
  by (auto simp: ensures_def a_call_def)

lemma ensures_when: "(b \<Longrightarrow> ensures P m Q E) \<Longrightarrow> (\<And>s. \<not> b \<Longrightarrow> P s \<Longrightarrow> Q () s) \<Longrightarrow> ensures P (a_when b m) Q E"
  by (simp add: a_when_def ensures_def a_ok_def)

lemma ensures_weaken:
  "ensures P' m Q' E' \<Longrightarrow> (\<And>s. P s \<Longrightarrow> P' s) \<Longrightarrow> (\<And>x s. Q' x s \<Longrightarrow> Q x s) \<Longrightarrow> (\<And>s. E' s \<Longrightarrow> E s) \<Longrightarrow>
   ensures P m Q E"
  unfolding ensures_def by blast

lemma ensures_each:
  assumes "\<And>x. x \<in> set xs \<Longrightarrow> ensures I (f x) (\<lambda>_. I) E"
  shows "ensures I (a_each f xs) (\<lambda>_. I) E"
  using assms by (induction xs) (auto intro: ensures_then ensures_ok)

lemma ensures_caught:
  assumes "ensures P m (\<lambda>_. I) I" shows "ensures P (a_caught m) (\<lambda>_. I) E"
proof (rule ensuresI)
  fix s t and x :: unit assume s: "P s" "a_caught m s = Some (Inr x, t)"
  then obtain r where "m s = Some (r, t)" by (auto simp: a_caught_def)
  with s(1) assms show "I t" by (cases r) (auto simp: ensures_def)
qed (auto simp: a_caught_def)

text \<open>Steps whose result is used: what was read is known in the rest.\<close>

lemma ensures_then_get:
  "(\<And>x. ensures (\<lambda>s. P s \<and> f s = x) (g x) Q E) \<Longrightarrow> ensures P (a_then (a_get f) g) Q E"
  by (fastforce simp: ensures_def a_then_Inr a_then_Inl run_act)

lemma ensures_then_res:
  assumes "\<And>x. ensures (\<lambda>s. P s \<and> f s = Inr x) (g x) Q E" "\<And>s e. P s \<Longrightarrow> f s = Inl e \<Longrightarrow> E s"
  shows "ensures P (a_then (a_res f) g) Q E"
  using assms by (fastforce simp: ensures_def a_then_Inr a_then_Inl run_act)

lemma ensures_then_call:
  assumes "\<And>x. ensures (\<lambda>s. P s \<and> f s = Some (Inr x)) (g x) Q E" "\<And>s e. P s \<Longrightarrow> f s = Some (Inl e) \<Longrightarrow> E s"
  shows "ensures P (a_then (a_call f) g) Q E"
  using assms by (fastforce simp: ensures_def a_then_Inr a_then_Inl a_call_def)

lemma ensures_then_mod:
  "(\<And>s. P s \<Longrightarrow> R (f s)) \<Longrightarrow> ensures R (g ()) Q E \<Longrightarrow> ensures P (a_then (a_mod f) g) Q E"
  by (fastforce simp: ensures_def a_then_Inr a_then_Inl run_act)

lemma ensures_pre: "ensures P m Q E \<Longrightarrow> (\<And>s. P' s \<Longrightarrow> P s) \<Longrightarrow> ensures P' m Q E"
  unfolding ensures_def by blast

lemma ensures_fixed: "(\<And>s. P s \<Longrightarrow> ensures (\<lambda>t. t = s) m Q E) \<Longrightarrow> ensures P m Q E"
  unfolding ensures_def by blast

lemma ensuresD:
  "ensures P m Q E \<Longrightarrow> P s \<Longrightarrow> m s = Some (Inr x, t) \<Longrightarrow> Q x t"
  "ensures P m Q E \<Longrightarrow> P s \<Longrightarrow> m s = Some (Inl e, t) \<Longrightarrow> E t"
  by (simp_all add: ensures_def)

end
