(* ===== verification/Node.thy ===== *)
theory Node
  imports Effects Pool
begin

text \<open>
  What the consensus and the synchronisation share: the chain, the pending manager and the peers of a
  node as one state, the messages they exchange, and the steps both take with a block, namely
  to execute it on tracked copies of the state objects, to check it, and to commit it to the chain. The
  clock, the random numbers, the eviction of the caches, the schedule of the other threads and the
  hardware test are an environment.
\<close>

section \<open>State\<close>

datatype Message =
    NewHeightMessage jlong
  | NewViewMessage Proof
  | ProposalMessage Proposal
  | VoteMessage Vote
  | GetBlockMessage jlong
  | BlockMessage Block
  | OtherMessage MessageCode

record Channel =
  cn_peerId :: string
  cn_latestBlockNumber :: jlong

text \<open>
  The messages sent and the peers disconnected are recorded, and the readings of the clock counted. The
  list of channels has the order in which the map of the channel manager is iterated.
\<close>

record Node =
  nd_chain :: Chain
  nd_pool :: PendingManager
  nd_channels :: "Channel list"
  nd_reads :: nat
  nd_sent :: "(string \<times> Message) list"
  nd_disconnected :: "string list"

text \<open>The events of the other threads while a synchronisation runs.\<close>

datatype Outside =
    Download "string list" nat
  | Process
  | FromPeer string Message
  | StopCall
  | Wake

record NodeEnv =
  ne_chain :: ChainEnv
  ne_evict :: "tx_cache \<Rightarrow> tx_cache"
  ne_key :: Key
  ne_clock :: "nat \<Rightarrow> jlong"
  ne_evict_blocks :: "(bytes \<times> Block) list \<Rightarrow> (bytes \<times> Block) list"
  ne_bench :: bool
  ne_schedule :: "nat \<Rightarrow> Outside list"

abbreviation ne_crypto :: "NodeEnv \<Rightarrow> crypto" where
  "ne_crypto env \<equiv> env_crypto (ne_chain env)"

abbreviation ne_config :: "NodeEnv \<Rightarrow> Config" where
  "ne_config env \<equiv> env_config (ne_chain env)"

definition ne_pending :: "NodeEnv \<Rightarrow> PendingEnv" where
  "ne_pending env = \<lparr>pe_crypto = ne_crypto env, pe_config = ne_config env, pe_evict = ne_evict env\<rparr>"

text \<open>\<open>System.currentTimeMillis()\<close>\<close>

definition clock :: "NodeEnv \<Rightarrow> ('a Node_scheme, jlong) act" where
  "clock env = a_then (a_get (\<lambda>s. ne_clock env (nd_reads s))) (\<lambda>now.
     a_then (a_mod (\<lambda>s. s\<lparr>nd_reads := Suc (nd_reads s)\<rparr>)) (\<lambda>_. a_ok now))"

section \<open>Channels\<close>

definition getActiveChannels :: "string list \<Rightarrow> 'a Node_scheme \<Rightarrow> Channel list" where
  "getActiveChannels peerIds s =
     concat (map (\<lambda>p. case find (\<lambda>c. cn_peerId c = p) (nd_channels s) of None \<Rightarrow> [] | Some c \<Rightarrow> [c]) peerIds)"

definition sendMessage :: "Message \<Rightarrow> string \<Rightarrow> ('a Node_scheme, unit) act" where
  "sendMessage msg peer = a_mod (\<lambda>s. s\<lparr>nd_sent := nd_sent s @ [(peer, msg)]\<rparr>)"

definition disconnect :: "string \<Rightarrow> ('a Node_scheme, unit) act" where
  "disconnect peer = a_mod (\<lambda>s. s\<lparr>nd_disconnected := nd_disconnected s @ [peer]\<rparr>)"

definition setLatestBlockNumber :: "string \<Rightarrow> jlong \<Rightarrow> ('a Node_scheme, unit) act" where
  "setLatestBlockNumber peer n = a_mod (\<lambda>s. s\<lparr>nd_channels :=
     map (\<lambda>c. if cn_peerId c = peer then c\<lparr>cn_latestBlockNumber := n\<rparr> else c) (nd_channels s)\<rparr>)"

section \<open>Blocks\<close>

text \<open>The sizes are added in an \<open>int\<close>.\<close>

definition total_size :: "Transaction list \<Rightarrow> jint res" where
  "total_size txs = rfold (\<lambda>tx n. rmap (\<lambda>k. n + of_nat k) (Transaction_size tx)) txs 0"

text \<open>
  Step [2] and the test for duplicates: the transactions are valid and not too large together, and none
  is in the chain. A size is only asked for when the transactions are valid.
\<close>

definition transactions_fit ::
  "NodeEnv \<Rightarrow> BlockHeader \<Rightarrow> Transaction list \<Rightarrow> Transaction list \<Rightarrow> bool res" where
  "transactions_fit env header unvalidated txs =
     (if \<not> validateTransactions (ne_crypto env) header unvalidated txs (cf_network (ne_config env)) then Inr False
      else rmap (\<lambda>n. \<not> sint n > sint (cf_maxBlockTransactionsSize (ne_config env))) (total_size txs))"

definition no_duplicates :: "Transaction list \<Rightarrow> Chain \<Rightarrow> bool" where
  "no_duplicates txs ch \<longleftrightarrow> \<not> list_ex (\<lambda>tx. hasTransaction (tx_hash tx) ch) txs"

text \<open>Step [3]: the transactions run on tracked copies of the state objects of the chain.\<close>

definition evaluate ::
  "NodeEnv \<Rightarrow> Chain \<Rightarrow> Transaction list \<Rightarrow> (TransactionResult list \<times> AccountState \<times> DelegateState) res" where
  "evaluate env ch txs =
     rbind (getLatestBlockNumber ch) (\<lambda>latest.
       execute (ne_crypto env) (ne_config env) latest txs
         (AccountState_track (ch_accounts ch)) (DelegateState_track (ch_delegates ch)))"

text \<open>Step [5]: the reward and the fees go to the coinbase of the block.\<close>

definition block_reward :: "Block \<Rightarrow> Amount res" where
  "block_reward block = rbind (block_fees ZERO (bl_transactions block)) (\<lambda>fees.
     Amount_sum (getBlockReward (bh_number (bl_header block))) fees)"

definition reward_coinbase :: "Block \<Rightarrow> AccountState \<Rightarrow> AccountState res" where
  "reward_coinbase block as =
     rbind (block_reward block) (\<lambda>reward.
       if gt0 reward then adjustAvailable (bh_coinbase (bl_header block)) reward as else Inr as)"

text \<open>Steps [6] and [7]: the tracked copies commit to the state objects, and these to the database.\<close>

definition flush_states :: "AccountState \<Rightarrow> DelegateState \<Rightarrow> Chain \<Rightarrow> Chain" where
  "flush_states as ds ch =
     ch\<lparr>ch_accounts := AccountState_commit (store_prev (AccountState_commit as)),
        ch_delegates := DelegateState_commit (DelegateState_prev (DelegateState_commit ds))\<rparr>"

text \<open>
  Step [8]: the block is added, and the pending manager, which listens to the chain, is called. When
  adding the block throws, the flushed states stay.
\<close>

definition add_to_chain :: "NodeEnv \<Rightarrow> Block \<Rightarrow> ('a Node_scheme, unit) act" where
  "add_to_chain env block =
     a_then (a_res (\<lambda>s. addBlock (ne_chain env) block (nd_chain s))) (\<lambda>ch.
     a_then (a_mod (\<lambda>s. s\<lparr>nd_chain := ch\<rparr>)) (\<lambda>_.
     a_then (clock env) (\<lambda>now s.
       case pm_onBlockAdded (ne_pending env) now (nd_chain s) (nd_pool s) of
         None \<Rightarrow> None
       | Some (r, pm) \<Rightarrow> Some (r, s\<lparr>nd_pool := pm\<rparr>))))"

definition commit_block :: "NodeEnv \<Rightarrow> Block \<Rightarrow> AccountState \<Rightarrow> DelegateState \<Rightarrow> ('a Node_scheme, unit) act" where
  "commit_block env block as ds =
     a_then (a_res (\<lambda>_. reward_coinbase block as)) (\<lambda>as.
     a_then (a_mod (\<lambda>s. s\<lparr>nd_chain := flush_states as ds (nd_chain s)\<rparr>)) (\<lambda>_.
       add_to_chain env block))"

end
