(* ===== verification/Sync.thy ===== *)
theory Sync
  imports Node
begin

text \<open>
  \<open>SemuxSync\<close>: the queues of blocks to download, to complete and to process, the two scheduled tasks, and
  the validation of downloaded blocks with the votes they carry. A scheduled task that throws is run no
  more. The caller of \<open>start\<close> waits until the synchronisation is stopped, while the other threads
  take the turns of a schedule.
\<close>

section \<open>Sorted sets\<close>

text \<open>A \<open>TreeSet\<close>: its elements in order; an element equal to one in the set is not added.\<close>

fun tree_add :: "('a \<Rightarrow> int) \<Rightarrow> 'a \<Rightarrow> 'a list \<Rightarrow> 'a list" where
  "tree_add key x [] = [x]"
| "tree_add key x (y # ys) =
     (if key x < key y then x # y # ys else if key x = key y then y # ys else y # tree_add key x ys)"

definition tree_sorted :: "('a \<Rightarrow> int) \<Rightarrow> 'a list \<Rightarrow> bool" where
  "tree_sorted key xs \<longleftrightarrow> sorted_wrt (\<lambda>x y. key x < key y) xs"

lemma set_tree_add: "set (tree_add key x xs) = (if key x \<in> key ` set xs then set xs else insert x (set xs))"
  if "tree_sorted key xs"
  using that by (induction xs) (force simp: tree_sorted_def)+

lemma tree_add_subset: "set (tree_add key x xs) \<subseteq> insert x (set xs)"
  by (induction xs) auto

lemma tree_sorted_add: "tree_sorted key xs \<Longrightarrow> tree_sorted key (tree_add key x xs)"
proof (induction xs)
  case (Cons y ys)
  then show ?case using tree_add_subset [of key x ys] by (fastforce simp: tree_sorted_def)
qed (simp add: tree_sorted_def)

lemma tree_sorted_filter: "tree_sorted key xs \<Longrightarrow> tree_sorted key (filter P xs)"
  by (simp add: tree_sorted_def sorted_wrt_filter)

section \<open>State\<close>

record Sync = Node +
  sy_latestQueuedTask :: jlong
  sy_toDownload :: "jlong list"
  sy_toComplete :: "(jlong \<times> jlong) list"
  sy_toProcess :: "(Block \<times> string) list"
  sy_begin :: jlong
  sy_current :: jlong
  sy_target :: jlong
  sy_isRunning :: bool
  sy_downloadTask :: bool
  sy_processTask :: bool

definition MAX_DOWNLOAD_TIME :: jlong where "MAX_DOWNLOAD_TIME = 10 * 1000"
definition MAX_UNFINISHED_JOBS :: nat where "MAX_UNFINISHED_JOBS = 16"
definition MAX_QUEUED_BLOCKS :: nat where "MAX_QUEUED_BLOCKS = 8192"
definition MAX_PENDING_BLOCKS :: nat where "MAX_PENDING_BLOCKS = 512"

abbreviation block_number :: "Block \<times> string \<Rightarrow> jlong" where
  "block_number p \<equiv> bh_number (bl_header (fst p))"

section \<open>Queues\<close>

lemma sint_plus1: "sint (task :: jlong) < sint (target :: jlong) \<Longrightarrow> sint (task + 1) = sint task + 1"
  using sint_less [of target] sint_greater_eq [of task]
  by (simp add: sint_word_ariths signed_take_bit_int_eq_self_iff)

text \<open>The loop of \<open>growToDownloadQueue\<close> from a task on; the tasks stay below the target, so they do not wrap.\<close>

function grow_from :: "jlong \<Rightarrow> 'a Sync_scheme \<Rightarrow> 'a Sync_scheme" where
  "grow_from task s =
     (if sint task < sint (sy_target s) \<and> length (sy_toDownload s) < MAX_QUEUED_BLOCKS then
        let s = s\<lparr>sy_latestQueuedTask := (if sint task > sint (sy_latestQueuedTask s) then task
                                         else sy_latestQueuedTask s)\<rparr>;
            s = (if \<not> hasBlock task (nd_chain s) then s\<lparr>sy_toDownload := tree_add sint task (sy_toDownload s)\<rparr> else s)
        in grow_from (task + 1) s
      else s)"
  by pat_completeness auto

termination
  by (relation "measure (\<lambda>(task, s). nat (sint (sy_target s) - sint task))") (auto simp: sint_plus1)

declare grow_from.simps [simp del]

definition growToDownloadQueue :: "'a Sync_scheme \<Rightarrow> 'a Sync_scheme" where
  "growToDownloadQueue s =
     (if length (sy_toDownload s) \<ge> MAX_QUEUED_BLOCKS div 2 then s
      else grow_from (sy_latestQueuedTask s + 1) s)"

text \<open>\<open>if (toDownload.remove(n)) growToDownloadQueue()\<close> and \<open>toComplete.remove(n)\<close>\<close>

definition downloaded :: "jlong \<Rightarrow> 'a Sync_scheme \<Rightarrow> 'a Sync_scheme" where
  "downloaded n s =
     (if n \<in> set (sy_toDownload s)
      then growToDownloadQueue (s\<lparr>sy_toDownload := filter (\<lambda>m. m \<noteq> n) (sy_toDownload s)\<rparr>) else s)"

definition completed :: "jlong \<Rightarrow> 'a Sync_scheme \<Rightarrow> 'a Sync_scheme" where
  "completed n s = s\<lparr>sy_toComplete := AList.delete n (sy_toComplete s)\<rparr>"

definition sync_stop :: "'a Sync_scheme \<Rightarrow> 'a Sync_scheme" where
  "sync_stop s = s\<lparr>sy_isRunning := False\<rparr>"

definition sync_onMessage :: "string \<Rightarrow> Message \<Rightarrow> 'a Sync_scheme \<Rightarrow> 'a Sync_scheme" where
  "sync_onMessage channel msg s =
     (if \<not> sy_isRunning s then s
      else case msg of
        BlockMessage block \<Rightarrow>
          let s = completed (bh_number (bl_header block)) (downloaded (bh_number (bl_header block)) s)
          in s\<lparr>sy_toProcess := tree_add (\<lambda>p. sint (block_number p)) (block, channel) (sy_toProcess s)\<rparr>
      | _ \<Rightarrow> s)"

section \<open>Downloading\<close>

text \<open>Downloads that took too long are queued again.\<close>

definition expired :: "jlong \<Rightarrow> jlong \<times> jlong \<Rightarrow> bool" where
  "expired now entry \<longleftrightarrow> sint (snd entry + MAX_DOWNLOAD_TIME) < sint now"

definition expire_tasks :: "jlong \<Rightarrow> 'a Sync_scheme \<Rightarrow> 'a Sync_scheme" where
  "expire_tasks now s =
     s\<lparr>sy_toDownload := fold (\<lambda>e. tree_add sint (fst e)) (filter (expired now) (sy_toComplete s)) (sy_toDownload s),
       sy_toComplete := filter (\<lambda>e. \<not> expired now e) (sy_toComplete s)\<rparr>"

definition has_block :: "jlong \<Rightarrow> Channel \<Rightarrow> bool" where
  "has_block task c \<longleftrightarrow> sint (cn_latestBlockNumber c) \<ge> sint task"

definition request_block :: "NodeEnv \<Rightarrow> jlong \<Rightarrow> Channel \<Rightarrow> ('a Sync_scheme, unit) act" where
  "request_block env task c =
     a_when (has_block task c)
       (a_then (sendMessage (GetBlockMessage task) (cn_peerId c)) (\<lambda>_.
        a_then (a_mod (downloaded task)) (\<lambda>_.
        a_then (clock env) (\<lambda>now.
          a_mod (\<lambda>s. s\<lparr>sy_toComplete := AList.update task now (sy_toComplete s)\<rparr>)))))"

text \<open>The idle peers, and the random number that picks one of them, are arguments.\<close>

definition download :: "NodeEnv \<Rightarrow> string list \<Rightarrow> nat \<Rightarrow> ('a Sync_scheme, unit) act" where
  "download env idle random =
     a_then (a_get sy_isRunning) (\<lambda>running.
     a_when running
       (a_then (clock env) (\<lambda>now.
        a_then (a_mod (expire_tasks now)) (\<lambda>_.
        a_then (a_get id) (\<lambda>s.
          if length (sy_toComplete s) > MAX_UNFINISHED_JOBS then a_ok ()
          else case sy_toDownload s of
            [] \<Rightarrow> a_ok ()
          | task # _ \<Rightarrow>
              if length (sy_toProcess s) > MAX_PENDING_BLOCKS \<and> sint task > sint (block_number (hd (sy_toProcess s)))
              then a_ok ()
              else (let channels = filter (has_block task) (filter (\<lambda>c. cn_peerId c \<in> set idle) (nd_channels s))
                    in if channels = [] then a_ok ()
                       else request_block env task (channels ! (random mod length channels))))))))"

section \<open>Validating a block\<close>

text \<open>
  The votes of a block: every signature verifies the approval of the block and is of a validator, and
  enough different keys have signed. The threshold is computed from the set of validators.
\<close>

definition validateBlockVotes :: "crypto \<Rightarrow> Block \<Rightarrow> Chain \<Rightarrow> bool res" where
  "validateBlockVotes C block ch =
     rbind (getValidators ch) (\<lambda>vs.
     let validators = remdups vs; twoThirds = two_thirds (length validators) in
     rbind (newApprove VT_PRECOMMIT (bh_number (bl_header block)) (bl_view block) (bh_hash (bl_header block))) (\<lambda>vote.
     rbind (rfold (\<lambda>sig b. if \<not> b then Inr False
                     else if \<not> Key_verify C (vt_encoded vote) sig then Inr False
                     else rmap (\<lambda>sg. Hex_encode (Signature_getAddress C sg) \<in> set validators) (non_null sig))
              (bl_votes block) True) (\<lambda>valid.
     if \<not> valid then Inr False
     else rmap (\<lambda>sigs. \<not> length (remdups (map sig_a sigs)) < twoThirds) (rmapM non_null (bl_votes block)))))"

text \<open>The block must match the checkpoint of its height, if there is one.\<close>

definition checkpoint_ok :: "Config \<Rightarrow> BlockHeader \<Rightarrow> bool" where
  "checkpoint_ok config header \<longleftrightarrow>
     (case map_of (checkpoints (cf_network config)) (bh_number header) of
        None \<Rightarrow> True | Some h \<Rightarrow> bh_hash header = h)"

text \<open>The tracked copies are filled by the evaluation and returned with the verdict.\<close>

definition sync_validateBlock :: "NodeEnv \<Rightarrow> Block \<Rightarrow> Chain \<Rightarrow> (bool \<times> AccountState \<times> DelegateState) res" where
  "sync_validateBlock env block ch =
     (let header = bl_header block; txs = bl_transactions block; C = ne_crypto env;
          as = AccountState_track (ch_accounts ch); ds = DelegateState_track (ch_delegates ch) in
      rbind (non_null (ch_latest ch)) (\<lambda>latest.
      if \<not> validateHeader C (bl_header latest) (Some header) then Inr (False, as, ds)
      else if \<not> checkpoint_ok (ne_config env) header then Inr (False, as, ds)
      else if bh_coinbase header = COINBASE_ADDRESS C then Inr (False, as, ds)
      else rbind (transactions_fit env header txs txs) (\<lambda>fit.
      if \<not> fit then Inr (False, as, ds)
      else rbind (validateResults C header (bl_results block)) (\<lambda>valid.
      if \<not> valid then Inr (False, as, ds)
      else if \<not> no_duplicates txs ch then Inr (False, as, ds)
      else rbind (evaluate env ch txs) (\<lambda>(results, as, ds).
      rbind (validateResults C header results) (\<lambda>valid.
      if \<not> valid then Inr (False, as, ds)
      else rmap (\<lambda>b. (b, as, ds)) (validateBlockVotes C block ch)))))))"

definition sync_applyBlock :: "NodeEnv \<Rightarrow> Block \<Rightarrow> AccountState \<Rightarrow> DelegateState \<Rightarrow> ('a Sync_scheme, bool) act" where
  "sync_applyBlock env block as ds =
     a_then (commit_block env block as ds) (\<lambda>_.
     a_then (a_mod (\<lambda>s. s\<lparr>sy_current := bh_number (bl_header block) + 1\<rparr>)) (\<lambda>_. a_ok True))"

definition validateApplyBlock :: "NodeEnv \<Rightarrow> Block \<Rightarrow> ('a Sync_scheme, bool) act" where
  "validateApplyBlock env block =
     a_then (a_res (\<lambda>s. sync_validateBlock env block (nd_chain s))) (\<lambda>(valid, as, ds).
       if valid then sync_applyBlock env block as ds else a_ok False)"

section \<open>Processing\<close>

text \<open>The search for the next block; blocks the chain already has are dropped on the way.\<close>

fun next_block :: "jlong \<Rightarrow> (Block \<times> string) list \<Rightarrow> (Block \<times> string) option \<times> (Block \<times> string) list" where
  "next_block latest [] = (None, [])"
| "next_block latest (p # ps) =
     (if sint (block_number p) \<le> sint latest then next_block latest ps
      else if block_number p = latest + 1 then (Some p, ps)
      else (None, p # ps))"

definition accepted_block :: "Block \<Rightarrow> 'a Sync_scheme \<Rightarrow> 'a Sync_scheme" where
  "accepted_block block s = completed (bh_number (bl_header block)) (downloaded (bh_number (bl_header block)) s)"

definition rejected_block :: "Block \<Rightarrow> string \<Rightarrow> ('a Sync_scheme, unit) act" where
  "rejected_block block peer =
     a_then (a_mod (\<lambda>s. completed (bh_number (bl_header block))
       (s\<lparr>sy_toDownload := tree_add sint (bh_number (bl_header block)) (sy_toDownload s)\<rparr>))) (\<lambda>_.
       disconnect peer)"

definition process :: "NodeEnv \<Rightarrow> ('a Sync_scheme, unit) act" where
  "process env =
     a_then (a_get sy_isRunning) (\<lambda>running.
     a_when running
       (a_then (a_res (\<lambda>s. getLatestBlockNumber (nd_chain s))) (\<lambda>latest.
        a_then (a_get sy_target) (\<lambda>target.
        if sint (latest + 1) \<ge> sint target then a_mod sync_stop
        else
          a_then (a_get (\<lambda>s. next_block latest (sy_toProcess s))) (\<lambda>(found, rest).
          a_then (a_mod (\<lambda>s. s\<lparr>sy_toProcess := rest\<rparr>)) (\<lambda>_.
          case found of
            None \<Rightarrow> a_ok ()
          | Some (block, peer) \<Rightarrow>
              a_then (validateApplyBlock env block) (\<lambda>b.
              if b then a_mod (accepted_block block) else rejected_block block peer)))))))"

section \<open>Starting and waiting\<close>

text \<open>A scheduled task runs as long as no run of it has thrown.\<close>

definition scheduled ::
  "('s \<Rightarrow> bool) \<Rightarrow> ('s \<Rightarrow> 's) \<Rightarrow> ('s, unit) act \<Rightarrow> ('s, unit) act" where
  "scheduled alive kill task s =
     (if \<not> alive s then Some (Inr (), s)
      else case task s of
        None \<Rightarrow> None
      | Some (Inl e, t) \<Rightarrow> Some (Inr (), kill t)
      | Some (Inr u, t) \<Rightarrow> Some (Inr (), t))"

text \<open>The turns of the other threads; those that are not of the synchronisation are an argument.\<close>

definition sync_turn ::
  "NodeEnv \<Rightarrow> (Outside \<Rightarrow> ('a Sync_scheme, unit) act) \<Rightarrow> Outside \<Rightarrow> ('a Sync_scheme, unit) act" where
  "sync_turn env other ev =
     (case ev of
        Download idle random \<Rightarrow>
          scheduled sy_downloadTask (\<lambda>s. s\<lparr>sy_downloadTask := False\<rparr>) (download env idle random)
      | Process \<Rightarrow> scheduled sy_processTask (\<lambda>s. s\<lparr>sy_processTask := False\<rparr>) (process env)
      | FromPeer peer msg \<Rightarrow> a_then (a_mod (sync_onMessage peer msg)) (\<lambda>_. other ev)
      | _ \<Rightarrow> other ev)"

text \<open>
  The waiting thread wakes up now and then; a schedule that ends before it is free lets it wait for ever.
  An exception of another thread does not reach it.
\<close>

fun sync_wait ::
  "NodeEnv \<Rightarrow> (Outside \<Rightarrow> ('a Sync_scheme, unit) act) \<Rightarrow> Outside list \<Rightarrow> ('a Sync_scheme, unit) act" where
  "sync_wait env other [] s = None"
| "sync_wait env other (ev # evs) s =
     (if ev = Wake then (if sy_isRunning s then sync_wait env other evs s else Some (Inr (), s))
      else a_then (a_caught (sync_turn env other ev)) (\<lambda>_. sync_wait env other evs) s)"

definition set_up_queues :: "jlong \<Rightarrow> jlong \<Rightarrow> 'a Sync_scheme \<Rightarrow> 'a Sync_scheme" where
  "set_up_queues targetHeight latest s =
     growToDownloadQueue (s\<lparr>sy_toDownload := [], sy_toComplete := [], sy_toProcess := [],
       sy_begin := latest + 1, sy_current := latest + 1, sy_target := targetHeight, sy_latestQueuedTask := latest\<rparr>)"

definition sync_start ::
  "NodeEnv \<Rightarrow> (Outside \<Rightarrow> ('a Sync_scheme, unit) act) \<Rightarrow> jlong \<Rightarrow> ('a Sync_scheme, unit) act" where
  "sync_start env other targetHeight =
     a_then (a_get sy_isRunning) (\<lambda>running.
     a_when (\<not> running)
       (a_then (a_mod (\<lambda>s. s\<lparr>sy_isRunning := True\<rparr>)) (\<lambda>_.
        a_then (a_res (\<lambda>s. getLatestBlockNumber (nd_chain s))) (\<lambda>latest.
        a_then (a_mod (\<lambda>s. (set_up_queues targetHeight latest s)\<lparr>sy_downloadTask := True, sy_processTask := True\<rparr>)) (\<lambda>_.
        a_then (a_get nd_reads) (\<lambda>n.
        a_then (sync_wait env other (ne_schedule env n)) (\<lambda>_.
          a_mod (\<lambda>s. s\<lparr>sy_downloadTask := False, sy_processTask := False\<rparr>))))))))"

end
