(* ===== verification/Bft.thy ===== *)
theory Bft
  imports Sync VoteCount
begin

text \<open>
  \<open>SemuxBft\<close>: the state machine of heights and views that agrees on the next block. Its event loop takes
  one event at a time; messages of peers, the timer and the relay of messages are further turns. A
  handler is an action on the state of the node, so what it changed before an exception stays, and a
  handler that does not return is \<open>None\<close>. The fields the constructor leaves null are set when the
  consensus is started, before anything reads them.
\<close>

section \<open>State\<close>

datatype BftState = NEW_HEIGHT | PROPOSE | VALIDATE | PRE_COMMIT | COMMIT | FINALIZE

datatype Status = STOPPED | RUNNING | SYNCING

datatype Event =
    Ev_STOP
  | Ev_TIMEOUT
  | Ev_NEW_HEIGHT jlong
  | Ev_NEW_VIEW Proof
  | Ev_PROPOSAL Proposal
  | Ev_VOTE Vote

text \<open>
  The messages given to the broadcaster are in its queue until it relays them. Channels are named by
  their peers. \<open>bf_threads\<close> says that the timer and the broadcaster
  run, \<open>bf_looping\<close> that the event loop does, and \<open>bf_exit\<close> that the process has been told to exit.
\<close>

record Bft = Sync +
  bf_status :: Status
  bf_state :: BftState
  bf_height :: jlong
  bf_view :: jint
  bf_proof :: Proof
  bf_proposal :: "Proposal option"
  bf_validators :: "string list"
  bf_activeValidators :: "string list"
  bf_lastUpdate :: jlong
  bf_validateVotes :: VoteSet
  bf_precommitVotes :: VoteSet
  bf_commitVotes :: VoteSet
  bf_activatedForks :: "(ValidatorActivatedFork \<times> Activation) list"
  bf_events :: "Event list"
  bf_timeout :: jlong
  bf_validBlocks :: "(bytes \<times> Block) list"
  bf_broadcasts :: "Message list"
  bf_threads :: bool
  bf_looping :: bool
  bf_exit :: bool

type_synonym 'a bft_act = "(Bft, 'a) act"

section \<open>Timer, events, votes\<close>

definition timer_timeout :: "NodeEnv \<Rightarrow> jlong \<Rightarrow> unit bft_act" where
  "timer_timeout env milliseconds =
     (if sint milliseconds < 0 then a_throw IllegalArgument
      else a_then (clock env) (\<lambda>now. a_mod (\<lambda>s. s\<lparr>bf_timeout := now + milliseconds\<rparr>)))"

definition resetTimeout :: "NodeEnv \<Rightarrow> jlong \<Rightarrow> unit bft_act" where
  "resetTimeout env timeout =
     a_then (timer_timeout env timeout) (\<lambda>_.
       a_mod (\<lambda>s. s\<lparr>bf_events := filter (\<lambda>e. e \<noteq> Ev_TIMEOUT) (bf_events s)\<rparr>))"

definition clearTimerAndEvents :: "unit bft_act" where
  "clearTimerAndEvents = a_mod (\<lambda>s. s\<lparr>bf_timeout := -1, bf_events := []\<rparr>)"

definition clearVotes :: "unit bft_act" where
  "clearVotes = a_mod (\<lambda>s. s\<lparr>
     bf_validateVotes := VoteSet_new VT_VALIDATE (bf_height s) (bf_view s) (bf_validators s),
     bf_precommitVotes := VoteSet_new VT_PRECOMMIT (bf_height s) (bf_view s) (bf_validators s),
     bf_commitVotes := VoteSet_new VT_COMMIT (bf_height s) (bf_view s) (bf_validators s)\<rparr>)"

definition add_event :: "Event \<Rightarrow> unit bft_act" where
  "add_event ev = a_mod (\<lambda>s. s\<lparr>bf_events := bf_events s @ [ev]\<rparr>)"

definition broadcast :: "Message \<Rightarrow> unit bft_act" where
  "broadcast msg = a_mod (\<lambda>s. s\<lparr>bf_broadcasts := bf_broadcasts s @ [msg]\<rparr>)"

definition set_state :: "BftState \<Rightarrow> unit bft_act" where
  "set_state st = a_mod (\<lambda>s. s\<lparr>bf_state := st\<rparr>)"

section \<open>Validators and forks\<close>

definition find_active :: "string list \<Rightarrow> Bft \<Rightarrow> string list" where
  "find_active vs s = map cn_peerId (getActiveChannels vs s)"

definition bft_updateValidators :: "NodeEnv \<Rightarrow> unit bft_act" where
  "bft_updateValidators env =
     a_then (a_res (\<lambda>s. getValidators (nd_chain s))) (\<lambda>vs.
     a_then (a_mod (\<lambda>s. s\<lparr>bf_validators := vs\<rparr>)) (\<lambda>_.
     a_then (a_mod (\<lambda>s. s\<lparr>bf_activeValidators := find_active (bf_validators s) s\<rparr>)) (\<lambda>_.
     a_then (clock env) (\<lambda>now. a_mod (\<lambda>s. s\<lparr>bf_lastUpdate := now\<rparr>)))))"

definition isValidator :: "NodeEnv \<Rightarrow> Bft \<Rightarrow> bool" where
  "isValidator env s \<longleftrightarrow> Key_toAddressString (ne_crypto env) (ne_key env) \<in> set (bf_validators s)"

text \<open>Asking whether a fork is active may fill the cache of the chain.\<close>

definition chain_forkActivated :: "NodeEnv \<Rightarrow> jlong \<Rightarrow> bool bft_act" where
  "chain_forkActivated env height =
     a_then (a_res (\<lambda>s. forkActivated (ne_chain env) height UNIFORM_DISTRIBUTION (nd_chain s))) (\<lambda>(b, ch).
     a_then (a_mod (\<lambda>s. s\<lparr>nd_chain := ch\<rparr>)) (\<lambda>_. a_ok b))"

definition isPrimary :: "NodeEnv \<Rightarrow> jlong \<Rightarrow> jint \<Rightarrow> string \<Rightarrow> bool bft_act" where
  "isPrimary env height view peerId =
     a_then (chain_forkActivated env height) (\<lambda>uniform.
     a_then (a_call (\<lambda>s. getPrimaryValidator (ne_crypto env) (bf_validators s) height view uniform)) (\<lambda>primary.
       a_ok (primary = peerId)))"

definition amPrimary :: "NodeEnv \<Rightarrow> bool bft_act" where
  "amPrimary env = a_then (a_get (\<lambda>s. (bf_height s, bf_view s))) (\<lambda>(height, view).
     isPrimary env height view (Key_toAddressString (ne_crypto env) (ne_key env)))"

definition isFromValidator :: "NodeEnv \<Rightarrow> Signature option \<Rightarrow> Bft \<Rightarrow> bool res" where
  "isFromValidator env sig s =
     rmap (\<lambda>sg. Hex_encode (h160 (ne_crypto env) (Signature_getPublicKey sg)) \<in> set (bf_validators s)) (non_null sig)"

definition bft_activateForks :: "NodeEnv \<Rightarrow> unit bft_act" where
  "bft_activateForks env = a_then (a_get id) (\<lambda>s.
     a_when (cf_forkUniformDistributionEnabled (ne_config env)
         \<and> map_of (bf_activatedForks s) UNIFORM_DISTRIBUTION = None
         \<and> sint (bf_height s) \<le> sint (activationDeadline UNIFORM_DISTRIBUTION))
       (a_then (chain_forkActivated env (bf_height s)) (\<lambda>activated.
        a_when activated (a_mod (\<lambda>s. s\<lparr>bf_activatedForks := AList.update UNIFORM_DISTRIBUTION
          \<lparr>act_fork = Some UNIFORM_DISTRIBUTION, act_activatedAt = bf_height s\<rparr> (bf_activatedForks s)\<rparr>)))))"

section \<open>Making a block\<close>

definition signalingUniformDistribution :: "NodeEnv \<Rightarrow> Bft \<Rightarrow> bool" where
  "signalingUniformDistribution env s \<longleftrightarrow>
     cf_forkUniformDistributionEnabled (ne_config env)
     \<and> map_of (bf_activatedForks s) UNIFORM_DISTRIBUTION = None
     \<and> sint (bf_height s) \<le> sint (activationDeadline UNIFORM_DISTRIBUTION)"

definition signal_data :: "NodeEnv \<Rightarrow> Bft \<Rightarrow> bytes res" where
  "signal_data env s =
     (if signalingUniformDistribution env s
      then rbind (ForkSignalSet_new [UNIFORM_DISTRIBUTION]) (\<lambda>fs. headerdata_toBytes (headerdata_v1 fs))
      else Inr [])"

definition proposeBlock :: "NodeEnv \<Rightarrow> Block bft_act" where
  "proposeBlock env =
     (let C = ne_crypto env in
      a_then (a_res (\<lambda>s. getPendingTransactions (cf_maxBlockTransactionsSize (ne_config env)) (nd_pool s))) (\<lambda>pending.
      let txs = map pt_transaction pending; results = map pt_transactionResult pending in
      a_then (a_res (\<lambda>s. rbind (computeResultsRoot C results) (\<lambda>resultsRoot.
          rbind (getBlockHeader (bf_height s - 1) (nd_chain s)) (\<lambda>prev.
          rmap (\<lambda>prev. (resultsRoot, bh_hash prev)) (non_null prev))))) (\<lambda>(resultsRoot, prevHash).
      a_then (clock env) (\<lambda>timestamp.
      a_res (\<lambda>s. rbind (signal_data env s) (\<lambda>data.
          rbind (BlockHeader_new C (bf_height s) (Key_toAddress C (ne_key env)) prevHash timestamp
                  (computeTransactionsRoot C txs) resultsRoot EMPTY_HASH data) (\<lambda>header.
            Block_new header txs results 0 [])))))))"

section \<open>Validating and applying a block\<close>

text \<open>\<open>Transaction.equals\<close>\<close>

definition same_transaction :: "Transaction \<Rightarrow> Transaction \<Rightarrow> bool" where
  "same_transaction a b \<longleftrightarrow> tx_encoded a = tx_encoded b \<and> tx_hash a = tx_hash b \<and> tx_signature a = tx_signature b"

definition MAX_INT :: jint where "MAX_INT = 0x7FFFFFFF"

definition getUnvalidatedTransactions :: "Transaction list \<Rightarrow> Bft \<Rightarrow> Transaction list res" where
  "getUnvalidatedTransactions txs s =
     rbind (getPendingTransactions MAX_INT (nd_pool s)) (\<lambda>pending.
     let validated = map pt_transaction (filter (\<lambda>p. tr_success (pt_transactionResult p)) pending) in
     Inr (filter (\<lambda>tx. \<not> list_ex (same_transaction tx) validated) txs))"

text \<open>The checks of the header, with a reading of the clock for the future test.\<close>

definition bft_header_ok :: "NodeEnv \<Rightarrow> BlockHeader \<Rightarrow> bool bft_act" where
  "bft_header_ok env header =
     (let C = ne_crypto env in
      a_then (a_res (\<lambda>s. non_null (ch_latest (nd_chain s)))) (\<lambda>latest.
      if \<not> validateHeader C (bl_header latest) (Some header) then a_ok False
      else a_then (clock env) (\<lambda>now.
        if sint (bh_timestamp header - now) > sint (cf_maxBlockTimeDrift (ne_config env)) then a_ok False
        else if bh_coinbase header = COINBASE_ADDRESS C then a_ok False
        else a_res (\<lambda>s. rbind (non_null (bf_proposal s)) (\<lambda>p.
          rmap (\<lambda>sg. bh_coinbase header = Signature_getAddress C sg) (non_null (pp_signature p)))))))"

text \<open>The transactions, up to the block with the results they give; \<open>None\<close> is an invalid block.\<close>

definition bft_evaluate_block ::
  "NodeEnv \<Rightarrow> BlockHeader \<Rightarrow> Transaction list \<Rightarrow> Bft \<Rightarrow> Block option res" where
  "bft_evaluate_block env header txs s =
     rbind (getUnvalidatedTransactions txs s) (\<lambda>unvalidated.
     rbind (transactions_fit env header unvalidated txs) (\<lambda>fit.
     if \<not> fit then Inr None
     else if \<not> no_duplicates txs (nd_chain s) then Inr None
     else rbind (evaluate env (nd_chain s) txs) (\<lambda>(results, as, ds).
     rbind (validateResults (ne_crypto env) header results) (\<lambda>valid.
     if \<not> valid then Inr None
     else rmap Some (Block_new header txs results 0 [])))))"

definition bft_validateBlock :: "NodeEnv \<Rightarrow> BlockHeader \<Rightarrow> Transaction list \<Rightarrow> bool bft_act" where
  "bft_validateBlock env header txs =
     a_then (bft_header_ok env header) (\<lambda>b.
     if \<not> b then a_ok False
     else a_then (a_res (bft_evaluate_block env header txs)) (\<lambda>r.
       case r of
         None \<Rightarrow> a_ok False
       | Some block \<Rightarrow>
           a_then (a_mod (\<lambda>s. s\<lparr>bf_validBlocks :=
             ne_evict_blocks env (AList.update (bh_hash (bl_header block)) block (bf_validBlocks s))\<rparr>)) (\<lambda>_.
             a_ok True)))"

definition bft_applyBlock :: "NodeEnv \<Rightarrow> Block \<Rightarrow> unit bft_act" where
  "bft_applyBlock env block =
     a_then (a_res (\<lambda>s. getLatestBlockNumber (nd_chain s))) (\<lambda>latest.
     if bh_number (bl_header block) \<noteq> latest + 1 then a_throw BftFailure
     else a_then (a_res (\<lambda>s. evaluate env (nd_chain s) (bl_transactions block))) (\<lambda>(results, as, ds).
     a_then (a_res (\<lambda>_. validateResults (ne_crypto env) (bl_header block) results)) (\<lambda>valid.
     a_when valid (commit_block env block as ds))))"

end
