(* ===== verification/BftLoop.thy ===== *)
theory BftLoop
  imports Bft
begin

text \<open>
  The handlers of \<open>SemuxBft\<close>: entering each state, the events of the loop, the messages of the peers, the
  turns of the timer and of the broadcaster, starting and stopping. Synchronisation runs inside the
  handler that starts it, with the turns of the other threads in between.
\<close>

section \<open>Signing\<close>

definition sign_vote :: "NodeEnv \<Rightarrow> Vote res \<Rightarrow> Vote bft_act" where
  "sign_vote env v = a_res (\<lambda>_. rbind v (Vote_sign (ne_crypto env) (ne_key env)))"

definition add_validate :: "NodeEnv \<Rightarrow> Vote \<Rightarrow> bool bft_act" where
  "add_validate env v =
     a_then (a_get (\<lambda>s. addVote (ne_crypto env) v (bf_validateVotes s))) (\<lambda>(added, vs).
     a_then (a_mod (\<lambda>s. s\<lparr>bf_validateVotes := vs\<rparr>)) (\<lambda>_. a_ok added))"

definition add_precommit :: "NodeEnv \<Rightarrow> Vote \<Rightarrow> bool bft_act" where
  "add_precommit env v =
     a_then (a_get (\<lambda>s. addVote (ne_crypto env) v (bf_precommitVotes s))) (\<lambda>(added, vs).
     a_then (a_mod (\<lambda>s. s\<lparr>bf_precommitVotes := vs\<rparr>)) (\<lambda>_. a_ok added))"

definition add_commit :: "NodeEnv \<Rightarrow> Vote \<Rightarrow> bool bft_act" where
  "add_commit env v =
     a_then (a_get (\<lambda>s. addVote (ne_crypto env) v (bf_commitVotes s))) (\<lambda>(added, vs).
     a_then (a_mod (\<lambda>s. s\<lparr>bf_commitVotes := vs\<rparr>)) (\<lambda>_. a_ok added))"

section \<open>Entering the states\<close>

definition enterNewHeight :: "NodeEnv \<Rightarrow> unit bft_act" where
  "enterNewHeight env =
     a_then (set_state NEW_HEIGHT) (\<lambda>_.
     a_then (a_res (\<lambda>s. non_null (ch_latest (nd_chain s)))) (\<lambda>prevBlock.
     a_then (a_mod (\<lambda>s. s\<lparr>bf_height := bh_number (bl_header prevBlock) + 1, bf_view := 0,
       bf_proof := Proof_empty (bh_number (bl_header prevBlock) + 1) 0, bf_proposal := None\<rparr>)) (\<lambda>_.
     a_then (a_res (\<lambda>s. getActivatedForks (nd_chain s))) (\<lambda>forks.
     a_then (a_mod (\<lambda>s. s\<lparr>bf_activatedForks := forks\<rparr>)) (\<lambda>_.
     a_then (bft_activateForks env) (\<lambda>_.
     a_then (bft_updateValidators env) (\<lambda>_.
     a_then clearVotes (\<lambda>_.
     a_then clearTimerAndEvents (\<lambda>_.
     a_then (a_get (isValidator env)) (\<lambda>validator.
     a_then (a_when validator
       (a_then (a_when (cf_network (ne_config env) = MAINNET \<and> \<not> ne_bench env)
          (a_mod (\<lambda>s. s\<lparr>bf_exit := True\<rparr>))) (\<lambda>_.
        resetTimeout env (cf_bftNewHeightTimeout (ne_config env))))) (\<lambda>_.
     a_then (a_get (\<lambda>s. (bf_height s, nd_channels s))) (\<lambda>(height, channels).
       a_each (\<lambda>c. sendMessage (NewHeightMessage height) (cn_peerId c)) channels))))))))))))"

text \<open>When two thirds reject at pre-commit, their votes are the proof of unlock of the next view.\<close>

definition next_view :: "unit bft_act" where
  "next_view =
     a_then (a_get (\<lambda>s. isRejected (bf_precommitVotes s))) (\<lambda>rejected.
     a_when rejected
       (a_then (a_mod (\<lambda>s. s\<lparr>bf_view := bf_view s + 1\<rparr>)) (\<lambda>_.
        a_then (a_mod (\<lambda>s. s\<lparr>bf_proof := \<lparr>pf_height = bf_height s, pf_view = bf_view s,
                                          pf_votes = getRejections (bf_precommitVotes s)\<rparr>, bf_proposal := None\<rparr>)) (\<lambda>_.
          clearVotes))))"

definition make_proposal :: "NodeEnv \<Rightarrow> unit bft_act" where
  "make_proposal env =
     a_then (a_get bf_proposal) (\<lambda>p.
     a_when (p = None)
       (a_then (proposeBlock env) (\<lambda>block.
        a_then (a_res (\<lambda>s. rbind (Proposal_new (bf_proof s) (bl_header block) (bl_transactions block))
                            (Proposal_sign (ne_crypto env) (ne_key env)))) (\<lambda>p.
          a_mod (\<lambda>s. s\<lparr>bf_proposal := Some p\<rparr>)))))"

text \<open>The first call of \<open>isPrimary\<close> is an argument of the log message.\<close>

definition enterPropose :: "NodeEnv \<Rightarrow> unit bft_act" where
  "enterPropose env =
     a_then (set_state PROPOSE) (\<lambda>_.
     a_then (resetTimeout env (cf_bftProposeTimeout (ne_config env))) (\<lambda>_.
     a_then (bft_updateValidators env) (\<lambda>_.
     a_then next_view (\<lambda>_.
     a_then (amPrimary env) (\<lambda>_.
     a_then (amPrimary env) (\<lambda>primary.
     a_then (a_when primary
       (a_then (make_proposal env) (\<lambda>_.
        a_then (a_res (\<lambda>s. non_null (bf_proposal s))) (\<lambda>p. broadcast (ProposalMessage p))))) (\<lambda>_.
     a_then (a_get (\<lambda>s. (bf_proof s, bf_activeValidators s))) (\<lambda>(proof, peers).
       a_each (sendMessage (NewViewMessage proof)) peers))))))))"

definition enterValidate :: "NodeEnv \<Rightarrow> unit bft_act" where
  "enterValidate env =
     a_then (set_state VALIDATE) (\<lambda>_.
     a_then (resetTimeout env (cf_bftValidateTimeout (ne_config env))) (\<lambda>_.
     a_then (a_get bf_proposal) (\<lambda>proposal.
     a_then (case proposal of
               None \<Rightarrow> a_ok False
             | Some p \<Rightarrow> bft_validateBlock env (pp_blockHeader p) (pp_transactions p)) (\<lambda>valid.
     a_then (a_get (\<lambda>s. (bf_height s, bf_view s))) (\<lambda>(height, view).
     a_then (sign_vote env
       (case proposal of
          Some p \<Rightarrow> if valid then newApprove VT_VALIDATE height view (bh_hash (pp_blockHeader p))
                    else newReject VT_VALIDATE height view
        | None \<Rightarrow> newReject VT_VALIDATE height view)) (\<lambda>vote.
     a_then (add_validate env vote) (\<lambda>_.
       broadcast (VoteMessage vote))))))))"

definition enterPreCommit :: "NodeEnv \<Rightarrow> unit bft_act" where
  "enterPreCommit env =
     a_then (set_state PRE_COMMIT) (\<lambda>_.
     a_then (resetTimeout env (cf_bftPreCommitTimeout (ne_config env))) (\<lambda>_.
     a_then (a_get (\<lambda>s. (bf_height s, bf_view s, anyApproved (bf_validateVotes s)))) (\<lambda>(height, view, blockHash).
     a_then (sign_vote env
       (case blockHash of
          Some h \<Rightarrow> newApprove VT_PRECOMMIT height view h
        | None \<Rightarrow> newReject VT_PRECOMMIT height view)) (\<lambda>vote.
     a_then (add_precommit env vote) (\<lambda>_.
       broadcast (VoteMessage vote))))))"

definition enterCommit :: "NodeEnv \<Rightarrow> unit bft_act" where
  "enterCommit env =
     a_then (set_state COMMIT) (\<lambda>_.
     a_then (resetTimeout env (cf_bftCommitTimeout (ne_config env))) (\<lambda>_.
     a_then (a_get (\<lambda>s. (bf_height s, bf_view s, anyApproved (bf_precommitVotes s)))) (\<lambda>(height, view, blockHash).
     case blockHash of
       None \<Rightarrow> a_throw BftFailure
     | Some h \<Rightarrow>
         a_then (sign_vote env (newApprove VT_COMMIT height view h)) (\<lambda>vote.
         a_then (add_commit env vote) (\<lambda>_.
           broadcast (VoteMessage vote))))))"

section \<open>Messages and stopping\<close>

definition message_code :: "Message \<Rightarrow> MessageCode" where
  "message_code msg =
     (case msg of
        NewHeightMessage _ \<Rightarrow> BFT_NEW_HEIGHT
      | NewViewMessage _ \<Rightarrow> BFT_NEW_VIEW
      | ProposalMessage _ \<Rightarrow> BFT_PROPOSAL
      | VoteMessage _ \<Rightarrow> BFT_VOTE
      | GetBlockMessage _ \<Rightarrow> GET_BLOCK
      | BlockMessage _ \<Rightarrow> BLOCK
      | OtherMessage c \<Rightarrow> c)"

definition on_new_height_message :: "string \<Rightarrow> jlong \<Rightarrow> unit bft_act" where
  "on_new_height_message channel n =
     a_then (setLatestBlockNumber channel (n - 1)) (\<lambda>_.
     a_then (a_get bf_height) (\<lambda>height.
       a_when (sint n > sint height) (add_event (Ev_NEW_HEIGHT n))))"

definition on_new_view_message :: "string \<Rightarrow> Proof \<Rightarrow> unit bft_act" where
  "on_new_view_message channel p =
     a_then (setLatestBlockNumber channel (pf_height p - 1)) (\<lambda>_.
     a_then (a_get bf_height) (\<lambda>height.
       if sint (pf_height p) > sint height then add_event (Ev_NEW_HEIGHT (pf_height p))
       else a_when (pf_height p = height) (add_event (Ev_NEW_VIEW p))))"

definition on_proposal_message :: "NodeEnv \<Rightarrow> string \<Rightarrow> Proposal \<Rightarrow> unit bft_act" where
  "on_proposal_message env channel p =
     a_then (a_get bf_height) (\<lambda>height.
     a_when (Proposal_getHeight p = height)
       (if Proposal_validate (ne_crypto env) p then add_event (Ev_PROPOSAL p) else disconnect channel))"

text \<open>The event holds the vote with the memo that \<open>revalidate\<close> writes.\<close>

definition on_vote_message :: "NodeEnv \<Rightarrow> string \<Rightarrow> Vote \<Rightarrow> unit bft_act" where
  "on_vote_message env channel v =
     a_then (a_get bf_height) (\<lambda>height.
     a_when (vt_height v = height)
       (let (valid, v) = revalidate (ne_crypto env) v in
        if valid then add_event (Ev_VOTE v) else disconnect channel))"

definition bft_onMessage :: "NodeEnv \<Rightarrow> string \<Rightarrow> Message \<Rightarrow> unit bft_act" where
  "bft_onMessage env channel msg =
     a_then (a_get bf_status) (\<lambda>status.
     a_when (\<not> (status \<noteq> RUNNING \<and> message_code msg \<noteq> BFT_NEW_HEIGHT))
       (case msg of
          NewHeightMessage n \<Rightarrow> on_new_height_message channel n
        | NewViewMessage p \<Rightarrow> on_new_view_message channel p
        | ProposalMessage p \<Rightarrow> on_proposal_message env channel p
        | VoteMessage v \<Rightarrow> on_vote_message env channel v
        | _ \<Rightarrow> a_ok ()))"

definition bft_stop :: "unit bft_act" where
  "bft_stop =
     a_then (a_get bf_status) (\<lambda>status.
     a_when (status \<noteq> STOPPED)
       (a_then (a_when (status = SYNCING) (a_mod sync_stop)) (\<lambda>_.
        a_then (a_mod (\<lambda>s. s\<lparr>bf_threads := False, bf_status := STOPPED\<rparr>)) (\<lambda>_.
          add_event Ev_STOP))))"

text \<open>What the other threads do with the consensus while it waits for the synchronisation.\<close>

definition bft_other :: "NodeEnv \<Rightarrow> Outside \<Rightarrow> unit bft_act" where
  "bft_other env ev =
     (case ev of
        FromPeer channel msg \<Rightarrow> bft_onMessage env channel msg
      | StopCall \<Rightarrow> bft_stop
      | _ \<Rightarrow> a_ok ())"

section \<open>Synchronising and finalising\<close>

definition bft_sync :: "NodeEnv \<Rightarrow> jlong \<Rightarrow> unit bft_act" where
  "bft_sync env target =
     a_then (a_get bf_status) (\<lambda>status.
     a_when (status = RUNNING)
       (a_then (a_mod (\<lambda>s. s\<lparr>bf_status := SYNCING\<rparr>)) (\<lambda>_.
        a_then clearVotes (\<lambda>_.
        a_then clearTimerAndEvents (\<lambda>_.
        a_then (sync_start env (bft_other env) target) (\<lambda>_.
        a_then (a_get bf_status) (\<lambda>status.
        a_when (status \<noteq> STOPPED)
          (a_then (a_mod (\<lambda>s. s\<lparr>bf_status := RUNNING\<rparr>)) (\<lambda>_.
            enterNewHeight env)))))))))"

text \<open>The cached block object gets the view and the signatures of the votes.\<close>

definition finalized :: "Bft \<Rightarrow> bytes \<Rightarrow> Block \<Rightarrow> Block" where
  "finalized s blockHash block =
     block\<lparr>bl_view := bf_view s, bl_votes := map vt_signature (getApprovals blockHash (bf_precommitVotes s))\<rparr>"

definition enterFinalize :: "NodeEnv \<Rightarrow> unit bft_act" where
  "enterFinalize env =
     a_then (a_get bf_state) (\<lambda>st.
     a_when (st \<noteq> FINALIZE)
       (a_then (set_state FINALIZE) (\<lambda>_.
        a_then (resetTimeout env (cf_bftFinalizeTimeout (ne_config env))) (\<lambda>_.
        a_then (a_get (\<lambda>s. Option.bind (anyApproved (bf_precommitVotes s)) (\<lambda>h.
                  map_option (\<lambda>b. (h, finalized s h b)) (map_of (bf_validBlocks s) h)))) (\<lambda>found.
        case found of
          Some (h, block) \<Rightarrow>
            a_then (a_mod (\<lambda>s. s\<lparr>bf_validBlocks := AList.update h block (bf_validBlocks s)\<rparr>)) (\<lambda>_.
              bft_applyBlock env block)
        | None \<Rightarrow> a_then (a_get bf_height) (\<lambda>height. bft_sync env (height + 1)))))))"

definition jumpToView :: "NodeEnv \<Rightarrow> jint \<Rightarrow> Proof \<Rightarrow> Proposal option \<Rightarrow> unit bft_act" where
  "jumpToView env view pf proposal =
     a_then (a_mod (\<lambda>s. s\<lparr>bf_view := view, bf_proof := pf, bf_proposal := proposal\<rparr>)) (\<lambda>_.
     a_then clearVotes (\<lambda>_.
     a_then clearTimerAndEvents (\<lambda>_.
       enterPropose env)))"

section \<open>Events\<close>

text \<open>
  \<open>(int) Math.floor(n * 2.0 / 3.0)\<close> is the exact floor, as for the threshold of a vote set. The peers'
  heights are sorted as signed numbers.
\<close>

definition sync_target :: "jlong list \<Rightarrow> jlong option" where
  "sync_target heights =
     (case take (2 * length heights div 3) (sort_key sint heights) of [] \<Rightarrow> None | hs \<Rightarrow> Some (last hs))"

definition onNewHeight :: "NodeEnv \<Rightarrow> jlong \<Rightarrow> unit bft_act" where
  "onNewHeight env newHeight =
     a_then (a_get (\<lambda>s. (bf_height s, bf_state s))) (\<lambda>(height, st).
     a_when (sint newHeight > sint height \<and> st \<noteq> FINALIZE)
       (a_then (a_get (\<lambda>s. getActiveChannels (bf_validators s) s)) (\<lambda>channels.
        a_then (a_mod (\<lambda>s. s\<lparr>bf_activeValidators := map cn_peerId channels\<rparr>)) (\<lambda>_.
        case sync_target (map (\<lambda>c. cn_latestBlockNumber c + 1) channels) of
          None \<Rightarrow> a_ok ()
        | Some target \<Rightarrow> a_when (sint target > sint height) (bft_sync env target)))))"

text \<open>The proof of unlock of a view: enough valid rejections of the view before.\<close>

definition unlocks :: "crypto \<Rightarrow> jlong \<Rightarrow> jint \<Rightarrow> Vote list \<Rightarrow> string list \<Rightarrow> bool" where
  "unlocks C height view votes validators \<longleftrightarrow>
     isRejected (snd (addVotes C votes (VoteSet_new VT_PRECOMMIT height (view - 1) validators)))"

definition onNewView :: "NodeEnv \<Rightarrow> Proof \<Rightarrow> unit bft_act" where
  "onNewView env p =
     a_then (a_get id) (\<lambda>s.
     a_when (pf_height p = bf_height s \<and> sint (pf_view p) > sint (bf_view s)
         \<and> bf_state s \<noteq> COMMIT \<and> bf_state s \<noteq> FINALIZE)
       (a_when (unlocks (ne_crypto env) (pf_height p) (pf_view p) (pf_votes p) (bf_validators s))
         (jumpToView env (pf_view p) p None)))"

definition expects :: "Proposal \<Rightarrow> Bft \<Rightarrow> bool" where
  "expects p s \<longleftrightarrow> Proposal_getHeight p = bf_height s
     \<and> (Proposal_getView p = bf_view s \<and> bf_proposal s = None \<and> (bf_state s = NEW_HEIGHT \<or> bf_state s = PROPOSE)
        \<or> sint (Proposal_getView p) > sint (bf_view s) \<and> bf_state s \<noteq> COMMIT \<and> bf_state s \<noteq> FINALIZE)"

definition proof_fits :: "NodeEnv \<Rightarrow> Proposal \<Rightarrow> Bft \<Rightarrow> bool" where
  "proof_fits env p s =
     (if Proposal_getView p \<noteq> 0
      then unlocks (ne_crypto env) (Proposal_getHeight p) (Proposal_getView p) (pf_votes (pp_proof p)) (bf_validators s)
      else pf_votes (pp_proof p) = [])"

definition onProposal :: "NodeEnv \<Rightarrow> Proposal \<Rightarrow> unit bft_act" where
  "onProposal env p =
     a_then (a_get (expects p)) (\<lambda>expected.
     a_when expected
       (a_then (a_res (\<lambda>_. rmap (\<lambda>sg. Hex_encode (Signature_getAddress (ne_crypto env) sg)) (non_null (pp_signature p)))) (\<lambda>peer.
        a_then (isPrimary env (Proposal_getHeight p) (Proposal_getView p) peer) (\<lambda>primary.
        a_then (a_get (proof_fits env p)) (\<lambda>fits.
        a_when (primary \<and> fits)
          (a_then (broadcast (ProposalMessage p)) (\<lambda>_.
           a_then (a_get bf_view) (\<lambda>view.
             if view = Proposal_getView p then a_mod (\<lambda>s. s\<lparr>bf_proposal := Some p\<rparr>)
             else jumpToView env (Proposal_getView p) (pp_proof p) (Some p)))))))))"

text \<open>A vote whose type is unknown does not validate, so the \<open>switch\<close> has a type.\<close>

definition count_vote :: "NodeEnv \<Rightarrow> Vote \<Rightarrow> bool bft_act" where
  "count_vote env v =
     (case vt_type v of
        None \<Rightarrow> a_throw NullPointer
      | Some VT_VALIDATE \<Rightarrow> add_validate env v
      | Some VT_PRECOMMIT \<Rightarrow> add_precommit env v
      | Some VT_COMMIT \<Rightarrow>
          a_then (add_commit env v) (\<lambda>added.
          a_then (a_get (\<lambda>s. anyApproved (bf_commitVotes s))) (\<lambda>approved.
          a_then (a_when (approved \<noteq> None) (enterFinalize env)) (\<lambda>_. a_ok added))))"

definition onVote :: "NodeEnv \<Rightarrow> Vote \<Rightarrow> unit bft_act" where
  "onVote env v =
     a_then (a_get id) (\<lambda>s.
     a_when (vt_height v = bf_height s \<and> vt_view v = bf_view s)
       (a_then (a_res (isFromValidator env (vt_signature v))) (\<lambda>member.
        let (valid, v) = (if member then Vote_validate (ne_crypto env) v else (False, v)) in
        a_when (member \<and> valid)
          (a_then (count_vote env v) (\<lambda>added. a_when added (broadcast (VoteMessage v)))))))"

definition onTimeout :: "NodeEnv \<Rightarrow> unit bft_act" where
  "onTimeout env =
     a_then (a_get id) (\<lambda>s.
       case bf_state s of
         NEW_HEIGHT \<Rightarrow> enterPropose env
       | PROPOSE \<Rightarrow> enterValidate env
       | VALIDATE \<Rightarrow> enterPreCommit env
       | PRE_COMMIT \<Rightarrow> if anyApproved (bf_precommitVotes s) \<noteq> None then enterCommit env else enterPropose env
       | COMMIT \<Rightarrow> enterFinalize env
       | FINALIZE \<Rightarrow> enterNewHeight env)"

section \<open>The loop and the threads\<close>

definition handle :: "NodeEnv \<Rightarrow> Event \<Rightarrow> unit bft_act" where
  "handle env ev =
     (case ev of
        Ev_STOP \<Rightarrow> a_mod (\<lambda>s. s\<lparr>bf_looping := False\<rparr>)
      | Ev_TIMEOUT \<Rightarrow> onTimeout env
      | Ev_NEW_HEIGHT n \<Rightarrow> onNewHeight env n
      | Ev_NEW_VIEW p \<Rightarrow> onNewView env p
      | Ev_PROPOSAL p \<Rightarrow> onProposal env p
      | Ev_VOTE v \<Rightarrow> onVote env v)"

definition STUCK_TIME :: jlong where "STUCK_TIME = 2 * 60 * 1000"

definition dispatch :: "NodeEnv \<Rightarrow> Event \<Rightarrow> unit bft_act" where
  "dispatch env ev =
     a_then (a_get bf_status) (\<lambda>status.
     a_when (status = RUNNING)
       (a_then (clock env) (\<lambda>now.
        a_then (a_get bf_lastUpdate) (\<lambda>lastUpdate.
        a_then (a_when (sint (lastUpdate + STUCK_TIME) < sint now) (bft_updateValidators env)) (\<lambda>_.
          handle env ev)))))"

text \<open>
  One turn of the event loop: it ends when the consensus is stopped; \<open>take\<close> waits for an event, and an
  exception of its handler is logged. The turn is \<open>None\<close> when the handler does not return.
\<close>

definition loop_turn :: "NodeEnv \<Rightarrow> unit bft_act" where
  "loop_turn env s =
     (if \<not> bf_looping s then Some (Inr (), s)
      else if bf_status s = STOPPED then Some (Inr (), s\<lparr>bf_looping := False\<rparr>)
      else case bf_events s of
        [] \<Rightarrow> Some (Inr (), s)
      | ev # evs \<Rightarrow> a_caught (dispatch env ev) (s\<lparr>bf_events := evs\<rparr>))"

definition timer_turn :: "NodeEnv \<Rightarrow> unit bft_act" where
  "timer_turn env =
     a_then (a_get (\<lambda>s. bf_threads s \<and> bf_timeout s \<noteq> -1)) (\<lambda>waiting.
     a_when waiting
       (a_then (clock env) (\<lambda>now.
        a_then (a_get bf_timeout) (\<lambda>timeout.
        a_when (sint timeout < sint now)
          (a_then (add_event Ev_TIMEOUT) (\<lambda>_. a_mod (\<lambda>s. s\<lparr>bf_timeout := -1\<rparr>)))))))"

text \<open>The broadcaster relays a message to the first peers of a random permutation.\<close>

definition relay_turn :: "NodeEnv \<Rightarrow> nat list \<Rightarrow> unit bft_act" where
  "relay_turn env permutation s =
     (case bf_broadcasts s of
        [] \<Rightarrow> Some (Inr (), s)
      | msg # msgs \<Rightarrow>
          if \<not> bf_threads s then Some (Inr (), s)
          else a_each (\<lambda>i. a_when (bf_activeValidators s ! i \<in> set (map cn_peerId (nd_channels s)))
                             (sendMessage msg (bf_activeValidators s ! i)))
                 (take (nat (sint (cf_netRelayRedundancy (ne_config env))))
                   (filter (\<lambda>i. i < length (bf_activeValidators s)) permutation))
                 (s\<lparr>bf_broadcasts := msgs\<rparr>))"

text \<open>\<open>start\<close> up to its event loop; an exception leaves the consensus without one.\<close>

definition bft_start :: "NodeEnv \<Rightarrow> unit bft_act" where
  "bft_start env =
     a_then (a_get bf_status) (\<lambda>status.
     a_when (status = STOPPED)
       (a_then (a_mod (\<lambda>s. s\<lparr>bf_status := RUNNING, bf_threads := True\<rparr>)) (\<lambda>_.
        a_then (enterNewHeight env) (\<lambda>_. a_mod (\<lambda>s. s\<lparr>bf_looping := True\<rparr>)))))"

definition bft_new :: "Chain \<Rightarrow> PendingManager \<Rightarrow> Channel list \<Rightarrow> Bft" where
  "bft_new ch pm channels =
     \<lparr>nd_chain = ch, nd_pool = pm, nd_channels = channels, nd_reads = 0, nd_sent = [], nd_disconnected = [],
      sy_latestQueuedTask = 0, sy_toDownload = [], sy_toComplete = [], sy_toProcess = [], sy_begin = 0,
      sy_current = 0, sy_target = 0, sy_isRunning = False, sy_downloadTask = False, sy_processTask = False,
      bf_status = STOPPED, bf_state = NEW_HEIGHT, bf_height = 0, bf_view = 0, bf_proof = Proof_empty 0 0,
      bf_proposal = None, bf_validators = [], bf_activeValidators = [], bf_lastUpdate = 0,
      bf_validateVotes = VoteSet_new VT_VALIDATE 0 0 [], bf_precommitVotes = VoteSet_new VT_PRECOMMIT 0 0 [],
      bf_commitVotes = VoteSet_new VT_COMMIT 0 0 [], bf_activatedForks = [], bf_events = [], bf_timeout = 0,
      bf_validBlocks = [], bf_broadcasts = [], bf_threads = False, bf_looping = False, bf_exit = False\<rparr>"

end
