(* ===== verification/BftFrame.thy ===== *)
theory BftFrame
  imports BftLoop
begin

text \<open>
  The actions of the synchronisation leave the fields of the consensus alone, and a run of the
  synchronisation keeps what the turns of the other threads keep of them.
\<close>

section \<open>Frames\<close>

definition frame :: "('a Sync_scheme, 'b) act \<Rightarrow> bool" where
  "frame m \<longleftrightarrow> (\<forall>s r t. m s = Some (r, t) \<longrightarrow> Sync.more t = Sync.more s)"

named_theorems frame_intros \<open>actions that leave the consensus alone\<close>

lemma frame_then [frame_intros]: "frame m \<Longrightarrow> (\<And>x. frame (f x)) \<Longrightarrow> frame (a_then m f)"
  unfolding frame_def a_then_def by (fastforce split: option.splits prod.splits sum.splits)

lemma frame_mod [frame_intros]: "(\<And>s. Sync.more (f s) = Sync.more s) \<Longrightarrow> frame (a_mod f)"
  by (auto simp: frame_def run_act)

lemma frame_when [frame_intros]: "(b \<Longrightarrow> frame m) \<Longrightarrow> frame (a_when b m)"
  by (auto simp: frame_def run_simps)

lemma frame_if [frame_intros]: "(b \<Longrightarrow> frame m) \<Longrightarrow> (\<not> b \<Longrightarrow> frame n) \<Longrightarrow> frame (if b then m else n)"
  by simp

lemma frame_pure [frame_intros]: "frame (a_ok x)" "frame (a_throw e)" "frame (a_get f)" "frame (a_res g)"
  by (auto simp: frame_def run_act)

lemma more_grow: "Sync.more (grow_from n s) = Sync.more s"
  by (induction n s rule: grow_from.induct) (subst grow_from.simps, simp add: Let_def)

lemma more_sync [frame_intros]:
  "Sync.more (sync_stop s) = Sync.more s" "Sync.more (completed n s) = Sync.more s"
  "Sync.more (expire_tasks w s) = Sync.more s" "Sync.more (growToDownloadQueue s) = Sync.more s"
  "Sync.more (downloaded n s) = Sync.more s" "Sync.more (set_up_queues target n s) = Sync.more s"
  "Sync.more (accepted_block b s) = Sync.more s" "Sync.more (sync_onMessage c msg s) = Sync.more s"
  by (simp_all add: sync_stop_def completed_def expire_tasks_def growToDownloadQueue_def downloaded_def more_grow
      set_up_queues_def accepted_block_def sync_onMessage_def Let_def split: Message.split)

lemma frame_node [frame_intros]:
  "frame (clock env)" "frame (sendMessage msg peer)" "frame (disconnect peer)"
  by (simp_all add: clock_def sendMessage_def disconnect_def frame_intros)

lemma frame_case [frame_intros]:
  "frame a \<Longrightarrow> (\<And>y ys. frame (f y ys)) \<Longrightarrow> frame (case xs of [] \<Rightarrow> a | y # ys \<Rightarrow> f y ys)"
  "frame a \<Longrightarrow> (\<And>y. frame (g y)) \<Longrightarrow> frame (case z of None \<Rightarrow> a | Some y \<Rightarrow> g y)"
  "(\<And>x y. frame (h x y)) \<Longrightarrow> frame (case p of (x, y) \<Rightarrow> h x y)"
  by (simp_all split: list.split option.split prod.split)

lemma frame_download: "frame (download env idle random)"
  unfolding download_def request_block_def Let_def by (intro frame_intros) simp_all

lemma frame_add_to_chain: "frame (add_to_chain env b)"
  unfolding add_to_chain_def by (intro frame_intros) (auto simp: frame_def split: option.splits)

lemma frame_commit_block: "frame (commit_block env b as ds)"
  unfolding commit_block_def by (intro frame_intros frame_add_to_chain) simp

lemma frame_process: "frame (process env)"
  unfolding process_def validateApplyBlock_def sync_applyBlock_def rejected_block_def
  by (intro frame_intros frame_commit_block) (simp_all add: more_sync)

text \<open>So a synchronisation keeps whatever the turns of the consensus keep.\<close>

definition keeps_ext :: "('b \<Rightarrow> bool) \<Rightarrow> ('b Sync_scheme, 'c) act \<Rightarrow> bool" where
  "keeps_ext P m \<longleftrightarrow> (\<forall>s r t. P (Sync.more s) \<longrightarrow> m s = Some (r, t) \<longrightarrow> P (Sync.more t))"

lemma keeps_extI: "(\<And>s r t. P (Sync.more s) \<Longrightarrow> m s = Some (r, t) \<Longrightarrow> P (Sync.more t)) \<Longrightarrow> keeps_ext P m"
  unfolding keeps_ext_def by blast

lemma keeps_extD: "keeps_ext P m \<Longrightarrow> P (Sync.more s) \<Longrightarrow> m s = Some (r, t) \<Longrightarrow> P (Sync.more t)"
  unfolding keeps_ext_def by blast

lemma keeps_ext_frame: "frame m \<Longrightarrow> keeps_ext P m"
  by (rule keeps_extI) (metis frame_def)

lemma a_then_outcome:
  assumes "a_then m f s = Some (r, t)"
  obtains e where "m s = Some (Inl e, t)" | x u where "m s = Some (Inr x, u)" "f x u = Some (r, t)"
  using assms by (auto simp: a_then_def split: option.splits sum.splits prod.splits)

lemma keeps_ext_then:
  assumes "keeps_ext P m" "\<And>x. keeps_ext P (f x)" shows "keeps_ext P (a_then m f)"
  by (rule keeps_extI, erule a_then_outcome) (blast intro: keeps_extD [OF assms(1)] keeps_extD [OF assms(2)])+

lemma keeps_ext_when: "(b \<Longrightarrow> keeps_ext P m) \<Longrightarrow> keeps_ext P (a_when b m)"
  by (cases b) (simp_all add: a_when_def keeps_ext_frame frame_pure)

lemma frame_scheduled:
  assumes "frame m" "\<And>s. Sync.more (kill s) = Sync.more s"
  shows "frame (scheduled alive kill m)"
  unfolding frame_def
proof (intro allI impI)
  fix s r t assume x: "scheduled alive kill m s = Some (r, t)"
  show "Sync.more t = Sync.more s"
  proof (cases "alive s")
    case True
    with x obtain u v where "m s = Some (u, v)" "t = v \<or> t = kill v"
      by (auto simp: scheduled_def split: option.splits sum.splits)
    with assms show ?thesis unfolding frame_def by metis
  qed (use x in \<open>simp add: scheduled_def\<close>)
qed

lemma frame_tasks:
  "frame (scheduled sy_downloadTask (\<lambda>s. s\<lparr>sy_downloadTask := False\<rparr>) (download env idle random))"
  "frame (scheduled sy_processTask (\<lambda>s. s\<lparr>sy_processTask := False\<rparr>) (process env))"
  by (rule frame_scheduled, rule frame_download, simp) (rule frame_scheduled, rule frame_process, simp)

lemma keeps_ext_turn:
  assumes "keeps_ext P (other ev)"
  shows "keeps_ext P (sync_turn env other ev)"
proof (cases ev)
  case (FromPeer peer msg)
  have "frame (a_mod (sync_onMessage peer msg))" by (rule frame_mod) (simp add: more_sync)
  then show ?thesis using assms FromPeer by (auto simp: sync_turn_def intro: keeps_ext_then keeps_ext_frame)
qed (use assms in \<open>simp_all add: sync_turn_def keeps_ext_frame frame_tasks\<close>)

lemma keeps_ext_caught: "keeps_ext P m \<Longrightarrow> keeps_ext P (a_caught m)"
  by (rule keeps_extI) (auto simp: a_caught_def dest: keeps_extD)

lemma keeps_ext_wait:
  assumes "\<And>ev. ev \<in> set evs \<Longrightarrow> keeps_ext P (other ev)"
  shows "keeps_ext P (sync_wait env other evs)"
  using assms
proof (induction evs)
  case (Cons ev evs)
  have turn: "keeps_ext P (a_then (a_caught (sync_turn env other ev)) (\<lambda>_. sync_wait env other evs))"
    by (intro keeps_ext_then keeps_ext_caught keeps_ext_turn Cons) simp_all
  show ?case
  proof (rule keeps_extI)
    fix s r t assume s: "P (Sync.more s)" and x: "sync_wait env other (ev # evs) s = Some (r, t)"
    consider "t = s" | "sync_wait env other evs s = Some (r, t)" | "ev \<noteq> Wake"
      using x by (cases "ev = Wake"; cases "sy_isRunning s") simp_all
    then show "P (Sync.more t)"
    proof cases
      case 2
      then show ?thesis using keeps_extD [OF Cons.IH s] Cons.prems by simp
    next
      case 3
      then show ?thesis using x keeps_extD [OF turn s] by simp
    qed (use s in simp)
  qed
qed (simp add: keeps_ext_def)

lemma keeps_ext_start:
  assumes "\<And>n ev. ev \<in> set (ne_schedule env n) \<Longrightarrow> keeps_ext P (other ev)"
  shows "keeps_ext P (sync_start env other target)"
proof -
  have set: "keeps_ext P (a_mod f)" if "\<And>s. Sync.more (f s) = Sync.more s" for f
    using that by (intro keeps_ext_frame frame_mod)
  note pure = keeps_ext_frame [OF frame_pure(3)] keeps_ext_frame [OF frame_pure(4)]
  show ?thesis
    unfolding sync_start_def
    by (rule keeps_ext_then, rule pure, rule keeps_ext_when, rule keeps_ext_then, rule set, simp, rule keeps_ext_then,
        rule pure, rule keeps_ext_then, rule set, simp add: more_sync, rule keeps_ext_then, rule pure,
        rule keeps_ext_then, rule keeps_ext_wait, erule assms, rule set, simp)
qed

end
