(* ===== verification/BftSpec.thy ===== *)
theory BftSpec
  imports BftFrame
begin

text \<open>
  The invariant of the consensus: in every reachable state the vote sets, the proof and the proposal
  belong to the height and view of the node, a view above 0 has its proof of unlock, and while the
  consensus runs its validators are those of the chain and its height is the next one.
\<close>

section \<open>The invariant\<close>

definition event_ok :: "crypto \<Rightarrow> Event \<Rightarrow> bool" where
  "event_ok C ev \<longleftrightarrow> (case ev of
     Ev_VOTE v \<Rightarrow> memo_ok C v
   | Ev_NEW_VIEW p \<Rightarrow> \<forall>v \<in> set (pf_votes p). memo_ok C v
   | Ev_PROPOSAL p \<Rightarrow> \<forall>v \<in> set (pf_votes (pp_proof p)). memo_ok C v
   | _ \<Rightarrow> True)"

definition inputs_ok :: "NodeEnv \<Rightarrow> Bft \<Rightarrow> bool" where
  "inputs_ok env s \<longleftrightarrow> (\<forall>ev \<in> set (bf_events s). event_ok (ne_crypto env) ev) \<and>
     (\<forall>(h, b) \<in> set (bf_validBlocks s). bh_hash (bl_header b) = h)"

definition vote_set_for :: "crypto \<Rightarrow> VoteType \<Rightarrow> jlong \<Rightarrow> jint \<Rightarrow> string list \<Rightarrow> VoteSet \<Rightarrow> bool" where
  "vote_set_for C type height view vals vs \<longleftrightarrow> voteset_ok C vs \<and> vs_type vs = type \<and> vs_height vs = height \<and>
     vs_view vs = view \<and> vs_validators vs = vals"

abbreviation voters :: "Bft \<Rightarrow> string list" where
  "voters s \<equiv> vs_validators (bf_precommitVotes s)"

definition aligned :: "NodeEnv \<Rightarrow> Bft \<Rightarrow> bool" where
  "aligned env s \<longleftrightarrow>
     vote_set_for (ne_crypto env) VT_VALIDATE (bf_height s) (bf_view s) (voters s) (bf_validateVotes s) \<and>
     vote_set_for (ne_crypto env) VT_PRECOMMIT (bf_height s) (bf_view s) (voters s) (bf_precommitVotes s) \<and>
     vote_set_for (ne_crypto env) VT_COMMIT (bf_height s) (bf_view s) (voters s) (bf_commitVotes s) \<and>
     pf_height (bf_proof s) = bf_height s \<and> pf_view (bf_proof s) = bf_view s \<and>
     (\<forall>v \<in> set (pf_votes (bf_proof s)). memo_ok (ne_crypto env) v) \<and>
     (\<forall>p. bf_proposal s = Some p \<longrightarrow> Proposal_getHeight p = bf_height s \<and> Proposal_getView p = bf_view s)"

definition in_view :: "NodeEnv \<Rightarrow> Bft \<Rightarrow> bool" where
  "in_view env s \<longleftrightarrow> getValidators (nd_chain s) = Inr (voters s) \<and> bf_validators s = voters s \<and>
     getLatestBlockNumber (nd_chain s) = Inr (bf_height s - 1) \<and>
     (bf_view s \<noteq> 0 \<longrightarrow> unlocks (ne_crypto env) (bf_height s) (bf_view s) (pf_votes (bf_proof s)) (voters s))"

definition bft_inv :: "NodeEnv \<Rightarrow> Bft \<Rightarrow> bool" where
  "bft_inv env s \<longleftrightarrow> inputs_ok env s \<and> aligned env s \<and>
     (bf_status s = RUNNING \<and> bf_state s \<noteq> FINALIZE \<longrightarrow> in_view env s)"

text \<open>The reads of the database that a new height needs succeed.\<close>

definition chain_readable :: "NodeEnv \<Rightarrow> Chain \<Rightarrow> bool" where
  "chain_readable env ch \<longleftrightarrow> is_ok (getActivatedForks ch) \<and> is_ok (getValidators ch) \<and>
     (\<exists>b. ch_latest ch = Some b \<and> is_ok (forkActivated (ne_chain env) (bh_number (bl_header b) + 1) UNIFORM_DISTRIBUTION ch))"

abbreviation bft_fails :: "NodeEnv \<Rightarrow> Bft \<Rightarrow> bool" where
  "bft_fails env s \<equiv> chain_readable env (nd_chain s) \<longrightarrow> bft_inv env s"

text \<open>The states a handler runs in: while a block is agreed on, and once it is.\<close>

definition working :: "NodeEnv \<Rightarrow> Bft \<Rightarrow> bool" where
  "working env s \<longleftrightarrow> inputs_ok env s \<and> aligned env s \<and> in_view env s \<and> bf_status s = RUNNING \<and> bf_state s \<noteq> FINALIZE"

definition settled :: "NodeEnv \<Rightarrow> Bft \<Rightarrow> bool" where
  "settled env s \<longleftrightarrow> inputs_ok env s \<and> aligned env s \<and> (bf_status s \<noteq> RUNNING \<or> bf_state s = FINALIZE)"

lemma bft_inv_cases: "bft_inv env s \<longleftrightarrow> working env s \<or> settled env s"
  by (auto simp: bft_inv_def working_def settled_def)

lemma working_inv [dest]: "working env s \<Longrightarrow> bft_inv env s" and settled_inv [dest]: "settled env s \<Longrightarrow> bft_inv env s"
  by (simp_all add: bft_inv_cases)

lemmas bft_state_defs = working_def settled_def inputs_ok_def aligned_def in_view_def

text \<open>Fields the invariant does not speak of.\<close>

lemma inv_irrelevant [simp]:
  "working env (s\<lparr>nd_reads := a\<rparr>) = working env s" "settled env (s\<lparr>nd_reads := a\<rparr>) = settled env s"
  "working env (s\<lparr>nd_sent := b\<rparr>) = working env s" "settled env (s\<lparr>nd_sent := b\<rparr>) = settled env s"
  "working env (s\<lparr>nd_disconnected := c\<rparr>) = working env s" "settled env (s\<lparr>nd_disconnected := c\<rparr>) = settled env s"
  "working env (s\<lparr>nd_channels := d\<rparr>) = working env s" "settled env (s\<lparr>nd_channels := d\<rparr>) = settled env s"
  "working env (s\<lparr>bf_activeValidators := e\<rparr>) = working env s" "settled env (s\<lparr>bf_activeValidators := e\<rparr>) = settled env s"
  "working env (s\<lparr>bf_lastUpdate := f\<rparr>) = working env s" "settled env (s\<lparr>bf_lastUpdate := f\<rparr>) = settled env s"
  "working env (s\<lparr>bf_timeout := g\<rparr>) = working env s" "settled env (s\<lparr>bf_timeout := g\<rparr>) = settled env s"
  "working env (s\<lparr>bf_broadcasts := h\<rparr>) = working env s" "settled env (s\<lparr>bf_broadcasts := h\<rparr>) = settled env s"
  "working env (s\<lparr>bf_exit := i\<rparr>) = working env s" "settled env (s\<lparr>bf_exit := i\<rparr>) = settled env s"
  "working env (s\<lparr>bf_looping := j\<rparr>) = working env s" "settled env (s\<lparr>bf_looping := j\<rparr>) = settled env s"
  "working env (s\<lparr>bf_threads := k\<rparr>) = working env s" "settled env (s\<lparr>bf_threads := k\<rparr>) = settled env s"
  by (simp_all add: bft_state_defs)

lemma more_fields:
  assumes "Sync.more t = Sync.more s"
  shows "bf_status t = bf_status s" "bf_state t = bf_state s" "bf_height t = bf_height s" "bf_view t = bf_view s"
    "bf_proof t = bf_proof s" "bf_proposal t = bf_proposal s" "bf_validators t = bf_validators s"
    "bf_validateVotes t = bf_validateVotes s" "bf_precommitVotes t = bf_precommitVotes s"
    "bf_commitVotes t = bf_commitVotes s" "bf_events t = bf_events s" "bf_validBlocks t = bf_validBlocks s"
    "bf_timeout t = bf_timeout s" "bf_activeValidators t = bf_activeValidators s"
  using assms by (cases s; cases t; simp)+

lemma settled_frame: "Sync.more t = Sync.more s \<Longrightarrow> settled env t = settled env s"
  using more_fields [of t s] by (simp add: bft_state_defs)

lemma ensures_frame: "frame m \<Longrightarrow> ensures (settled env) m (\<lambda>_. settled env) (settled env)"
  by (rule ensuresI) (metis frame_def settled_frame)+

section \<open>Reading the chain\<close>

lemma forkActivated_fields:
  assumes "forkActivated e height f ch = Inr (b, ch')"
  shows "ch' = ch\<lparr>ch_memory := ch_memory ch'\<rparr>"
  using assms unfolding forkActivated_def
  by (auto simp: rbind_eq_Inr Let_def split: if_splits option.splits)

lemma getValidators_memory [simp]: "getValidators (ch\<lparr>ch_memory := m\<rparr>) = getValidators ch"
  by (simp add: getValidators_def)

lemma getLatest_memory [simp]: "getLatestBlockNumber (ch\<lparr>ch_memory := m\<rparr>) = getLatestBlockNumber ch"
  by (simp add: getLatestBlockNumber_def)

lemma inv_memory [simp]:
  "working env (s\<lparr>nd_chain := (nd_chain s)\<lparr>ch_memory := m\<rparr>\<rparr>) = working env s"
  "settled env (s\<lparr>nd_chain := ch\<rparr>) = settled env s"
  by (simp_all add: bft_state_defs)

section \<open>Small steps\<close>

abbreviation keeps :: "(Bft \<Rightarrow> bool) \<Rightarrow> 'a bft_act \<Rightarrow> bool" where
  "keeps P m \<equiv> ensures P m (\<lambda>_. P) P"

named_theorems keeps_intros \<open>actions that keep the invariant of a working consensus\<close>

lemma keeps_then: "keeps P m \<Longrightarrow> (\<And>x. keeps P (f x)) \<Longrightarrow> keeps P (a_then m f)"
  by (rule ensures_then)

lemma keeps_pure [keeps_intros]: "keeps P (a_ok x)" "keeps P (a_throw e)" "keeps P (a_get f)" "keeps P (a_res r)" "keeps P (a_call c)"
  by (auto intro: ensures_intros)

lemma keeps_mod: "(\<And>s. P s \<Longrightarrow> P (f s)) \<Longrightarrow> keeps P (a_mod f)"
  by (rule ensures_mod)

lemma keeps_when [keeps_intros]: "(b \<Longrightarrow> keeps P m) \<Longrightarrow> keeps P (a_when b m)"
  by (rule ensures_when)

lemma keeps_if [keeps_intros]: "(b \<Longrightarrow> keeps P m) \<Longrightarrow> (\<not> b \<Longrightarrow> keeps P n) \<Longrightarrow> keeps P (if b then m else n)"
  by simp

lemma keeps_cases [keeps_intros]:
  "keeps P a \<Longrightarrow> (\<And>y. keeps P (g y)) \<Longrightarrow> keeps P (case z of None \<Rightarrow> a | Some y \<Rightarrow> g y)"
  "(\<And>x y. keeps P (h x y)) \<Longrightarrow> keeps P (case p of (x, y) \<Rightarrow> h x y)"
  by (simp_all split: option.split prod.split)

lemma keeps_clock [keeps_intros]: "keeps (working env) (clock e)" "keeps (settled env) (clock e)"
  unfolding clock_def by (intro keeps_then keeps_mod keeps_pure; simp)+

lemma keeps_timer [keeps_intros]: "keeps (working env) (timer_timeout e t)" "keeps (settled env) (timer_timeout e t)"
  unfolding timer_timeout_def by (intro keeps_if keeps_then keeps_mod keeps_pure keeps_clock; simp)+

lemma keeps_resetTimeout [keeps_intros]: "keeps (working env) (resetTimeout e t)" "keeps (settled env) (resetTimeout e t)"
  unfolding resetTimeout_def
  by (rule keeps_then, rule keeps_timer, rule keeps_mod, simp add: bft_state_defs)+

lemma keeps_broadcast [keeps_intros]: "keeps (working env) (broadcast m)" "keeps (settled env) (broadcast m)"
  unfolding broadcast_def by (rule keeps_mod, simp)+

lemma keeps_send [keeps_intros]: "keeps (working env) (sendMessage m p)" "keeps (settled env) (sendMessage m p)"
  unfolding sendMessage_def by (rule keeps_mod, simp)+

lemma chain_forkActivated_outcome:
  assumes "chain_forkActivated env h s = Some (r, t)"
  shows "\<exists>m. t = s\<lparr>nd_chain := (nd_chain s)\<lparr>ch_memory := m\<rparr>\<rparr>"
proof (cases "forkActivated (ne_chain env) h UNIFORM_DISTRIBUTION (nd_chain s)")
  case (Inl e)
  then have "t = s" using assms by (simp add: chain_forkActivated_def run_simps)
  then show ?thesis by (intro exI [of _ "ch_memory (nd_chain s)"]) simp
next
  case (Inr x)
  then obtain b ch where x: "forkActivated (ne_chain env) h UNIFORM_DISTRIBUTION (nd_chain s) = Inr (b, ch)"
    by (cases x) auto
  then have "t = s\<lparr>nd_chain := ch\<rparr>" using assms by (simp add: chain_forkActivated_def run_simps)
  with forkActivated_fields [OF x] show ?thesis by metis
qed

lemma keeps_forkActivated [keeps_intros]:
  "keeps (working env) (chain_forkActivated env h)" "keeps (settled env) (chain_forkActivated env h)"
  by (intro ensuresI; metis chain_forkActivated_outcome inv_memory(1) inv_memory(2))+

lemma keeps_isPrimary [keeps_intros]: "keeps (working env) (isPrimary env h w p)" "keeps (working env) (amPrimary env)"
  unfolding amPrimary_def isPrimary_def by (intro keeps_then keeps_intros)+

section \<open>Votes\<close>

lemma vote_set_for_new: "vote_set_for C t h w vals (VoteSet_new t h w vals)"
  by (simp add: vote_set_for_def voteset_ok_new) (simp add: VoteSet_new_def)

lemma voters_new [simp]: "vs_validators (VoteSet_new t h w vals) = vals"
  by (simp add: VoteSet_new_def)

lemma vote_set_for_add:
  assumes "vote_set_for C t h w vals vs" "memo_ok C v"
  shows "vote_set_for C t h w vals (snd (addVote C v vs))"
  using assms voteset_ok_add [of C vs v] addVote_sets(1) [OF assms(2), of vs]
  by (simp add: vote_set_for_def same_set_def)

lemma addVote_validators: "memo_ok C v \<Longrightarrow> vs_validators (snd (addVote C v vs)) = vs_validators vs"
  using addVote_sets(1) [of C v vs] by (simp add: same_set_def)

lemma aligned_add:
  assumes "aligned env s" "memo_ok (ne_crypto env) v"
  shows "aligned env (s\<lparr>bf_validateVotes := snd (addVote (ne_crypto env) v (bf_validateVotes s))\<rparr>)"
    "aligned env (s\<lparr>bf_precommitVotes := snd (addVote (ne_crypto env) v (bf_precommitVotes s))\<rparr>)"
    "aligned env (s\<lparr>bf_commitVotes := snd (addVote (ne_crypto env) v (bf_commitVotes s))\<rparr>)"
  using assms by (simp_all add: aligned_def vote_set_for_add addVote_validators)

lemma keeps_add_vote:
  assumes "memo_ok (ne_crypto env) v"
  shows "keeps (working env) (add_validate env v)" "keeps (settled env) (add_validate env v)"
    "keeps (working env) (add_precommit env v)" "keeps (settled env) (add_precommit env v)"
    "keeps (working env) (add_commit env v)" "keeps (settled env) (add_commit env v)"
proof -
  note sets = aligned_add [OF _ assms]
  have vals: "addVote (ne_crypto env) v vs = (x, y) \<Longrightarrow> vs_validators vs = vs_validators y" for vs x y
    using addVote_validators [OF assms, of vs] by simp
  note defs = add_validate_def add_precommit_def add_commit_def run_simps
  note inv = working_def settled_def inputs_ok_def in_view_def
  show "keeps (working env) (add_validate env v)" "keeps (settled env) (add_validate env v)"
    by (rule ensuresI; auto simp: defs inv sets split: prod.splits dest: sets(1))+
  show "keeps (working env) (add_precommit env v)" "keeps (settled env) (add_precommit env v)"
    by (rule ensuresI; auto simp: defs inv sets split: prod.splits dest: sets(2) vals)+
  show "keeps (working env) (add_commit env v)" "keeps (settled env) (add_commit env v)"
    by (rule ensuresI; auto simp: defs inv sets split: prod.splits dest: sets(3))+
qed

text \<open>The votes of the node itself carry no memo.\<close>

lemma sign_vote_memo: "ensures P (sign_vote env v) (\<lambda>x s. P s \<and> memo_ok (ne_crypto env) x) P"
  unfolding sign_vote_def by (rule ensures_res) (auto simp: rbind_eq_Inr intro: memo_ok_sign)

lemma ensures_given: "(X \<Longrightarrow> ensures P m Q E) \<Longrightarrow> ensures (\<lambda>s. P s \<and> X) m Q E"
  by (auto simp: ensures_def)

lemma keeps_own_vote:
  assumes "\<And>v. memo_ok (ne_crypto env) v \<Longrightarrow> keeps P (add v)" "\<And>v. keeps P (broadcast (VoteMessage v))"
  shows "keeps P (a_then (sign_vote env x) (\<lambda>v. a_then (add v) (\<lambda>_. broadcast (VoteMessage v))))"
  by (rule ensures_then, rule sign_vote_memo, rule ensures_given, rule keeps_then, rule assms(1), assumption, rule assms(2))

section \<open>The proof of unlock\<close>

lemma objectors_unlock:
  assumes "\<forall>v \<in> set votes. memo_ok C v"
  shows "unlocks C h w votes vals \<longleftrightarrow>
     two_thirds (length vals) \<le> card (objectors C (VoteSet_new VT_PRECOMMIT h (w - 1) vals) votes)"
proof -
  let ?s = "VoteSet_new VT_PRECOMMIT h (w - 1) vals"
  note r = addVotes_sets [OF assms voteset_ok_new, of VT_PRECOMMIT h "w - 1" vals]
  then have ok: "voteset_ok C (snd (addVotes C votes ?s))" and "vs_twoThirds (snd (addVotes C votes ?s)) = two_thirds (length vals)"
    by (simp_all add: same_set_def VoteSet_new_def)
  then show ?thesis
    using r by (simp add: unlocks_def approvers_card(2) [OF ok] new_sets)
qed

text \<open>The rejections of a vote set that rejects prove the unlock of the next view.\<close>

lemma rejections_unlock:
  assumes s: "vote_set_for C VT_PRECOMMIT h w vals s" and r: "isRejected s"
  shows "\<forall>v \<in> set (getRejections s). memo_ok C v" "unlocks C h (w + 1) (getRejections s) vals"
proof -
  have ok: "voteset_ok C s" using s by (simp add: vote_set_for_def)
  have entry: "counted C s p v \<and> \<not> vt_value v" if "(p, v) \<in> set (vs_rejections s)" for p v
    using voteset_okD(3,7) [OF ok] that by auto
  then show memo: "\<forall>v \<in> set (getRejections s). memo_ok C v"
    by (auto simp: getRejections_def counted_def)
  let ?t = "VoteSet_new VT_PRECOMMIT h (w + 1 - 1) vals"
  have same: "vs_type ?t = vs_type s" "vs_height ?t = vs_height s" "vs_view ?t = vs_view s" "vs_validators ?t = vs_validators s"
    using s by (simp_all add: vote_set_for_def) (simp_all add: VoteSet_new_def)
  have "rejecters s \<subseteq> objectors C ?t (getRejections s)"
  proof
    fix p assume "p \<in> rejecters s"
    then obtain v where v: "map_of (vs_rejections s) p = Some v" by (auto simp: rejecters_def)
    then have "v \<in> set (getRejections s)" by (force simp: getRejections_def dest: map_of_SomeD)
    moreover have "countable C ?t p v" "\<not> vt_value v"
      using voteset_okD(7) [OF ok v] same by (auto simp: countable_def counted_def)
    ultimately show "p \<in> objectors C ?t (getRejections s)" by (auto simp: objectors_def)
  qed
  moreover have "objectors C ?t (getRejections s) \<subseteq> set vals" by (auto simp: objectors_def countable_def)
  then have "finite (objectors C ?t (getRejections s))" by (rule finite_subset) simp
  ultimately have "card (rejecters s) \<le> card (objectors C ?t (getRejections s))" by (intro card_mono)
  moreover have "two_thirds (length vals) \<le> card (rejecters s)"
    using r approvers_card(2) [OF ok] voteset_okD(1) [OF ok] s by (simp add: vote_set_for_def)
  ultimately show "unlocks C h (w + 1) (getRejections s) vals"
    by (simp add: objectors_unlock [OF memo])
qed

lemma working_clearVotes:
  assumes "inputs_ok env s" "bf_status s = RUNNING" "bf_state s \<noteq> FINALIZE"
    and "getValidators (nd_chain s) = Inr (bf_validators s)" "getLatestBlockNumber (nd_chain s) = Inr (bf_height s - 1)"
    and "pf_height (bf_proof s) = bf_height s" "pf_view (bf_proof s) = bf_view s"
    and "\<forall>v \<in> set (pf_votes (bf_proof s)). memo_ok (ne_crypto env) v"
    and "bf_view s \<noteq> 0 \<Longrightarrow> unlocks (ne_crypto env) (bf_height s) (bf_view s) (pf_votes (bf_proof s)) (bf_validators s)"
    and "\<And>p. bf_proposal s = Some p \<Longrightarrow> Proposal_getHeight p = bf_height s \<and> Proposal_getView p = bf_view s"
  shows "ensures (\<lambda>t. t = s) clearVotes (\<lambda>_. working env) E"
  unfolding clearVotes_def
  by (rule ensures_mod) (use assms in \<open>auto simp: bft_state_defs vote_set_for_new\<close>)

end
