(* ===== verification/BftInv.thy ===== *)
theory BftInv
  imports BftSpec
begin

text \<open>
  Every handler of the consensus keeps the invariant, and so does every turn of the node: the invariant
  holds in all reachable states. The environment may be any whose caches keep only what they were given
  and whose messages were decoded.
\<close>

section \<open>Handlers of a view\<close>

text \<open>A message comes from the network, decoded.\<close>

definition decoded :: "crypto \<Rightarrow> Message \<Rightarrow> bool" where
  "decoded C msg \<longleftrightarrow> (case msg of
     NewViewMessage p \<Rightarrow> \<exists>bs. Proof_fromBytes bs = Inr p
   | ProposalMessage p \<Rightarrow> \<exists>bs. Proposal_fromBytes C bs = Inr p
   | VoteMessage v \<Rightarrow> \<exists>bs. Vote_fromBytes bs = Inr v
   | _ \<Rightarrow> True)"

definition node_env_ok :: "NodeEnv \<Rightarrow> bool" where
  "node_env_ok env \<longleftrightarrow> (\<forall>c. set (ne_evict_blocks env c) \<subseteq> set c) \<and>
     (\<forall>n peer msg. FromPeer peer msg \<in> set (ne_schedule env n) \<longrightarrow> decoded (ne_crypto env) msg)"

lemma read_times_set:
  "read_times n rd d = Inr (xs, d') \<Longrightarrow> x \<in> set xs \<Longrightarrow> \<exists>d d'. rd d = Inr (x, d')"
  by (induction n arbitrary: d xs) (auto simp: rbind_eq_Inr, blast)

lemma proof_votes_memo: "Proof_fromBytes bs = Inr p \<Longrightarrow> v \<in> set (pf_votes p) \<Longrightarrow> memo_ok C v"
  by (auto simp: Proof_fromBytes_def rbind_eq_Inr read_parsed_def dest!: read_times_set dest: memo_ok_fromBytes)

lemma proposal_votes_memo: "Proposal_fromBytes C bs = Inr p \<Longrightarrow> v \<in> set (pf_votes (pp_proof p)) \<Longrightarrow> memo_ok C v"
  by (auto simp: Proposal_fromBytes_def Proposal_raw_def rbind_eq_Inr read_parsed_def dest: proof_votes_memo)

lemma keeps_set_state: "st \<noteq> FINALIZE \<Longrightarrow> keeps (working env) (set_state st)"
  unfolding set_state_def by (rule keeps_mod) (simp add: bft_state_defs)

lemma keeps_updateValidators:
  "keeps (working env) (bft_updateValidators e)" "keeps (settled env) (bft_updateValidators e)"
proof -
  have rest: "keeps P (a_then (a_mod (\<lambda>s. s\<lparr>bf_activeValidators := find_active (bf_validators s) s\<rparr>)) (\<lambda>_.
      a_then (clock e) (\<lambda>now. a_mod (\<lambda>s. s\<lparr>bf_lastUpdate := now\<rparr>))))" if "P = working env \<or> P = settled env" for P
    using that by (auto intro!: keeps_then keeps_mod keeps_clock)
  have "keeps P (bft_updateValidators e)"
    if P: "P = working env \<or> P = settled env" for P
    unfolding bft_updateValidators_def
    by (rule ensures_then_res, rule ensures_then_mod [OF _ rest [OF P]])
      (use P in \<open>auto simp: bft_state_defs\<close>)
  then show "keeps (working env) (bft_updateValidators e)" "keeps (settled env) (bft_updateValidators e)" by blast+
qed

lemma next_view_runs:
  "next_view s = Some (Inr (),
     if isRejected (bf_precommitVotes s)
     then s\<lparr>bf_view := bf_view s + 1,
         bf_proof := \<lparr>pf_height = bf_height s, pf_view = bf_view s + 1, pf_votes = getRejections (bf_precommitVotes s)\<rparr>,
         bf_proposal := None,
         bf_validateVotes := VoteSet_new VT_VALIDATE (bf_height s) (bf_view s + 1) (bf_validators s),
         bf_precommitVotes := VoteSet_new VT_PRECOMMIT (bf_height s) (bf_view s + 1) (bf_validators s),
         bf_commitVotes := VoteSet_new VT_COMMIT (bf_height s) (bf_view s + 1) (bf_validators s)\<rparr>
     else s)"
  by (simp add: next_view_def clearVotes_def run_simps)

lemma keeps_next_view: "keeps (working env) next_view"
proof (rule ensuresI)
  fix s x t assume s: "working env s" and t: "next_view s = Some (Inr x, t)"
  show "working env t"
  proof (cases "isRejected (bf_precommitVotes s)")
    case True
    have "vote_set_for (ne_crypto env) VT_PRECOMMIT (bf_height s) (bf_view s) (voters s) (bf_precommitVotes s)"
      using s by (simp add: working_def aligned_def)
    note u = rejections_unlock [OF this True]
    have w: "inputs_ok env s" "bf_status s = RUNNING" "bf_state s \<noteq> FINALIZE" "getValidators (nd_chain s) = Inr (bf_validators s)"
      "getLatestBlockNumber (nd_chain s) = Inr (bf_height s - 1)" "voters s = bf_validators s"
      using s by (simp_all add: working_def in_view_def)
    have "working env (s\<lparr>bf_view := bf_view s + 1,
         bf_proof := \<lparr>pf_height = bf_height s, pf_view = bf_view s + 1, pf_votes = getRejections (bf_precommitVotes s)\<rparr>,
         bf_proposal := None,
         bf_validateVotes := VoteSet_new VT_VALIDATE (bf_height s) (bf_view s + 1) (bf_validators s),
         bf_precommitVotes := VoteSet_new VT_PRECOMMIT (bf_height s) (bf_view s + 1) (bf_validators s),
         bf_commitVotes := VoteSet_new VT_COMMIT (bf_height s) (bf_view s + 1) (bf_validators s)\<rparr>)"
      using w u by (simp add: working_def inputs_ok_def aligned_def in_view_def vote_set_for_new)
    then show ?thesis using t True by (simp add: next_view_runs)
  qed (use s t in \<open>simp add: next_view_runs\<close>)
qed (simp add: next_view_runs)

lemma keeps_make_proposal: "keeps (working env) (make_proposal env)"
proof -
  have "keeps (working env) (proposeBlock env)"
    unfolding proposeBlock_def Let_def by (intro keeps_then keeps_intros)
  moreover have "ensures (\<lambda>s. working env s \<and>
        rbind (Proposal_new (bf_proof s) (bl_header b) (bl_transactions b)) (Proposal_sign (ne_crypto env) (ne_key env)) = Inr p)
      (a_mod (\<lambda>s. s\<lparr>bf_proposal := Some p\<rparr>)) (\<lambda>_. working env) (working env)" for b p
    by (rule ensures_mod)
      (auto simp: bft_state_defs rbind_eq_Inr Proposal_new_def Proposal_sign_def Proposal_getHeight_def Proposal_getView_def)
  ultimately show ?thesis
    unfolding make_proposal_def
    by (intro keeps_then keeps_pure keeps_when ensures_then_res) auto
qed

lemma keeps_each: "(\<And>x. keeps P (f x)) \<Longrightarrow> keeps P (a_each f xs)"
  by (rule ensures_each) simp

lemma keeps_enterPropose: "keeps (working env) (enterPropose env)"
  unfolding enterPropose_def
  by (intro keeps_then keeps_set_state keeps_resetTimeout keeps_updateValidators keeps_next_view keeps_isPrimary
      keeps_make_proposal keeps_intros keeps_each) simp_all

lemma keeps_validateBlock:
  assumes "node_env_ok env"
  shows "keeps (working env) (bft_validateBlock env header txs)"
proof -
  have "working env (s\<lparr>bf_validBlocks := ne_evict_blocks env (AList.update (bh_hash (bl_header b)) b (bf_validBlocks s))\<rparr>)"
    if "working env s" for s b
  proof -
    have "set (ne_evict_blocks env (AList.update (bh_hash (bl_header b)) b (bf_validBlocks s))) \<subseteq>
        insert (bh_hash (bl_header b), b) (set (bf_validBlocks s))"
      using assms set_update_subset [of "bh_hash (bl_header b)" b "bf_validBlocks s"] unfolding node_env_ok_def by blast
    then show ?thesis using that by (auto simp: bft_state_defs)
  qed
  then show ?thesis
    unfolding bft_validateBlock_def bft_header_ok_def Let_def
    by (intro keeps_then keeps_intros keeps_mod) simp_all
qed

lemma keeps_enterValidate: "node_env_ok env \<Longrightarrow> keeps (working env) (enterValidate env)"
  unfolding enterValidate_def
  by (intro keeps_then keeps_set_state keeps_resetTimeout keeps_cases keeps_pure keeps_validateBlock keeps_own_vote keeps_add_vote
      keeps_broadcast) simp_all

lemma keeps_enterPreCommit: "keeps (working env) (enterPreCommit env)"
  unfolding enterPreCommit_def
  by (intro keeps_then keeps_set_state keeps_resetTimeout keeps_cases keeps_pure keeps_own_vote keeps_add_vote keeps_broadcast) simp_all

lemma keeps_enterCommit: "keeps (working env) (enterCommit env)"
  unfolding enterCommit_def
  by (intro keeps_then keeps_set_state keeps_resetTimeout keeps_cases keeps_pure keeps_own_vote keeps_add_vote keeps_broadcast) simp_all

section \<open>A new height\<close>

text \<open>Between the new height and the new vote sets: only the chain can fail.\<close>

definition renewing :: "NodeEnv \<Rightarrow> Bft \<Rightarrow> bool" where
  "renewing env s \<longleftrightarrow> inputs_ok env s \<and> bf_status s = RUNNING \<and> bf_state s = NEW_HEIGHT \<and>
     getLatestBlockNumber (nd_chain s) = Inr (bf_height s - 1) \<and> bf_view s = 0 \<and>
     bf_proof s = Proof_empty (bf_height s) 0 \<and> bf_proposal s = None"

lemma renewing_readable:
  assumes "renewing env s" "chain_readable env (nd_chain s)"
  shows "is_ok (getActivatedForks (nd_chain s))" "is_ok (getValidators (nd_chain s))"
    "is_ok (forkActivated (ne_chain env) (bf_height s) UNIFORM_DISTRIBUTION (nd_chain s))"
  using assms by (auto simp: renewing_def chain_readable_def getLatestBlockNumber_def rmap_eq_Inr diff_eq_eq)

lemma renewing_irrelevant [simp]:
  "renewing env (s\<lparr>nd_reads := a\<rparr>) = renewing env s" "renewing env (s\<lparr>bf_lastUpdate := f\<rparr>) = renewing env s"
  "renewing env (s\<lparr>bf_activeValidators := e\<rparr>) = renewing env s" "renewing env (s\<lparr>bf_activatedForks := d\<rparr>) = renewing env s"
  "renewing env (s\<lparr>bf_validators := v\<rparr>) = renewing env s"
  "renewing env (s\<lparr>nd_chain := (nd_chain s)\<lparr>ch_memory := m\<rparr>\<rparr>) = renewing env s"
  by (simp_all add: renewing_def inputs_ok_def)

lemma renew_activateForks: "ensures (renewing env) (bft_activateForks env) (\<lambda>_. renewing env) (bft_fails env)"
proof (rule ensuresI)
  fix s x t assume s: "renewing env s" and x: "bft_activateForks env s = Some (Inr x, t)"
  show "renewing env t"
    using s x
    by (auto simp: bft_activateForks_def chain_forkActivated_def run_simps split: if_splits sum.splits prod.splits)
      (metis forkActivated_fields renewing_irrelevant(4) renewing_irrelevant(6))+
next
  fix s e t assume s: "renewing env s" and x: "bft_activateForks env s = Some (Inl e, t)"
  then have "t = s \<and> forkActivated (ne_chain env) (bf_height s) UNIFORM_DISTRIBUTION (nd_chain s) = Inl e"
    by (auto simp: bft_activateForks_def chain_forkActivated_def run_simps split: if_splits sum.splits prod.splits)
  then show "bft_fails env t" using renewing_readable(3) [OF s] by (auto simp: is_ok_def)
qed

definition renewed :: "NodeEnv \<Rightarrow> Bft \<Rightarrow> bool" where
  "renewed env s \<longleftrightarrow> renewing env s \<and> getValidators (nd_chain s) = Inr (bf_validators s)"

lemma renew_updateValidators: "ensures (renewing env) (bft_updateValidators env) (\<lambda>_. renewed env) (bft_fails env)"
  unfolding bft_updateValidators_def
proof (rule ensures_then_res)
  fix vs
  have irr: "renewed env (s\<lparr>nd_reads := a\<rparr>) = renewed env s" "renewed env (s\<lparr>bf_lastUpdate := f\<rparr>) = renewed env s"
    "renewed env (s\<lparr>bf_activeValidators := e\<rparr>) = renewed env s" for s a f e by (simp_all add: renewed_def)
  have "keeps (renewed env) (a_then (a_mod (\<lambda>s. s\<lparr>bf_activeValidators := find_active (bf_validators s) s\<rparr>)) (\<lambda>_.
      a_then (clock env) (\<lambda>now. a_mod (\<lambda>s. s\<lparr>bf_lastUpdate := now\<rparr>))))"
    unfolding clock_def by (intro keeps_then keeps_mod keeps_pure) (simp_all add: irr)
  then have "ensures (renewed env) (a_then (a_mod (\<lambda>s. s\<lparr>bf_activeValidators := find_active (bf_validators s) s\<rparr>)) (\<lambda>_.
      a_then (clock env) (\<lambda>now. a_mod (\<lambda>s. s\<lparr>bf_lastUpdate := now\<rparr>)))) (\<lambda>_. renewed env) (bft_fails env)"
    by (auto simp: ensures_def clock_def run_simps)
  then show "ensures (\<lambda>s. renewing env s \<and> getValidators (nd_chain s) = Inr vs)
     (a_then (a_mod (\<lambda>s. s\<lparr>bf_validators := vs\<rparr>)) (\<lambda>_.
      a_then (a_mod (\<lambda>s. s\<lparr>bf_activeValidators := find_active (bf_validators s) s\<rparr>)) (\<lambda>_.
      a_then (clock env) (\<lambda>now. a_mod (\<lambda>s. s\<lparr>bf_lastUpdate := now\<rparr>)))))
     (\<lambda>_. renewed env) (bft_fails env)"
    by (rule ensures_then_mod [rotated]) (simp add: renewed_def)
next
  fix s e assume "renewing env s" "getValidators (nd_chain s) = Inl e"
  then show "bft_fails env s" using renewing_readable(2) [of env s] by (auto simp: is_ok_def)
qed

lemma renew_clearVotes: "ensures (renewed env) clearVotes (\<lambda>_. working env) E"
  by (rule ensures_fixed, rule working_clearVotes) (auto simp: renewed_def renewing_def Proof_empty_def)

lemma keeps_clearTimer: "keeps (working env) clearTimerAndEvents" "keeps (settled env) clearTimerAndEvents"
  unfolding clearTimerAndEvents_def by (rule keeps_mod, simp add: bft_state_defs)+

lemma working_fails: "keeps (working env) m \<Longrightarrow> ensures (working env) m (\<lambda>_. working env) (bft_fails env)"
  by (erule ensures_weaken; blast)

lemma enterNewHeight_works:
  "ensures (\<lambda>s. inputs_ok env s \<and> bf_status s = RUNNING) (enterNewHeight env) (\<lambda>_. working env) (bft_fails env)"
  unfolding enterNewHeight_def set_state_def
proof (rule ensures_then_mod [where R = "\<lambda>s. inputs_ok env s \<and> bf_status s = RUNNING \<and> bf_state s = NEW_HEIGHT"],
    simp add: inputs_ok_def, rule ensures_then_res)
  fix b :: Block
  let ?rest = "a_then clearVotes (\<lambda>_. a_then clearTimerAndEvents (\<lambda>_. a_then (a_get (isValidator env)) (\<lambda>validator.
     a_then (a_when validator
       (a_then (a_when (cf_network (ne_config env) = MAINNET \<and> \<not> ne_bench env) (a_mod (\<lambda>s. s\<lparr>bf_exit := True\<rparr>))) (\<lambda>_.
        resetTimeout env (cf_bftNewHeightTimeout (ne_config env))))) (\<lambda>_.
     a_then (a_get (\<lambda>s. (bf_height s, nd_channels s))) (\<lambda>(height, channels).
       a_each (\<lambda>c. sendMessage (NewHeightMessage height) (cn_peerId c)) channels)))))"
  have rest: "ensures (renewed env) ?rest (\<lambda>_. working env) (bft_fails env)"
    by (rule ensures_then, rule renew_clearVotes, rule working_fails)
      (intro keeps_then keeps_clearTimer keeps_intros keeps_mod keeps_each; simp)
  show "ensures (\<lambda>s. (inputs_ok env s \<and> bf_status s = RUNNING \<and> bf_state s = NEW_HEIGHT) \<and> non_null (ch_latest (nd_chain s)) = Inr b)
     (a_then (a_mod (\<lambda>s. s\<lparr>bf_height := bh_number (bl_header b) + 1, bf_view := 0,
       bf_proof := Proof_empty (bh_number (bl_header b) + 1) 0, bf_proposal := None\<rparr>)) (\<lambda>_.
     a_then (a_res (\<lambda>s. getActivatedForks (nd_chain s))) (\<lambda>forks.
     a_then (a_mod (\<lambda>s. s\<lparr>bf_activatedForks := forks\<rparr>)) (\<lambda>_.
     a_then (bft_activateForks env) (\<lambda>_.
     a_then (bft_updateValidators env) (\<lambda>_. ?rest))))))
     (\<lambda>_. working env) (bft_fails env)"
  proof (rule ensures_then_mod [where R = "renewing env"])
    have forks: "ensures (renewing env) (a_res (\<lambda>s. getActivatedForks (nd_chain s))) (\<lambda>_. renewing env) (bft_fails env)"
      by (rule ensures_res) (use renewing_readable(1) in \<open>fastforce simp: is_ok_def\<close>)+
    have "ensures (renewing env) (a_mod (\<lambda>s. s\<lparr>bf_activatedForks := forks\<rparr>)) (\<lambda>_. renewing env) (bft_fails env)" for forks
      by (rule ensures_mod) simp
    then show "ensures (renewing env) (a_then (a_res (\<lambda>s. getActivatedForks (nd_chain s))) (\<lambda>forks.
         a_then (a_mod (\<lambda>s. s\<lparr>bf_activatedForks := forks\<rparr>)) (\<lambda>_.
         a_then (bft_activateForks env) (\<lambda>_.
         a_then (bft_updateValidators env) (\<lambda>_. ?rest))))) (\<lambda>_. working env) (bft_fails env)"
      by (intro ensures_then [OF forks] ensures_then [OF renew_activateForks] ensures_then [OF renew_updateValidators] rest)
        (rule ensures_then, assumption, rule ensures_then [OF renew_activateForks], rule ensures_then [OF renew_updateValidators], rule rest)
  qed (auto simp: renewing_def inputs_ok_def getLatestBlockNumber_def non_null_def split: option.splits)
qed (auto simp: chain_readable_def non_null_def)

section \<open>Messages and synchronisation\<close>

lemma keeps_add_event:
  "event_ok (ne_crypto env) ev \<Longrightarrow> keeps (working env) (add_event ev)"
  "event_ok (ne_crypto env) ev \<Longrightarrow> keeps (settled env) (add_event ev)"
  unfolding add_event_def by (rule keeps_mod, simp add: bft_state_defs)+

lemma keeps_disconnect: "keeps (working env) (disconnect p)" "keeps (settled env) (disconnect p)"
  unfolding disconnect_def by (rule keeps_mod, simp)+

lemma keeps_setLatest: "keeps (working env) (setLatestBlockNumber p n)" "keeps (settled env) (setLatestBlockNumber p n)"
  unfolding setLatestBlockNumber_def by (rule keeps_mod, simp)+

lemma revalidate_memo: "memo_ok C (snd (revalidate C v))"
  by (simp add: revalidate_def memo_ok_def Let_def)

lemma onMessage_keeps:
  assumes msg: "decoded (ne_crypto env) msg" and ev: "\<And>ev. event_ok (ne_crypto env) ev \<Longrightarrow> keeps P (add_event ev)"
    and dis: "\<And>p. keeps P (disconnect p)" and latest: "\<And>p n. keeps P (setLatestBlockNumber p n)"
  shows "keeps P (bft_onMessage env c msg)"
proof -
  have "keeps P (case msg of NewHeightMessage n \<Rightarrow> on_new_height_message c n | NewViewMessage p \<Rightarrow> on_new_view_message c p
      | ProposalMessage p \<Rightarrow> on_proposal_message env c p | VoteMessage v \<Rightarrow> on_vote_message env c v | _ \<Rightarrow> a_ok ())"
  proof (cases msg)
    case (NewHeightMessage n)
    then show ?thesis
      unfolding NewHeightMessage Message.case on_new_height_message_def
      by (intro keeps_then latest keeps_pure keeps_when ev) (simp_all add: event_ok_def)
  next
    case (NewViewMessage p)
    then have "event_ok (ne_crypto env) (Ev_NEW_VIEW p)" "event_ok (ne_crypto env) (Ev_NEW_HEIGHT n)" for n
      using msg proof_votes_memo by (auto simp: event_ok_def decoded_def)
    then show ?thesis
      unfolding NewViewMessage Message.case on_new_view_message_def
      by (intro keeps_then latest keeps_pure keeps_when keeps_if ev)
  next
    case (ProposalMessage p)
    then have "event_ok (ne_crypto env) (Ev_PROPOSAL p)"
      using msg proposal_votes_memo by (auto simp: event_ok_def decoded_def)
    then show ?thesis
      unfolding ProposalMessage Message.case on_proposal_message_def
      by (intro keeps_then keeps_pure keeps_when keeps_if ev dis)
  next
    case (VoteMessage v)
    then have "event_ok (ne_crypto env) (Ev_VOTE (snd (revalidate (ne_crypto env) v)))"
      using revalidate_memo [of "ne_crypto env" v] by (simp add: event_ok_def)
    then have "keeps P (let (valid, v) = revalidate (ne_crypto env) v in if valid then add_event (Ev_VOTE v) else disconnect c)"
      by (cases "revalidate (ne_crypto env) v") (simp add: ev dis)
    then show ?thesis
      unfolding VoteMessage Message.case on_vote_message_def by (intro keeps_then keeps_pure keeps_when)
  qed (simp_all add: keeps_pure)
  then show ?thesis unfolding bft_onMessage_def by (intro keeps_then keeps_pure keeps_when)
qed

lemma keeps_onMessage:
  assumes "decoded (ne_crypto env) msg"
  shows "keeps (working env) (bft_onMessage env c msg)" "keeps (settled env) (bft_onMessage env c msg)"
    "keeps (\<lambda>s. bf_status s = st) (bft_onMessage env c msg)"
  by (rule onMessage_keeps [OF assms], (erule keeps_add_event, rule keeps_disconnect, rule keeps_setLatest)?)+
    (simp_all add: add_event_def disconnect_def setLatestBlockNumber_def ensures_mod)

text \<open>Stopping ends in a settled state.\<close>

lemma bft_stop_runs:
  "bft_stop s = Some (Inr (), if bf_status s = STOPPED then s
     else (if bf_status s = SYNCING then sync_stop s else s)\<lparr>bf_threads := False, bf_status := STOPPED, bf_events := bf_events s @ [Ev_STOP]\<rparr>)"
  by (cases "bf_status s") (simp_all add: bft_stop_def add_event_def run_simps sync_stop_def)

lemma stop_settles:
  assumes inv: "bft_inv env s" and x: "bft_stop s = Some (r, t)"
  shows "settled env t \<and> bf_status t = STOPPED"
proof (cases "bf_status s = STOPPED")
  case True
  then show ?thesis using inv x by (simp add: bft_stop_runs bft_inv_def settled_def)
next
  case False
  let ?u = "s\<lparr>bf_threads := False, bf_status := STOPPED, bf_events := bf_events s @ [Ev_STOP]\<rparr>"
  have u: "settled env ?u"
    using inv unfolding bft_inv_def by (elim conjE) (simp add: settled_def inputs_ok_def aligned_def event_ok_def)
  have t: "t = (if bf_status s = SYNCING then sync_stop s else s)
      \<lparr>bf_threads := False, bf_status := STOPPED, bf_events := bf_events s @ [Ev_STOP]\<rparr>"
    using x False by (simp add: bft_stop_runs)
  then have "Sync.more t = Sync.more ?u" by (cases s) (simp add: sync_stop_def)
  with settled_frame [OF this] u show ?thesis using t by simp
qed

text \<open>While the node synchronises the consensus is not running.\<close>

definition paused :: "NodeEnv \<Rightarrow> Bft \<Rightarrow> bool" where
  "paused env s \<longleftrightarrow> settled env s \<and> bf_status s \<noteq> RUNNING"

lemma other_paused:
  assumes "node_env_ok env" "ev \<in> set (ne_schedule env n)" "paused env s" "bft_other env ev s = Some (r, t)"
  shows "paused env t"
proof (cases ev)
  case (FromPeer c msg)
  then have "decoded (ne_crypto env) msg" using assms(1,2) by (simp add: node_env_ok_def)
  note keep = keeps_onMessage(2) [OF this, of c] keeps_onMessage(3) [OF this, of "bf_status s" c]
  have run: "bft_onMessage env c msg s = Some (r, t)" using assms(4) FromPeer by (simp add: bft_other_def)
  have "settled env s" "bf_status s \<noteq> RUNNING" using assms(3) by (simp_all add: paused_def)
  then have "settled env t" "bf_status t = bf_status s"
    using run keep unfolding ensures_def by (cases r; blast)+
  with assms(3) show ?thesis by (simp add: paused_def)
next
  case StopCall
  then show ?thesis
    using assms(3,4) stop_settles [of env s r t] by (auto simp: paused_def bft_other_def)
qed (use assms(3,4) in \<open>simp_all add: bft_other_def run_act\<close>)

lemma paused_frame: "Sync.more t = Sync.more s \<Longrightarrow> paused env t = paused env s"
  using settled_frame [of t s env] more_fields(1) [of t s] by (simp add: paused_def)

lemma start_paused:
  assumes "node_env_ok env"
  shows "keeps (paused env) (sync_start env (bft_other env) target)"
proof -
  let ?P = "\<lambda>x. \<exists>s. Sync.more s = x \<and> paused env s"
  have "keeps_ext ?P (bft_other env ev)" if "ev \<in> set (ne_schedule env n)" for n ev
    by (rule keeps_extI) (metis other_paused [OF assms that] paused_frame)
  then have x: "keeps_ext ?P (sync_start env (bft_other env) target)" by (rule keeps_ext_start)
  have "paused env t" if "paused env s" "sync_start env (bft_other env) target s = Some (r, t)" for s r t
    using keeps_extD [OF x, of s r t] that paused_frame by metis
  then show ?thesis by (intro ensuresI)
qed

lemma sync_works:
  assumes "node_env_ok env"
  shows "ensures (bft_inv env) (bft_sync env target) (\<lambda>_. bft_inv env) (bft_fails env)"
  unfolding bft_sync_def
proof (rule ensures_then_get, rule ensures_when)
  fix status :: Status
  assume run: "status = RUNNING"
  have pause: "ensures (\<lambda>s. bft_inv env s \<and> bf_status s = status) (a_mod (\<lambda>s. s\<lparr>bf_status := SYNCING\<rparr>))
      (\<lambda>_. paused env) (bft_fails env)"
    by (rule ensures_mod) (auto simp: paused_def bft_inv_def bft_state_defs)
  have votes: "ensures (paused env) clearVotes (\<lambda>_. paused env) (bft_fails env)"
    unfolding clearVotes_def
    by (rule ensures_mod) (auto simp: paused_def settled_def inputs_ok_def aligned_def vote_set_for_new)
  have timer: "ensures (paused env) clearTimerAndEvents (\<lambda>_. paused env) (bft_fails env)"
    unfolding clearTimerAndEvents_def
    by (rule ensures_mod) (auto simp: paused_def settled_def inputs_ok_def aligned_def)
  have start: "ensures (paused env) (sync_start env (bft_other env) target) (\<lambda>_. paused env) (bft_fails env)"
    by (rule ensures_weaken [OF start_paused [OF assms]]) (auto simp: paused_def)
  have restart: "ensures (paused env) (a_then (a_get bf_status) (\<lambda>status.
        a_when (status \<noteq> STOPPED) (a_then (a_mod (\<lambda>s. s\<lparr>bf_status := RUNNING\<rparr>)) (\<lambda>_. enterNewHeight env))))
     (\<lambda>_. bft_inv env) (bft_fails env)"
  proof (rule ensures_then_get, rule ensures_when)
    fix status :: Status
    show "ensures (\<lambda>s. paused env s \<and> bf_status s = status) (a_then (a_mod (\<lambda>s. s\<lparr>bf_status := RUNNING\<rparr>)) (\<lambda>_. enterNewHeight env))
        (\<lambda>_. bft_inv env) (bft_fails env)"
      by (rule ensures_then_mod [where R = "\<lambda>s. inputs_ok env s \<and> bf_status s = RUNNING"])
        (simp add: paused_def settled_def inputs_ok_def, rule ensures_weaken [OF enterNewHeight_works], blast+)
  qed (auto simp: paused_def)
  show "ensures (\<lambda>s. bft_inv env s \<and> bf_status s = status)
     (a_then (a_mod (\<lambda>s. s\<lparr>bf_status := SYNCING\<rparr>)) (\<lambda>_. a_then clearVotes (\<lambda>_. a_then clearTimerAndEvents (\<lambda>_.
      a_then (sync_start env (bft_other env) target) (\<lambda>_. a_then (a_get bf_status) (\<lambda>status.
        a_when (status \<noteq> STOPPED) (a_then (a_mod (\<lambda>s. s\<lparr>bf_status := RUNNING\<rparr>)) (\<lambda>_. enterNewHeight env)))))))) 
     (\<lambda>_. bft_inv env) (bft_fails env)"
    by (rule ensures_then [OF pause], rule ensures_then [OF votes], rule ensures_then [OF timer],
        rule ensures_then [OF start], rule restart)
qed auto

section \<open>Finalising\<close>

lemma frame_applyBlock: "frame (bft_applyBlock env b)"
  unfolding bft_applyBlock_def by (intro frame_intros frame_commit_block)

lemma finalized_header [simp]: "bl_header (finalized s h b) = bl_header b"
  by (simp add: finalized_def)

lemma set_FINALIZE: "bft_inv env s \<Longrightarrow> settled env (s\<lparr>bf_state := FINALIZE\<rparr>)"
  by (simp add: bft_inv_def settled_def inputs_ok_def aligned_def)

lemma settled_cache:
  assumes "settled env s" "map_of (bf_validBlocks s) h = Some b" "bl_header b' = bl_header b"
  shows "settled env (s\<lparr>bf_validBlocks := AList.update h b' (bf_validBlocks s)\<rparr>)"
proof -
  have "bh_hash (bl_header b) = h"
    using map_of_SomeD [OF assms(2)] assms(1) by (auto simp: settled_def inputs_ok_def)
  then show ?thesis
    using assms(1,3) set_update_subset [of h b' "bf_validBlocks s"]
    by (auto simp: settled_def inputs_ok_def aligned_def)
qed

lemma enterFinalize_works:
  assumes "node_env_ok env"
  shows "ensures (bft_inv env) (enterFinalize env) (\<lambda>_. bft_inv env) (bft_fails env)"
  unfolding enterFinalize_def set_state_def
proof (rule ensures_then_get, rule ensures_when)
  fix st :: BftState
  let ?look = "\<lambda>s. Option.bind (anyApproved (bf_precommitVotes s)) (\<lambda>h.
    map_option (\<lambda>b. (h, finalized s h b)) (map_of (bf_validBlocks s) h))"
  have timer: "ensures (settled env) (resetTimeout env t) (\<lambda>_. settled env) (bft_fails env)" for t
    by (rule ensures_weaken [OF keeps_resetTimeout(2)]) blast+
  have sync: "ensures (\<lambda>s. settled env s \<and> X s) (a_then (a_get bf_height) (\<lambda>height. bft_sync env (height + 1)))
     (\<lambda>_. bft_inv env) (bft_fails env)" for X
    by (rule ensures_then_get, rule ensures_weaken [OF sync_works [OF assms]]) blast+
  have commit: "ensures (\<lambda>s. settled env s \<and> ?look s = Some (h, b))
     (a_then (a_mod (\<lambda>s. s\<lparr>bf_validBlocks := AList.update h b (bf_validBlocks s)\<rparr>)) (\<lambda>_. bft_applyBlock env b))
     (\<lambda>_. bft_inv env) (bft_fails env)" for h b
    by (rule ensures_then_mod [where R = "settled env"])
      (auto simp: Option.bind_eq_Some_conv intro: settled_cache ensures_weaken [OF ensures_frame [OF frame_applyBlock]])
  have body: "ensures (\<lambda>s. settled env s \<and> ?look s = found)
      (case found of
         Some (h, b) \<Rightarrow> a_then (a_mod (\<lambda>s. s\<lparr>bf_validBlocks := AList.update h b (bf_validBlocks s)\<rparr>)) (\<lambda>_. bft_applyBlock env b)
       | None \<Rightarrow> a_then (a_get bf_height) (\<lambda>height. bft_sync env (height + 1)))
      (\<lambda>_. bft_inv env) (bft_fails env)" for found
    by (cases found) (use commit sync in auto)
  show "ensures (\<lambda>s. bft_inv env s \<and> bf_state s = st)
     (a_then (a_mod (\<lambda>s. s\<lparr>bf_state := FINALIZE\<rparr>)) (\<lambda>_.
      a_then (resetTimeout env (cf_bftFinalizeTimeout (ne_config env))) (\<lambda>_.
      a_then (a_get ?look) (\<lambda>found.
        case found of
          Some (h, b) \<Rightarrow> a_then (a_mod (\<lambda>s. s\<lparr>bf_validBlocks := AList.update h b (bf_validBlocks s)\<rparr>)) (\<lambda>_. bft_applyBlock env b)
        | None \<Rightarrow> a_then (a_get bf_height) (\<lambda>height. bft_sync env (height + 1))))))
     (\<lambda>_. bft_inv env) (bft_fails env)"
    by (rule ensures_then_mod [where R = "settled env"], blast intro: set_FINALIZE, rule ensures_then [OF timer],
        rule ensures_then_get, rule body)
qed blast

section \<open>Events\<close>

lemma working_weak: "keeps (working env) m \<Longrightarrow> (\<And>s. P s \<Longrightarrow> working env s) \<Longrightarrow> ensures P m (\<lambda>_. bft_inv env) (bft_fails env)"
  by (erule ensures_weaken) blast+

lemma inv_working: "bft_inv env s \<Longrightarrow> bf_status s = RUNNING \<Longrightarrow> bf_state s \<noteq> FINALIZE \<Longrightarrow> working env s"
  by (simp add: bft_inv_def working_def)

lemma jumpToView_works:
  assumes p: "pf_view p = w" "\<And>q. proposal = Some q \<Longrightarrow> pp_proof q = p" and memo: "\<forall>v \<in> set (pf_votes p). memo_ok (ne_crypto env) v"
  shows "ensures (\<lambda>s. working env s \<and> pf_height p = bf_height s \<and>
      (w \<noteq> 0 \<longrightarrow> unlocks (ne_crypto env) (pf_height p) w (pf_votes p) (bf_validators s)))
    (jumpToView env w p proposal) (\<lambda>_. bft_inv env) (bft_fails env)"
  unfolding jumpToView_def
proof (rule ensures_fixed, rule ensures_then_mod)
  fix s assume s: "working env s \<and> pf_height p = bf_height s \<and>
    (w \<noteq> 0 \<longrightarrow> unlocks (ne_crypto env) (pf_height p) w (pf_votes p) (bf_validators s))"
  let ?t = "s\<lparr>bf_view := w, bf_proof := p, bf_proposal := proposal\<rparr>"
  show "t = s \<Longrightarrow> t\<lparr>bf_view := w, bf_proof := p, bf_proposal := proposal\<rparr> = ?t" for t by simp
  have w: "inputs_ok env s" "bf_status s = RUNNING" "bf_state s \<noteq> FINALIZE" "getValidators (nd_chain s) = Inr (bf_validators s)"
    "getLatestBlockNumber (nd_chain s) = Inr (bf_height s - 1)" "pf_height p = bf_height s"
    "w \<noteq> 0 \<longrightarrow> unlocks (ne_crypto env) (bf_height s) w (pf_votes p) (bf_validators s)"
    using s by (auto simp: working_def in_view_def)
  have "ensures (\<lambda>t. t = ?t) clearVotes (\<lambda>_. working env) (bft_fails env)"
    by (rule working_clearVotes)
      (use w p memo in \<open>simp_all add: inputs_ok_def Proposal_getHeight_def Proposal_getView_def\<close>)
  then show "ensures (\<lambda>t. t = ?t) (a_then clearVotes (\<lambda>_. a_then clearTimerAndEvents (\<lambda>_. enterPropose env)))
      (\<lambda>_. bft_inv env) (bft_fails env)"
    by (rule ensures_then) (rule working_weak [OF keeps_then [OF keeps_clearTimer(1) keeps_enterPropose]])
qed

text \<open>The handlers run while the consensus does.\<close>

abbreviation serves :: "NodeEnv \<Rightarrow> 'a bft_act \<Rightarrow> bool" where
  "serves env m \<equiv> ensures (\<lambda>s. bft_inv env s \<and> bf_status s = RUNNING) m (\<lambda>_. bft_inv env) (bft_fails env)"

lemma onNewView_works:
  assumes "\<forall>v \<in> set (pf_votes p). memo_ok (ne_crypto env) v"
  shows "serves env (onNewView env p)"
  unfolding onNewView_def
proof (rule ensures_then_get, rule ensures_when, rule ensures_when)
  fix x :: Bft
  assume x: "pf_height p = bf_height x \<and> sint (bf_view x) < sint (pf_view p) \<and> bf_state x \<noteq> COMMIT \<and> bf_state x \<noteq> FINALIZE"
    "unlocks (ne_crypto env) (pf_height p) (pf_view p) (pf_votes p) (bf_validators x)"
  show "ensures (\<lambda>s. (bft_inv env s \<and> bf_status s = RUNNING) \<and> id s = x) (jumpToView env (pf_view p) p None)
      (\<lambda>_. bft_inv env) (bft_fails env)"
    by (rule ensures_weaken [OF jumpToView_works [where proposal = None, OF refl _ assms]]) (use x in \<open>auto intro: inv_working\<close>)
qed blast+

lemma isPrimary_outcome:
  assumes "isPrimary env h w p s = Some (r, t)"
  shows "\<exists>m. t = s\<lparr>nd_chain := (nd_chain s)\<lparr>ch_memory := m\<rparr>\<rparr>"
  using assms unfolding isPrimary_def
proof (rule a_then_outcome)
  fix x u
  assume u: "chain_forkActivated env h s = Some (Inr x, u)"
    and v: "a_then (a_call (\<lambda>s. getPrimaryValidator (ne_crypto env) (bf_validators s) h w x)) (\<lambda>q. a_ok (q = p)) u = Some (r, t)"
  have "t = u" using v by (auto simp: run_simps split: option.splits sum.splits)
  with chain_forkActivated_outcome [OF u] show ?thesis by simp
qed (rule chain_forkActivated_outcome)

lemma expects_working: "expects p s \<Longrightarrow> bft_inv env s \<Longrightarrow> bf_status s = RUNNING \<Longrightarrow> working env s"
  by (rule inv_working) (auto simp: expects_def)

text \<open>The last part of \<open>onProposal\<close>: the proposal is taken.\<close>

lemma take_proposal_works:
  assumes memo: "\<forall>v \<in> set (pf_votes (pp_proof p)). memo_ok (ne_crypto env) v"
  shows "ensures (\<lambda>s. working env s \<and> expects p s \<and> proof_fits env p s)
    (a_then (broadcast (ProposalMessage p)) (\<lambda>_. a_then (a_get bf_view) (\<lambda>view.
       if view = Proposal_getView p then a_mod (\<lambda>s. s\<lparr>bf_proposal := Some p\<rparr>)
       else jumpToView env (Proposal_getView p) (pp_proof p) (Some p)))) (\<lambda>_. bft_inv env) (bft_fails env)"
  unfolding broadcast_def
proof (rule ensures_then_mod [where R = "\<lambda>s. working env s \<and> expects p s \<and> proof_fits env p s"])
  show "working env s \<and> expects p s \<and> proof_fits env p s \<Longrightarrow>
      working env (s\<lparr>bf_broadcasts := bf_broadcasts s @ [ProposalMessage p]\<rparr>) \<and>
      expects p (s\<lparr>bf_broadcasts := bf_broadcasts s @ [ProposalMessage p]\<rparr>) \<and>
      proof_fits env p (s\<lparr>bf_broadcasts := bf_broadcasts s @ [ProposalMessage p]\<rparr>)" for s
    by (auto simp: expects_def proof_fits_def)
next
  show "ensures (\<lambda>s. working env s \<and> expects p s \<and> proof_fits env p s) (a_then (a_get bf_view) (\<lambda>view.
       if view = Proposal_getView p then a_mod (\<lambda>s. s\<lparr>bf_proposal := Some p\<rparr>)
       else jumpToView env (Proposal_getView p) (pp_proof p) (Some p))) (\<lambda>_. bft_inv env) (bft_fails env)"
  proof (rule ensures_then_get)
  fix view
  let ?R = "\<lambda>s. (working env s \<and> expects p s \<and> proof_fits env p s) \<and> bf_view s = view"
  show "ensures ?R (if view = Proposal_getView p then a_mod (\<lambda>s. s\<lparr>bf_proposal := Some p\<rparr>)
       else jumpToView env (Proposal_getView p) (pp_proof p) (Some p)) (\<lambda>_. bft_inv env) (bft_fails env)"
  proof (cases "view = Proposal_getView p")
    case True
    have "working env (s\<lparr>bf_proposal := Some p\<rparr>)" if "?R s" for s
      using that True unfolding working_def expects_def
      by (elim conjE) (simp add: inputs_ok_def aligned_def in_view_def)
    then show ?thesis using True by (auto intro!: ensures_mod)
  next
    case False
    show ?thesis
      unfolding if_not_P [OF False]
      by (rule ensures_weaken [OF jumpToView_works [where proposal = "Some p", OF _ _ memo]])
        (auto simp: expects_def proof_fits_def Proposal_getHeight_def Proposal_getView_def)
  qed
  qed
qed

lemma onProposal_works:
  assumes memo: "\<forall>v \<in> set (pf_votes (pp_proof p)). memo_ok (ne_crypto env) v"
  shows "serves env (onProposal env p)"
  unfolding onProposal_def
proof (rule ensures_then_get, rule ensures_when, rule ensures_then_res, rule ensures_then)
  let ?R = "\<lambda>s. working env s \<and> expects p s"
  fix e :: bool and peer
  assume e: e
  show "ensures (\<lambda>s. ((bft_inv env s \<and> bf_status s = RUNNING) \<and> expects p s = e) \<and>
      rmap (\<lambda>sg. Hex_encode (Signature_getAddress (ne_crypto env) sg)) (non_null (pp_signature p)) = Inr peer)
    (isPrimary env (Proposal_getHeight p) (Proposal_getView p) peer) (\<lambda>_. ?R) (bft_fails env)"
  proof (rule ensures_pre [where P = ?R])
    have "?R t" if "?R s" "isPrimary env (Proposal_getHeight p) (Proposal_getView p) peer s = Some (r, t)" for s r t
    proof -
      note r = that(1) and outcome = isPrimary_outcome [OF that(2)]
      then obtain m where "t = s\<lparr>nd_chain := (nd_chain s)\<lparr>ch_memory := m\<rparr>\<rparr>" by blast
      with r show ?thesis by (simp add: expects_def)
    qed
    then show "ensures ?R (isPrimary env (Proposal_getHeight p) (Proposal_getView p) peer) (\<lambda>_. ?R) (bft_fails env)"
      by (intro ensuresI) blast+
  qed (use e in \<open>auto intro: expects_working\<close>)
next
  fix primary
  show "ensures (\<lambda>s. working env s \<and> expects p s) (a_then (a_get (proof_fits env p)) (\<lambda>fits. a_when (primary \<and> fits)
      (a_then (broadcast (ProposalMessage p)) (\<lambda>_. a_then (a_get bf_view) (\<lambda>view.
       if view = Proposal_getView p then a_mod (\<lambda>s. s\<lparr>bf_proposal := Some p\<rparr>)
       else jumpToView env (Proposal_getView p) (pp_proof p) (Some p)))))) (\<lambda>_. bft_inv env) (bft_fails env)"
    by (rule ensures_then_get, rule ensures_when, rule ensures_pre [OF take_proposal_works [OF memo]]) auto
qed blast+

lemma both_works:
  "keeps (working env) m \<Longrightarrow> keeps (settled env) m \<Longrightarrow> ensures (bft_inv env) m (\<lambda>_. bft_inv env) (bft_fails env)"
  unfolding ensures_def bft_inv_cases by blast

lemma count_vote_works:
  assumes "node_env_ok env" "memo_ok (ne_crypto env) v"
  shows "ensures (bft_inv env) (count_vote env v) (\<lambda>_. bft_inv env) (bft_fails env)"
proof -
  note add = keeps_add_vote [OF assms(2)]
  have fin: "ensures (bft_inv env) (a_when b (enterFinalize env)) (\<lambda>_. bft_inv env) (bft_fails env)" for b
    by (rule ensures_when [OF enterFinalize_works [OF assms(1)]])
  have commit: "ensures (bft_inv env) (a_then (add_commit env v) (\<lambda>added.
          a_then (a_get (\<lambda>s. anyApproved (bf_commitVotes s))) (\<lambda>approved.
          a_then (a_when (approved \<noteq> None) (enterFinalize env)) (\<lambda>_. a_ok added)))) (\<lambda>_. bft_inv env) (bft_fails env)"
    by (rule ensures_then [OF both_works [OF add(5,6)]], rule ensures_then [OF ensures_get], assumption,
        rule ensures_then [OF fin], rule ensures_ok)
  show ?thesis
  proof (cases "vt_type v")
    case None
    then show ?thesis by (auto simp: count_vote_def intro: ensures_throw)
  next
    case (Some ty)
    then show ?thesis
      by (cases ty) (use both_works [OF add(1,2)] both_works [OF add(3,4)] commit in \<open>auto simp: count_vote_def\<close>)
  qed
qed

lemma onVote_works:
  assumes "node_env_ok env" "memo_ok (ne_crypto env) v"
  shows "serves env (onVote env v)"
  unfolding onVote_def
proof (rule ensures_then_get, rule ensures_when, rule ensures_then_res)
  fix x :: Bft and member :: bool
  obtain valid w where w: "(if member then Vote_validate (ne_crypto env) v else (False, v)) = (valid, w)" by fastforce
  have memo: "memo_ok (ne_crypto env) w"
    using w validate_memo(2) [OF assms(2)] assms(2) by (cases member) auto
  have "ensures (bft_inv env) (a_when (member \<and> valid) (a_then (count_vote env w) (\<lambda>added. a_when added (broadcast (VoteMessage w)))))
     (\<lambda>_. bft_inv env) (bft_fails env)"
    by (intro ensures_when ensures_then [OF count_vote_works [OF assms(1) memo]] both_works keeps_broadcast)
  then show "ensures (\<lambda>s. ((bft_inv env s \<and> bf_status s = RUNNING) \<and> id s = x) \<and> isFromValidator env (vt_signature v) s = Inr member)
     (let (valid, v) = if member then Vote_validate (ne_crypto env) v else (False, v)
      in a_when (member \<and> valid) (a_then (count_vote env v) (\<lambda>added. a_when added (broadcast (VoteMessage v)))))
     (\<lambda>_. bft_inv env) (bft_fails env)"
    unfolding w by (simp add: ensures_pre)
qed blast+

lemma onNewHeight_works:
  assumes "node_env_ok env" shows "serves env (onNewHeight env n)"
proof -
  have sync: "ensures (bft_inv env) (a_when b (bft_sync env target)) (\<lambda>_. bft_inv env) (bft_fails env)" for b target
    by (rule ensures_when [OF sync_works [OF assms]])
  have set: "bft_inv env (s\<lparr>bf_activeValidators := e\<rparr>) = bft_inv env s" for s e
    by (simp add: bft_inv_cases)
  show ?thesis
    unfolding onNewHeight_def
  proof (rule ensures_then_get, clarsimp split del: if_split, rule ensures_when, rule ensures_then_get, rule ensures_then_mod [where R = "bft_inv env"])
    fix channels :: "Channel list" and height st
    show "ensures (bft_inv env) (case sync_target (map (\<lambda>c. cn_latestBlockNumber c + 1) channels) of
          None \<Rightarrow> a_ok () | Some target \<Rightarrow> a_when (sint height < sint target) (bft_sync env target))
        (\<lambda>_. bft_inv env) (bft_fails env)"
      by (cases "sync_target (map (\<lambda>c. cn_latestBlockNumber c + 1) channels)") (auto intro: sync ensures_ok)
  qed (simp_all add: set)
qed

lemma onTimeout_works:
  assumes "node_env_ok env" shows "serves env (onTimeout env)"
  unfolding onTimeout_def
proof (rule ensures_then_get)
  fix x :: Bft
  have w: "ensures (\<lambda>s. (bft_inv env s \<and> bf_status s = RUNNING) \<and> id s = x) m (\<lambda>_. bft_inv env) (bft_fails env)"
    if "keeps (working env) m" "bf_state x \<noteq> FINALIZE" for m :: "unit bft_act"
    by (rule working_weak [OF that(1)]) (use that(2) in \<open>auto intro: inv_working\<close>)
  note working = w [OF keeps_enterPropose] w [OF keeps_enterValidate [OF assms]] w [OF keeps_enterPreCommit] w [OF keeps_enterCommit]
  have fin: "ensures (\<lambda>s. (bft_inv env s \<and> bf_status s = RUNNING) \<and> id s = x) (enterFinalize env) (\<lambda>_. bft_inv env) (bft_fails env)"
    by (rule ensures_weaken [OF enterFinalize_works [OF assms]]) blast+
  have new: "ensures (\<lambda>s. (bft_inv env s \<and> bf_status s = RUNNING) \<and> id s = x) (enterNewHeight env) (\<lambda>_. bft_inv env) (bft_fails env)"
    by (rule ensures_weaken [OF enterNewHeight_works]) (auto simp: bft_inv_def)
  show "ensures (\<lambda>s. (bft_inv env s \<and> bf_status s = RUNNING) \<and> id s = x)
     (case bf_state x of
         NEW_HEIGHT \<Rightarrow> enterPropose env
       | PROPOSE \<Rightarrow> enterValidate env
       | VALIDATE \<Rightarrow> enterPreCommit env
       | PRE_COMMIT \<Rightarrow> if anyApproved (bf_precommitVotes x) \<noteq> None then enterCommit env else enterPropose env
       | COMMIT \<Rightarrow> enterFinalize env
       | FINALIZE \<Rightarrow> enterNewHeight env) (\<lambda>_. bft_inv env) (bft_fails env)"
    by (cases "bf_state x") (use working fin new in auto)
qed

lemma handle_works:
  assumes "node_env_ok env" "event_ok (ne_crypto env) ev" shows "serves env (handle env ev)"
proof (cases ev)
  case Ev_STOP
  have "bft_inv env (s\<lparr>bf_looping := False\<rparr>) = bft_inv env s" for s by (simp add: bft_inv_cases)
  then show ?thesis using Ev_STOP by (auto simp: handle_def intro!: ensures_mod)
qed (use assms in \<open>simp_all add: handle_def event_ok_def onTimeout_works onNewHeight_works onNewView_works onProposal_works
  onVote_works\<close>)

lemma dispatch_works:
  assumes "node_env_ok env" "event_ok (ne_crypto env) ev"
  shows "ensures (bft_inv env) (dispatch env ev) (\<lambda>_. bft_inv env) (bft_fails env)"
proof -
  let ?R = "\<lambda>s. bft_inv env s \<and> bf_status s = RUNNING"
  have status: "bf_status t = bf_status s" if "bft_updateValidators env s = Some (r, t)" for s r t
    using that by (auto simp: bft_updateValidators_def clock_def run_simps split: sum.splits)
  have up: "ensures (bft_inv env) (bft_updateValidators env) (\<lambda>_. bft_inv env) (bft_fails env)"
    by (rule both_works [OF keeps_updateValidators])
  have update: "ensures ?R (a_when b (bft_updateValidators env)) (\<lambda>_. ?R) (bft_fails env)" for b
  proof (rule ensures_when)
    show "ensures ?R (bft_updateValidators env) (\<lambda>_. ?R) (bft_fails env)"
      by (rule ensuresI) (use status ensuresD [OF up] in metis)+
  qed
  have clock: "ensures ?R (clock env) (\<lambda>_. ?R) (bft_fails env)"
    by (auto simp: ensures_def clock_def run_simps bft_inv_cases)
  have last: "ensures ?R (a_then (a_get bf_lastUpdate) (\<lambda>lastUpdate.
      a_then (a_when (sint (lastUpdate + STUCK_TIME) < sint now) (bft_updateValidators env)) (\<lambda>_. handle env ev)))
      (\<lambda>_. bft_inv env) (bft_fails env)" for now
    by (rule ensures_then_get, rule ensures_pre [OF ensures_then [OF update handle_works [OF assms]]]) blast
  show ?thesis
    unfolding dispatch_def
    by (rule ensures_then_get, rule ensures_when, rule ensures_pre [OF ensures_then [OF clock last]]) blast+
qed

section \<open>Reachable states\<close>

lemma loop_turn_works:
  assumes "node_env_ok env"
  shows "ensures (bft_inv env) (loop_turn env) (\<lambda>_. bft_fails env) (bft_fails env)"
proof -
  have out: "bft_fails env t" if s: "bft_inv env s" and x: "loop_turn env s = Some (r, t)" for s r t
  proof (cases "bf_looping s \<and> bf_status s \<noteq> STOPPED \<and> bf_events s \<noteq> []")
    case False
    then have "t = s \<or> t = s\<lparr>bf_looping := False\<rparr>"
      using x by (auto simp: loop_turn_def split: list.splits if_splits)
    with s show ?thesis by (auto simp: bft_inv_cases)
  next
    case True
    then obtain ev evs where ev: "bf_events s = ev # evs" by (cases "bf_events s") auto
    have rest: "bft_inv env (s\<lparr>bf_events := evs\<rparr>)" "event_ok (ne_crypto env) ev"
      using s ev by (auto simp: bft_inv_def inputs_ok_def aligned_def in_view_def)
    obtain u where "dispatch env ev (s\<lparr>bf_events := evs\<rparr>) = Some (u, t)"
      using x True ev by (auto simp: loop_turn_def a_caught_def)
    then show ?thesis
      using ensuresD [OF dispatch_works [OF assms rest(2)] rest(1)] by (cases u) blast+
  qed
  then show ?thesis by (intro ensuresI) blast+
qed

lemma timer_turn_inv:
  assumes s: "bft_inv env s" and x: "timer_turn env s = Some (r, t)"
  shows "bft_inv env t"
proof -
  let ?u = "s\<lparr>bf_events := bf_events s @ [Ev_TIMEOUT]\<rparr>"
  have u: "bft_inv env ?u"
    using s unfolding bft_inv_def by (elim conjE) (simp add: inputs_ok_def aligned_def in_view_def event_ok_def)
  have "t = s \<or> t = s\<lparr>nd_reads := Suc (nd_reads s)\<rparr> \<or> t = ?u\<lparr>nd_reads := Suc (nd_reads s), bf_timeout := -1\<rparr>"
    using x by (auto simp: timer_turn_def clock_def add_event_def run_simps split: if_splits)
  then show ?thesis using s u by (auto simp: bft_inv_cases)
qed

lemma relay_turn_inv:
  assumes "bft_inv env s" "relay_turn env perm s = Some (r, t)"
  shows "bft_inv env t"
proof (cases "bf_broadcasts s = [] \<or> \<not> bf_threads s")
  case True
  then show ?thesis using assms by (auto simp: relay_turn_def split: list.splits)
next
  case False
  then obtain m ms where m: "bf_broadcasts s = m # ms" by (cases "bf_broadcasts s") auto
  let ?a = "a_each (\<lambda>i. a_when (bf_activeValidators s ! i \<in> set (map cn_peerId (nd_channels s)))
      (sendMessage m (bf_activeValidators s ! i)))
    (take (nat (sint (cf_netRelayRedundancy (ne_config env)))) (filter (\<lambda>i. i < length (bf_activeValidators s)) perm))"
  have "keeps (working env) ?a" "keeps (settled env) ?a"
    by (intro keeps_each keeps_when keeps_send)+
  then have "ensures (bft_inv env) ?a (\<lambda>_. bft_inv env) (bft_inv env)"
    unfolding ensures_def bft_inv_cases by blast
  note run = ensuresD [OF this]
  have "bft_inv env (s\<lparr>bf_broadcasts := ms\<rparr>)" using assms(1) by (simp add: bft_inv_cases)
  moreover have "?a (s\<lparr>bf_broadcasts := ms\<rparr>) = Some (r, t)" using assms(2) False m by (simp add: relay_turn_def)
  ultimately show ?thesis using run by (cases r) blast+
qed

lemma start_works:
  "ensures (bft_inv env) (bft_start env) (\<lambda>_. bft_inv env) (bft_fails env)"
proof -
  have new: "ensures (\<lambda>s. inputs_ok env s \<and> bf_status s = RUNNING) (a_then (enterNewHeight env) (\<lambda>_. a_mod (\<lambda>s. s\<lparr>bf_looping := True\<rparr>)))
      (\<lambda>_. bft_inv env) (bft_fails env)"
    by (rule ensures_then [OF enterNewHeight_works]) (auto intro!: ensures_mod simp: bft_inv_cases)
  show ?thesis
    unfolding bft_start_def
    by (rule ensures_then_get, rule ensures_when, rule ensures_then_mod [OF _ new]) (auto simp: bft_inv_def inputs_ok_def)
qed

text \<open>
  The turns of the threads. The peers and the pool also change by other components; the reads of the
  database a new height needs are taken to succeed.
\<close>

inductive bft_step :: "NodeEnv \<Rightarrow> Bft \<Rightarrow> Bft \<Rightarrow> bool" for env :: NodeEnv where
  turn_start: "bft_start env s = Some (r, t) \<Longrightarrow> chain_readable env (nd_chain t) \<Longrightarrow> bft_step env s t"
| turn_loop: "loop_turn env s = Some (r, t) \<Longrightarrow> chain_readable env (nd_chain t) \<Longrightarrow> bft_step env s t"
| turn_message: "decoded (ne_crypto env) msg \<Longrightarrow> bft_onMessage env c msg s = Some (r, t) \<Longrightarrow> bft_step env s t"
| turn_timer: "timer_turn env s = Some (r, t) \<Longrightarrow> bft_step env s t"
| turn_relay: "relay_turn env perm s = Some (r, t) \<Longrightarrow> bft_step env s t"
| turn_stop: "bft_stop s = Some (r, t) \<Longrightarrow> bft_step env s t"
| turn_peers: "bft_step env s (s\<lparr>nd_channels := cs\<rparr>)"
| turn_pool: "bft_step env s (s\<lparr>nd_pool := pm\<rparr>)"

definition bft_init :: "NodeEnv \<Rightarrow> Bft \<Rightarrow> bool" where
  "bft_init env s \<longleftrightarrow> node_env_ok env \<and> (\<exists>ch pm cs. s = bft_new ch pm cs)"

abbreviation bft_reach :: "NodeEnv \<Rightarrow> Bft \<Rightarrow> bool" where
  "bft_reach env \<equiv> reach (bft_init env) (bft_step env)"

lemma bft_new_inv: "bft_inv env (bft_new ch pm cs)"
  by (simp add: bft_inv_def inputs_ok_def aligned_def vote_set_for_new bft_new_def Proof_empty_def)

lemma message_turn_inv:
  "decoded (ne_crypto env) msg \<Longrightarrow> bft_onMessage env c msg s = Some (r, t) \<Longrightarrow> bft_inv env s \<Longrightarrow> bft_inv env t"
  using keeps_onMessage(1,2) [of env msg c] unfolding ensures_def bft_inv_cases by (cases r) blast+

interpretation consensus: inductive_invariant "bft_init env" "bft_step env" "\<lambda>s. node_env_ok env \<and> bft_inv env s" for env
proof unfold_locales
  fix s assume "bft_init env s"
  then show "node_env_ok env \<and> bft_inv env s" by (auto simp: bft_init_def bft_new_inv)
next
  fix s t assume s: "node_env_ok env \<and> bft_inv env s" and "bft_step env s t"
  from this(2) have "bft_inv env t"
  proof cases
    case (turn_start r)
    then show ?thesis using ensuresD [OF start_works, of env s] s by (cases r) blast+
  next
    case (turn_loop r)
    then show ?thesis using ensuresD [OF loop_turn_works, of env s] s by (cases r) blast+
  next
    case (turn_stop r)
    then show ?thesis using stop_settles s by blast
  next
    case (turn_message msg c r)
    then show ?thesis using message_turn_inv s by blast
  next
    case (turn_timer r)
    then show ?thesis using timer_turn_inv s by blast
  next
    case (turn_relay perm r)
    then show ?thesis using relay_turn_inv s by blast
  next
    case (turn_peers cs)
    then show ?thesis using s by (simp add: bft_inv_cases)
  next
    case (turn_pool pm)
    then show ?thesis using s by (simp add: bft_inv_cases bft_state_defs)
  qed
  with s show "node_env_ok env \<and> bft_inv env t" by blast
qed

end
