(* ===== verification/SyncSpec.thy ===== *)
theory SyncSpec
  imports BftInv
begin

text \<open>
  What the synchronisation accepts: the votes of a block as a certificate of validators, the blocks
  that are added, and the run of a synchronisation whose processing task has died.
\<close>

section \<open>Certificates\<close>

text \<open>The encoding that every voter of a block is expected to have signed.\<close>

definition certificate_bytes :: "Block \<Rightarrow> bytes" where
  "certificate_bytes b = vote_image VT_PRECOMMIT True (bh_number (bl_header b)) (bl_view b) (bh_hash (bl_header b))"

definition signed_by_member :: "crypto \<Rightarrow> bytes \<Rightarrow> string list \<Rightarrow> Signature option \<Rightarrow> bool" where
  "signed_by_member C enc vs sig \<longleftrightarrow> Key_verify C enc sig \<and> (\<exists>sg. sig = Some sg \<and> peer_of C sg \<in> set vs)"

definition keys_of :: "Signature option list \<Rightarrow> bytes set" where
  "keys_of sigs = {sig_a sg | sg. Some sg \<in> set sigs}"

definition certified :: "crypto \<Rightarrow> string list \<Rightarrow> Block \<Rightarrow> bool" where
  "certified C vs b \<longleftrightarrow> (\<forall>sig \<in> set (bl_votes b). signed_by_member C (certificate_bytes b) vs sig) \<and>
     two_thirds (card (set vs)) \<le> card (keys_of (bl_votes b))"

lemma signed_by_remdups [simp]: "signed_by_member C enc (remdups vs) sig = signed_by_member C enc vs sig"
  by (simp add: signed_by_member_def)

lemma Key_verify_None [simp]: "\<not> Key_verify C m None"
  by (simp add: Key_verify_def)

lemma votes_fold:
  "rfold (\<lambda>sig b. if \<not> b then Inr False
       else if \<not> Key_verify C enc sig then Inr False
       else rmap (\<lambda>sg. Hex_encode (Signature_getAddress C sg) \<in> set vs) (non_null sig)) sigs b0 =
     Inr (b0 \<and> (\<forall>sig \<in> set sigs. signed_by_member C enc vs sig))"
proof (induction sigs arbitrary: b0)
  case (Cons sig sigs)
  then show ?case
    by (cases sig) (auto simp: signed_by_member_def peer_of_def)
qed simp

lemma rmapM_present: "(\<forall>sig \<in> set sigs. sig \<noteq> None) \<Longrightarrow> rmapM non_null sigs = Inr (map the sigs)"
  by (induction sigs) (auto simp: non_null_def)

lemma keys_of_the: "(\<forall>sig \<in> set sigs. sig \<noteq> None) \<Longrightarrow> keys_of sigs = set (map (sig_a \<circ> the) sigs)"
  by (force simp: keys_of_def)

lemma validateBlockVotes_certified:
  assumes vs: "getValidators ch = Inr vs" and h: "bytes_ok (bh_hash (bl_header b))"
  shows "validateBlockVotes C b ch = Inr (certified C vs b)"
proof -
  have enc: "newApprove VT_PRECOMMIT (bh_number (bl_header b)) (bl_view b) (bh_hash (bl_header b)) =
      Inr \<lparr>vt_type = Some VT_PRECOMMIT, vt_value = True, vt_height = bh_number (bl_header b), vt_view = bl_view b,
        vt_blockHash = bh_hash (bl_header b), vt_encoded = certificate_bytes b, vt_signature = None, vt_validated = None\<rparr>"
    using h by (simp add: newApprove_def Vote_new_eq VALUE_APPROVE_def certificate_bytes_def)
  show ?thesis
  proof (cases "\<forall>sig \<in> set (bl_votes b). signed_by_member C (certificate_bytes b) vs sig")
    case True
    then have some: "\<forall>sig \<in> set (bl_votes b). sig \<noteq> None" by (auto simp: signed_by_member_def)
    have len: "length (remdups vs) = card (set vs)" for vs :: "'x list" by (simp add: length_remdups_card_conv)
    show ?thesis
      using True by (simp add: validateBlockVotes_def vs enc Let_def votes_fold [where vs = "remdups vs", simplified]
          rmapM_present [OF some] len certified_def keys_of_the [OF some] not_less image_comp comp_def)
  next
    case False
    then show ?thesis
      by (simp add: validateBlockVotes_def vs enc Let_def votes_fold [where vs = "remdups vs", simplified] certified_def)
  qed
qed

text \<open>What a finalised block carries: one signature for each approver.\<close>

lemma peer_of_key: "sig_a sg = sig_a sg' \<Longrightarrow> peer_of C sg = peer_of C sg'"
  by (simp add: peer_of_def Signature_getAddress_def Signature_getPublicKey_def)

lemma getApprovals_entries:
  assumes ok: "voteset_ok C s"
  shows "v \<in> set (getApprovals h s) \<Longrightarrow> \<exists>p. counted C s p v \<and> vt_value v \<and> vt_blockHash v = h"
    and "p \<in> approvers s h \<Longrightarrow> \<exists>v \<in> set (getApprovals h s). counted C s p v"
proof -
  show "v \<in> set (getApprovals h s) \<Longrightarrow> \<exists>p. counted C s p v \<and> vt_value v \<and> vt_blockHash v = h"
    using getApprovals_signed [OF ok] .
  assume "p \<in> approvers s h"
  then obtain m v where m: "map_of (vs_approvals s) h = Some m" "map_of m p = Some v"
    by (auto simp: approvers_def split: option.splits)
  then have "v \<in> set (getApprovals h s)" by (force simp: getApprovals_def dest: map_of_SomeD)
  moreover have "counted C s p v" using voteset_okD(6) [OF ok m] by blast
  ultimately show "\<exists>v \<in> set (getApprovals h s). counted C s p v" by blast
qed

definition key_peer :: "crypto \<Rightarrow> bytes \<Rightarrow> string" where
  "key_peer C k = peer_of C \<lparr>sig_s = [], sig_a = k\<rparr>"

lemma key_peer: "key_peer C (sig_a sg) = peer_of C sg"
  unfolding key_peer_def by (rule peer_of_key) simp

lemma finite_keys: "finite (keys_of sigs)"
proof -
  have "keys_of sigs \<subseteq> (\<lambda>x. sig_a (the x)) ` set sigs" by (force simp: keys_of_def)
  then show ?thesis by (rule finite_subset) simp
qed

lemma approvers_keys:
  assumes ok: "voteset_ok C s"
  shows "card (approvers s h) \<le> card (keys_of (map vt_signature (getApprovals h s)))"
proof -
  let ?K = "keys_of (map vt_signature (getApprovals h s))"
  have "approvers s h \<subseteq> key_peer C ` ?K"
  proof
    fix p assume "p \<in> approvers s h"
    then obtain v where v: "v \<in> set (getApprovals h s)" "counted C s p v" using getApprovals_entries(2) [OF ok] by blast
    then obtain sg where "vt_signature v = Some sg" "peer_of C sg = p" by (auto simp: counted_def)
    with v(1) have "sig_a sg \<in> ?K" by (force simp: keys_of_def)
    then show "p \<in> key_peer C ` ?K" using key_peer [of C sg] \<open>peer_of C sg = p\<close> by (metis imageI)
  qed
  from card_mono [OF _ this] card_image_le [OF finite_keys] show ?thesis
    using finite_keys by (meson finite_imageI le_trans)
qed

lemma finalized_certificate_bytes:
  "bh_number (bl_header b) = bf_height s \<Longrightarrow> bh_hash (bl_header b) = h \<Longrightarrow>
   certificate_bytes (finalized s h b) = vote_image VT_PRECOMMIT True (bf_height s) (bf_view s) h"
  by (simp add: certificate_bytes_def finalized_def)

lemma aligned_precommit: "aligned env s \<Longrightarrow> voteset_ok (ne_crypto env) (bf_precommitVotes s) \<and>
    vs_type (bf_precommitVotes s) = VT_PRECOMMIT \<and> vs_height (bf_precommitVotes s) = bf_height s \<and>
    vs_view (bf_precommitVotes s) = bf_view s"
  by (simp add: aligned_def vote_set_for_def)

lemma two_thirds_mono: "m \<le> n \<Longrightarrow> two_thirds m \<le> two_thirds n"
  by (simp add: two_thirds_def div_le_mono)

lemma finalized_certified:
  assumes s: "aligned env s" and approved: "isApproved h (bf_precommitVotes s)"
    and b: "bh_number (bl_header b) = bf_height s" "bh_hash (bl_header b) = h"
    and canonical: "\<forall>v \<in> set (getApprovals h (bf_precommitVotes s)). vote_wf v"
  shows "certified (ne_crypto env) (voters s) (finalized s h b)"
proof -
  note pre = aligned_precommit [OF s]
  then have ok: "voteset_ok (ne_crypto env) (bf_precommitVotes s)" by blast
  have "signed_by_member (ne_crypto env) (certificate_bytes (finalized s h b)) (voters s) sig"
    if sig: "sig \<in> set (bl_votes (finalized s h b))" for sig
  proof -
    obtain v where v: "v \<in> set (getApprovals h (bf_precommitVotes s))" "sig = vt_signature v"
      using sig by (auto simp: finalized_def)
    obtain p where p: "counted (ne_crypto env) (bf_precommitVotes s) p v" "vt_value v" "vt_blockHash v = h"
      using getApprovals_entries(1) [OF ok v(1)] by blast
    have "vt_encoded v = vote_image VT_PRECOMMIT True (bf_height s) (bf_view s) h"
      using canonical v(1) p pre by (auto simp: vote_wf_def counted_def)
    then show ?thesis
      using p v(2) by (auto simp: signed_by_member_def finalized_certificate_bytes [OF b] counted_def vote_check_def)
  qed
  moreover have "two_thirds (card (set (voters s))) \<le> card (keys_of (bl_votes (finalized s h b)))"
  proof -
    have "two_thirds (length (voters s)) \<le> card (approvers (bf_precommitVotes s) h)"
      using approved approvers_card(1) [OF ok] voteset_okD(1) [OF ok] by simp
    moreover have "two_thirds (card (set (voters s))) \<le> two_thirds (length (voters s))"
      by (rule two_thirds_mono) (rule card_length)
    ultimately show ?thesis
      using approvers_keys [OF ok, of h] by (simp add: finalized_def)
  qed
  ultimately show ?thesis by (simp add: certified_def)
qed

text \<open>One voter that signed another encoding of its vote spoils the certificate.\<close>

lemma padded_not_certified:
  assumes v: "v \<in> set (getApprovals h (bf_precommitVotes s))"
    and other: "\<not> Key_verify C (vote_image VT_PRECOMMIT True (bf_height s) (bf_view s) h) (vt_signature v)"
    and b: "bh_number (bl_header b) = bf_height s" "bh_hash (bl_header b) = h"
  shows "\<not> certified C vs (finalized s h b)"
proof -
  have "vt_signature v \<in> set (bl_votes (finalized s h b))" using v by (simp add: finalized_def)
  moreover have "\<not> signed_by_member C (certificate_bytes (finalized s h b)) vs (vt_signature v)"
    using other by (simp add: signed_by_member_def finalized_certificate_bytes [OF b])
  ultimately show ?thesis unfolding certified_def by blast
qed

section \<open>Adding a downloaded block\<close>

lemma add_to_chain_latest:
  assumes "add_to_chain env b s = Some (Inr u, t)"
  shows "ch_latest (nd_chain t) = Some b"
proof -
  have "ch_latest ch = Some b" if "addBlock e b ch0 = Inr ch" for e ch0 ch
    using that by (auto simp: addBlock_def Let_def rbind_eq_Inr split: if_splits prod.splits)
  then show ?thesis
    using assms by (auto simp: add_to_chain_def clock_def run_simps split: sum.splits option.splits)
qed

lemma validateApplyBlock_accepts:
  assumes "validateApplyBlock env b s = Some (Inr True, t)"
  shows "\<exists>as ds. sync_validateBlock env b (nd_chain s) = Inr (True, as, ds)" "ch_latest (nd_chain t) = Some b"
proof -
  obtain r where r: "sync_validateBlock env b (nd_chain s) = Inr r"
    using assms by (auto simp: validateApplyBlock_def run_simps split: sum.splits)
  obtain valid as ds where x: "r = (valid, as, ds)" by (cases r)
  have valid: valid and run: "sync_applyBlock env b as ds s = Some (Inr True, t)"
    using assms r x by (auto simp: validateApplyBlock_def run_simps split: if_splits)
  show "\<exists>as ds. sync_validateBlock env b (nd_chain s) = Inr (True, as, ds)" using r x valid by simp
  obtain u where "commit_block env b as ds s = Some (Inr (), u)" "nd_chain t = nd_chain u"
    using run by (auto simp: sync_applyBlock_def a_then_Inr run_act)
  then show "ch_latest (nd_chain t) = Some b"
    using add_to_chain_latest by (auto simp: commit_block_def a_then_Inr run_act)
qed

lemma sync_validateBlock_accepts:
  assumes "sync_validateBlock env b ch = Inr (True, as, ds)"
  shows "\<exists>latest vs. ch_latest ch = Some latest \<and> validateHeader (ne_crypto env) (bl_header latest) (Some (bl_header b)) \<and>
    no_duplicates (bl_transactions b) ch \<and> getValidators ch = Inr vs \<and> certified (ne_crypto env) vs b"
proof -
  obtain latest where latest: "ch_latest ch = Some latest" "validateHeader (ne_crypto env) (bl_header latest) (Some (bl_header b))"
    "no_duplicates (bl_transactions b) ch" "validateBlockVotes (ne_crypto env) b ch = Inr True"
    using assms by (auto simp: sync_validateBlock_def Let_def rbind_eq_Inr rmap_eq_Inr non_null_def split: if_splits option.splits prod.splits)
  have "length (bh_hash (bl_header b)) = HASH_LEN" using latest(2) by (simp add: validateHeader_def BlockHeader_validate_def)
  then have h: "bytes_ok (bh_hash (bl_header b))" by (simp add: bytes_ok_def HASH_LEN_def)
  obtain vs where "getValidators ch = Inr vs" using latest(4) by (auto simp: validateBlockVotes_def rbind_eq_Inr)
  with latest validateBlockVotes_certified [OF this h] show ?thesis by auto
qed

section \<open>A dead processing task\<close>

definition dead :: "'a Sync_scheme \<Rightarrow> bool" where
  "dead s \<longleftrightarrow> sy_isRunning s \<and> \<not> sy_processTask s"

lemma grow_tasks [simp]:
  "sy_isRunning (grow_from n s) = sy_isRunning s" "sy_processTask (grow_from n s) = sy_processTask s"
  by (induction n s rule: grow_from.induct) (subst grow_from.simps, simp add: Let_def)+

lemma dead_sync [simp]:
  "dead (downloaded n s) = dead s" "dead (completed n s) = dead s" "dead (expire_tasks w s) = dead s"
  "dead (sync_onMessage c msg s) = dead s"
  by (simp_all add: dead_def downloaded_def growToDownloadQueue_def completed_def expire_tasks_def sync_onMessage_def Let_def
      split: Message.split)

lemma dead_irrelevant [simp]:
  "dead (s\<lparr>nd_reads := a\<rparr>) = dead s" "dead (s\<lparr>nd_sent := b\<rparr>) = dead s" "dead (s\<lparr>nd_disconnected := c\<rparr>) = dead s"
  "dead (s\<lparr>nd_channels := d\<rparr>) = dead s" "dead (s\<lparr>sy_toComplete := e\<rparr>) = dead s"
  "dead (s\<lparr>sy_downloadTask := f\<rparr>) = dead s" "dead (u\<lparr>bf_events := g\<rparr>) = dead u"
  by (simp_all add: dead_def)

lemma keeps_list_case: "keeps P a \<Longrightarrow> (\<And>y ys. keeps P (f y ys)) \<Longrightarrow> keeps P (case xs of [] \<Rightarrow> a | y # ys \<Rightarrow> f y ys)"
  by (simp split: list.split)

lemma keeps_dead_clock: "keeps dead (clock env)"
  unfolding clock_def by (intro keeps_then keeps_pure keeps_mod) simp

lemma keeps_dead_request: "keeps dead (request_block env task c)"
  unfolding request_block_def sendMessage_def
  by (intro keeps_when keeps_then keeps_dead_clock keeps_mod) simp_all

lemma keeps_dead_download: "keeps dead (download env idle random)"
proof -
  have expire: "keeps dead (a_mod (expire_tasks w))" for w by (rule keeps_mod) simp
  show ?thesis
    unfolding download_def Let_def
    by (rule keeps_then, rule keeps_pure, rule keeps_when, rule keeps_then [OF keeps_dead_clock], rule keeps_then [OF expire],
        rule keeps_then, rule keeps_pure, rule keeps_if, rule keeps_pure, rule keeps_list_case, rule keeps_pure, rule keeps_if,
        rule keeps_pure, rule keeps_if, rule keeps_pure, rule keeps_dead_request)
qed

lemma keeps_dead_message:
  assumes "decoded (ne_crypto env) msg" shows "keeps dead (bft_onMessage env c msg)"
proof (rule onMessage_keeps [OF assms])
  show "keeps dead (add_event ev)" for ev unfolding add_event_def by (rule keeps_mod) simp
  show "keeps dead (disconnect p)" for p unfolding disconnect_def by (rule keeps_mod) simp
  show "keeps dead (setLatestBlockNumber p n)" for p n unfolding setLatestBlockNumber_def by (rule keeps_mod) simp
qed

lemma keeps_scheduled:
  assumes "keeps P m" "\<And>s. P s \<Longrightarrow> P (kill s)"
  shows "keeps P (scheduled alive kill m)"
proof -
  have "P t" if s: "P s" and x: "scheduled alive kill m s = Some (r, t)" for s r t
  proof (cases "alive s")
    case True
    with x obtain u v where u: "m s = Some (u, v)" "t = v \<or> t = kill v"
      by (auto simp: scheduled_def split: option.splits sum.splits)
    then have "P v" using ensuresD [OF assms(1) s] by (cases u) blast+
    with u(2) assms(2) show ?thesis by blast
  qed (use s x in \<open>simp add: scheduled_def\<close>)
  then show ?thesis by (intro ensuresI) blast+
qed

lemma dead_turn:
  assumes "node_env_ok env" "ev \<in> set (ne_schedule env n)" "ev \<noteq> StopCall"
  shows "keeps dead (sync_turn env (bft_other env) ev)"
proof (cases ev)
  case (Download idle random)
  then show ?thesis
    by (simp add: sync_turn_def) (rule keeps_scheduled [OF keeps_dead_download], simp)
next
  case Process
  have "keeps dead (scheduled sy_processTask kill m)" for kill and m :: "unit bft_act"
    by (rule ensuresI) (auto simp: scheduled_def dead_def)
  then show ?thesis using Process by (simp add: sync_turn_def)
next
  case (FromPeer c msg)
  then have msg: "decoded (ne_crypto env) msg" using assms(1,2) by (auto simp: node_env_ok_def)
  have "keeps dead (a_mod (sync_onMessage c msg))" by (rule keeps_mod) simp
  then show ?thesis using FromPeer keeps_dead_message [OF msg] by (simp add: sync_turn_def bft_other_def keeps_then)
qed (use assms(3) in \<open>simp_all add: sync_turn_def bft_other_def keeps_pure\<close>)

text \<open>Nobody but \<open>stop\<close> ends a synchronisation whose processing task has died: its caller waits for ever.\<close>

lemma dead_waits:
  assumes "node_env_ok env" "set evs \<subseteq> set (ne_schedule env n)" "StopCall \<notin> set evs" "dead s"
  shows "sync_wait env (bft_other env) evs s = None"
  using assms(2-4)
proof (induction evs arbitrary: s)
  case (Cons ev evs)
  show ?case
  proof (cases "ev = Wake")
    case True
    then show ?thesis using Cons by (simp add: dead_def)
  next
    case False
    show ?thesis
    proof (cases "sync_turn env (bft_other env) ev s")
      case None
      then show ?thesis using False by (simp add: a_then_def a_caught_def)
    next
      case (Some x)
      obtain r t where x: "x = (r, t)" by (cases x)
      then have "dead t"
        using ensuresD [OF dead_turn [OF assms(1), of ev n], of s] Cons.prems Some by (cases r) auto
      then show ?thesis using Cons False Some x by (simp add: a_then_def a_caught_def)
    qed
  qed
qed simp

section \<open>A block that throws\<close>

text \<open>
  A block that passes every check of its format, with an unvote of nothing for an address that is no
  delegate as its first transaction. Its votes are not looked at: they come last.
\<close>

definition poisoned :: "NodeEnv \<Rightarrow> Block \<Rightarrow> Chain \<Rightarrow> bool" where
  "poisoned env b ch \<longleftrightarrow> (\<exists>latest tx txs from.
     ch_latest ch = Some latest \<and> validateHeader (ne_crypto env) (bl_header latest) (Some (bl_header b)) \<and>
     checkpoint_ok (ne_config env) (bl_header b) \<and> bh_coinbase (bl_header b) \<noteq> COINBASE_ADDRESS (ne_crypto env) \<and>
     transactions_fit env (bl_header b) (bl_transactions b) (bl_transactions b) = Inr True \<and>
     validateResults (ne_crypto env) (bl_header b) (bl_results b) = Inr True \<and> no_duplicates (bl_transactions b) ch \<and>
     bl_transactions b = tx # txs \<and> Transaction_getFrom (ne_crypto env) tx = Some from \<and>
     void_unvote (ne_config env) tx from (ch_accounts ch) (ch_delegates ch))"

lemma poisoned_throws:
  assumes ok: "chain_states_ok ch" and p: "poisoned env b ch"
  shows "sync_validateBlock env b ch = Inl NullPointer"
proof -
  obtain latest tx txs "from" where x: "ch_latest ch = Some latest" "bl_transactions b = tx # txs"
    "Transaction_getFrom (ne_crypto env) tx = Some from" "void_unvote (ne_config env) tx from (ch_accounts ch) (ch_delegates ch)"
    and checks: "validateHeader (ne_crypto env) (bl_header latest) (Some (bl_header b))" "checkpoint_ok (ne_config env) (bl_header b)"
    "bh_coinbase (bl_header b) \<noteq> COINBASE_ADDRESS (ne_crypto env)"
    "transactions_fit env (bl_header b) (tx # txs) (tx # txs) = Inr True"
    "validateResults (ne_crypto env) (bl_header b) (bl_results b) = Inr True" "no_duplicates (tx # txs) ch"
    using p unfolding poisoned_def by auto
  have st: "states_ok (ch_accounts ch) (ch_delegates ch)" "store_ok (ch_accounts ch)"
    using ok by (simp_all add: chain_states_ok_def)
  have "evaluate env ch (tx # txs) = Inl NullPointer"
    using void_unvote_tracked [OF st x(3,4)] x(1) by (simp add: evaluate_def getLatestBlockNumber_def non_null_def)
  then show ?thesis using x(1,2) checks by (simp add: sync_validateBlock_def non_null_def)
qed

lemma process_poisoned:
  assumes "sy_isRunning s" "getLatestBlockNumber (nd_chain s) = Inr latest" "sint (latest + 1) < sint (sy_target s)"
    and "next_block latest (sy_toProcess s) = (Some (b, peer), rest)" "chain_states_ok (nd_chain s)" "poisoned env b (nd_chain s)"
  shows "process env s = Some (Inl NullPointer, s\<lparr>sy_toProcess := rest\<rparr>)"
  using assms poisoned_throws [OF assms(5,6)]
  by (simp add: process_def validateApplyBlock_def run_simps a_then_def)

end
