(* ===== verification/SampleNodes.thy ===== *)
theory SampleNodes
  imports BftInv ConsensusProps
begin

text \<open>
  Sample nodes of the consensus: three validators of the plain cryptography on a chain that names them,
  and a node at height 5 with given pre-commit votes.
\<close>

section \<open>Sample nodes\<close>

definition sample_node_env :: "ChainEnv \<Rightarrow> Outside list \<Rightarrow> NodeEnv" where
  "sample_node_env cenv schedule = \<lparr>ne_chain = cenv, ne_evict = take (32 * 1024), ne_key = sample_key 1, ne_clock = \<lambda>_. 9,
     ne_evict_blocks = id, ne_bench = True, ne_schedule = \<lambda>_. schedule\<rparr>"

definition validators_chain :: Chain where
  "validators_chain = index_put (bytes_of_byte TYPE_VALIDATORS)
     (the_ok (rbind (encode [writeInt 3]) (rfold writeString sample_validators))) empty_chain"

lemma validators_chain_read: "getValidators validators_chain = Inr sample_validators"
  by code_simp

text \<open>A node at height 5 in view 0 with some pre-commit votes.\<close>

definition sample_voting :: "VoteSet \<Rightarrow> Bft" where
  "sample_voting votes = (bft_new validators_chain PendingManager_new [])\<lparr>bf_height := 5, bf_proof := Proof_empty 5 0,
     bf_validators := sample_validators, bf_validateVotes := VoteSet_new VT_VALIDATE 5 0 sample_validators,
     bf_precommitVotes := votes, bf_commitVotes := VoteSet_new VT_COMMIT 5 0 sample_validators\<rparr>"

lemma sample_voting_aligned:
  assumes "vote_set_for (ne_crypto env) VT_PRECOMMIT 5 0 sample_validators votes"
  shows "aligned env (sample_voting votes)"
proof -
  have "vs_validators votes = sample_validators" using assms by (simp add: vote_set_for_def)
  with assms show ?thesis
    by (simp add: sample_voting_def aligned_def bft_new_def vote_set_for_new Proof_empty_def)
qed

lemma votes_set_for:
  assumes "\<forall>v \<in> set vs. memo_ok C v"
  shows "vote_set_for C VT_PRECOMMIT 5 0 sample_validators (snd (addVotes C vs sample_set))"
  using addVotes_sets [OF assms, of sample_set] by (simp add: sample_set_def voteset_ok_new vote_set_for_def same_set_def)
    (simp add: VoteSet_new_def)

end
