(* ===== verification/SyncProps.thy ===== *)
theory SyncProps
  imports SyncSpec SampleNodes PoolProps
begin

text \<open>
  Properties of the synchronisation: the certificates it accepts and rejects, the blocks it adds, and the
  blocks that stop it, on nodes of the sample ledger.
\<close>

section \<open>Certificates\<close>

definition sample_certified_block :: "bytes \<Rightarrow> Block" where
  "sample_certified_block h = sample_block\<lparr>bl_header := (bl_header sample_block)\<lparr>bh_number := 5, bh_hash := h\<rparr>\<rparr>"

text \<open>
  C26. A block that the consensus finalises is accepted by the nodes that download it later: when the
  approvals it was finalised with are in the encoding every node writes, the signatures it carries pass
  \<open>validateBlockVotes\<close> on any chain with the same validators.
\<close>

theorem finalized_block_passes_sync:
  assumes "aligned env s" "isApproved h (bf_precommitVotes s)" "\<forall>v \<in> set (getApprovals h (bf_precommitVotes s)). vote_wf v"
    and "bh_number (bl_header b) = bf_height s" "bh_hash (bl_header b) = h" "bytes_ok h" "getValidators ch = Inr (voters s)"
  shows "validateBlockVotes (ne_crypto env) (finalized s h b) ch = Inr True"
  using validateBlockVotes_certified [OF assms(7), where b = "finalized s h b"] finalized_certified [OF assms(1,2,4,5,3)] assms(5,6)
  by simp

theorem finalized_block_passes_sync_witness:
  "\<exists>s. validateBlockVotes plain_crypto (finalized s (replicate 32 4) (sample_certified_block (replicate 32 4))) validators_chain = Inr True"
proof -
  let ?env = "sample_node_env sample_env []" and ?h = "replicate 32 4 :: bytes"
  let ?v = "snd (addVotes plain_crypto (some_votes ?h) sample_set)"
  have C: "ne_crypto ?env = plain_crypto" by (simp add: sample_node_env_def sample_env_def)
  have al: "aligned ?env (sample_voting ?v)"
    by (rule sample_voting_aligned) (simp add: C votes_set_for [OF sample_votes_memo(1)])
  have "list_all (\<lambda>v. vt_type v = Some VT_PRECOMMIT \<and> short_bytes (vt_blockHash v) \<and> short_bytes (vt_encoded v) \<and>
      vt_encoded v = vote_image VT_PRECOMMIT (vt_value v) (vt_height v) (vt_view v) (vt_blockHash v)) (getApprovals ?h ?v)"
    by code_simp
  then have wf: "\<forall>v \<in> set (getApprovals ?h ?v). vote_wf v"
    by (auto simp: list_all_iff vote_wf_def short_ok)
  have sel: "bf_precommitVotes (sample_voting ?v) = ?v" "bf_height (sample_voting ?v) = 5"
    by (simp_all add: sample_voting_def)
  have "vs_validators ?v = sample_validators" using votes_set_for [OF sample_votes_memo(1)] by (simp add: vote_set_for_def)
  then have "getValidators validators_chain = Inr (vs_validators ?v)" by (simp only: validators_chain_read)
  from finalized_block_passes_sync [OF al, unfolded sel(1,2), OF sample_approved(1) wf _ _ _ this, of "sample_certified_block ?h"]
  show ?thesis
    by (intro exI [of _ "sample_voting ?v"]) (simp add: C sample_certified_block_def bytes_ok_def)
qed






section \<open>Adding and refusing blocks\<close>

definition synced_chain :: Chain where
  "synced_chain = validators_chain\<lparr>ch_latest := Some sample_genesis_block\<rparr>"

definition unsigned_block :: "Transaction list \<Rightarrow> TransactionResult list \<Rightarrow> Block" where
  "unsigned_block txs results = the_ok (
     rbind (computeResultsRoot plain_crypto results) (\<lambda>root.
     rbind (BlockHeader_new plain_crypto 1 carol (bl_hash sample_genesis_block) 2 (computeTransactionsRoot plain_crypto txs) root
         EMPTY_HASH [])
       (\<lambda>h. Block_new h txs results 0 [])))"

definition synced_block :: Block where
  "synced_block = (let b = unsigned_block [] [] in b\<lparr>bl_votes := map (\<lambda>i. vt_signature (approval 1 0 (bl_hash b) i)) [1, 3]\<rparr>)"

definition syncing :: "Chain \<Rightarrow> Bft" where
  "syncing ch = (bft_new ch PendingManager_new [])\<lparr>sy_isRunning := True, sy_processTask := True, sy_target := 5\<rparr>"

text \<open>
  C27. The synchronisation adds only certified blocks: when a downloaded block is accepted, its header
  extends the latest block of the chain, none of its transactions is in the chain, every signature it
  carries is a validator's on the approval of exactly this block, at least two thirds of the validators
  have signed, and it is the latest block afterwards.
\<close>

theorem synced_block_certified:
  assumes "validateApplyBlock env b s = Some (Inr True, t)"
  shows "\<exists>latest vs. ch_latest (nd_chain s) = Some latest \<and>
    validateHeader (ne_crypto env) (bl_header latest) (Some (bl_header b)) \<and> no_duplicates (bl_transactions b) (nd_chain s) \<and>
    getValidators (nd_chain s) = Inr vs \<and> certified (ne_crypto env) vs b \<and> ch_latest (nd_chain t) = Some b"
  using validateApplyBlock_accepts(1) [OF assms] sync_validateBlock_accepts validateApplyBlock_accepts(2) [OF assms] by blast

lemma apply_accepted:
  assumes "sync_validateBlock env b (nd_chain s) = Inr (True, as, ds)" "\<not> pm_isRunning (nd_pool s)"
    and "is_ok (rbind (reward_coinbase b as) (\<lambda>as. addBlock (ne_chain env) b (flush_states as ds (nd_chain s))))"
  shows "\<exists>t. validateApplyBlock env b s = Some (Inr True, t)"
  using assms by (auto simp: validateApplyBlock_def sync_applyBlock_def commit_block_def add_to_chain_def clock_def run_simps
      a_then_Inr run_act pm_onBlockAdded_def is_ok_def rbind_eq_Inr split: sum.splits)

text \<open>The checks that come before a block is executed, on the genesis of the samples.\<close>

definition follows_genesis :: "Block \<Rightarrow> bool" where
  "follows_genesis b \<longleftrightarrow> validateHeader plain_crypto (bl_header sample_genesis_block) (Some (bl_header b)) \<and>
     checkpoint_ok sample_config (bl_header b) \<and> bh_coinbase (bl_header b) \<noteq> COINBASE_ADDRESS plain_crypto \<and>
     transactions_fit (sample_node_env sample_env []) (bl_header b) (bl_transactions b) (bl_transactions b) = Inr True \<and>
     validateResults plain_crypto (bl_header b) (bl_results b) = Inr True \<and> bl_number b = 1"

lemma unsigned_content: "bl_transactions (unsigned_block [] []) = [] \<and> bl_results (unsigned_block [] []) = []"
  by code_simp

lemma synced_block_follows: "follows_genesis synced_block"
  by code_simp

lemma synced_block_content: "bl_transactions synced_block = []" "bl_results synced_block = []"
  using unsigned_content by (simp_all add: synced_block_def Let_def)

lemma synced_block_votes: "validateBlockVotes plain_crypto synced_block synced_chain = Inr True"
  by code_simp

lemma synced_block_commits:
  "is_ok (rbind (reward_coinbase synced_block (AccountState_track (ch_accounts synced_chain)))
     (\<lambda>as. addBlock sample_env synced_block (flush_states as (DelegateState_track (ch_delegates synced_chain)) synced_chain)))"
  by code_simp

lemma synced_accepted:
  "\<exists>t. validateApplyBlock (sample_node_env sample_env []) synced_block (syncing synced_chain) = Some (Inr True, t)"
proof (rule apply_accepted)
  have env: "ne_chain (sample_node_env sample_env []) = sample_env" "env_crypto sample_env = plain_crypto"
    "env_config sample_env = sample_config"
    by (simp_all add: sample_node_env_def sample_env_def)
  have s: "nd_chain (syncing synced_chain) = synced_chain" "nd_pool (syncing synced_chain) = PendingManager_new"
    by (simp_all add: syncing_def bft_new_def)
  have latest: "ch_latest synced_chain = Some sample_genesis_block" by (simp add: synced_chain_def)
  show "sync_validateBlock (sample_node_env sample_env []) synced_block (nd_chain (syncing synced_chain)) =
      Inr (True, AccountState_track (ch_accounts synced_chain), DelegateState_track (ch_delegates synced_chain))"
    using synced_block_follows
    by (simp add: follows_genesis_def sync_validateBlock_def Let_def s latest env synced_block_content synced_block_votes
        non_null_def no_duplicates_def evaluate_def getLatestBlockNumber_def)
  show "\<not> pm_isRunning (nd_pool (syncing synced_chain))" by (simp add: s PendingManager_new_def)
  show "is_ok (rbind (reward_coinbase synced_block (AccountState_track (ch_accounts synced_chain)))
     (\<lambda>as. addBlock (ne_chain (sample_node_env sample_env [])) synced_block
        (flush_states as (DelegateState_track (ch_delegates synced_chain)) (nd_chain (syncing synced_chain)))))"
    using synced_block_commits by (simp only: s env)
qed

theorem synced_block_certified_witness:
  "\<exists>t vs. validateApplyBlock (sample_node_env sample_env []) synced_block (syncing synced_chain) = Some (Inr True, t) \<and>
     getValidators synced_chain = Inr vs \<and> certified plain_crypto vs synced_block"
proof -
  obtain t where t: "validateApplyBlock (sample_node_env sample_env []) synced_block (syncing synced_chain) = Some (Inr True, t)"
    using synced_accepted by blast
  have "ne_crypto (sample_node_env sample_env []) = plain_crypto" "nd_chain (syncing synced_chain) = synced_chain"
    by (simp_all add: sample_node_env_def sample_env_def syncing_def bft_new_def)
  with synced_block_certified [OF t] t show ?thesis by auto
qed

definition poisoned_block :: Block where
  "poisoned_block = unsigned_block [sample_void] [tx_succeeded]"

text \<open>
  C29. One block of one peer ends a synchronisation for good: a well-formed next block, signed by nobody,
  whose first transaction is an unvote of nothing for an address that is no delegate, throws in the
  processing task, since the votes are looked at last. The scheduler runs the task no more, and the
  consensus, which waits for the synchronisation, does not get on whatever the peers and the other task
  do, until the node is stopped.
\<close>

theorem poisoned_block_stops_sync:
  assumes "node_env_ok env" "sy_isRunning s" "sy_processTask s" "getLatestBlockNumber (nd_chain s) = Inr latest"
    and "sint (latest + 1) < sint (sy_target s)" "next_block latest (sy_toProcess s) = (Some (b, peer), rest)"
    and "chain_states_ok (nd_chain s)" "poisoned env b (nd_chain s)"
    and "set evs \<subseteq> set (ne_schedule env n)" "StopCall \<notin> set evs"
  shows "sync_wait env (bft_other env) (Process # evs) s = None"
proof -
  let ?t = "s\<lparr>sy_toProcess := rest, sy_processTask := False\<rparr>"
  have "sync_turn env (bft_other env) Process s = Some (Inr (), ?t)"
    using process_poisoned [OF assms(2,4-8)] assms(3) by (simp add: sync_turn_def scheduled_def)
  moreover have "sync_wait env (bft_other env) evs ?t = None"
    by (rule dead_waits [OF assms(1,9,10)]) (simp add: dead_def assms(2))
  ultimately show ?thesis by (simp add: a_then_def a_caught_def)
qed

lemma poisoned_block_follows: "follows_genesis poisoned_block"
  by code_simp

lemma poisoned_block_content: "bl_transactions poisoned_block = [sample_void] \<and> bl_votes poisoned_block = []"
  by code_simp

lemma sample_void_on_chain: "void_unvote sample_config sample_void alice sample_accounts sample_registry"
proof -
  have "length bob = ADDRESS_LENGTH" "sint (maxTransactionDataSize UNVOTE) \<ge> 0" by code_simp+
  then show ?thesis by (simp add: void_unvote_def sample_void_facts sample_alice sample_registry_empty)
qed

lemma poisoned_sample: "poisoned (sample_node_env sample_env [Process, Wake]) poisoned_block sample_pool_chain"
proof -
  have "ne_crypto (sample_node_env sample_env x) = plain_crypto" "ne_config (sample_node_env sample_env x) = sample_config" for x
    by (simp_all add: sample_node_env_def sample_env_def)
  moreover have "transactions_fit (sample_node_env sample_env [Process, Wake]) = transactions_fit (sample_node_env sample_env [])"
    by (intro ext) (simp add: transactions_fit_def sample_node_env_def)
  moreover have "no_duplicates [sample_void] sample_pool_chain"
    using sample_pool_new(2) by (simp add: no_duplicates_def)
  moreover have "ch_latest sample_pool_chain = Some sample_genesis_block" by (simp add: sample_pool_chain_def)
  ultimately show ?thesis
    unfolding poisoned_def using poisoned_block_follows poisoned_block_content
    by (simp add: follows_genesis_def sample_void_facts(1) sample_void_on_chain sample_pool_selectors(3,4))
qed

theorem poisoned_block_stops_sync_witness:
  "bl_votes poisoned_block = [] \<and>
   (\<exists>env s. ne_crypto env = plain_crypto \<and> sy_isRunning s \<and> sy_processTask s \<and> sy_toProcess s = [(poisoned_block, ''eve'')] \<and>
     sync_wait env (bft_other env) [Process, Wake] s = None)"
proof -
  let ?env = "sample_node_env sample_env [Process, Wake]"
  let ?s = "(syncing sample_pool_chain)\<lparr>sy_toProcess := [(poisoned_block, ''eve'')]\<rparr>"
  have s: "nd_chain ?s = sample_pool_chain" "sy_isRunning ?s" "sy_processTask ?s" "sy_target ?s = 5"
    "sy_toProcess ?s = [(poisoned_block, ''eve'')]"
    by (simp_all add: syncing_def bft_new_def)
  have next_one: "next_block 0 [(poisoned_block, ''eve'')] = (Some (poisoned_block, ''eve''), [])"
    using poisoned_block_follows by (simp add: follows_genesis_def)
  have ok: "chain_states_ok sample_pool_chain" using sample_pool_init by (simp add: pool_init_def)
  have env: "node_env_ok ?env" "ne_crypto ?env = plain_crypto" "ne_schedule ?env 0 = [Process, Wake]"
    by (simp_all add: node_env_ok_def sample_node_env_def sample_env_def)
  have "sync_wait ?env (bft_other ?env) (Process # [Wake]) ?s = None"
    by (rule poisoned_block_stops_sync [OF env(1) s(2,3), unfolded s env(3), OF sample_pool_latest _ next_one ok poisoned_sample,
        of "[Wake]" 0, unfolded env(3)]) simp_all
  with s(2,3,5) env(2) poisoned_block_content show ?thesis by blast
qed

end
