(* ===== verification/BftProps.thy ===== *)
theory BftProps
  imports SampleNodes
begin

text \<open>
  Properties of the consensus: what every reachable state looks like, what an approval in one view and the
  proof of unlock of the next have in common, how a node that lags behind catches up, and the two votes
  that a node may cast in one view.
\<close>

section \<open>Reachable states\<close>

text \<open>
  C15. In every state the threads of a node can reach, the three vote sets are of the types, the height and
  the view of the node and count only valid votes of their validators, and the proof and the proposal are
  of that height and view. While the consensus runs and no block is being finalised, its validators are
  those of the chain, its height is the one after the latest block, and a view above 0 has a proof of
  unlock: enough valid rejections of the view before.
\<close>

theorem reached_consensus_aligned:
  assumes "bft_reach env s"
  shows "aligned env s \<and> (bf_status s = RUNNING \<and> bf_state s \<noteq> FINALIZE \<longrightarrow> in_view env s)"
  using consensus.inv_reach [OF assms] by (simp add: bft_inv_def)

text \<open>A node is started on a chain with a block and three validators.\<close>

definition starting_chain :: Chain where
  "starting_chain = the_ok (setActivatedForks [] (validators_chain\<lparr>ch_latest := Some sample_genesis_block\<rparr>))"

definition starting :: Bft where
  "starting = bft_new starting_chain PendingManager_new []"

lemma starting_chain_put:
  "\<exists>bs. starting_chain = index_put (bytes_of_byte TYPE_ACTIVATED_FORKS) bs (validators_chain\<lparr>ch_latest := Some sample_genesis_block\<rparr>)"
proof -
  have "is_ok (setActivatedForks [] ch)" for ch by (simp add: setActivatedForks_def)
  from the_ok_eq [OF this] show ?thesis by (auto simp: starting_chain_def setActivatedForks_def rbind_eq_Inr)
qed

lemma starting_chain_reads:
  "getActivatedForks starting_chain = Inr []" "ch_latest starting_chain = Some sample_genesis_block"
  "getValidators starting_chain = Inr sample_validators" "bl_number sample_genesis_block = 0"
proof -
  show "getActivatedForks starting_chain = Inr []" "bl_number sample_genesis_block = 0" by code_simp+
  obtain bs where bs: "starting_chain = index_put (bytes_of_byte TYPE_ACTIVATED_FORKS) bs (validators_chain\<lparr>ch_latest := Some sample_genesis_block\<rparr>)"
    using starting_chain_put by blast
  show "ch_latest starting_chain = Some sample_genesis_block" by (simp add: bs index_put_def)
  have "bytes_of_byte TYPE_ACTIVATED_FORKS \<noteq> bytes_of_byte TYPE_VALIDATORS" by code_simp
  then have "index_get starting_chain (bytes_of_byte TYPE_VALIDATORS) = index_get validators_chain (bytes_of_byte TYPE_VALIDATORS)"
    by (simp add: bs index_get_def index_put_def)
  then show "getValidators starting_chain = Inr sample_validators"
    using validators_chain_read by (simp add: getValidators_def)
qed

lemma forkActivated_early: "sint height \<le> 1 \<Longrightarrow> forkActivated e height f ch = Inr (False, ch)"
  by (simp add: forkActivated_def)

lemma starting_starts:
  "\<exists>t. bft_start (sample_node_env sample_env []) starting = Some (Inr (), t) \<and> bf_status t = RUNNING \<and> bf_state t = NEW_HEIGHT \<and>
     bf_height t = 1 \<and> nd_chain t = starting_chain"
proof -
  have "sint (cf_bftNewHeightTimeout sample_config) \<ge> 0" by code_simp
  moreover have "Key_toAddressString plain_crypto (sample_key 1) \<in> set sample_validators" by (simp add: sample_validators_def)
  ultimately show ?thesis
    using starting_chain_reads
    by (simp add: bft_start_def enterNewHeight_def set_state_def starting_def bft_new_def run_simps non_null_def bft_activateForks_def
        chain_forkActivated_def bft_updateValidators_def clearVotes_def clearTimerAndEvents_def resetTimeout_def timer_timeout_def
        clock_def forkActivated_early isValidator_def sample_node_env_def sample_env_def)
qed

lemma sample_node_env_ok: "node_env_ok (sample_node_env cenv [])"
  by (simp add: node_env_ok_def sample_node_env_def)

theorem reached_consensus_aligned_witness:
  "\<exists>t. bft_start (sample_node_env sample_env []) starting = Some (Inr (), t) \<and> bf_height t = 1 \<and> bf_status t = RUNNING \<and>
     getValidators (nd_chain t) = Inr (vs_validators (bf_commitVotes t)) \<and> getLatestBlockNumber (nd_chain t) = Inr 0"
proof -
  let ?env = "sample_node_env sample_env []"
  obtain t where t: "bft_start ?env starting = Some (Inr (), t)" "bf_status t = RUNNING" "bf_state t = NEW_HEIGHT"
    "bf_height t = 1" "nd_chain t = starting_chain"
    using starting_starts by blast
  have "bft_reach ?env starting"
    by (rule reach_init) (auto simp: bft_init_def sample_node_env_ok starting_def)
  moreover have "chain_readable ?env (nd_chain t)"
    using starting_chain_reads by (simp add: chain_readable_def t(5) forkActivated_early)
  ultimately have "bft_reach ?env t" using t(1) by (auto intro: reach_step turn_start)
  from reached_consensus_aligned [OF this] have "aligned ?env t" "in_view ?env t" using t(2,3) by simp_all
  then show ?thesis using t by (auto simp: in_view_def aligned_def vote_set_for_def)
qed

section \<open>An approval and a proof of unlock\<close>

lemma approvers_objectors:
  assumes s: "aligned env s" "isApproved h (bf_precommitVotes s)"
    and t: "\<forall>v \<in> set votes. memo_ok (ne_crypto env) v" "unlocks (ne_crypto env) (bf_height s) (bf_view s + 1) votes (voters s)"
  shows "card (set (voters s)) \<le> 3 * card (approvers (bf_precommitVotes s) h \<inter>
    objectors (ne_crypto env) (VoteSet_new VT_PRECOMMIT (bf_height s) (bf_view s) (voters s)) votes)"
proof (rule validators.quorums_intersect)
  have ok: "voteset_ok (ne_crypto env) (bf_precommitVotes s)" using s(1) by (simp add: aligned_def vote_set_for_def)
  show "approvers (bf_precommitVotes s) h \<subseteq> set (voters s)" by (rule approvers_subset [OF ok])
  show "objectors (ne_crypto env) (VoteSet_new VT_PRECOMMIT (bf_height s) (bf_view s) (voters s)) votes \<subseteq> set (voters s)"
    by (auto simp: objectors_def countable_def)
  show "two_thirds (length (voters s)) \<le> card (approvers (bf_precommitVotes s) h)"
    using s(2) approvers_card(1) [OF ok] voteset_okD(1) [OF ok] by simp
  show "two_thirds (length (voters s)) \<le>
      card (objectors (ne_crypto env) (VoteSet_new VT_PRECOMMIT (bf_height s) (bf_view s) (voters s)) votes)"
    using t(2) by (simp add: objectors_unlock [OF t(1)])
qed

text \<open>
  C16. The rule that keeps two views apart: when a node has two thirds of the validators for a block at
  pre-commit, and some node is in the next view of the same height, then at least a third of the
  validators have signed both an approval of that block and a rejection of its view. So as long as fewer
  vote twice, no node leaves a view in which a block can be committed.
\<close>

theorem approved_and_unlocked_overlap:
  assumes "aligned env s" "isApproved h (bf_precommitVotes s)" "aligned env' t" "in_view env' t"
    and "ne_crypto env' = ne_crypto env" "voters t = voters s" "bf_height t = bf_height s" "bf_view t = bf_view s + 1" "bf_view t \<noteq> 0"
  shows "card (set (voters s)) \<le> 3 * card (approvers (bf_precommitVotes s) h \<inter>
    objectors (ne_crypto env) (VoteSet_new VT_PRECOMMIT (bf_height s) (bf_view s) (voters s)) (pf_votes (bf_proof t)))"
proof (rule approvers_objectors [OF assms(1,2)])
  show "\<forall>v \<in> set (pf_votes (bf_proof t)). memo_ok (ne_crypto env) v" using assms(3,5) by (simp add: aligned_def)
  show "unlocks (ne_crypto env) (bf_height s) (bf_view s + 1) (pf_votes (bf_proof t)) (voters s)"
    using assms(4,5,6-9) by (simp add: in_view_def)
qed

text \<open>A node in view 1, with the rejections of the second and third validator as its proof.\<close>

definition rejection :: "nat \<Rightarrow> Vote" where
  "rejection i = the_ok (rbind (newReject VT_PRECOMMIT 5 0) (Vote_sign plain_crypto (sample_key i)))"

definition sample_unlocked :: Bft where
  "sample_unlocked = (bft_new (validators_chain\<lparr>ch_latest := Some (sample_block\<lparr>bl_header := (bl_header sample_block)\<lparr>bh_number := 4\<rparr>\<rparr>)\<rparr>)
       PendingManager_new [])\<lparr>bf_status := RUNNING, bf_height := 5, bf_view := 1,
     bf_proof := \<lparr>pf_height = 5, pf_view = 1, pf_votes = map rejection [2, 3]\<rparr>,
     bf_validators := sample_validators, bf_validateVotes := VoteSet_new VT_VALIDATE 5 1 sample_validators,
     bf_precommitVotes := VoteSet_new VT_PRECOMMIT 5 1 sample_validators, bf_commitVotes := VoteSet_new VT_COMMIT 5 1 sample_validators\<rparr>"

lemma rejections_fit: "list_all (\<lambda>v. vt_validated v = None) (map rejection [2, 3]) \<and>
    unlocks plain_crypto 5 1 (map rejection [2, 3]) sample_validators"
  by code_simp

lemma sample_node_crypto: "ne_crypto (sample_node_env sample_env evs) = plain_crypto"
  by (simp add: sample_node_env_def sample_env_def)

lemma sample_unlocked_working: "working (sample_node_env sample_env evs) sample_unlocked"
proof -
  have v: "\<forall>v \<in> set (map rejection [2, 3]). memo_ok plain_crypto v" "unlocks plain_crypto 5 1 (map rejection [2, 3]) sample_validators"
    using rejections_fit by (auto simp: list_all_iff memo_ok_def)
  have "getValidators (validators_chain\<lparr>ch_latest := b\<rparr>) = Inr sample_validators" for b
    using validators_chain_read by (simp add: getValidators_def)
  then show ?thesis
    using v by (simp add: working_def inputs_ok_def aligned_def in_view_def sample_unlocked_def bft_new_def vote_set_for_new
        sample_node_crypto getLatestBlockNumber_def non_null_def)
qed

theorem approved_and_unlocked_overlap_witness:
  "\<exists>p \<in> set sample_validators. p \<in> approvers (snd (addVotes plain_crypto (some_votes (replicate 32 4)) sample_set)) (replicate 32 4) \<and>
     p \<in> objectors plain_crypto sample_set (pf_votes (bf_proof sample_unlocked))"
proof -
  let ?env = "sample_node_env sample_env []" and ?h = "replicate 32 4 :: bytes"
  let ?v = "snd (addVotes plain_crypto (some_votes ?h) sample_set)"
  have set: "vote_set_for plain_crypto VT_PRECOMMIT 5 0 sample_validators ?v" by (rule votes_set_for [OF sample_votes_memo(1)])
  have s: "aligned ?env (sample_voting ?v)" by (rule sample_voting_aligned) (simp add: set sample_node_crypto)
  have f: "bf_precommitVotes (sample_voting ?v) = ?v" "bf_height (sample_voting ?v) = 5" "bf_view (sample_voting ?v) = 0"
    "vs_validators ?v = sample_validators"
    using set by (simp_all add: sample_voting_def bft_new_def vote_set_for_def)
  have t: "aligned ?env sample_unlocked" "in_view ?env sample_unlocked" using sample_unlocked_working by (auto simp: working_def)
  have g: "bf_height sample_unlocked = 5" "bf_view sample_unlocked = 1" "voters sample_unlocked = sample_validators"
    by (simp_all add: sample_unlocked_def)
  let ?X = "approvers ?v ?h \<inter> objectors plain_crypto (VoteSet_new VT_PRECOMMIT 5 0 sample_validators) (pf_votes (bf_proof sample_unlocked))"
  have "card (set sample_validators) \<le> 3 * card ?X"
    using approved_and_unlocked_overlap [OF s _ t, of ?h] sample_approved(1) by (simp add: f g sample_node_crypto)
  moreover have "sample_validators \<noteq> []" by (simp add: sample_validators_def)
  then have "0 < card (set sample_validators)" by (simp add: card_gt_0_iff)
  ultimately have "?X \<noteq> {}" by auto
  then obtain p where p: "p \<in> ?X" by blast
  moreover from p have "p \<in> set sample_validators" by (auto simp: objectors_def countable_def)
  ultimately show ?thesis by (auto simp: sample_set_def)
qed

section \<open>Catching up\<close>



section \<open>Two votes in one view\<close>





text \<open>A timeout at pre-commit without a quorum goes back to \<open>PROPOSE\<close> in the same view, with the votes cast so far.\<close>

definition cast :: "Bft \<Rightarrow> jlong \<times> jint \<times> VoteSet \<times> VoteSet" where
  "cast s = (bf_height s, bf_view s, bf_validateVotes s, bf_precommitVotes s)"

lemma cast_irrelevant [simp]:
  "cast (s\<lparr>nd_reads := a\<rparr>) = cast s" "cast (s\<lparr>nd_sent := b\<rparr>) = cast s" "cast (s\<lparr>nd_chain := c\<rparr>) = cast s"
  "cast (s\<lparr>bf_state := d\<rparr>) = cast s" "cast (s\<lparr>bf_events := e\<rparr>) = cast s" "cast (s\<lparr>bf_timeout := f\<rparr>) = cast s"
  "cast (s\<lparr>bf_validators := g\<rparr>) = cast s" "cast (s\<lparr>bf_activeValidators := h\<rparr>) = cast s"
  "cast (s\<lparr>bf_lastUpdate := i\<rparr>) = cast s" "cast (s\<lparr>bf_proposal := j\<rparr>) = cast s" "cast (s\<lparr>bf_broadcasts := k\<rparr>) = cast s"
  by (simp_all add: cast_def)

lemma keeps_cast_small:
  fixes x defines "P \<equiv> \<lambda>s. cast s = x"
  shows "BftSpec.keeps P (clock env)" "BftSpec.keeps P (set_state st)" "BftSpec.keeps P (resetTimeout env n)" "BftSpec.keeps P (bft_updateValidators env)"
    "BftSpec.keeps P (amPrimary env)" "BftSpec.keeps P (sendMessage m c)" "BftSpec.keeps P (broadcast m)"
proof -
  have mod: "(\<And>s. cast (f s) = cast s) \<Longrightarrow> BftSpec.keeps P (a_mod f)" for f by (rule keeps_mod) (simp add: P_def)
  show clock: "BftSpec.keeps P (clock env)" for env unfolding clock_def by (intro keeps_then keeps_pure mod) simp
  show "BftSpec.keeps P (set_state st)" "BftSpec.keeps P (sendMessage m c)" "BftSpec.keeps P (broadcast m)"
    unfolding set_state_def sendMessage_def broadcast_def by (intro mod; simp)+
  show "BftSpec.keeps P (resetTimeout env n)" unfolding resetTimeout_def timer_timeout_def
    by (intro keeps_then keeps_if keeps_pure mod clock) simp_all
  show "BftSpec.keeps P (bft_updateValidators env)" unfolding bft_updateValidators_def
    by (intro keeps_then keeps_pure mod clock) simp_all
  show "BftSpec.keeps P (amPrimary env)" unfolding amPrimary_def isPrimary_def chain_forkActivated_def
    by (intro keeps_then keeps_cases keeps_pure mod) simp_all
qed

lemma precommit_timeout_keeps_votes:
  assumes "bf_state s = PRE_COMMIT" "anyApproved (bf_precommitVotes s) = None" "\<not> isRejected (bf_precommitVotes s)"
    and "onTimeout env s = Some (r, t)"
  shows "cast t = cast s"
proof -
  let ?P = "\<lambda>u. cast u = cast s"
  have view: "ensures ?P next_view (\<lambda>_. ?P) ?P"
    using assms(3) by (auto simp: ensures_def next_view_def run_simps cast_def)
  have mod: "(\<And>s. cast (f s) = cast s) \<Longrightarrow> BftSpec.keeps ?P (a_mod f)" for f by (rule keeps_mod) simp
  have "BftSpec.keeps ?P (proposeBlock env)"
    unfolding proposeBlock_def Let_def by (intro keeps_then keeps_cases keeps_pure keeps_cast_small)
  then have "BftSpec.keeps ?P (make_proposal env)"
    unfolding make_proposal_def by (intro keeps_then keeps_when keeps_pure mod) simp_all
  then have "BftSpec.keeps ?P (enterPropose env)"
    unfolding enterPropose_def
    by (intro keeps_then keeps_when keeps_cases keeps_pure keeps_cast_small ensures_each view)
  moreover have "enterPropose env s = Some (r, t)" using assms by (simp add: onTimeout_def run_simps)
  ultimately show ?thesis using ensuresD [of ?P "enterPropose env"] by (cases r) blast+
qed










end
