(* ===== verification/Spec2Isabelle.thy ===== *)
theory Spec2Isabelle
  imports LedgerProps ChainProps ConsensusProps DataProps BrowserProps PoolProps SyncProps BftProps
begin

text \<open>
  A verification development of Semux, the full node and wallet of a blockchain with delegated proof of
  stake and Byzantine fault tolerant consensus (Java, packages \<open>org.semux\<close> under \<open>src/main/java\<close>), and of
  the modules of its bundled API browser whose text the repository ships
  (\<open>src/main/resources/org/semux/api/v2_0_0/swagger-ui-bundle.js\<close>).

  \<^bold>\<open>The program.\<close> Transactions reach a node from its peers. \<open>PendingManager\<close> executes each on tracked
  copies of the chain's \<open>AccountState\<close> and \<open>DelegateState\<close>, through \<open>TransactionExecutor\<close>, and pools those
  that succeed. The validators, which \<open>BlockchainImpl\<close> takes from the delegates with most votes, agree on
  the next block in \<open>SemuxBft\<close>: the primary of a view proposes a block made of the pool, and votes of three
  types, counted by \<open>VoteSet\<close>, validate, pre-commit and commit it. A node that lags behind downloads blocks
  with \<open>SemuxSync\<close>, which checks the pre-commit votes they carry. Both commit a block by the same steps:
  execute it on tracked copies, check it against its header, reward the coinbase, commit the copies, flush
  them to the database and call \<open>BlockchainImpl.addBlock\<close>, which calls the pending manager back.

  \<^bold>\<open>Conventions\<close> (\<open>Prelude\<close>, \<open>Effects\<close>). Java's \<open>byte\<close>, \<open>int\<close> and \<open>long\<close> are words of 8, 32 and 64 bits
  read as signed; an array of bytes is a list. Code that may throw returns \<open>jerror + 'a\<close>; code that may not
  return is an option, by \<open>partial_function\<close>; objects that change are passed and returned. In the
  consensus and the synchronisation, where what was done before an exception stays, a method is an
  action \<open>'s \<Rightarrow> ('a res \<times> 's) option\<close>, composed by \<open>a_then\<close> as its statements are, and \<open>ensures\<close> is its
  Hoare triple. A \<open>HashMap\<close> is an association list in the order of its iteration. \<open>inductive_invariant\<close> is
  the interface between a step relation and an invariant of its reachable states; it is interpreted by the
  chain (\<open>chains\<close>), the pool (\<open>pools\<close>) and the consensus (\<open>consensus\<close>).

  \<^bold>\<open>Data.\<close>
  \<^item> \<open>Codec\<close>, \<open>HexCode\<close>, \<open>AmountModel\<close>: \<open>Bytes\<close>, \<open>SimpleEncoder\<close>, \<open>SimpleDecoder\<close>, \<open>Hex\<close>, \<open>Amount\<close>. The
    locale \<open>field_codec\<close> states the round trip of a field once, and every pair of write and read
    operations interprets it; from it follow the round trips of the composite encodings. Reading stays
    inside the buffer, and amounts never wrap.
  \<^item> \<open>CryptoModel\<close>, \<open>Merkle\<close>, \<open>Tx\<close>, \<open>BlockModel\<close>, \<open>Votes\<close>: hashes, keys, signatures, Merkle trees,
    transactions, headers, blocks, votes, proofs and proposals with their encodings and checks. The
    digests, RIPEMD-160 and Ed25519 are the fields of a record \<open>crypto\<close>, which every definition
    that uses them takes as an argument; \<open>digest_ok\<close>, \<open>ripemd_ok\<close>, \<open>keys_ok\<close>, \<open>x509_ok\<close> and \<open>verify_ok\<close> state
    lengths and that a signature verifies, never that hashes do not collide, and \<open>plain_crypto\<close> is an
    instance of all of them.
  \<^item> \<open>Codes\<close>, \<open>ConfigModel\<close>, \<open>Protocol\<close>: enumerations, forks, the configuration with its property file,
    rewards, numbers of validators, and the choice of the primary validator.

  \<^bold>\<open>Ledger.\<close>
  \<^item> \<open>Store\<close>: the ordered map that LevelDB documents, and the layers of updates over it; the locale
    \<open>layered_store\<close> says what tracking and committing do to the view of a state, and both states
    interpret it.
  \<^item> \<open>AccountModel\<close>, \<open>DelegateModel\<close>, \<open>Ranking\<close>: \<open>AccountStateImpl\<close>, \<open>DelegateStateImpl\<close> and their records; the
    locales \<open>ledger\<close> and \<open>registry\<close> are what the executor relies on.
  \<^item> \<open>Executor\<close>, \<open>ExecutorSpec\<close>, \<open>Conservation\<close>, \<open>LedgerProps\<close>: \<open>TransactionExecutor\<close> with every check; the
    specification \<open>verdict\<close> names the error or success of a transaction without computing a state, and
    the effect of a success is stated on balances. Coins are conserved, nothing overflows on balanced
    books, a nonce is used once, and running on tracked copies equals running on the states.
  \<^item> \<open>Chain\<close>, \<open>ChainIndex\<close>, \<open>ForkActivation\<close>, \<open>ValidatorSet\<close>, \<open>ChainProps\<close>: \<open>BlockchainImpl\<close>. The abstract chain is the
    list of the blocks added; reachable databases hold exactly such a list, with its indices, and the
    memo of fork activation agrees with a count from scratch.
  \<^item> \<open>Pending\<close>, \<open>Pool\<close>, \<open>PoolProps\<close>: \<open>PendingManager\<close>. The pool is a list of transactions that run in order
    with the recorded results; every operation returns, though its loop follows the
    nonces of one sender through a cache.

  \<^bold>\<open>Consensus.\<close>
  \<^item> \<open>Votes\<close>, \<open>VoteCount\<close>, \<open>ConsensusProps\<close>: the locale \<open>quorum\<close> has the intersection of two quorums; a vote
    set has counted exactly the validators that \<open>supporters\<close> and \<open>objectors\<close> read off the votes.
  \<^item> \<open>Node\<close>: the part of the state that \<open>SemuxBft\<close> and \<open>SemuxSync\<close> share, and the steps [2] to [8] of
    validating and applying a block. The record \<open>NodeEnv\<close> has what the node does not determine: the
    readings of the clock, the eviction of the caches, and what other threads do while a synchronisation
    waits. Messages sent, relayed and peers disconnected are recorded in the state.
  \<^item> \<open>Bft\<close>, \<open>BftLoop\<close>: the record \<open>Bft\<close> has the fields of \<open>SemuxBft\<close>; one action per method, the loop, timer
    and broadcaster as single turns.
  \<^item> \<open>BftFrame\<close>, \<open>BftSpec\<close>, \<open>BftInv\<close>, \<open>BftProps\<close>: the invariant \<open>bft_inv\<close>, a triple for every handler, errors
    included, and the step relation \<open>bft_step\<close> of the turns of all threads. The properties: the type of
    every reachable state, what an approval and the proof of unlock of the next view have in common, how
    a node catches up, and how an honest node comes to vote both ways in one view.
  \<^item> \<open>Sync\<close>, \<open>SyncSpec\<close>, \<open>SyncProps\<close>: \<open>SemuxSync\<close>. \<open>validateBlockVotes\<close> decides \<open>certified\<close>; blocks that are added are
    certified, finalised blocks pass, and two inputs break it: a padded vote, and a block that throws.

  \<^bold>\<open>API browser.\<close> \<open>JsBase\<close>, \<open>JsStrings\<close>, \<open>JsNames\<close>, \<open>JsUri\<close>, \<open>JsCookie\<close>, \<open>JsObjects\<close>, \<open>JsDeepExtend\<close>, \<open>JsDeepMerge\<close>,
  \<open>JsDeepCorrect\<close>, \<open>JsEvents\<close>, \<open>JsBuffer\<close>, \<open>JsBase64\<close>, \<open>BrowserProps\<close>: the modules \<open>repeat-string\<close>, the polyfills of \<open>repeat\<close> and \<open>fromCodePoint\<close>,
  \<open>pascalcase\<close>, \<open>classnames\<close>, \<open>cookie\<close>, \<open>object-assign\<close> and \<open>deep-extend\<close>, on strings of 16-bit units and a heap of
  objects with prototypes, and \<open>isEventSupported\<close> on any document. \<open>deep-extend\<close> takes fuel, one unit for each call in a chain of calls; more
  fuel than the trees are deep is enough, and cyclic data never returns. The last two are the \<open>buffer\<close> module
  and \<open>base64-js\<close> of \<open>swagger-ui-standalone-preset.js\<close>: UTF-8 and base 64, read back after writing.

  \<^bold>\<open>Samples.\<close> \<open>Samples\<close>, \<open>SampleLedger\<close>, \<open>SampleNodes\<close> are a small network on \<open>plain_crypto\<close>; every property with
  hypotheses is followed by a closed instance of it there.

  \<^bold>\<open>Bounds and idealisations.\<close> The loop of \<open>growToDownloadQueue\<close> ends because its tasks stay below the
  target. The search for a primary validator and the loop of the pending manager are partial functions,
  and their return is proved; with one validator the search is proved not to return. The stack is not
  modelled, so recursion does not overflow. Readings of the clock for log messages are not counted,
  interrupts are not modelled, and of a failing \<open>addBlock\<close> the writes already made are not kept. The
  methods of a component run one at a time, as the locks of the code provide. In \<open>bft_step\<close> the reads of
  the database at a new height are taken to succeed (\<open>chain_readable\<close>), messages are as the
  decoders give them (\<open>decoded\<close>), and the peers and the pool may change in any way between turns.

  \<^bold>\<open>Not modelled.\<close> The peer-to-peer network below the messages (Netty channels, handshake, discovery), the
  HTTP API, the wallet file and its AES encryption, the graphical interface, the command line, launcher
  and wrapper, the wiring in \<open>Kernel\<close> and \<open>PubSub\<close>: input and output, calls to libraries, or views. The progress
  report of the synchronisation changes nothing and is left out. The C++ binds Blake2b and Ed25519,
  which are parameters here. The rest of the bundle is third-party code that draws the page.
\<close>

end
